(* ===== verification/Coodra_Prelude.thy ===== *)
theory Coodra_Prelude
  imports Complex_Main
begin

text \<open>
  What every component of the development shares.

  JavaScript values as the code reads them out of payloads and tool inputs (\<open>js\<close>), property
  access, the string operations the code uses (\<open>trim\<close>, \<open>toLowerCase\<close>, \<open>includes\<close> of one
  character, decimal rendering of an integer), the \<open>ORDER BY\<close> of a query, and the generic
  facts on first-match search, separators and rendered integers that several components use.

  A JavaScript string is a list of \<open>char\<close>, one per UTF-16 code unit; code units above 255 are
  outside the model (the code-point arithmetic of the context-pack excerpt has its own model over
  16-bit code units).  \<open>undefined\<close> is \<open>None\<close>; \<open>null\<close> is \<open>Some JNull\<close> where the code tells the
  two apart and \<open>None\<close> where it folds them with \<open>??\<close>.
\<close>

named_theorems splitters "case splits on the shared option and sum shapes"

declare option.splits [splitters] sum.splits [splitters] if_splits [splitters]

section \<open>JavaScript values\<close>

text \<open>\<open>JInf\<close> is the infinity \<open>JSON.parse\<close> yields for an overflowing literal such as \<open>1e999\<close>.\<close>

datatype js =
    JNull
  | JBool bool
  | JNum rat
  | JInf bool
  | JStr string
  | JArr "js list"
  | JObj "(string \<times> js) list"

definition js_typeof_object :: "js \<Rightarrow> bool" where
  "js_typeof_object v = (case v of JNull \<Rightarrow> True | JArr _ \<Rightarrow> True | JObj _ \<Rightarrow> True | _ \<Rightarrow> False)"

fun js_is_record :: "js \<Rightarrow> bool" where
  "js_is_record (JObj _) = True"
| "js_is_record _ = False"

fun js_get :: "js \<Rightarrow> string \<Rightarrow> js option" where
  "js_get (JObj kvs) k = map_of kvs k"
| "js_get _ _ = None"

text \<open>\<open>typeof v === 'string'\<close>, and the same with \<open>v.length > 0\<close>.\<close>

definition as_string :: "js option \<Rightarrow> string option" where
  "as_string v = (case v of Some (JStr s) \<Rightarrow> Some s | _ \<Rightarrow> None)"

definition as_nonempty :: "js option \<Rightarrow> string option" where
  "as_nonempty v = (case v of Some (JStr s) \<Rightarrow> (if s = [] then None else Some s) | _ \<Rightarrow> None)"

lemma as_nonempty_Some [simp]:
  "as_nonempty v = Some s \<longleftrightarrow> v = Some (JStr s) \<and> s \<noteq> []"
  by (auto simp: as_nonempty_def split: option.splits js.splits)

lemma as_string_Some [simp]: "as_string v = Some s \<longleftrightarrow> v = Some (JStr s)"
  by (auto simp: as_string_def split: option.splits js.splits)

text \<open>The nullish fallback \<open>v ?? d\<close>.\<close>

definition nullish :: "'a option \<Rightarrow> 'a \<Rightarrow> 'a" where
  "nullish v d = (case v of None \<Rightarrow> d | Some x \<Rightarrow> x)"

definition nullish_opt :: "'a option \<Rightarrow> 'a option \<Rightarrow> 'a option" where
  "nullish_opt v d = (case v of None \<Rightarrow> d | Some x \<Rightarrow> Some x)"

lemma nullish_simps [simp]: "nullish None d = d" "nullish (Some x) d = x"
  by (simp_all add: nullish_def)

lemma nullish_opt_simps [simp]: "nullish_opt None d = d" "nullish_opt (Some x) d = Some x"
  by (simp_all add: nullish_opt_def)

section \<open>Strings\<close>

text \<open>The white space that \<open>String.prototype.trim\<close> and \<open>\<setminus>s\<close> strip, among code units below 256.\<close>

definition js_space :: "char \<Rightarrow> bool" where
  "js_space c = (of_char c \<in> {9, 10, 11, 12, 13, 32, 160 :: nat})"

definition trim_end :: "string \<Rightarrow> string" where
  "trim_end s = rev (dropWhile js_space (rev s))"

definition trim :: "string \<Rightarrow> string" where
  "trim s = trim_end (dropWhile js_space s)"

text \<open>\<open>toLowerCase\<close> on code units below 256.\<close>

definition lower_char :: "char \<Rightarrow> char" where
  "lower_char c =
     (let n = of_char c :: nat
      in if (65 \<le> n \<and> n \<le> 90) \<or> (192 \<le> n \<and> n \<le> 222 \<and> n \<noteq> 215) then char_of (n + 32) else c)"

definition to_lower :: "string \<Rightarrow> string" where
  "to_lower s = map lower_char s"

lemma takeWhile_Cons_hd: "takeWhile P xs = y # ys \<Longrightarrow> P y"
  by (cases xs) (auto split: if_splits)

lemma trim_end_no_trailing_space: "trim_end s \<noteq> [] \<Longrightarrow> \<not> js_space (last (trim_end s))"
  unfolding trim_end_def by (simp add: last_rev hd_dropWhile)

lemma trim_end_prefix: "\<exists>w. s = trim_end s @ w \<and> list_all js_space w"
proof -
  have "rev s = takeWhile js_space (rev s) @ dropWhile js_space (rev s)" by simp
  then have "s = rev (dropWhile js_space (rev s)) @ rev (takeWhile js_space (rev s))"
    by (metis rev_append rev_rev_ident)
  moreover have "list_all js_space (rev (takeWhile js_space (rev s)))"
    by (auto simp: list_all_iff dest: set_takeWhileD)
  ultimately show ?thesis unfolding trim_end_def by blast
qed

section \<open>Rendered integers\<close>

text \<open>\<open>String(n)\<close> for an integer.\<close>

fun nat_digits :: "nat \<Rightarrow> string" where
  "nat_digits n =
     (if n < 10 then [char_of (48 + n)] else nat_digits (n div 10) @ [char_of (48 + n mod 10)])"

declare nat_digits.simps [simp del]

definition int_string :: "int \<Rightarrow> string" where
  "int_string i = (if i < 0 then CHR ''-'' # nat_digits (nat (- i)) else nat_digits (nat i))"

definition is_digit :: "char \<Rightarrow> bool" where
  "is_digit c = (48 \<le> (of_char c :: nat) \<and> (of_char c :: nat) \<le> 57)"

lemma nat_digits_digits: "c \<in> set (nat_digits n) \<Longrightarrow> is_digit c"
proof (induction n rule: nat_digits.induct)
  case (1 n)
  show ?case
  proof (cases "n < 10")
    case True
    with 1 show ?thesis by (auto simp: nat_digits.simps [of n] is_digit_def)
  next
    case False
    with 1 show ?thesis by (auto simp: nat_digits.simps [of n] is_digit_def)
  qed
qed

text \<open>Reading the digits back shows that two integers never render alike.\<close>

definition digits_value :: "string \<Rightarrow> nat" where
  "digits_value s = foldl (\<lambda>v c. 10 * v + (of_char c - 48)) 0 s"

lemma digits_value_nat_digits [simp]: "digits_value (nat_digits n) = n"
proof (induction n rule: nat_digits.induct)
  case (1 n)
  show ?case
  proof (cases "n < 10")
    case True
    then show ?thesis by (simp add: nat_digits.simps [of n] digits_value_def)
  next
    case False
    with 1 have "digits_value (nat_digits (n div 10)) = n div 10" by simp
    with False show ?thesis by (simp add: nat_digits.simps [of n] digits_value_def)
  qed
qed

lemma nat_digits_inj: "nat_digits m = nat_digits n \<longleftrightarrow> m = n"
  by (metis digits_value_nat_digits)

lemma nat_digits_nonempty [simp]: "nat_digits n \<noteq> []"
  by (simp add: nat_digits.simps [of n])

lemma is_digit_minus: "\<not> is_digit (CHR ''-'')"
  by (simp add: is_digit_def)

lemma int_string_chars: "c \<in> set (int_string i) \<Longrightarrow> is_digit c \<or> c = CHR ''-''"
  by (auto simp: int_string_def dest: nat_digits_digits split: if_splits)

lemma int_string_inj: "int_string i = int_string j \<longleftrightarrow> i = j"
proof -
  have no: "CHR ''-'' # xs \<noteq> nat_digits n" for xs n
    using nat_digits_digits [of "CHR ''-''" n]
    by (metis is_digit_minus list.set_intros(1))
  show ?thesis
    by (auto simp: int_string_def nat_digits_inj no no [symmetric] split: if_splits)
qed

lemma int_string_nonempty [simp]: "int_string i \<noteq> []"
  by (simp add: int_string_def)

section \<open>Separated fields\<close>

text \<open>
  The keys of the program join fields by a separator character.  Where the left field cannot hold
  the separator, the split point is determined.
\<close>

lemma split_at_separator:
  assumes "a @ sep # x = b @ sep # y" and "sep \<notin> set a" and "sep \<notin> set b"
  shows "a = b \<and> x = y"
  using assms
proof (induction a arbitrary: b)
  case Nil
  then show ?case by (cases b) auto
next
  case (Cons c a)
  then show ?case by (cases b) auto
qed

fun join :: "string \<Rightarrow> string list \<Rightarrow> string" where
  "join sep [] = []"
| "join sep [s] = s"
| "join sep (s # t # ts) = s @ sep @ join sep (t # ts)"

lemma join_inj:
  assumes "length xs = length ys" and "join [sep] xs = join [sep] ys"
    and "\<forall>s \<in> set xs \<union> set ys. sep \<notin> set s"
  shows "xs = ys"
  using assms
proof (induction xs ys rule: list_induct2)
  case Nil
  then show ?case by simp
next
  case (Cons x xs y ys)
  show ?case
  proof (cases xs)
    case Nil
    with Cons show ?thesis by simp
  next
    case (Cons x' xs')
    then obtain y' ys' where ys: "ys = y' # ys'" using Cons.hyps by (cases ys) auto
    have "x @ sep # join [sep] xs = y @ sep # join [sep] ys"
      using Cons.prems Cons ys by simp
    then have "x = y \<and> join [sep] xs = join [sep] ys"
      using Cons.prems by (intro split_at_separator) auto
    then show ?thesis using Cons.IH Cons.prems by auto
  qed
qed

section \<open>Queries\<close>

text \<open>
  \<open>ORDER BY k\<close> and \<open>ORDER BY k DESC\<close> over the rows in scan order.  SQL leaves the order of rows
  with equal keys open; the model keeps scan order, as SQLite's sorter does.
\<close>

definition order_by :: "('a \<Rightarrow> int) \<Rightarrow> 'a list \<Rightarrow> 'a list" where
  "order_by k rows = sort_key k rows"

definition order_by_desc :: "('a \<Rightarrow> int) \<Rightarrow> 'a list \<Rightarrow> 'a list" where
  "order_by_desc k rows = sort_key (\<lambda>r. - k r) rows"

lemma set_order_by [simp]: "set (order_by k rows) = set rows"
  by (simp add: order_by_def)

lemma set_order_by_desc [simp]: "set (order_by_desc k rows) = set rows"
  by (simp add: order_by_desc_def)

lemma order_by_Nil [simp]: "order_by k rows = [] \<longleftrightarrow> rows = []"
  by (metis set_empty set_order_by)

lemma order_by_sorted: "sorted (map k (order_by k rows))"
  by (simp add: order_by_def)

lemma order_by_desc_sorted: "sorted (map (\<lambda>r. - k r) (order_by_desc k rows))"
  by (simp add: order_by_desc_def)

lemma length_order_by_desc [simp]: "length (order_by_desc k rows) = length rows"
  by (simp add: order_by_desc_def)

lemma filter_order_by_desc: "filter P (order_by_desc k rows) = order_by_desc k (filter P rows)"
  by (simp add: order_by_desc_def filter_sort)

text \<open>An update that leaves the sort key alone commutes with the order.\<close>

lemma insort_key_map: "(\<And>x. k (f x) = k x) \<Longrightarrow> insort_key k (f x) (map f xs) = map f (insort_key k x xs)"
  by (induction xs) simp_all

lemma sort_key_map: "(\<And>x. k (f x) = k x) \<Longrightarrow> sort_key k (map f xs) = map f (sort_key k xs)"
  by (induction xs) (simp_all add: insort_key_map)

lemma order_by_desc_map: "(\<And>x. k (f x) = k x) \<Longrightarrow> order_by_desc k (map f xs) = map f (order_by_desc k xs)"
  by (simp add: order_by_desc_def sort_key_map)

text \<open>\<open>LIMIT 1\<close> of a query: its first row, if there is one.\<close>

definition first_row :: "'a list \<Rightarrow> 'a option" where
  "first_row rows = (case rows of [] \<Rightarrow> None | r # _ \<Rightarrow> Some r)"

lemma first_row_Some: "first_row rows = Some r \<longleftrightarrow> (\<exists>rs. rows = r # rs)"
  by (auto simp: first_row_def split: list.splits)

lemma first_row_in: "first_row rows = Some r \<Longrightarrow> r \<in> set rows"
  by (auto simp: first_row_Some)

lemma first_row_None: "first_row rows = None \<longleftrightarrow> rows = []"
  by (auto simp: first_row_def split: list.splits)

text \<open>The first row of an ordered selection is one of least key.\<close>

lemma first_row_order_by:
  assumes "first_row (order_by k rows) = Some r"
  shows "r \<in> set rows \<and> (\<forall>r' \<in> set rows. k r \<le> k r')"
proof -
  obtain rs where rs: "order_by k rows = r # rs" using assms by (auto simp: first_row_Some)
  have "sorted (map k (r # rs))" using order_by_sorted [of k rows] by (simp add: rs)
  moreover have "set rows = set (r # rs)" by (metis rs set_order_by)
  ultimately show ?thesis by auto
qed

section \<open>First-match search\<close>

lemma find_first_match:
  "List.find P xs = Some x \<longleftrightarrow>
     (\<exists>us vs. xs = us @ x # vs \<and> P x \<and> (\<forall>u \<in> set us. \<not> P u))"
proof (induction xs)
  case Nil
  then show ?case by simp
next
  case (Cons a xs)
  show ?case
  proof (cases "P a")
    case True
    have "a # xs = us @ x # vs \<Longrightarrow> \<forall>u \<in> set us. \<not> P u \<Longrightarrow> us = []" for us vs
      using True by (cases us) auto
    with True show ?thesis by fastforce
  next
    case False
    have "(\<exists>us vs. a # xs = us @ x # vs \<and> P x \<and> (\<forall>u \<in> set us. \<not> P u)) \<longleftrightarrow>
          (\<exists>us vs. xs = us @ x # vs \<and> P x \<and> (\<forall>u \<in> set us. \<not> P u))" (is "?L \<longleftrightarrow> ?R")
    proof
      assume ?L
      then obtain us vs where *: "a # xs = us @ x # vs" "P x" "\<forall>u \<in> set us. \<not> P u" by blast
      with False obtain us' where "us = a # us'" by (cases us) auto
      with * show ?R by auto
    next
      assume ?R
      then obtain us vs where "xs = us @ x # vs" "P x" "\<forall>u \<in> set us. \<not> P u" by blast
      with False have "a # xs = (a # us) @ x # vs \<and> P x \<and> (\<forall>u \<in> set (a # us). \<not> P u)" by simp
      then show ?L by blast
    qed
    with False Cons.IH show ?thesis by simp
  qed
qed

lemma find_unique:
  assumes "x \<in> set xs" and "P x" and "\<And>y. y \<in> set xs \<Longrightarrow> P y \<Longrightarrow> y = x"
  shows "List.find P xs = Some x"
proof (cases "List.find P xs")
  case None
  with assms(1,2) show ?thesis by (auto simp: find_None_iff)
next
  case (Some y)
  then have "y \<in> set xs \<and> P y" by (auto simp: find_Some_iff)
  with assms(3) Some show ?thesis by blast
qed

lemma find_map_same: "(\<And>x. P (f x) = P x) \<Longrightarrow> List.find P (map f xs) = map_option f (List.find P xs)"
  by (induction xs) simp_all

lemma find_Some_D: "List.find P xs = Some x \<Longrightarrow> x \<in> set xs \<and> P x"
  by (auto simp: find_first_match)

lemma filter_distinct_key:
  "distinct (map k xs) \<Longrightarrow> x \<in> set xs \<Longrightarrow> filter (\<lambda>y. k y = k x) xs = [x]"
proof (induction xs)
  case (Cons a xs)
  show ?case
  proof (cases "a = x")
    case True
    with Cons.prems(1) have "k y \<noteq> k x" if "y \<in> set xs" for y
      using that by (auto simp: rev_image_eqI)
    with True show ?thesis by (auto simp: filter_empty_conv)
  next
    case False
    with Cons.prems have "x \<in> set xs" "k a \<noteq> k x" by (auto simp: rev_image_eqI)
    with Cons.prems(1) Cons.IH show ?thesis by simp
  qed
qed simp

end
