(* ===== verification/Coodra_Keys.thy ===== *)
theory Coodra_Keys
  imports Coodra_Prelude "HOL-Library.Word" "HOL-Library.Char_ord" "HOL-Library.List_Lexorder"
begin

text \<open>
  The deterministic keys the program dedupes by: the run and run-event keys of
  \<open>packages/shared/src/idempotency.ts\<close>, and the audit key and grant fingerprint of
  \<open>packages/policy/src/policy.ts\<close> with the FNV-1a hash and the key-sorted JSON they rest on.
  The lemmas say which inputs a key tells apart and which it deliberately identifies.
\<close>

unbundle bit_operations_syntax

section \<open>FNV-1a\<close>

text \<open>\<open>Math.imul\<close> is multiplication modulo 2 to the 32, which is word multiplication.\<close>

definition fnv1a_step :: "32 word \<Rightarrow> char \<Rightarrow> 32 word" where
  "fnv1a_step h c = (h XOR of_nat (of_char c)) * 0x01000193"

definition fnv1a :: "string \<Rightarrow> 32 word" where
  "fnv1a s = foldl fnv1a_step 0x811c9dc5 s"

definition hex_digit :: "nat \<Rightarrow> char" where
  "hex_digit d = (if d < 10 then char_of (48 + d) else char_of (87 + d))"

fun radix16 :: "nat \<Rightarrow> string" where
  "radix16 n = (if n < 16 then [hex_digit n] else radix16 (n div 16) @ [hex_digit (n mod 16)])"

declare radix16.simps [simp del]

definition pad_start :: "nat \<Rightarrow> char \<Rightarrow> string \<Rightarrow> string" where
  "pad_start w c s = replicate (w - length s) c @ s"

definition fnv1aHex :: "string \<Rightarrow> string" where
  "fnv1aHex s = pad_start 8 (CHR ''0'') (radix16 (unat (fnv1a s)))"

lemma radix16_length: "n < 16 ^ Suc k \<Longrightarrow> length (radix16 n) \<le> Suc k"
proof (induction k arbitrary: n)
  case 0
  then show ?case by (simp add: radix16.simps)
next
  case (Suc k)
  show ?case
  proof (cases "n < 16")
    case True
    then show ?thesis by (simp add: radix16.simps)
  next
    case False
    have "n div 16 < 16 ^ Suc k" using Suc.prems by (simp add: less_mult_imp_div_less mult.commute)
    then have "length (radix16 (n div 16)) \<le> Suc k" by (rule Suc.IH)
    with False show ?thesis by (simp add: radix16.simps [of n])
  qed
qed

lemma hex_digit_not_colon: "d < 16 \<Longrightarrow> hex_digit d \<noteq> CHR '':''"
proof -
  assume "d < 16"
  then have "d \<in> set [0..<16]" by simp
  moreover have "\<forall>d \<in> set [0..<16]. hex_digit d \<noteq> CHR '':''" by code_simp
  ultimately show ?thesis by blast
qed

lemma radix16_no_colon: "CHR '':'' \<notin> set (radix16 n)"
proof (induction n rule: radix16.induct)
  case (1 n)
  show ?case
  proof (cases "n < 16")
    case True
    then show ?thesis using hex_digit_not_colon [of n] by (auto simp: radix16.simps [of n])
  next
    case False
    with 1 show ?thesis
      using hex_digit_not_colon [of "n mod 16"] by (auto simp: radix16.simps [of n])
  qed
qed

lemma fnv1aHex_length: "length (fnv1aHex s) = 8"
proof -
  have "unat (fnv1a s) < 16 ^ Suc 7"
    using unsigned_less [of "fnv1a s"] by simp
  from radix16_length [OF this] show ?thesis by (simp add: fnv1aHex_def pad_start_def)
qed

lemma fnv1aHex_no_colon: "CHR '':'' \<notin> set (fnv1aHex s)"
  using radix16_no_colon [of "unat (fnv1a s)"] by (auto simp: fnv1aHex_def pad_start_def)

section \<open>The audit key of a policy decision\<close>

record audit_key_args =
  ak_sessionId :: string
  ak_toolUseId :: "string option"
  ak_toolName :: string
  ak_eventType :: string
  ak_toolInputSnapshot :: "string option"

definition audit_turn :: "audit_key_args \<Rightarrow> string" where
  "audit_turn a =
     (case ak_toolUseId a of
        Some t \<Rightarrow> t
      | None \<Rightarrow>
          (case ak_toolInputSnapshot a of
             Some s \<Rightarrow> ''noturn-'' @ fnv1aHex s
           | None \<Rightarrow> ''no-turn''))"

definition buildPolicyDecisionIdempotencyKey :: "audit_key_args \<Rightarrow> string" where
  "buildPolicyDecisionIdempotencyKey a =
     ''pd:'' @ ak_sessionId a @ '':'' @ audit_turn a @ '':'' @ ak_toolName a @ '':'' @ ak_eventType a"

text \<open>No field before the last may hold the separator for the fields to be recoverable.\<close>

definition colon_free :: "audit_key_args \<Rightarrow> bool" where
  "colon_free a \<longleftrightarrow>
     CHR '':'' \<notin> set (ak_sessionId a) \<and> CHR '':'' \<notin> set (ak_toolName a) \<and>
     (\<forall>t. ak_toolUseId a = Some t \<longrightarrow> CHR '':'' \<notin> set t)"

lemma audit_turn_colon_free: "colon_free a \<Longrightarrow> CHR '':'' \<notin> set (audit_turn a)"
  using fnv1aHex_no_colon by (auto simp: audit_turn_def colon_free_def split: option.splits)

lemma audit_key_fields:
  assumes "colon_free a" and "colon_free b"
    and "buildPolicyDecisionIdempotencyKey a = buildPolicyDecisionIdempotencyKey b"
  shows "ak_sessionId a = ak_sessionId b \<and> audit_turn a = audit_turn b \<and>
         ak_toolName a = ak_toolName b \<and> ak_eventType a = ak_eventType b"
proof -
  have "ak_sessionId a @ CHR '':'' # (audit_turn a @ CHR '':'' # (ak_toolName a @ CHR '':'' # ak_eventType a)) =
        ak_sessionId b @ CHR '':'' # (audit_turn b @ CHR '':'' # (ak_toolName b @ CHR '':'' # ak_eventType b))"
    using assms(3) by (simp add: buildPolicyDecisionIdempotencyKey_def)
  then have s: "ak_sessionId a = ak_sessionId b"
    and r1: "audit_turn a @ CHR '':'' # (ak_toolName a @ CHR '':'' # ak_eventType a) =
             audit_turn b @ CHR '':'' # (ak_toolName b @ CHR '':'' # ak_eventType b)"
    using split_at_separator assms(1,2) unfolding colon_free_def by metis+
  from split_at_separator [OF r1 audit_turn_colon_free [OF assms(1)] audit_turn_colon_free [OF assms(2)]]
  have t: "audit_turn a = audit_turn b"
    and r2: "ak_toolName a @ CHR '':'' # ak_eventType a = ak_toolName b @ CHR '':'' # ak_eventType b"
    by simp_all
  from split_at_separator [OF r2] assms(1,2)
  have "ak_toolName a = ak_toolName b \<and> ak_eventType a = ak_eventType b"
    by (simp add: colon_free_def)
  with s t show ?thesis by simp
qed

section \<open>Key-sorted JSON and the grant fingerprint\<close>

text \<open>
  \<open>JSON.stringify\<close> of a string.  The rendering of a number is \<open>num_str\<close>: the shortest decimal
  of a double is the engine's, and nothing below depends on which it is.
\<close>

definition quote_char :: "char \<Rightarrow> string" where
  "quote_char c =
     (let n = of_char c :: nat in
      if n = 34 then [CHR 0x5C, CHR 0x22]
      else if n = 92 then [CHR 0x5C, CHR 0x5C]
      else if n = 8 then [CHR 0x5C, CHR ''b'']
      else if n = 9 then [CHR 0x5C, CHR ''t'']
      else if n = 10 then [CHR 0x5C, CHR ''n'']
      else if n = 12 then [CHR 0x5C, CHR ''f'']
      else if n = 13 then [CHR 0x5C, CHR ''r'']
      else if n < 32 then [CHR 0x5C, CHR ''u''] @ pad_start 4 (CHR ''0'') (radix16 n)
      else [c])"

definition json_quote :: "string \<Rightarrow> string" where
  "json_quote s = [CHR 0x22] @ concat (map quote_char s) @ [CHR 0x22]"

fun stableJson :: "(rat \<Rightarrow> string) \<Rightarrow> js \<Rightarrow> string" where
  "stableJson num_str JNull = ''null''"
| "stableJson num_str (JBool b) = (if b then ''true'' else ''false'')"
| "stableJson num_str (JNum n) = num_str n"
| "stableJson num_str (JInf _) = ''null''"
| "stableJson num_str (JStr s) = json_quote s"
| "stableJson num_str (JArr vs) = ''['' @ join '','' (map (stableJson num_str) vs) @ '']''"
| "stableJson num_str (JObj kvs) =
     [CHR 0x7B] @
     join '','' (map (\<lambda>(k, t). json_quote k @ '':'' @ t)
       (sort_key fst (map (\<lambda>(k, v). (k, stableJson num_str v)) kvs))) @
     [CHR 0x7D]"

definition buildPolicyGrantFingerprint :: "(rat \<Rightarrow> string) \<Rightarrow> string \<Rightarrow> js \<Rightarrow> string" where
  "buildPolicyGrantFingerprint num_str toolName input =
     ''pg:'' @ fnv1aHex (toolName @ [CHR 0x0A] @ stableJson num_str input)"

text \<open>
  The specification of "the same input": the same value once the members of every object, at
  every depth, are put in key order.
\<close>

fun canonical :: "js \<Rightarrow> js" where
  "canonical (JArr vs) = JArr (map canonical vs)"
| "canonical (JObj kvs) = JObj (sort_key fst (map (\<lambda>(k, v). (k, canonical v)) kvs))"
| "canonical v = v"

lemma sort_key_map_fst:
  "sort_key fst (map (\<lambda>(k, v). (k, f v)) kvs) = map (\<lambda>(k, v). (k, f v)) (sort_key fst kvs)"
proof -
  have ins: "insort_key fst (k, f v) (map (\<lambda>(k, v). (k, f v)) xs) =
      map (\<lambda>(k, v). (k, f v)) (insort_key fst (k, v) xs)" for k v xs
    by (induction xs) auto
  show ?thesis by (induction kvs) (auto simp: ins)
qed

lemma stableJson_canonical: "stableJson num_str (canonical v) = stableJson num_str v"
proof (induction v rule: canonical.induct)
  case (1 vs)
  have "map (stableJson num_str \<circ> canonical) vs = map (stableJson num_str) vs"
    using 1 by (intro map_cong) simp_all
  then show ?case by (simp only: canonical.simps stableJson.simps list.map_comp)
next
  case (2 kvs)
  have m: "map (\<lambda>(k, v). (k, stableJson num_str (canonical v))) kvs =
        map (\<lambda>(k, v). (k, stableJson num_str v)) kvs"
    using 2 by auto
  let ?f = "\<lambda>(k, v). (k, stableJson num_str v)" and ?g = "\<lambda>(k, v). (k, canonical v)"
  have "map ?f (sort_key fst (map ?g kvs)) = sort_key fst (map ?f (map ?g kvs))"
    by (simp only: sort_key_map_fst)
  also have "map ?f (map ?g kvs) = map ?f kvs"
    using m by (simp add: case_prod_unfold comp_def)
  finally have "sort_key fst (map ?f (sort_key fst (map ?g kvs))) =
      sort_key fst (sort_key fst (map ?f kvs))"
    by (rule arg_cong)
  also have "\<dots> = sort_key fst (map ?f kvs)"
    by (simp add: sort_key_id_if_sorted)
  finally have "sort_key fst (map ?f (sort_key fst (map ?g kvs))) = sort_key fst (map ?f kvs)" .
  then show ?case by (simp only: canonical.simps stableJson.simps)
qed simp_all

section \<open>Run and run-event keys\<close>

datatype key_error = SegmentEmpty string | SegmentForbidden string

datatype run_phase = PhasePre | PhasePost

fun phase_text :: "run_phase \<Rightarrow> string" where
  "phase_text PhasePre = ''pre''"
| "phase_text PhasePost = ''post''"

definition assertRunKeySegment :: "string \<Rightarrow> string \<Rightarrow> key_error + unit" where
  "assertRunKeySegment v field =
     (if v = [] then Inl (SegmentEmpty field)
      else if CHR '':'' \<in> set v then Inl (SegmentForbidden field)
      else Inr ())"

definition assertRunEventKeySegment :: "string \<Rightarrow> string \<Rightarrow> key_error + unit" where
  "assertRunEventKeySegment v field =
     (if v = [] then Inl (SegmentEmpty field)
      else if CHR '':'' \<in> set v \<or> CHR ''-'' \<in> set v then Inl (SegmentForbidden field)
      else Inr ())"

text \<open>\<open>uuid\<close> is the value \<open>randomUUID()\<close> returned for this call.\<close>

definition generateRunKey :: "string \<Rightarrow> string \<Rightarrow> string \<Rightarrow> key_error + string" where
  "generateRunKey uuid projectId sessionId =
     (case assertRunKeySegment projectId ''projectId'' of
        Inl e \<Rightarrow> Inl e
      | Inr _ \<Rightarrow>
          (case assertRunKeySegment sessionId ''sessionId'' of
             Inl e \<Rightarrow> Inl e
           | Inr _ \<Rightarrow> Inr (''run:'' @ projectId @ '':'' @ sessionId @ '':'' @ uuid)))"

definition generateRunEventKey :: "string \<Rightarrow> string \<Rightarrow> run_phase \<Rightarrow> key_error + string" where
  "generateRunEventKey sessionId toolUseId phase =
     (case assertRunEventKeySegment sessionId ''sessionId'' of
        Inl e \<Rightarrow> Inl e
      | Inr _ \<Rightarrow>
          (case assertRunEventKeySegment toolUseId ''toolUseId'' of
             Inl e \<Rightarrow> Inl e
           | Inr _ \<Rightarrow> Inr (sessionId @ ''-'' @ toolUseId @ ''-'' @ phase_text phase)))"

lemma segment_ok [simp]:
  "assertRunKeySegment v f = Inr u \<longleftrightarrow> v \<noteq> [] \<and> CHR '':'' \<notin> set v"
  by (auto simp: assertRunKeySegment_def)

lemma event_segment_ok [simp]:
  "assertRunEventKeySegment v f = Inr u \<longleftrightarrow> v \<noteq> [] \<and> CHR '':'' \<notin> set v \<and> CHR ''-'' \<notin> set v"
  by (auto simp: assertRunEventKeySegment_def)

lemma phase_text_inj [simp]: "phase_text p = phase_text q \<longleftrightarrow> p = q"
  by (cases p; cases q) simp_all

lemma generateRunKey_Inr:
  "generateRunKey u p s = Inr k \<longleftrightarrow>
     p \<noteq> [] \<and> CHR '':'' \<notin> set p \<and> s \<noteq> [] \<and> CHR '':'' \<notin> set s \<and> k = ''run:'' @ p @ '':'' @ s @ '':'' @ u"
  by (auto simp: generateRunKey_def split: sum.splits simp: assertRunKeySegment_def)

lemma generateRunEventKey_Inr:
  "generateRunEventKey s t ph = Inr k \<longleftrightarrow>
     s \<noteq> [] \<and> CHR '':'' \<notin> set s \<and> CHR ''-'' \<notin> set s \<and>
     t \<noteq> [] \<and> CHR '':'' \<notin> set t \<and> CHR ''-'' \<notin> set t \<and>
     k = s @ ''-'' @ t @ ''-'' @ phase_text ph"
  by (auto simp: generateRunEventKey_def split: sum.splits simp: assertRunEventKeySegment_def)

section \<open>What the keys identify\<close>

text \<open>Two tool invocations of one session whose recoverable fields hold no colon get the same
  audit key only when session, tool name, event type and turn agree, and the turn of a call that
  carries a tool-use id is that id; so distinct invocations land distinct audit rows.\<close>

theorem audit_key_separates_invocations:
  assumes "colon_free a" and "colon_free b"
    and "ak_toolUseId a = Some s" and "ak_toolUseId b = Some t"
  shows "buildPolicyDecisionIdempotencyKey a = buildPolicyDecisionIdempotencyKey b \<longleftrightarrow>
     ak_sessionId a = ak_sessionId b \<and> s = t \<and>
     ak_toolName a = ak_toolName b \<and> ak_eventType a = ak_eventType b"
proof
  assume "buildPolicyDecisionIdempotencyKey a = buildPolicyDecisionIdempotencyKey b"
  from audit_key_fields [OF assms(1,2) this] assms(3,4)
  show "ak_sessionId a = ak_sessionId b \<and> s = t \<and>
     ak_toolName a = ak_toolName b \<and> ak_eventType a = ak_eventType b"
    by (simp add: audit_turn_def)
next
  assume "ak_sessionId a = ak_sessionId b \<and> s = t \<and>
     ak_toolName a = ak_toolName b \<and> ak_eventType a = ak_eventType b"
  with assms(3,4) show "buildPolicyDecisionIdempotencyKey a = buildPolicyDecisionIdempotencyKey b"
    by (simp add: buildPolicyDecisionIdempotencyKey_def audit_turn_def)
qed

text \<open>Two writes of one session: a different tool-use id is a different row.\<close>

text \<open>The fingerprint of an "allow similar task" grant does not depend on the order in which
  the members of the tool input, or of any object inside it, were written: inputs that agree once
  their keys are sorted at every depth have the same fingerprint.\<close>

theorem grant_fingerprint_key_order:
  assumes "canonical v = canonical w"
  shows "buildPolicyGrantFingerprint num_str tool v = buildPolicyGrantFingerprint num_str tool w"
  using stableJson_canonical [of num_str v] stableJson_canonical [of num_str w] assms
  by (simp add: buildPolicyGrantFingerprint_def)

text \<open>A run-event key is accepted only for segments that hold neither separator, and two
  accepted keys are equal exactly when session, tool-use id and phase are: redelivery of one hook
  event collides, distinct events never do.\<close>

theorem run_event_key_injective:
  assumes "generateRunEventKey s t ph = Inr k" and "generateRunEventKey s' t' ph' = Inr k'"
  shows "k = k' \<longleftrightarrow> s = s' \<and> t = t' \<and> ph = ph'"
proof
  assume "k = k'"
  with assms have "s @ CHR ''-'' # (t @ CHR ''-'' # phase_text ph) =
      s' @ CHR ''-'' # (t' @ CHR ''-'' # phase_text ph')"
    and free: "CHR ''-'' \<notin> set s" "CHR ''-'' \<notin> set s'" "CHR ''-'' \<notin> set t" "CHR ''-'' \<notin> set t'"
    by (auto simp: generateRunEventKey_Inr)
  from split_at_separator [OF this(1) free(1,2)]
  have "s = s'" and r: "t @ CHR ''-'' # phase_text ph = t' @ CHR ''-'' # phase_text ph'" by simp_all
  with split_at_separator [OF r free(3,4)] show "s = s' \<and> t = t' \<and> ph = ph'" by simp
qed (use assms in simp)

end
