(* ===== verification/Policy_Engine.thy ===== *)
theory Policy_Engine
  imports Coodra_Keys
begin

text \<open>
  The pure part of the policy engine, \<open>packages/policy/src/policy.ts\<close> and \<open>types.ts\<close>: the three
  decision tiers, the compilation of stored rules, exceptions and grants, and the matching of one
  tool call against them.

  The glob matcher \<open>picomatch\<close> is a third-party package: it is the parameter \<open>pm\<close>, taking the
  pattern, the value of its \<open>dot\<close> option and the subject (\<open>nobrace\<close> is always set).  \<open>JSON.parse\<close>
  of a stored scope is the parameter \<open>jparse\<close>, with \<open>None\<close> for a thrown \<open>SyntaxError\<close>.  Times are
  milliseconds.
\<close>

section \<open>Types\<close>

datatype policy_decision = Allow | Deny | Ask

datatype governance_verdict = Pass | RecordV | Advise | Warn | Confirm | Escalate | Block

datatype enforcement_mode = Detective | Advisory | Approval | Preventive | Disabled

datatype phase = Pre | Post

fun phase_event_type :: "phase \<Rightarrow> string" where
  "phase_event_type Pre = ''PreToolUse''"
| "phase_event_type Post = ''PostToolUse''"

record policy_input =
  pi_toolName :: string
  pi_sessionId :: string
  pi_input :: js
  pi_phase :: phase
  pi_activeCapabilities :: "string list option"
  pi_projectId :: "string option"

record policy_result =
  pr_decision :: policy_decision
  pr_baseDecision :: policy_decision
  pr_governanceVerdict :: governance_verdict
  pr_enforcementMode :: enforcement_mode
  pr_reason :: string
  pr_matchedRuleId :: "string option"
  pr_matchedCapability :: "string option"
  pr_matchedExceptionId :: "string option"
  pr_matchedGrantId :: "string option"
  pr_policyVersionId :: "string option"

type_synonym glob_matcher = "string \<Rightarrow> bool \<Rightarrow> string \<Rightarrow> bool"

section \<open>Compiled rules\<close>

text \<open>One row of the join of \<open>policy_rules\<close> with its policy and active version.\<close>

record rule_row =
  rr_id :: string
  rr_policyId :: string
  rr_policyVersionId :: "string option"
  rr_priority :: int
  rr_policyEnforcementMode :: string
  rr_policyDenyOnPolicyError :: bool
  rr_matchEventType :: string
  rr_matchToolName :: string
  rr_matchPathGlob :: "string option"
  rr_matchCommandPattern :: "string option"
  rr_matchAgentType :: "string option"
  rr_decision :: string
  rr_enforcementDecision :: "string option"
  rr_governanceVerdict :: "string option"
  rr_ruleEnforcementMode :: "string option"
  rr_requiredCapability :: "string option"
  rr_excludedCapability :: "string option"
  rr_reason :: string

record compiled_rule =
  cr_id :: string
  cr_policyId :: string
  cr_policyVersionId :: "string option"
  cr_priority :: int
  cr_matchEventType :: string
  cr_matchToolName :: string
  cr_matchPath :: "(string \<Rightarrow> bool) option"
  cr_matchCommand :: "(string \<Rightarrow> bool) option"
  cr_matchAgentType :: "string option"
  cr_decision :: policy_decision
  cr_enforcementDecision :: policy_decision
  cr_governanceVerdict :: governance_verdict
  cr_enforcementMode :: enforcement_mode
  cr_denyOnPolicyError :: bool
  cr_requiredCapability :: "string option"
  cr_excludedCapability :: "string option"
  cr_reason :: string

definition normalizePolicyDecision :: "string \<Rightarrow> policy_decision" where
  "normalizePolicyDecision v =
     (if v = ''deny'' then Deny else if v = ''ask'' then Ask else Allow)"

definition normalizeGovernanceVerdict :: "string \<Rightarrow> governance_verdict" where
  "normalizeGovernanceVerdict v =
     (if v = ''record'' then RecordV
      else if v = ''advise'' then Advise
      else if v = ''warn'' then Warn
      else if v = ''confirm'' then Confirm
      else if v = ''escalate'' then Escalate
      else if v = ''block'' then Block
      else if v = ''flag'' then Warn
      else Pass)"

definition legacyGovernanceVerdictForDecision :: "string \<Rightarrow> governance_verdict" where
  "legacyGovernanceVerdictForDecision d =
     (if d = ''deny'' \<or> d = ''block'' then Block else if d = ''ask'' then Confirm else Pass)"

definition legacyEnforcementModeForDecision :: "string \<Rightarrow> enforcement_mode" where
  "legacyEnforcementModeForDecision d =
     (if d = ''deny'' then Preventive else if d = ''ask'' then Approval else Detective)"

definition normalizeEnforcementMode :: "string \<Rightarrow> enforcement_mode" where
  "normalizeEnforcementMode v =
     (if v = ''advisory'' then Advisory
      else if v = ''approval'' then Approval
      else if v = ''preventive'' then Preventive
      else if v = ''disabled'' then Disabled
      else if v = ''enforced'' then Preventive
      else Detective)"

definition normalizeCapability :: "string option \<Rightarrow> string option" where
  "normalizeCapability v =
     (case v of None \<Rightarrow> None
      | Some s \<Rightarrow> (let t = trim s in if t = [] then None else Some t))"

text \<open>
  The legacy tables above are closed under their normalisers, so compiling their value directly
  is what normalising its text gives.
\<close>

definition compileRule :: "glob_matcher \<Rightarrow> rule_row \<Rightarrow> compiled_rule" where
  "compileRule pm row =
     (let hasSplitDecision =
            (rr_enforcementDecision row \<noteq> None \<or> rr_governanceVerdict row \<noteq> None \<or>
             rr_ruleEnforcementMode row \<noteq> None)
      in \<lparr> cr_id = rr_id row,
           cr_policyId = rr_policyId row,
           cr_policyVersionId = None,
           cr_priority = rr_priority row,
           cr_matchEventType = rr_matchEventType row,
           cr_matchToolName = rr_matchToolName row,
           cr_matchPath =
             (case rr_matchPathGlob row of
                None \<Rightarrow> None
              | Some g \<Rightarrow> if g = [] then None else Some (pm g False)),
           cr_matchCommand =
             (case rr_matchCommandPattern row of
                None \<Rightarrow> None
              | Some g \<Rightarrow> if g = [] then None else Some (pm g True)),
           cr_matchAgentType = rr_matchAgentType row,
           cr_decision = normalizePolicyDecision (rr_decision row),
           cr_enforcementDecision =
             normalizePolicyDecision (nullish (rr_enforcementDecision row) (rr_decision row)),
           cr_governanceVerdict =
             (case rr_governanceVerdict row of
                Some v \<Rightarrow> normalizeGovernanceVerdict v
              | None \<Rightarrow> legacyGovernanceVerdictForDecision (rr_decision row)),
           cr_enforcementMode =
             (case rr_ruleEnforcementMode row of
                Some m \<Rightarrow> normalizeEnforcementMode m
              | None \<Rightarrow>
                  if hasSplitDecision
                  then normalizeEnforcementMode (rr_policyEnforcementMode row)
                  else legacyEnforcementModeForDecision (rr_decision row)),
           cr_denyOnPolicyError = rr_policyDenyOnPolicyError row,
           cr_requiredCapability = normalizeCapability (rr_requiredCapability row),
           cr_excludedCapability = normalizeCapability (rr_excludedCapability row),
           cr_reason = rr_reason row \<rparr>)"

section \<open>Exceptions and grants\<close>

record exception_row =
  xr_id :: string
  xr_projectId :: "string option"
  xr_policyId :: string
  xr_policyVersionId :: "string option"
  xr_ruleId :: "string option"
  xr_scopeType :: string
  xr_scopeJson :: string
  xr_decisionOverride :: string
  xr_reason :: string
  xr_status :: string
  xr_startsAt :: "int option"
  xr_expiresAt :: "int option"
  xr_createdAt :: int
  xr_updatedAt :: "int option"
  xr_revokedAt :: "int option"

record compiled_exception =
  ce_id :: string
  ce_policyId :: string
  ce_policyVersionId :: "string option"
  ce_ruleId :: "string option"
  ce_scopeType :: string
  ce_scope :: js
  ce_decisionOverride :: policy_decision
  ce_reason :: string
  ce_startsAt :: "int option"
  ce_expiresAt :: "int option"

record grant_row =
  gr_id :: string
  gr_projectId :: "string option"
  gr_runId :: "string option"
  gr_scopeType :: string
  gr_scopeJson :: string
  gr_grantKind :: string
  gr_targetRuleId :: "string option"
  gr_targetCapability :: "string option"
  gr_grantFingerprint :: "string option"
  gr_decisionOverride :: "string option"
  gr_reason :: string
  gr_expiresAt :: "int option"
  gr_revokedAt :: "int option"
  gr_createdAt :: int

record compiled_grant =
  cg_id :: string
  cg_projectId :: "string option"
  cg_runId :: "string option"
  cg_scopeType :: string
  cg_scope :: js
  cg_grantKind :: string
  cg_targetRuleId :: "string option"
  cg_targetCapability :: "string option"
  cg_grantFingerprint :: "string option"
  cg_decisionOverride :: "policy_decision option"
  cg_reason :: string
  cg_expiresAt :: "int option"
  cg_revokedAt :: "int option"

text \<open>The scope of a row: its JSON when that is an object, the empty object otherwise.\<close>

definition parse_scope :: "(string \<Rightarrow> js option) \<Rightarrow> string \<Rightarrow> js" where
  "parse_scope jparse s =
     (case jparse s of
        Some v \<Rightarrow> if js_is_record v then v else JObj []
      | None \<Rightarrow> JObj [])"

definition compileException :: "(string \<Rightarrow> js option) \<Rightarrow> exception_row \<Rightarrow> compiled_exception" where
  "compileException jparse row =
     \<lparr> ce_id = xr_id row,
       ce_policyId = xr_policyId row,
       ce_policyVersionId = xr_policyVersionId row,
       ce_ruleId = xr_ruleId row,
       ce_scopeType = xr_scopeType row,
       ce_scope = parse_scope jparse (xr_scopeJson row),
       ce_decisionOverride =
         (if xr_decisionOverride row = ''deny'' then Deny
          else if xr_decisionOverride row = ''ask'' then Ask else Allow),
       ce_reason = xr_reason row,
       ce_startsAt = xr_startsAt row,
       ce_expiresAt = xr_expiresAt row \<rparr>"

definition compileGrant :: "(string \<Rightarrow> js option) \<Rightarrow> grant_row \<Rightarrow> compiled_grant" where
  "compileGrant jparse row =
     \<lparr> cg_id = gr_id row,
       cg_projectId = gr_projectId row,
       cg_runId = gr_runId row,
       cg_scopeType = gr_scopeType row,
       cg_scope = parse_scope jparse (gr_scopeJson row),
       cg_grantKind = gr_grantKind row,
       cg_targetRuleId = gr_targetRuleId row,
       cg_targetCapability = normalizeCapability (gr_targetCapability row),
       cg_grantFingerprint = gr_grantFingerprint row,
       cg_decisionOverride =
         (if gr_decisionOverride row = Some ''deny'' then Some Deny
          else if gr_decisionOverride row = Some ''ask'' then Some Ask
          else if gr_decisionOverride row = Some ''allow'' then Some Allow
          else None),
       cg_reason = gr_reason row,
       cg_expiresAt = gr_expiresAt row,
       cg_revokedAt = gr_revokedAt row \<rparr>"

section \<open>Matching\<close>

definition toolNameMatches :: "glob_matcher \<Rightarrow> compiled_rule \<Rightarrow> string \<Rightarrow> bool" where
  "toolNameMatches pm r toolName =
     (if cr_matchToolName r = ''*'' then True
      else if cr_matchToolName r = toolName then True
      else if CHR ''*'' \<notin> set (cr_matchToolName r) then False
      else pm (cr_matchToolName r) False toolName)"

text \<open>The first of the named properties that is a non-empty string.\<close>

fun first_field :: "js \<Rightarrow> string list \<Rightarrow> string" where
  "first_field v [] = []"
| "first_field v (k # ks) =
     (case as_nonempty (js_get v k) of Some s \<Rightarrow> s | None \<Rightarrow> first_field v ks)"

definition extractPath :: "js \<Rightarrow> string" where
  "extractPath input =
     (if \<not> js_typeof_object input then []
      else first_field input [''filePath'', ''file_path'', ''path''])"

definition extractCommand :: "js \<Rightarrow> string" where
  "extractCommand input =
     (case input of
        JStr s \<Rightarrow> s
      | _ \<Rightarrow>
          if \<not> js_typeof_object input then []
          else first_field input [''command'', ''cmd'', ''shell_command'', ''shellCommand''])"

text \<open>The loop of \<open>evaluateRules\<close>: one \<open>continue\<close> per guard, the first rule past them is returned.\<close>

fun scan_rules ::
  "glob_matcher \<Rightarrow> string \<Rightarrow> string \<Rightarrow> string \<Rightarrow> string list \<Rightarrow> string \<Rightarrow>
   compiled_rule list \<Rightarrow> compiled_rule option"
where
  "scan_rules pm eventType path command caps toolName [] = None"
| "scan_rules pm eventType path command caps toolName (r # rs) =
     (if cr_enforcementMode r = Disabled then scan_rules pm eventType path command caps toolName rs
      else if (case cr_requiredCapability r of None \<Rightarrow> False | Some c \<Rightarrow> c \<notin> set caps)
        then scan_rules pm eventType path command caps toolName rs
      else if (case cr_excludedCapability r of None \<Rightarrow> False | Some c \<Rightarrow> c \<in> set caps)
        then scan_rules pm eventType path command caps toolName rs
      else if cr_matchEventType r \<noteq> ''*'' \<and> cr_matchEventType r \<noteq> eventType
        then scan_rules pm eventType path command caps toolName rs
      else if \<not> toolNameMatches pm r toolName
        then scan_rules pm eventType path command caps toolName rs
      else if (case cr_matchPath r of None \<Rightarrow> False | Some m \<Rightarrow> path = [] \<or> \<not> m path)
        then scan_rules pm eventType path command caps toolName rs
      else if (case cr_matchCommand r of None \<Rightarrow> False | Some m \<Rightarrow> command = [] \<or> \<not> m command)
        then scan_rules pm eventType path command caps toolName rs
      else if cr_matchAgentType r \<noteq> None \<and> cr_matchAgentType r \<noteq> Some ''*''
        then scan_rules pm eventType path command caps toolName rs
      else Some r)"

definition evaluateRules ::
  "glob_matcher \<Rightarrow> compiled_rule list \<Rightarrow> policy_input \<Rightarrow> compiled_rule option"
where
  "evaluateRules pm rules i =
     scan_rules pm (phase_event_type (pi_phase i)) (extractPath (pi_input i))
       (extractCommand (pi_input i)) (nullish (pi_activeCapabilities i) []) (pi_toolName i) rules"

definition effectiveDecisionForRule :: "compiled_rule \<Rightarrow> policy_decision" where
  "effectiveDecisionForRule r =
     (if cr_enforcementMode r = Detective \<or> cr_enforcementMode r = Advisory then Allow
      else if cr_enforcementMode r = Approval then
        (if cr_enforcementDecision r = Deny then Ask else cr_enforcementDecision r)
      else cr_enforcementDecision r)"

definition exceptionMatches ::
  "glob_matcher \<Rightarrow> compiled_exception \<Rightarrow> compiled_rule option \<Rightarrow> policy_input \<Rightarrow> int \<Rightarrow> bool"
where
  "exceptionMatches pm x rule i now =
     (if (case ce_startsAt x of None \<Rightarrow> False | Some s \<Rightarrow> now < s) then False
      else if (case ce_expiresAt x of None \<Rightarrow> False | Some e \<Rightarrow> e < now) then False
      else if (case rule of
                 None \<Rightarrow> False
               | Some r \<Rightarrow>
                   (ce_ruleId x \<noteq> None \<and> ce_ruleId x \<noteq> Some (cr_id r)) \<or>
                   ce_policyId x \<noteq> cr_policyId r \<or>
                   (ce_policyVersionId x \<noteq> None \<and> ce_policyVersionId x \<noteq> cr_policyVersionId r))
        then False
      else if (case as_nonempty (js_get (ce_scope x) ''toolName'') of
                 None \<Rightarrow> False | Some t \<Rightarrow> t \<noteq> pi_toolName i) then False
      else if (case as_nonempty (js_get (ce_scope x) ''pathGlob'') of
                 None \<Rightarrow> False
               | Some g \<Rightarrow> extractPath (pi_input i) = [] \<or> \<not> pm g False (extractPath (pi_input i)))
        then False
      else True)"

fun applyException ::
  "glob_matcher \<Rightarrow> compiled_exception list \<Rightarrow> compiled_rule option \<Rightarrow> policy_input \<Rightarrow> int \<Rightarrow>
   compiled_exception option"
where
  "applyException pm [] rule i now = None"
| "applyException pm (x # xs) rule i now =
     (if (case rule of None \<Rightarrow> False | Some r \<Rightarrow> ce_policyId x \<noteq> cr_policyId r)
        then applyException pm xs rule i now
      else if exceptionMatches pm x rule i now then Some x
      else applyException pm xs rule i now)"

definition grantMatches ::
  "glob_matcher \<Rightarrow> (rat \<Rightarrow> string) \<Rightarrow> compiled_grant \<Rightarrow> compiled_rule \<Rightarrow> policy_input \<Rightarrow> int \<Rightarrow> bool"
where
  "grantMatches pm num_str g r i now =
     (if cg_grantKind g \<noteq> ''decision_override'' then False
      else if cg_decisionOverride g = None then False
      else if cg_revokedAt g \<noteq> None then False
      else if (case cg_expiresAt g of None \<Rightarrow> False | Some e \<Rightarrow> e < now) then False
      else if cg_targetRuleId g \<noteq> None \<and> cg_targetRuleId g \<noteq> Some (cr_id r) then False
      else if (case cg_targetCapability g of
                 None \<Rightarrow> False | Some c \<Rightarrow> c \<notin> set (nullish (pi_activeCapabilities i) [])) then False
      else if cg_scopeType g = ''similar_task'' \<and>
              (let fp = buildPolicyGrantFingerprint num_str (pi_toolName i) (pi_input i)
               in cg_grantFingerprint g \<noteq> Some fp \<and>
                  as_nonempty (js_get (cg_scope g) ''fingerprint'') \<noteq> Some fp) then False
      else if (case as_nonempty (js_get (cg_scope g) ''sessionId'') of
                 None \<Rightarrow> False | Some s \<Rightarrow> s \<noteq> pi_sessionId i) then False
      else if (case as_nonempty (js_get (cg_scope g) ''toolName'') of
                 None \<Rightarrow> False | Some t \<Rightarrow> t \<noteq> pi_toolName i) then False
      else if (case as_nonempty (js_get (cg_scope g) ''pathGlob'') of
                 None \<Rightarrow> False
               | Some p \<Rightarrow> extractPath (pi_input i) = [] \<or> \<not> pm p False (extractPath (pi_input i)))
        then False
      else if (case as_nonempty (js_get (cg_scope g) ''commandPattern'') of
                 None \<Rightarrow> False
               | Some p \<Rightarrow> extractCommand (pi_input i) = [] \<or> \<not> pm p True (extractCommand (pi_input i)))
        then False
      else True)"

fun applyGrant ::
  "glob_matcher \<Rightarrow> (rat \<Rightarrow> string) \<Rightarrow> compiled_grant list \<Rightarrow> compiled_rule \<Rightarrow> policy_input \<Rightarrow> int \<Rightarrow>
   compiled_grant option"
where
  "applyGrant pm num_str [] r i now = None"
| "applyGrant pm num_str (g # gs) r i now =
     (if grantMatches pm num_str g r i now then Some g else applyGrant pm num_str gs r i now)"

section \<open>First match wins\<close>

text \<open>The axes of one rule, as one predicate; the loop is the search for the first rule they hold of.\<close>

definition rule_applies ::
  "glob_matcher \<Rightarrow> string \<Rightarrow> string \<Rightarrow> string \<Rightarrow> string list \<Rightarrow> string \<Rightarrow> compiled_rule \<Rightarrow> bool"
where
  "rule_applies pm eventType path command caps toolName r \<longleftrightarrow>
     cr_enforcementMode r \<noteq> Disabled \<and>
     (\<forall>c. cr_requiredCapability r = Some c \<longrightarrow> c \<in> set caps) \<and>
     (\<forall>c. cr_excludedCapability r = Some c \<longrightarrow> c \<notin> set caps) \<and>
     (cr_matchEventType r = ''*'' \<or> cr_matchEventType r = eventType) \<and>
     toolNameMatches pm r toolName \<and>
     (\<forall>m. cr_matchPath r = Some m \<longrightarrow> path \<noteq> [] \<and> m path) \<and>
     (\<forall>m. cr_matchCommand r = Some m \<longrightarrow> command \<noteq> [] \<and> m command) \<and>
     cr_matchAgentType r \<in> {None, Some ''*''}"

definition applies_to :: "glob_matcher \<Rightarrow> policy_input \<Rightarrow> compiled_rule \<Rightarrow> bool" where
  "applies_to pm i r =
     rule_applies pm (phase_event_type (pi_phase i)) (extractPath (pi_input i))
       (extractCommand (pi_input i)) (nullish (pi_activeCapabilities i) []) (pi_toolName i) r"

lemma scan_rules_find:
  "scan_rules pm ev p c caps t rs = List.find (rule_applies pm ev p c caps t) rs"
proof (induction rs)
  case Nil
  show ?case by simp
next
  case (Cons r rs)
  then show ?case by (auto simp: rule_applies_def split: option.splits)
qed

lemma evaluateRules_find: "evaluateRules pm rules i = List.find (applies_to pm i) rules"
  by (simp add: evaluateRules_def scan_rules_find applies_to_def [abs_def])

lemma evaluateRules_Some_D: "evaluateRules pm rules i = Some r \<Longrightarrow> r \<in> set rules \<and> applies_to pm i r"
  by (auto simp: evaluateRules_find dest: find_Some_D)

lemma applyException_Some_D:
  "applyException pm xs rule i now = Some x \<Longrightarrow> x \<in> set xs \<and> exceptionMatches pm x rule i now"
  by (induction xs) (auto split: if_splits)

lemma applyGrant_Some_D:
  "applyGrant pm ns gs r i now = Some g \<Longrightarrow> g \<in> set gs \<and> grantMatches pm ns g r i now"
  by (induction gs) (auto split: if_splits)

lemma grantMatches_override: "grantMatches pm ns g r i now \<Longrightarrow> cg_decisionOverride g \<noteq> None"
  by (auto simp: grantMatches_def split: if_splits)

lemma grantMatches_live:
  "grantMatches pm ns g r i now \<Longrightarrow>
     cg_revokedAt g = None \<and> (\<forall>e. cg_expiresAt g = Some e \<longrightarrow> now \<le> e)"
  by (auto simp: grantMatches_def split: if_splits option.splits)

lemma exceptionMatches_live:
  "exceptionMatches pm x rule i now \<Longrightarrow>
     (\<forall>s. ce_startsAt x = Some s \<longrightarrow> s \<le> now) \<and> (\<forall>e. ce_expiresAt x = Some e \<longrightarrow> now \<le> e)"
  by (auto simp: exceptionMatches_def split: if_splits option.splits)

lemma exceptionMatches_rule:
  "exceptionMatches pm x (Some r) i now \<Longrightarrow>
     ce_policyId x = cr_policyId r \<and> ce_ruleId x \<in> {None, Some (cr_id r)}"
  by (auto simp: exceptionMatches_def split: if_splits)

lemma effective_deny_iff:
  "effectiveDecisionForRule r = Deny \<longleftrightarrow>
     cr_enforcementDecision r = Deny \<and> cr_enforcementMode r \<in> {Preventive, Disabled}"
  by (cases "cr_enforcementMode r") (auto simp: effectiveDecisionForRule_def)

text \<open>C7: The rule chosen for a call is the first rule of the given order whose every axis
  matches (mode not disabled, capabilities held or absent, event, tool, path, command, agent type);
  no rule is chosen exactly when none matches.\<close>

theorem evaluateRules_first_match:
  "(evaluateRules pm rules i = Some r \<longleftrightarrow>
      (\<exists>before after. rules = before @ r # after \<and> applies_to pm i r \<and>
         (\<forall>s \<in> set before. \<not> applies_to pm i s))) \<and>
   (evaluateRules pm rules i = None \<longleftrightarrow> (\<forall>s \<in> set rules. \<not> applies_to pm i s))"
  by (auto simp: evaluateRules_find find_first_match find_None_iff)

definition sample_rule_row :: "string \<Rightarrow> string \<Rightarrow> rule_row" where
  "sample_rule_row rid dec =
     \<lparr> rr_id = rid, rr_policyId = ''p1'', rr_policyVersionId = None, rr_priority = 10,
       rr_policyEnforcementMode = ''detective'', rr_policyDenyOnPolicyError = False,
       rr_matchEventType = ''PreToolUse'', rr_matchToolName = ''Bash'', rr_matchPathGlob = None,
       rr_matchCommandPattern = None, rr_matchAgentType = None, rr_decision = dec,
       rr_enforcementDecision = None, rr_governanceVerdict = None, rr_ruleEnforcementMode = None,
       rr_requiredCapability = None, rr_excludedCapability = None, rr_reason = ''why'' \<rparr>"

definition sample_input :: "string \<Rightarrow> policy_input" where
  "sample_input tool =
     \<lparr> pi_toolName = tool, pi_sessionId = ''s1'', pi_input = JObj [(''command'', JStr ''ls'')],
       pi_phase = Pre, pi_activeCapabilities = None, pi_projectId = Some ''proj'' \<rparr>"

lemmas sample_defs = sample_rule_row_def sample_input_def

lemma evaluateRules_first_match_witness:
  "evaluateRules (\<lambda>_ _ _. False)
     [compileRule (\<lambda>_ _ _. False) ((sample_rule_row ''r1'' ''allow'')\<lparr>rr_matchToolName := ''Read''\<rparr>),
      compileRule (\<lambda>_ _ _. False) (sample_rule_row ''r2'' ''deny''),
      compileRule (\<lambda>_ _ _. False) (sample_rule_row ''r3'' ''allow'')] (sample_input ''Bash'') =
   Some (compileRule (\<lambda>_ _ _. False) (sample_rule_row ''r2'' ''deny''))"
proof -
  let ?pm = "\<lambda>_ _ _. False"
  let ?r1 = "compileRule ?pm ((sample_rule_row ''r1'' ''allow'')\<lparr>rr_matchToolName := ''Read''\<rparr>)"
  have "\<not> applies_to ?pm (sample_input ''Bash'') ?r1"
    by (simp add: applies_to_def rule_applies_def toolNameMatches_def compileRule_def sample_defs)
  moreover have "applies_to ?pm (sample_input ''Bash'') (compileRule ?pm (sample_rule_row ''r2'' ''deny''))"
    by (simp add: applies_to_def rule_applies_def toolNameMatches_def compileRule_def sample_defs
        normalizeCapability_def legacyEnforcementModeForDecision_def)
  ultimately show ?thesis
    by (intro evaluateRules_first_match [THEN conjunct1, THEN iffD2] exI [of _ "[?r1]"] exI) auto
qed

text \<open>A legacy rule row, with none of the split columns set, compiles to a rule that enforces
  the decision its text names: deny denies, ask asks, every other text allows.\<close>

theorem legacy_rule_enforces_its_text:
  assumes "rr_enforcementDecision row = None" and "rr_governanceVerdict row = None"
    and "rr_ruleEnforcementMode row = None"
  shows "effectiveDecisionForRule (compileRule pm row) = normalizePolicyDecision (rr_decision row)"
  using assms
  by (simp add: effectiveDecisionForRule_def compileRule_def Let_def normalizePolicyDecision_def
      legacyEnforcementModeForDecision_def)

end
