(* ===== verification/Coodra_Interfaces.thy ===== *)
theory Coodra_Interfaces
  imports Coodra_Prelude
begin

text \<open>
  The interfaces between the components, as locales.

  \<open>keyed_table\<close> is the contract of \<open>INSERT ... ON CONFLICT (key) DO NOTHING\<close>: the outbox, the
  audit tables and the run table all rest on it.  \<open>redelivery_sink\<close> is what an at-least-once queue
  needs of its destination: a delivered job may be delivered again, at any later point, without
  changing the destination.  \<open>loading_cache\<close> is the contract of the two read-through caches on
  the policy path, and bounds how old a served value can be.
\<close>

section \<open>Insert on conflict do nothing\<close>

definition insert_or_ignore :: "('r \<Rightarrow> 'k) \<Rightarrow> 'r \<Rightarrow> 'r list \<Rightarrow> 'r list \<times> bool" where
  "insert_or_ignore key r t =
     (if key r \<in> key ` set t then (t, False) else (t @ [r], True))"

locale keyed_table =
  fixes key :: "'r \<Rightarrow> 'k"
    and ins :: "'r \<Rightarrow> 'r list \<Rightarrow> 'r list \<times> bool"
  assumes ins_fresh: "key r \<notin> key ` set t \<Longrightarrow> ins r t = (t @ [r], True)"
    and ins_conflict: "key r \<in> key ` set t \<Longrightarrow> ins r t = (t, False)"
begin

lemma keys_stay_unique: "distinct (map key t) \<Longrightarrow> distinct (map key (fst (ins r t)))"
  by (cases "key r \<in> key ` set t") (auto simp: ins_fresh ins_conflict)

lemma rows_survive: "set t \<subseteq> set (fst (ins r t))"
  by (cases "key r \<in> key ` set t") (auto simp: ins_fresh ins_conflict)

lemma key_present: "key r \<in> key ` set (fst (ins r t))"
  by (cases "key r \<in> key ` set t") (auto simp: ins_fresh ins_conflict)

lemma new_row_only: "set (fst (ins r t)) \<subseteq> insert r (set t)"
  by (cases "key r \<in> key ` set t") (auto simp: ins_fresh ins_conflict)

lemma second_insert_ignored:
  "key r' = key r \<Longrightarrow> ins r' (fst (ins r t)) = (fst (ins r t), False)"
  by (rule ins_conflict) (metis key_present)

lemma inserted_iff: "snd (ins r t) \<longleftrightarrow> key r \<notin> key ` set t"
  by (cases "key r \<in> key ` set t") (auto simp: ins_fresh ins_conflict)

text \<open>
  Retries in any number and in any place of a sequence of inserts leave one row per key, the one
  that came first.
\<close>

lemma first_writer_wins:
  assumes "distinct (map key t)" and "r \<in> set t"
  shows "r \<in> set (fst (ins r' t)) \<and> (\<forall>s \<in> set (fst (ins r' t)). key s = key r \<longrightarrow> s = r)"
proof -
  have "r \<in> set (fst (ins r' t))" using rows_survive assms(2) by blast
  moreover have "distinct (map key (fst (ins r' t)))" by (rule keys_stay_unique [OF assms(1)])
  ultimately show ?thesis by (auto simp: distinct_map inj_on_def)
qed

end

lemma insert_or_ignore_keyed: "keyed_table key (insert_or_ignore key)"
  by unfold_locales (auto simp: insert_or_ignore_def)

section \<open>Redelivery\<close>

locale redelivery_sink =
  fixes deliver :: "'job \<Rightarrow> 'dest \<Rightarrow> 'dest"
    and settled :: "'job \<Rightarrow> 'dest \<Rightarrow> bool"
  assumes deliver_settles: "settled j (deliver j d)"
    and settled_absorbs: "settled j d \<Longrightarrow> deliver j d = d"
    and settled_stable: "settled j d \<Longrightarrow> settled j (deliver k d)"
begin

primrec deliver_all :: "'job list \<Rightarrow> 'dest \<Rightarrow> 'dest" where
  "deliver_all [] d = d"
| "deliver_all (j # js) d = deliver_all js (deliver j d)"

lemma deliver_all_append: "deliver_all (xs @ ys) d = deliver_all ys (deliver_all xs d)"
  by (induction xs arbitrary: d) simp_all

lemma settled_through: "settled j d \<Longrightarrow> settled j (deliver_all js d)"
  by (induction js arbitrary: d) (simp_all add: settled_stable)

lemma all_settled: "j \<in> set js \<Longrightarrow> settled j (deliver_all js d)"
  by (induction js arbitrary: d) (auto simp: deliver_settles intro: settled_through)

lemma settled_noop: "\<forall>j \<in> set js. settled j d \<Longrightarrow> deliver_all js d = d"
  by (induction js) (simp_all add: settled_absorbs)

text \<open>Whatever was delivered before may be delivered again, in any order and number.\<close>

lemma redelivery_harmless:
  "set again \<subseteq> set js \<Longrightarrow> deliver_all (js @ again) d = deliver_all js d"
  by (auto simp: deliver_all_append intro!: settled_noop all_settled)

lemma duplicate_in_between:
  "deliver_all (xs @ [j] @ ys @ [j] @ zs) d = deliver_all (xs @ [j] @ ys @ zs) d"
proof -
  have "settled j (deliver_all (xs @ [j] @ ys) d)" by (rule all_settled) simp
  then have "deliver j (deliver_all (xs @ [j] @ ys) d) = deliver_all (xs @ [j] @ ys) d"
    by (rule settled_absorbs)
  then show ?thesis by (simp add: deliver_all_append)
qed

end

section \<open>Read-through caches with a time to live\<close>

text \<open>
  One request \<open>q\<close>: \<open>key_of q\<close> is the cache key, \<open>checked q\<close> the clock reading that decides a
  hit, \<open>stored q\<close> the one stamped on a fill, \<open>loaded q\<close> what the loader yields (\<open>None\<close> when it
  fails).  A value and its stamp are kept under the key.
\<close>

locale loading_cache =
  fixes entry :: "'cache \<Rightarrow> 'k \<Rightarrow> ('v \<times> int) option"
    and get :: "'cache \<Rightarrow> 'q \<Rightarrow> 'v option \<times> 'cache"
    and key_of :: "'q \<Rightarrow> 'k"
    and loaded :: "'q \<Rightarrow> 'v option"
    and checked :: "'q \<Rightarrow> int"
    and stored :: "'q \<Rightarrow> int"
    and ttl :: int
  assumes get_cases:
    "get c q = (r, c') \<Longrightarrow>
       (\<exists>v s. entry c (key_of q) = Some (v, s) \<and> checked q < s + ttl \<and> r = Some v \<and> c' = c) \<or>
       (\<exists>v. loaded q = Some v \<and> r = Some v \<and> entry c' = (entry c)(key_of q \<mapsto> (v, stored q))) \<or>
       (r = None \<and> c' = c)"
begin

primrec serve :: "'cache \<Rightarrow> 'q list \<Rightarrow> 'v option list" where
  "serve c [] = []"
| "serve c (q # qs) = (let (r, c') = get c q in r # serve c' qs)"

definition sourced :: "'q list \<Rightarrow> 'cache \<Rightarrow> bool" where
  "sourced past c \<longleftrightarrow>
     (\<forall>k v s. entry c k = Some (v, s) \<longrightarrow>
        (\<exists>q \<in> set past. key_of q = k \<and> loaded q = Some v \<and> stored q = s))"

lemma sourced_mono: "sourced past c \<Longrightarrow> sourced (past @ more) c"
  unfolding sourced_def by (metis UnI1 set_append)

lemma get_sourced:
  assumes "sourced past c" and "get c q = (r, c')"
  shows "sourced (past @ [q]) c'"
  using get_cases [OF assms(2)]
proof (elim disjE exE conjE)
  fix v assume v: "loaded q = Some v" and c': "entry c' = (entry c)(key_of q \<mapsto> (v, stored q))"
  have "\<exists>q' \<in> set (past @ [q]). key_of q' = k \<and> loaded q' = Some w \<and> stored q' = s"
    if e: "entry c' k = Some (w, s)" for k w s
  proof (cases "k = key_of q")
    case True
    with e v c' show ?thesis by auto
  next
    case False
    with e c' have "entry c k = Some (w, s)" by simp
    with assms(1) show ?thesis unfolding sourced_def by fastforce
  qed
  then show ?thesis unfolding sourced_def by blast
qed (use sourced_mono [OF assms(1)] in simp_all)

lemma get_fresh:
  assumes "sourced past c" and "get c q = (Some v, c')"
  shows "\<exists>q' \<in> set (past @ [q]). key_of q' = key_of q \<and> loaded q' = Some v \<and>
           (q' = q \<or> checked q < stored q' + ttl)"
  using get_cases [OF assms(2)]
proof (elim disjE exE conjE)
  fix w s assume "entry c (key_of q) = Some (w, s)" "checked q < s + ttl" "Some v = Some w"
  then show ?thesis using assms(1) unfolding sourced_def by fastforce
qed auto

text \<open>
  Every value served comes from a load made under the same key by this or an earlier request, and
  one that is not this request's own load was stored less than \<open>ttl\<close> before the check.
\<close>

lemma served_is_recent:
  assumes "sourced past c" and "i < length qs" and "serve c qs ! i = Some v"
  shows "\<exists>q' \<in> set (past @ take (Suc i) qs). key_of q' = key_of (qs ! i) \<and> loaded q' = Some v \<and>
           (q' = qs ! i \<or> checked (qs ! i) < stored q' + ttl)"
  using assms
proof (induction qs arbitrary: c past i)
  case Nil
  then show ?case by simp
next
  case (Cons q qs)
  obtain r c' where g: "get c q = (r, c')" by fastforce
  show ?case
  proof (cases i)
    case 0
    with Cons.prems g have "get c q = (Some v, c')" by simp
    from get_fresh [OF Cons.prems(1) this] 0 show ?thesis by simp
  next
    case (Suc j)
    have "sourced (past @ [q]) c'" using get_sourced [OF Cons.prems(1) g] by simp
    from Cons.IH [OF this, of j] Cons.prems Suc g show ?thesis by simp
  qed
qed

end

end
