(* ===== verification/Policy_Client.thy ===== *)
theory Policy_Client
  imports Policy_Engine Coodra_Interfaces
begin

text \<open>
  \<open>createPolicyClient\<close> of \<open>packages/policy/src/policy.ts\<close>: the SQLite queries that load the rules,
  exceptions and grants of a project, the revision string that guards the cache, the cache itself
  and \<open>evaluate\<close> with its fail-open and fail-closed branches.

  The timeout-and-breaker fuse is the third-party package \<open>cockatiel\<close>: for each of the two reads of
  one evaluation the environment says whether it let the read through or which error it raised.
  The database may change between the two reads, so each has its own database value; the clock
  readings of one evaluation are the environment's as well.
\<close>

section \<open>The policy tables\<close>

text \<open>Row times are the stored whole seconds; \<open>starts_at\<close> and \<open>expires_at\<close> are milliseconds.\<close>

record policy_row =
  po_id :: string
  po_projectId :: string
  po_enforcementMode :: string
  po_denyOnPolicyError :: bool
  po_isActive :: bool
  po_createdAt :: int
  po_updatedAt :: int

record stored_rule =
  sr_row :: rule_row
  sr_createdAt :: int
  sr_updatedAt :: "int option"

record version_row =
  pv_id :: string
  pv_projectId :: "string option"
  pv_policyId :: string
  pv_status :: string
  pv_createdAt :: int
  pv_retiredAt :: "int option"

record policy_db =
  db_policies :: "policy_row list"
  db_rules :: "stored_rule list"
  db_versions :: "version_row list"
  db_exceptions :: "exception_row list"
  db_grants :: "grant_row list"

record loaded_state =
  ls_rules :: "compiled_rule list"
  ls_exceptions :: "compiled_exception list"
  ls_grants :: "compiled_grant list"

text \<open>
  The join: each rule with its policy and each active version of it, or none.  The columns of the
  policy and the version replace those the rule row carries.
\<close>

definition active_versions :: "policy_db \<Rightarrow> string \<Rightarrow> string option list" where
  "active_versions db pid =
     (case filter (\<lambda>v. pv_policyId v = pid \<and> pv_status v = ''active'') (db_versions db) of
        [] \<Rightarrow> [None]
      | vs \<Rightarrow> map (\<lambda>v. Some (pv_id v)) vs)"

definition in_project :: "string option \<Rightarrow> string option \<Rightarrow> bool" where
  "in_project want got \<longleftrightarrow> (case want of None \<Rightarrow> True | Some p \<Rightarrow> got = Some p)"

definition joined_rules :: "policy_db \<Rightarrow> string option \<Rightarrow> rule_row list" where
  "joined_rules db projectId =
     concat (map (\<lambda>s. concat (map (\<lambda>p.
       map (\<lambda>v. (sr_row s)\<lparr>rr_policyVersionId := v,
                     rr_policyEnforcementMode := po_enforcementMode p,
                     rr_policyDenyOnPolicyError := po_denyOnPolicyError p\<rparr>)
         (active_versions db (po_id p)))
       (filter (\<lambda>p. po_id p = rr_policyId (sr_row s) \<and> po_isActive p \<and>
                    in_project projectId (Some (po_projectId p))) (db_policies db))))
       (db_rules db))"

definition loadPolicyState ::
  "glob_matcher \<Rightarrow> (string \<Rightarrow> js option) \<Rightarrow> policy_db \<Rightarrow> string option \<Rightarrow> loaded_state"
where
  "loadPolicyState pm jparse db projectId =
     \<lparr> ls_rules =
         map (\<lambda>row. (compileRule pm row)\<lparr>cr_policyVersionId := rr_policyVersionId row\<rparr>)
           (order_by rr_priority (joined_rules db projectId)),
       ls_exceptions =
         map (compileException jparse)
           (order_by_desc xr_createdAt
             (filter (\<lambda>x. xr_status x = ''active'' \<and> in_project projectId (xr_projectId x))
               (db_exceptions db))),
       ls_grants =
         map (compileGrant jparse)
           (order_by_desc gr_createdAt
             (filter (\<lambda>g. gr_revokedAt g = None \<and>
                (projectId = None \<or> gr_projectId g = None \<or> gr_projectId g = projectId))
               (db_grants db))) \<rparr>"

section \<open>The revision string\<close>

text \<open>SQL \<open>MAX\<close> skips nulls and is null over none.\<close>

definition sql_max :: "int option list \<Rightarrow> int option" where
  "sql_max xs = (case List.map_filter id xs of [] \<Rightarrow> None | y # ys \<Rightarrow> Some (foldl max y ys))"

definition rev_scope :: "string option \<Rightarrow> string option \<Rightarrow> bool" where
  "rev_scope projectId row_project \<longleftrightarrow>
     projectId = None \<or> row_project = None \<or> row_project = projectId"

text \<open>Per table: count, newest creation, newest update, newest revocation, newest retirement.\<close>

definition revision_fields :: "policy_db \<Rightarrow> string option \<Rightarrow> int option list list" where
  "revision_fields db projectId =
     (let ps = filter (\<lambda>p. rev_scope projectId (Some (po_projectId p))) (db_policies db);
          rs = concat (map (\<lambda>s. map (\<lambda>p. s)
                 (filter (\<lambda>p. po_id p = rr_policyId (sr_row s)) ps)) (db_rules db));
          vs = filter (\<lambda>v. rev_scope projectId (pv_projectId v)) (db_versions db);
          xs = filter (\<lambda>x. rev_scope projectId (xr_projectId x)) (db_exceptions db);
          gs = filter (\<lambda>g. rev_scope projectId (gr_projectId g)) (db_grants db)
      in [ [Some (int (length ps)), sql_max (map (Some \<circ> po_createdAt) ps),
            sql_max (map (Some \<circ> po_updatedAt) ps), None, None],
           [Some (int (length rs)), sql_max (map (Some \<circ> sr_createdAt) rs),
            sql_max (map sr_updatedAt rs), None, None],
           [Some (int (length vs)), sql_max (map (Some \<circ> pv_createdAt) vs), None, None,
            sql_max (map pv_retiredAt vs)],
           [Some (int (length xs)), sql_max (map (Some \<circ> xr_createdAt) xs),
            sql_max (map xr_updatedAt xs), sql_max (map xr_revokedAt xs), None],
           [Some (int (length gs)), sql_max (map (Some \<circ> gr_createdAt) gs), None,
            sql_max (map gr_revokedAt gs), None] ])"

definition normalizeRevisionPart :: "int option \<Rightarrow> string" where
  "normalizeRevisionPart v = (case v of None \<Rightarrow> [] | Some n \<Rightarrow> int_string n)"

definition revisionPart :: "int option list \<Rightarrow> string" where
  "revisionPart row = join '':'' (map normalizeRevisionPart row)"

definition loadPolicyStateRevision :: "policy_db \<Rightarrow> string option \<Rightarrow> string" where
  "loadPolicyStateRevision db projectId =
     join ''|'' (map revisionPart (revision_fields db projectId))"

section \<open>The cache and the evaluation\<close>

record cache_entry =
  ca_state :: loaded_state
  ca_loadedAt :: int
  ca_revision :: string

type_synonym policy_cache = "string \<Rightarrow> cache_entry option"

datatype exec_error = BrokenCircuitError | IsolatedCircuitError | TaskCancelledError | OtherError

record eval_env =
  ee_revisionFault :: "exec_error option"
  ee_loadFault :: "exec_error option"
  ee_revisionDb :: policy_db
  ee_loadDb :: policy_db
  ee_checkedAt :: int
  ee_storedAt :: int
  ee_now :: int
  ee_grantNow :: int

record policy_config =
  pc_pm :: glob_matcher
  pc_jparse :: "string \<Rightarrow> js option"
  pc_num_str :: "rat \<Rightarrow> string"
  pc_cacheTtlMs :: int

definition cache_key :: "string option \<Rightarrow> string" where
  "cache_key projectId = nullish projectId ''__global__''"

definition getPolicyState ::
  "policy_config \<Rightarrow> policy_cache \<Rightarrow> string option \<Rightarrow> eval_env \<Rightarrow>
   (exec_error + loaded_state) \<times> policy_cache"
where
  "getPolicyState cfg cache projectId env =
     (let key = cache_key projectId; cached = cache key in
      case ee_revisionFault env of
        Some e \<Rightarrow> (Inl e, cache)
      | None \<Rightarrow>
          (let revision = loadPolicyStateRevision (ee_revisionDb env) projectId in
           if (case cached of
                 None \<Rightarrow> False
               | Some c \<Rightarrow> ca_revision c = revision \<and>
                           ee_checkedAt env - ca_loadedAt c < pc_cacheTtlMs cfg)
           then (Inr (ca_state (the cached)), cache)
           else
             (case ee_loadFault env of
                Some e \<Rightarrow> (Inl e, cache)
              | None \<Rightarrow>
                  (let state = loadPolicyState (pc_pm cfg) (pc_jparse cfg) (ee_loadDb env) projectId
                   in (Inr state,
                       cache(key \<mapsto> \<lparr> ca_state = state, ca_loadedAt = ee_storedAt env,
                                        ca_revision = revision \<rparr>))))))"

definition FAIL_OPEN_RESULT :: policy_result where
  "FAIL_OPEN_RESULT =
     \<lparr> pr_decision = Allow, pr_baseDecision = Allow, pr_governanceVerdict = Pass,
       pr_enforcementMode = Detective, pr_reason = ''policy_check_unavailable'',
       pr_matchedRuleId = None, pr_matchedCapability = None, pr_matchedExceptionId = None,
       pr_matchedGrantId = None, pr_policyVersionId = None \<rparr>"

definition failClosedResultFromWarmCache ::
  "glob_matcher \<Rightarrow> cache_entry option \<Rightarrow> policy_input \<Rightarrow> policy_result option"
where
  "failClosedResultFromWarmCache pm cached i =
     (case cached of
        None \<Rightarrow> None
      | Some c \<Rightarrow>
          (case evaluateRules pm (ls_rules (ca_state c)) i of
             None \<Rightarrow> None
           | Some m \<Rightarrow>
               if \<not> cr_denyOnPolicyError m then None
               else if effectiveDecisionForRule m \<noteq> Deny then None
               else Some \<lparr> pr_decision = Deny, pr_baseDecision = Deny,
                           pr_governanceVerdict = cr_governanceVerdict m,
                           pr_enforcementMode = cr_enforcementMode m,
                           pr_reason = ''policy_check_unavailable'',
                           pr_matchedRuleId = Some (cr_id m),
                           pr_matchedCapability = cr_requiredCapability m,
                           pr_matchedExceptionId = None, pr_matchedGrantId = None,
                           pr_policyVersionId = cr_policyVersionId m \<rparr>))"

text \<open>The part of \<open>evaluate\<close> after the state is in hand.\<close>

definition decide ::
  "policy_config \<Rightarrow> loaded_state \<Rightarrow> policy_input \<Rightarrow> int \<Rightarrow> int \<Rightarrow> policy_result"
where
  "decide cfg st i now grantNow =
     (case evaluateRules (pc_pm cfg) (ls_rules st) i of
        None \<Rightarrow>
          (case applyException (pc_pm cfg) (ls_exceptions st) None i now of
             Some x \<Rightarrow>
               \<lparr> pr_decision = ce_decisionOverride x, pr_baseDecision = Allow,
                 pr_governanceVerdict = Pass, pr_enforcementMode = Detective,
                 pr_reason = ce_reason x, pr_matchedRuleId = None, pr_matchedCapability = None,
                 pr_matchedExceptionId = Some (ce_id x), pr_matchedGrantId = None,
                 pr_policyVersionId = ce_policyVersionId x \<rparr>
           | None \<Rightarrow>
               \<lparr> pr_decision = Allow, pr_baseDecision = Allow, pr_governanceVerdict = Pass,
                 pr_enforcementMode = Detective, pr_reason = ''no_rule_matched'',
                 pr_matchedRuleId = None, pr_matchedCapability = None,
                 pr_matchedExceptionId = None, pr_matchedGrantId = None,
                 pr_policyVersionId = None \<rparr>)
      | Some m \<Rightarrow>
          (let baseDecision = effectiveDecisionForRule m in
           case applyException (pc_pm cfg) (ls_exceptions st) (Some m) i now of
             Some x \<Rightarrow>
               \<lparr> pr_decision = ce_decisionOverride x, pr_baseDecision = baseDecision,
                 pr_governanceVerdict = cr_governanceVerdict m,
                 pr_enforcementMode = cr_enforcementMode m,
                 pr_reason = ce_reason x, pr_matchedRuleId = Some (cr_id m),
                 pr_matchedCapability = cr_requiredCapability m,
                 pr_matchedExceptionId = Some (ce_id x), pr_matchedGrantId = None,
                 pr_policyVersionId = nullish_opt (ce_policyVersionId x) (cr_policyVersionId m) \<rparr>
           | None \<Rightarrow>
               (case (if baseDecision = Ask \<or> (baseDecision = Allow \<and> cr_enforcementMode m = Approval)
                      then applyGrant (pc_pm cfg) (pc_num_str cfg) (ls_grants st) m i grantNow
                      else None) of
                  Some g \<Rightarrow>
                    (case cg_decisionOverride g of
                       Some d \<Rightarrow>
                         \<lparr> pr_decision = d, pr_baseDecision = baseDecision,
                           pr_governanceVerdict = cr_governanceVerdict m,
                           pr_enforcementMode = cr_enforcementMode m,
                           pr_reason = cg_reason g, pr_matchedRuleId = Some (cr_id m),
                           pr_matchedCapability = cr_requiredCapability m,
                           pr_matchedExceptionId = None, pr_matchedGrantId = Some (cg_id g),
                           pr_policyVersionId = cr_policyVersionId m \<rparr>
                     | None \<Rightarrow>
                         \<lparr> pr_decision = baseDecision, pr_baseDecision = baseDecision,
                           pr_governanceVerdict = cr_governanceVerdict m,
                           pr_enforcementMode = cr_enforcementMode m,
                           pr_reason = cr_reason m, pr_matchedRuleId = Some (cr_id m),
                           pr_matchedCapability = cr_requiredCapability m,
                           pr_matchedExceptionId = None, pr_matchedGrantId = None,
                           pr_policyVersionId = cr_policyVersionId m \<rparr>)
                | None \<Rightarrow>
                    \<lparr> pr_decision = baseDecision, pr_baseDecision = baseDecision,
                      pr_governanceVerdict = cr_governanceVerdict m,
                      pr_enforcementMode = cr_enforcementMode m,
                      pr_reason = cr_reason m, pr_matchedRuleId = Some (cr_id m),
                      pr_matchedCapability = cr_requiredCapability m,
                      pr_matchedExceptionId = None, pr_matchedGrantId = None,
                      pr_policyVersionId = cr_policyVersionId m \<rparr>)))"

definition evaluate ::
  "policy_config \<Rightarrow> policy_cache \<Rightarrow> policy_input \<Rightarrow> eval_env \<Rightarrow> policy_result \<times> policy_cache"
where
  "evaluate cfg cache i env =
     (case getPolicyState cfg cache (pi_projectId i) env of
        (Inl _, cache') \<Rightarrow>
          (case failClosedResultFromWarmCache (pc_pm cfg) (cache' (cache_key (pi_projectId i))) i of
             Some r \<Rightarrow> (r, cache')
           | None \<Rightarrow> (FAIL_OPEN_RESULT, cache'))
      | (Inr st, cache') \<Rightarrow> (decide cfg st i (ee_now env) (ee_grantNow env), cache'))"

section \<open>Loading\<close>

definition stamp_version :: "glob_matcher \<Rightarrow> rule_row \<Rightarrow> compiled_rule" where
  "stamp_version pm row = (compileRule pm row)\<lparr>cr_policyVersionId := rr_policyVersionId row\<rparr>"

lemma stamp_version_priority [simp]: "cr_priority (stamp_version pm row) = rr_priority row"
  by (simp add: stamp_version_def compileRule_def Let_def)

lemma loaded_rules:
  "ls_rules (loadPolicyState pm jp db p) = map (stamp_version pm) (order_by rr_priority (joined_rules db p))"
  by (simp add: loadPolicyState_def stamp_version_def [abs_def])

lemma loaded_rules_sorted: "sorted (map cr_priority (ls_rules (loadPolicyState pm jp db p)))"
  using order_by_sorted [of rr_priority "joined_rules db p"]
  by (simp add: loaded_rules comp_def)

lemma joined_rules_active:
  assumes "row \<in> set (joined_rules db projectId)"
  shows "\<exists>p \<in> set (db_policies db). po_id p = rr_policyId row \<and> po_isActive p \<and>
           in_project projectId (Some (po_projectId p))"
  using assms by (auto simp: joined_rules_def)

text \<open>Of the stored rules of active policies of the project that apply to a call, the one
  that decides has the least priority number: the load orders by priority and the loop keeps the
  first match.\<close>

theorem lowest_priority_decides:
  assumes "evaluateRules pm (ls_rules (loadPolicyState pm jp db projectId)) i = Some r"
  shows "(\<exists>row \<in> set (joined_rules db projectId). r = stamp_version pm row) \<and> applies_to pm i r \<and>
         (\<forall>row \<in> set (joined_rules db projectId).
            applies_to pm i (stamp_version pm row) \<longrightarrow> cr_priority r \<le> rr_priority row)"
proof -
  let ?rules = "ls_rules (loadPolicyState pm jp db projectId)"
  obtain us vs where split: "?rules = us @ r # vs" and r: "applies_to pm i r"
    and us: "\<forall>u \<in> set us. \<not> applies_to pm i u"
    using assms by (auto simp: evaluateRules_find find_first_match)
  have rules: "set ?rules = stamp_version pm ` set (joined_rules db projectId)"
    by (simp add: loaded_rules)
  have "cr_priority r \<le> rr_priority row"
    if row: "row \<in> set (joined_rules db projectId)" and app: "applies_to pm i (stamp_version pm row)" for row
  proof -
    have "stamp_version pm row \<in> set (r # vs)" using rules row app us split by auto
    moreover have "sorted (map cr_priority (r # vs))"
      using loaded_rules_sorted [of pm jp db projectId] unfolding split by (simp add: sorted_append)
    ultimately have "cr_priority r \<le> cr_priority (stamp_version pm row)" by auto
    then show ?thesis by simp
  qed
  moreover have "r \<in> stamp_version pm ` set (joined_rules db projectId)"
    using rules split by (metis in_set_conv_decomp)
  ultimately show ?thesis using r by blast
qed

section \<open>The revision determines the counts and maxima\<close>

lemma revision_part_chars:
  "c \<in> set (normalizeRevisionPart v) \<Longrightarrow> is_digit c \<or> c = CHR ''-''"
  by (auto simp: normalizeRevisionPart_def dest: int_string_chars split: option.splits)

lemma normalizeRevisionPart_inj: "normalizeRevisionPart v = normalizeRevisionPart w \<longleftrightarrow> v = w"
  by (auto simp: normalizeRevisionPart_def int_string_inj split: option.splits dest: sym)

lemma not_digit_separators: "\<not> is_digit (CHR '':'')" "\<not> is_digit (CHR ''|'')"
  by (simp_all add: is_digit_def)

lemma join_chars: "c \<in> set (join sep xs) \<Longrightarrow> c \<in> set sep \<or> (\<exists>x \<in> set xs. c \<in> set x)"
  by (induction sep xs rule: join.induct) auto

lemma revisionPart_chars: "CHR ''|'' \<notin> set (revisionPart row)"
  using not_digit_separators(2)
  by (auto simp: revisionPart_def dest!: join_chars revision_part_chars)

lemma normalizeRevisionPart_no_colon: "CHR '':'' \<notin> set (normalizeRevisionPart v)"
  using not_digit_separators(1) revision_part_chars by fastforce

lemma map_inj_eq: "inj f \<Longrightarrow> map f xs = map f ys \<Longrightarrow> xs = ys"
  by (simp add: inj_map_eq_map)

lemma revisionPart_inj:
  assumes "length v = length w" and "revisionPart v = revisionPart w"
  shows "v = w"
proof (rule map_inj_eq)
  show "inj normalizeRevisionPart" by (simp add: inj_on_def normalizeRevisionPart_inj)
  show "map normalizeRevisionPart v = map normalizeRevisionPart w"
    by (rule join_inj [of _ _ "CHR '':''"])
      (use assms in \<open>auto simp: revisionPart_def normalizeRevisionPart_no_colon\<close>)
qed

lemma revision_fields_shape:
  "length (revision_fields db p) = 5 \<and> (\<forall>row \<in> set (revision_fields db p). length row = 5)"
  by (simp add: revision_fields_def Let_def)

lemma revision_fields_row:
  "k < length (revision_fields db p) \<Longrightarrow> length (revision_fields db p ! k) = 5"
  using revision_fields_shape [of db p] nth_mem by blast

text \<open>Two revision strings are equal exactly when all twenty-five recorded counts and maxima
  are: the separators cannot occur in a rendered number, so the string loses nothing.\<close>

theorem revision_string_faithful:
  "loadPolicyStateRevision db p = loadPolicyStateRevision db' p' \<longleftrightarrow>
     revision_fields db p = revision_fields db' p'"
proof
  assume eq: "loadPolicyStateRevision db p = loadPolicyStateRevision db' p'"
  have m: "map revisionPart (revision_fields db p) = map revisionPart (revision_fields db' p')"
    by (rule join_inj [of _ _ "CHR ''|''"])
      (use eq revisionPart_chars revision_fields_shape [of db p] revision_fields_shape [of db' p']
        in \<open>auto simp: loadPolicyStateRevision_def\<close>)
  show "revision_fields db p = revision_fields db' p'"
  proof (rule nth_equalityI)
    show len: "length (revision_fields db p) = length (revision_fields db' p')"
      by (simp add: revision_fields_shape)
    fix k assume k: "k < length (revision_fields db p)"
    have "revisionPart (revision_fields db p ! k) = revisionPart (revision_fields db' p' ! k)"
      using arg_cong [OF m, of "\<lambda>xs. xs ! k"] k len by simp
    then show "revision_fields db p ! k = revision_fields db' p' ! k"
      using k len by (intro revisionPart_inj) (simp_all add: revision_fields_row)
  qed
qed (simp add: loadPolicyStateRevision_def)

section \<open>The cache as a loading cache\<close>

text \<open>One request of the cache: the project asked for and the environment of the evaluation.\<close>

definition cached_state :: "policy_cache \<Rightarrow> string \<Rightarrow> (loaded_state \<times> int) option" where
  "cached_state cache key = map_option (\<lambda>c. (ca_state c, ca_loadedAt c)) (cache key)"

definition fetch_state ::
  "policy_config \<Rightarrow> policy_cache \<Rightarrow> string option \<times> eval_env \<Rightarrow> loaded_state option \<times> policy_cache"
where
  "fetch_state cfg cache q =
     (case getPolicyState cfg cache (fst q) (snd q) of
        (Inl _, c) \<Rightarrow> (None, c) | (Inr st, c) \<Rightarrow> (Some st, c))"

definition load_result ::
  "policy_config \<Rightarrow> string option \<times> eval_env \<Rightarrow> loaded_state option"
where
  "load_result cfg q =
     (if ee_revisionFault (snd q) = None \<and> ee_loadFault (snd q) = None
      then Some (loadPolicyState (pc_pm cfg) (pc_jparse cfg) (ee_loadDb (snd q)) (fst q))
      else None)"

lemma getPolicyState_fault:
  "getPolicyState cfg cache p env = (Inl e, c') \<Longrightarrow> c' = cache"
  by (auto simp: getPolicyState_def Let_def split: option.splits if_splits)

lemma getPolicyState_cases:
  assumes "getPolicyState cfg cache p env = (Inr st, c')"
  shows "(\<exists>c. cache (cache_key p) = Some c \<and> ca_state c = st \<and> c' = cache \<and>
            ca_revision c = loadPolicyStateRevision (ee_revisionDb env) p \<and>
            ee_checkedAt env - ca_loadedAt c < pc_cacheTtlMs cfg) \<or>
         (load_result cfg (p, env) = Some st \<and>
          c' = cache(cache_key p \<mapsto> \<lparr> ca_state = st, ca_loadedAt = ee_storedAt env,
            ca_revision = loadPolicyStateRevision (ee_revisionDb env) p \<rparr>))"
  using assms
  by (auto simp: getPolicyState_def load_result_def Let_def split: option.splits if_splits)

interpretation pcache: loading_cache cached_state "fetch_state cfg" "cache_key \<circ> fst"
  "load_result cfg" "ee_checkedAt \<circ> snd" "ee_storedAt \<circ> snd" "pc_cacheTtlMs cfg" for cfg
proof
  fix c q r c' assume f: "fetch_state cfg c q = (r, c')"
  obtain p env where q: "q = (p, env)" by fastforce
  consider e where "getPolicyState cfg c p env = (Inl e, c')" "r = None"
    | st where "getPolicyState cfg c p env = (Inr st, c')" "r = Some st"
    using f q by (auto simp: fetch_state_def split: prod.splits sum.splits)
  then show "(\<exists>v s. cached_state c ((cache_key \<circ> fst) q) = Some (v, s) \<and>
        (ee_checkedAt \<circ> snd) q < s + pc_cacheTtlMs cfg \<and> r = Some v \<and> c' = c) \<or>
      (\<exists>v. load_result cfg q = Some v \<and> r = Some v \<and>
        cached_state c' = (cached_state c)((cache_key \<circ> fst) q \<mapsto> (v, (ee_storedAt \<circ> snd) q))) \<or>
      (r = None \<and> c' = c)"
  proof cases
    case 1
    then show ?thesis using getPolicyState_fault by blast
  next
    case 2
    from getPolicyState_cases [OF 2(1)] show ?thesis
      by (rule disjE) (use 2 q in \<open>auto simp: cached_state_def fun_eq_iff\<close>)
  qed
qed

text \<open>Starting from an empty cache, every policy state handed out in a run of requests was
  loaded from the database for the same cache slot by that request or an earlier one, and one that
  was not loaded by the request itself was stored less than the time to live before its check:
  staleness is bounded whatever the revision string says.\<close>

theorem policy_state_recent:
  assumes "i < length qs" and "pcache.serve cfg (\<lambda>_. None) qs ! i = Some st"
  shows "\<exists>q \<in> set (take (Suc i) qs). cache_key (fst q) = cache_key (fst (qs ! i)) \<and>
           load_result cfg q = Some st \<and>
           (q = qs ! i \<or> ee_checkedAt (snd (qs ! i)) < ee_storedAt (snd q) + pc_cacheTtlMs cfg)"
  using pcache.served_is_recent [where past = "[]" and c = "\<lambda>_. None" and cfg = cfg] assms
  by (simp add: pcache.sourced_def cached_state_def)

section \<open>Fail open, fail closed\<close>

text \<open>C5: When a read of the policy state fails, the cache is untouched and the answer is a denial
  exactly when the warm cache holds, for the slot, a first matching rule that enforces a denial and
  belongs to a policy with deny-on-error; every other call is allowed with the fail-open result.\<close>

theorem evaluate_on_fault:
  assumes "getPolicyState cfg cache (pi_projectId i) env = (Inl e, cache')"
  shows "snd (evaluate cfg cache i env) = cache \<and>
    (pr_decision (fst (evaluate cfg cache i env)) = Deny \<longleftrightarrow>
       (\<exists>c m. cache (cache_key (pi_projectId i)) = Some c \<and>
          evaluateRules (pc_pm cfg) (ls_rules (ca_state c)) i = Some m \<and>
          cr_denyOnPolicyError m \<and> effectiveDecisionForRule m = Deny)) \<and>
    (pr_decision (fst (evaluate cfg cache i env)) \<noteq> Deny \<longrightarrow>
       fst (evaluate cfg cache i env) = FAIL_OPEN_RESULT)"
  using assms getPolicyState_fault [OF assms]
  by (auto simp: evaluate_def failClosedResultFromWarmCache_def FAIL_OPEN_RESULT_def
      split: option.splits if_splits)

section \<open>Where a decision comes from\<close>

lemma decide_unmatched:
  "evaluateRules (pc_pm cfg) (ls_rules st) i = None \<Longrightarrow>
   pr_decision (decide cfg st i now gn) =
     (case applyException (pc_pm cfg) (ls_exceptions st) None i now of
        None \<Rightarrow> Allow | Some x \<Rightarrow> ce_decisionOverride x)"
  by (simp add: decide_def split: option.splits)

lemma decide_excepted:
  "evaluateRules (pc_pm cfg) (ls_rules st) i = Some m \<Longrightarrow>
   applyException (pc_pm cfg) (ls_exceptions st) (Some m) i now = Some x \<Longrightarrow>
   pr_decision (decide cfg st i now gn) = ce_decisionOverride x"
  by (simp add: decide_def Let_def)

text \<open>An exception that covers a call: it has begun and not run out, its scope holds the tool and the path of the call,
  and when a rule decided, it names that rule's policy and, where it names them, its rule and version.\<close>

definition exception_covers ::
  "glob_matcher \<Rightarrow> compiled_exception \<Rightarrow> compiled_rule option \<Rightarrow> policy_input \<Rightarrow> int \<Rightarrow> bool"
where
  "exception_covers pm x rule i now \<longleftrightarrow>
     (\<forall>s. ce_startsAt x = Some s \<longrightarrow> s \<le> now) \<and> (\<forall>e. ce_expiresAt x = Some e \<longrightarrow> now \<le> e) \<and>
     (\<forall>t. as_nonempty (js_get (ce_scope x) ''toolName'') = Some t \<longrightarrow> t = pi_toolName i) \<and>
     (\<forall>g. as_nonempty (js_get (ce_scope x) ''pathGlob'') = Some g \<longrightarrow>
        extractPath (pi_input i) \<noteq> [] \<and> pm g False (extractPath (pi_input i))) \<and>
     (\<forall>r. rule = Some r \<longrightarrow>
        ce_policyId x = cr_policyId r \<and> ce_ruleId x \<in> {None, Some (cr_id r)} \<and>
        (ce_policyVersionId x = None \<or> ce_policyVersionId x = cr_policyVersionId r))"

text \<open>A grant that covers a call of an approval rule: not revoked, not run out, for that rule and a capability of the
  call, and each part of its scope, the fingerprint of a similar task included, is that of the call.\<close>

definition grant_covers ::
  "glob_matcher \<Rightarrow> (rat \<Rightarrow> string) \<Rightarrow> compiled_grant \<Rightarrow> compiled_rule \<Rightarrow> policy_input \<Rightarrow> int \<Rightarrow> bool"
where
  "grant_covers pm num_str g r i now \<longleftrightarrow>
     cg_grantKind g = ''decision_override'' \<and> cg_revokedAt g = None \<and> (\<forall>e. cg_expiresAt g = Some e \<longrightarrow> now \<le> e) \<and>
     cg_targetRuleId g \<in> {None, Some (cr_id r)} \<and>
     (\<forall>c. cg_targetCapability g = Some c \<longrightarrow> c \<in> set (nullish (pi_activeCapabilities i) [])) \<and>
     (cg_scopeType g = ''similar_task'' \<longrightarrow>
        Some (buildPolicyGrantFingerprint num_str (pi_toolName i) (pi_input i)) \<in>
          {cg_grantFingerprint g, as_nonempty (js_get (cg_scope g) ''fingerprint'')}) \<and>
     (\<forall>s. as_nonempty (js_get (cg_scope g) ''sessionId'') = Some s \<longrightarrow> s = pi_sessionId i) \<and>
     (\<forall>t. as_nonempty (js_get (cg_scope g) ''toolName'') = Some t \<longrightarrow> t = pi_toolName i) \<and>
     (\<forall>p. as_nonempty (js_get (cg_scope g) ''pathGlob'') = Some p \<longrightarrow>
        extractPath (pi_input i) \<noteq> [] \<and> pm p False (extractPath (pi_input i))) \<and>
     (\<forall>p. as_nonempty (js_get (cg_scope g) ''commandPattern'') = Some p \<longrightarrow>
        extractCommand (pi_input i) \<noteq> [] \<and> pm p True (extractCommand (pi_input i)))"

lemma exceptionMatches_covers:
  assumes "exceptionMatches pm x rule i now"
  shows "exception_covers pm x rule i now"
  using assms unfolding exceptionMatches_def exception_covers_def
  by (auto split: if_splits option.splits simp del: as_nonempty_Some)

lemma grantMatches_covers:
  assumes "grantMatches pm ns g r i now"
  shows "grant_covers pm ns g r i now"
  using assms unfolding grantMatches_def grant_covers_def Let_def
  by (auto split: if_splits option.splits simp del: as_nonempty_Some)

text \<open>C6: A call is denied, once the state is in hand, only for one of three reasons, and the result names which: the
  first rule that applies enforces a denial; or an exception that covers this call, by time, scope and the rule that
  decided, overrides to deny; or the first rule that applies asks for approval and a grant that covers this call, by
  time, target, fingerprint and scope, answers it with deny.\<close>

theorem deny_has_a_cause:
  assumes "pr_decision (decide cfg st i now grantNow) = Deny"
  shows "(\<exists>r \<in> set (ls_rules st). evaluateRules (pc_pm cfg) (ls_rules st) i = Some r \<and> applies_to (pc_pm cfg) i r \<and>
            effectiveDecisionForRule r = Deny \<and> pr_matchedRuleId (decide cfg st i now grantNow) = Some (cr_id r) \<and>
            pr_matchedExceptionId (decide cfg st i now grantNow) = None) \<or>
         (\<exists>x \<in> set (ls_exceptions st). ce_decisionOverride x = Deny \<and>
            exception_covers (pc_pm cfg) x (evaluateRules (pc_pm cfg) (ls_rules st) i) i now \<and>
            pr_matchedExceptionId (decide cfg st i now grantNow) = Some (ce_id x)) \<or>
         (\<exists>g \<in> set (ls_grants st). \<exists>r \<in> set (ls_rules st).
            evaluateRules (pc_pm cfg) (ls_rules st) i = Some r \<and> applies_to (pc_pm cfg) i r \<and>
            (effectiveDecisionForRule r = Ask \<or> effectiveDecisionForRule r = Allow \<and> cr_enforcementMode r = Approval) \<and>
            cg_decisionOverride g = Some Deny \<and> grant_covers (pc_pm cfg) (pc_num_str cfg) g r i grantNow \<and>
            pr_matchedRuleId (decide cfg st i now grantNow) = Some (cr_id r) \<and>
            pr_matchedGrantId (decide cfg st i now grantNow) = Some (cg_id g))"
proof (cases "evaluateRules (pc_pm cfg) (ls_rules st) i")
  case None
  with assms obtain x where x: "applyException (pc_pm cfg) (ls_exceptions st) None i now = Some x"
      "ce_decisionOverride x = Deny"
    by (auto simp: decide_unmatched split: option.splits)
  from applyException_Some_D [OF x(1)] x None show ?thesis
    by (auto simp: decide_def dest: exceptionMatches_covers)
next
  case (Some m)
  note m = evaluateRules_Some_D [OF Some]
  show ?thesis
  proof (cases "applyException (pc_pm cfg) (ls_exceptions st) (Some m) i now")
    case ex: (Some x)
    from applyException_Some_D [OF ex] ex Some assms show ?thesis
      by (auto simp: decide_def Let_def dest: exceptionMatches_covers)
  next
    case None
    show ?thesis
    proof (cases "applyGrant (pc_pm cfg) (pc_num_str cfg) (ls_grants st) m i grantNow")
      case g: (Some g)
      have "g \<in> set (ls_grants st)" "grant_covers (pc_pm cfg) (pc_num_str cfg) g m i grantNow"
        using applyGrant_Some_D [OF g] grantMatches_covers by blast+
      then show ?thesis using assms Some None g m
        by (auto simp: decide_def Let_def split: if_splits option.splits)
    next
      case no_grant: None
      then show ?thesis using assms Some None m
        by (auto simp: decide_def Let_def split: if_splits)
    qed
  qed
qed

text \<open>A grant never overrides a preventive denial: when the deciding rule enforces a denial and
  no exception applies, the call is denied by that rule whatever grants are in force.\<close>

theorem grants_never_lift_denials:
  assumes "evaluateRules (pc_pm cfg) (ls_rules st) i = Some m"
    and "effectiveDecisionForRule m = Deny"
    and "applyException (pc_pm cfg) (ls_exceptions st) (Some m) i now = None"
  shows "pr_decision (decide cfg (st\<lparr>ls_grants := gs\<rparr>) i now grantNow) = Deny \<and>
         pr_matchedGrantId (decide cfg (st\<lparr>ls_grants := gs\<rparr>) i now grantNow) = None \<and>
         pr_matchedRuleId (decide cfg (st\<lparr>ls_grants := gs\<rparr>) i now grantNow) = Some (cr_id m)"
  using assms by (simp add: decide_def Let_def)

text \<open>When no rule matches a call, the rule and policy an exception was written for play no
  part: the decision is that of the first exception whose dates and tool and path selectors hold,
  even if it names a rule that does not apply to the call.\<close>

theorem unmatched_call_ignores_exception_target:
  assumes "evaluateRules (pc_pm cfg) (ls_rules st) i = None"
    and "xs = map (\<lambda>x. x\<lparr>ce_ruleId := f x, ce_policyId := g x\<rparr>) (ls_exceptions st)"
  shows "pr_decision (decide cfg (st\<lparr>ls_exceptions := xs\<rparr>) i now grantNow) =
         pr_decision (decide cfg st i now grantNow)"
proof -
  have same: "exceptionMatches pm (x\<lparr>ce_ruleId := a, ce_policyId := b\<rparr>) None i now =
      exceptionMatches pm x None i now" for pm x a b
    by (simp add: exceptionMatches_def)
  have "map_option ce_decisionOverride (applyException pm (map (\<lambda>x. x\<lparr>ce_ruleId := f x, ce_policyId := g x\<rparr>) ys) None i now) =
      map_option ce_decisionOverride (applyException pm ys None i now)" for pm ys
    by (induction ys) (simp_all add: same)
  from this [of "pc_pm cfg" "ls_exceptions st"] show ?thesis
    using assms by (auto simp: decide_unmatched split: option.splits)
qed

section \<open>A change the revision does not see\<close>

text \<open>While an entry is younger than the time to live, the cache keeps serving the state loaded
  from an earlier database whenever the counts and maxima agree, whatever else differs: row times
  are whole seconds, so a second change within one second is served stale until the entry ages
  out.\<close>

theorem same_revision_serves_old_state:
  assumes "revision_fields db' projectId = revision_fields db projectId"
    and "cache (cache_key projectId) =
           Some \<lparr> ca_state = loadPolicyState (pc_pm cfg) (pc_jparse cfg) db projectId,
                  ca_loadedAt = t, ca_revision = loadPolicyStateRevision db projectId \<rparr>"
    and "ee_revisionFault env = None" and "ee_revisionDb env = db'"
    and "ee_checkedAt env - t < pc_cacheTtlMs cfg"
  shows "getPolicyState cfg cache projectId env =
           (Inr (loadPolicyState (pc_pm cfg) (pc_jparse cfg) db projectId), cache)"
  using assms by (simp add: getPolicyState_def loadPolicyStateRevision_def)

section \<open>Witnesses\<close>

definition sample_cfg :: policy_config where
  "sample_cfg = \<lparr> pc_pm = (\<lambda>p d s. p = s), pc_jparse = (\<lambda>_. None), pc_num_str = (\<lambda>_. ''0''),
     pc_cacheTtlMs = 60000 \<rparr>"

definition sample_policy :: "bool \<Rightarrow> policy_row" where
  "sample_policy active = \<lparr> po_id = ''p1'', po_projectId = ''proj'', po_enforcementMode = ''detective'',
     po_denyOnPolicyError = True, po_isActive = active, po_createdAt = 100, po_updatedAt = 200 \<rparr>"

definition sample_stored :: "string \<Rightarrow> string \<Rightarrow> int \<Rightarrow> stored_rule" where
  "sample_stored rid dec pri = \<lparr> sr_row = (sample_rule_row rid dec)\<lparr>rr_priority := pri\<rparr>,
     sr_createdAt = 100, sr_updatedAt = None \<rparr>"

definition sample_db :: "bool \<Rightarrow> policy_db" where
  "sample_db active = \<lparr> db_policies = [sample_policy active],
     db_rules = [sample_stored ''r2'' ''allow'' 20, sample_stored ''r1'' ''deny'' 10],
     db_versions = [], db_exceptions = [], db_grants = [] \<rparr>"

definition sample_env :: "bool \<Rightarrow> exec_error option \<Rightarrow> eval_env" where
  "sample_env active fault = \<lparr> ee_revisionFault = fault, ee_loadFault = None,
     ee_revisionDb = sample_db active, ee_loadDb = sample_db active,
     ee_checkedAt = 1000, ee_storedAt = 1001, ee_now = 1002, ee_grantNow = 1003 \<rparr>"

definition sample_state :: loaded_state where
  "sample_state =
     loadPolicyState (pc_pm sample_cfg) (pc_jparse sample_cfg) (sample_db True) (Some ''proj'')"

lemmas sample_client_defs = sample_cfg_def sample_policy_def sample_stored_def sample_db_def
  sample_env_def sample_defs

lemma sample_deny_rule:
  "evaluateRules (pc_pm sample_cfg) (ls_rules sample_state) (sample_input ''Bash'') =
     Some (stamp_version (pc_pm sample_cfg) (joined_rules (sample_db True) (Some ''proj'') ! 1)) \<and>
   effectiveDecisionForRule
     (stamp_version (pc_pm sample_cfg) (joined_rules (sample_db True) (Some ''proj'') ! 1)) = Deny \<and>
   cr_denyOnPolicyError
     (stamp_version (pc_pm sample_cfg) (joined_rules (sample_db True) (Some ''proj'') ! 1))"
  by (simp add: sample_state_def loaded_rules joined_rules_def active_versions_def in_project_def
      sample_client_defs order_by_def evaluateRules_def toolNameMatches_def stamp_version_def
      compileRule_def normalizeCapability_def legacyEnforcementModeForDecision_def
      effectiveDecisionForRule_def normalizePolicyDecision_def)

lemma sample_no_exceptions [simp]: "ls_exceptions sample_state = []" "ls_grants sample_state = []"
  by (simp_all add: sample_state_def loadPolicyState_def sample_client_defs order_by_desc_def)

lemma evaluate_on_fault_witness:
  "fst (evaluate sample_cfg (\<lambda>_. None) (sample_input ''Bash'') (sample_env True (Some TaskCancelledError))) =
     FAIL_OPEN_RESULT"
proof -
  let ?env = "sample_env True (Some TaskCancelledError)"
  have "getPolicyState sample_cfg (\<lambda>_. None) (pi_projectId (sample_input ''Bash'')) ?env =
      (Inl TaskCancelledError, \<lambda>_. None)"
    by (simp add: getPolicyState_def sample_env_def)
  from evaluate_on_fault [OF this] show ?thesis by simp
qed

lemma deny_has_a_cause_witness:
  "\<exists>r \<in> set (ls_rules sample_state). effectiveDecisionForRule r = Deny"
proof -
  have "pr_decision (decide sample_cfg sample_state (sample_input ''Bash'') 0 0) = Deny"
    using sample_deny_rule by (simp add: decide_def)
  from deny_has_a_cause [OF this] show ?thesis by auto
qed

definition sample_grant :: compiled_grant where
  "sample_grant = \<lparr> cg_id = ''g1'', cg_projectId = None, cg_runId = None, cg_scopeType = ''session'',
     cg_scope = JObj [], cg_grantKind = ''decision_override'', cg_targetRuleId = None,
     cg_targetCapability = None, cg_grantFingerprint = None, cg_decisionOverride = Some Allow,
     cg_reason = ''granted'', cg_expiresAt = None, cg_revokedAt = None \<rparr>"

text \<open>An exception written for another rule denies a call no rule matches.\<close>

definition sample_exception :: compiled_exception where
  "sample_exception = \<lparr> ce_id = ''x1'', ce_policyId = ''p9'', ce_policyVersionId = None,
     ce_ruleId = Some ''r9'', ce_scopeType = ''rule'', ce_scope = JObj [],
     ce_decisionOverride = Deny, ce_reason = ''only for r9'', ce_startsAt = None, ce_expiresAt = None \<rparr>"

text \<open>
  The policy is switched off within the second in which it was last updated: the denial stays in
  force from the cache, though a load of the new database would allow the call.
\<close>

end
