(* ===== verification/Kill_Switch.thy ===== *)
theory Kill_Switch
  imports Coodra_Interfaces
begin

text \<open>
  Kill switches: the table helpers of \<open>packages/db/src/kill-switches.ts\<close> and the cached evaluator
  of \<open>packages/lifecycle/src/kill-switch-evaluator.ts\<close> that is asked before the policy rules.  The
  table is the list of its rows in insertion order; ids, the insertion time and the clock are the
  environment's.
\<close>

section \<open>Rows and inserts\<close>

datatype ks_scope = Global | Project | Tool | AgentType

datatype ks_mode = Hard | Soft

record kill_switch =
  ks_id :: string
  ks_scope :: ks_scope
  ks_target :: "string option"
  ks_mode :: ks_mode
  ks_reason :: string
  ks_pausedAt :: int
  ks_pausedBySessionId :: "string option"
  ks_expiresAt :: "int option"
  ks_resumedAt :: "int option"
  ks_resumedBySessionId :: "string option"

record insert_input =
  ii_scope :: string
  ii_target :: "string option"
  ii_mode :: "string option"
  ii_reason :: string
  ii_pausedBySessionId :: "string option"
  ii_expiresAt :: "int option"

datatype ks_error = InvalidScope | InvalidMode | GlobalWithTarget | MissingTarget | EmptyReason

definition scope_of :: "string \<Rightarrow> ks_scope option" where
  "scope_of s =
     (if s = ''global'' then Some Global
      else if s = ''project'' then Some Project
      else if s = ''tool'' then Some Tool
      else if s = ''agent_type'' then Some AgentType
      else None)"

definition mode_of :: "string \<Rightarrow> ks_mode option" where
  "mode_of m = (if m = ''hard'' then Some Hard else if m = ''soft'' then Some Soft else None)"

definition assertValidInsert :: "insert_input \<Rightarrow> ks_error option" where
  "assertValidInsert i =
     (if scope_of (ii_scope i) = None then Some InvalidScope
      else if (case ii_mode i of None \<Rightarrow> False | Some m \<Rightarrow> mode_of m = None) then Some InvalidMode
      else if ii_scope i = ''global'' \<and> ii_target i \<notin> {None, Some []} then Some GlobalWithTarget
      else if ii_scope i \<noteq> ''global'' \<and> ii_target i \<in> {None, Some []} then Some MissingTarget
      else if trim (ii_reason i) = [] then Some EmptyReason
      else None)"

text \<open>\<open>new_id\<close> is \<open>ks_\<close> followed by the minted UUID without dashes, \<open>now\<close> the column default.\<close>

definition insertKillSwitch ::
  "string \<Rightarrow> int \<Rightarrow> insert_input \<Rightarrow> kill_switch list \<Rightarrow> ks_error + (kill_switch \<times> kill_switch list)"
where
  "insertKillSwitch new_id now i t =
     (case assertValidInsert i of
        Some e \<Rightarrow> Inl e
      | None \<Rightarrow>
          (let scope = the (scope_of (ii_scope i));
               row = \<lparr> ks_id = new_id, ks_scope = scope,
                       ks_target = (if scope = Global then None else ii_target i),
                       ks_mode = (case ii_mode i of None \<Rightarrow> Hard | Some m \<Rightarrow> the (mode_of m)),
                       ks_reason = ii_reason i, ks_pausedAt = now,
                       ks_pausedBySessionId = ii_pausedBySessionId i,
                       ks_expiresAt = ii_expiresAt i, ks_resumedAt = None,
                       ks_resumedBySessionId = None \<rparr>
           in Inr (row, t @ [row])))"

section \<open>Active switches\<close>

definition ks_active :: "int \<Rightarrow> kill_switch \<Rightarrow> bool" where
  "ks_active now s \<longleftrightarrow>
     ks_resumedAt s = None \<and> (case ks_expiresAt s of None \<Rightarrow> True | Some e \<Rightarrow> now < e)"

definition in_context :: "string option \<Rightarrow> kill_switch \<Rightarrow> bool" where
  "in_context projectId s \<longleftrightarrow>
     ks_scope s \<in> {Global, Tool, AgentType} \<or>
     (projectId \<noteq> None \<and> ks_scope s = Project \<and> ks_target s = projectId)"

definition listActiveKillSwitches ::
  "kill_switch list \<Rightarrow> string option \<Rightarrow> int \<Rightarrow> kill_switch list"
where
  "listActiveKillSwitches t projectId now =
     order_by ks_pausedAt (filter (\<lambda>s. ks_active now s \<and> in_context projectId s) t)"

definition listAllActiveKillSwitches :: "kill_switch list \<Rightarrow> int \<Rightarrow> kill_switch list" where
  "listAllActiveKillSwitches t now = order_by ks_pausedAt (filter (ks_active now) t)"

definition softResumeKillSwitch ::
  "string \<Rightarrow> string option \<Rightarrow> int \<Rightarrow> kill_switch list \<Rightarrow> kill_switch option \<times> kill_switch list"
where
  "softResumeKillSwitch rid sess now t =
     (let t' = map (\<lambda>s. if ks_id s = rid \<and> ks_resumedAt s = None
                        then s\<lparr>ks_resumedAt := Some now, ks_resumedBySessionId := sess\<rparr> else s) t
      in if \<not> list_ex (\<lambda>s. ks_id s = rid \<and> ks_resumedAt s = None) t then (None, t)
         else (first_row (filter (\<lambda>s. ks_id s = rid) t'), t'))"

text \<open>The filter: a scope, and a target which may be asked to be null.\<close>

definition resume_filter :: "ks_scope option \<Rightarrow> string option option \<Rightarrow> kill_switch \<Rightarrow> bool" where
  "resume_filter scope target s \<longleftrightarrow>
     ks_resumedAt s = None \<and>
     (case scope of None \<Rightarrow> True | Some sc \<Rightarrow> ks_scope s = sc) \<and>
     (case target of None \<Rightarrow> True | Some tg \<Rightarrow> ks_target s = tg)"

definition softResumeAllKillSwitches ::
  "ks_scope option \<Rightarrow> string option option \<Rightarrow> string option \<Rightarrow> int \<Rightarrow> kill_switch list \<Rightarrow>
   kill_switch list \<times> kill_switch list"
where
  "softResumeAllKillSwitches scope target sess now t =
     (let ids = map ks_id (filter (resume_filter scope target) t) in
      if ids = [] then ([], t)
      else
        (let t' = map (\<lambda>s. if ks_id s \<in> set ids
                           then s\<lparr>ks_resumedAt := Some now, ks_resumedBySessionId := sess\<rparr> else s) t
         in (filter (\<lambda>s. ks_id s \<in> set ids) t', t')))"

record ks_event =
  ev_projectId :: "string option"
  ev_toolName :: string
  ev_agentType :: string

fun findKillSwitchMatchingEvent :: "kill_switch list \<Rightarrow> ks_event \<Rightarrow> kill_switch option" where
  "findKillSwitchMatchingEvent [] e = None"
| "findKillSwitchMatchingEvent (s # ss) e =
     (if ks_scope s = Global then Some s
      else if ks_scope s = Project \<and> ev_projectId e \<noteq> None \<and> ks_target s = ev_projectId e then Some s
      else if ks_scope s = Tool \<and> ks_target s = Some (ev_toolName e) then Some s
      else if ks_scope s = AgentType \<and> ks_target s = Some (ev_agentType e) then Some s
      else findKillSwitchMatchingEvent ss e)"

section \<open>The evaluator\<close>

record ks_cache_entry =
  kc_switches :: "kill_switch list"
  kc_expiresAt :: int

type_synonym ks_cache = "string \<Rightarrow> ks_cache_entry option"

datatype ks_decision = KsDeny | KsAllow

record ks_match =
  km_matched :: kill_switch
  km_decision :: ks_decision
  km_reason :: string

definition ks_cache_key :: "string option \<Rightarrow> string" where
  "ks_cache_key projectId = (case projectId of None \<Rightarrow> ''__null_project__'' | Some p \<Rightarrow> p)"

text \<open>The table as the read sees it, or \<open>None\<close> when the database throws.\<close>

record ks_env =
  ke_table :: "kill_switch list option"
  ke_now :: int

definition cached_switches ::
  "int \<Rightarrow> ks_cache \<Rightarrow> string option \<times> ks_env \<Rightarrow> kill_switch list option \<times> ks_cache"
where
  "cached_switches cacheMs cache q =
     (let key = ks_cache_key (fst q); now = ke_now (snd q) in
      if (case cache key of None \<Rightarrow> False | Some c \<Rightarrow> now < kc_expiresAt c)
      then (Some (kc_switches (the (cache key))), cache)
      else
        (case ke_table (snd q) of
           None \<Rightarrow> (None, cache)
         | Some t \<Rightarrow>
             (let switches = listActiveKillSwitches t (fst q) now
              in (Some switches,
                  cache(key \<mapsto> \<lparr> kc_switches = switches, kc_expiresAt = now + cacheMs \<rparr>)))))"

definition ks_verdict :: "kill_switch \<Rightarrow> ks_match" where
  "ks_verdict s =
     \<lparr> km_matched = s, km_decision = (if ks_mode s = Hard then KsDeny else KsAllow),
       km_reason = ''kill_switch_paused:'' @ ks_id s \<rparr>"

definition check ::
  "int \<Rightarrow> ks_cache \<Rightarrow> string option \<Rightarrow> string \<Rightarrow> string \<Rightarrow> ks_env \<Rightarrow> ks_match option \<times> ks_cache"
where
  "check cacheMs cache projectId toolName agentType env =
     (case cached_switches cacheMs cache (projectId, env) of
        (None, cache') \<Rightarrow> (None, cache')
      | (Some switches, cache') \<Rightarrow>
          (if switches = [] then (None, cache')
           else (map_option ks_verdict
                   (findKillSwitchMatchingEvent switches
                      \<lparr> ev_projectId = projectId, ev_toolName = toolName, ev_agentType = agentType \<rparr>),
                 cache')))"

text \<open>\<open>invalidate\<close> clears the cache, or with an argument one project's slot.\<close>

definition invalidate :: "ks_cache \<Rightarrow> string option option \<Rightarrow> ks_cache" where
  "invalidate cache projectId =
     (case projectId of None \<Rightarrow> Map.empty | Some p \<Rightarrow> cache(ks_cache_key p := None))"

section \<open>Lemmas\<close>

definition ks_hits :: "ks_event \<Rightarrow> kill_switch \<Rightarrow> bool" where
  "ks_hits e s \<longleftrightarrow>
     (case ks_scope s of
        Global \<Rightarrow> True
      | Project \<Rightarrow> ev_projectId e \<noteq> None \<and> ks_target s = ev_projectId e
      | Tool \<Rightarrow> ks_target s = Some (ev_toolName e)
      | AgentType \<Rightarrow> ks_target s = Some (ev_agentType e))"

lemma find_match: "findKillSwitchMatchingEvent ss e = List.find (ks_hits e) ss"
  by (induction ss) (auto simp: ks_hits_def split: ks_scope.splits)

text \<open>The SQL filter on the project loses no switch the matcher would take.\<close>

lemma hits_in_context: "ks_hits e s \<Longrightarrow> in_context (ev_projectId e) s"
  by (auto simp: ks_hits_def in_context_def split: ks_scope.splits)

definition ks_entry :: "int \<Rightarrow> ks_cache \<Rightarrow> string \<Rightarrow> (kill_switch list \<times> int) option" where
  "ks_entry cacheMs cache key =
     map_option (\<lambda>c. (kc_switches c, kc_expiresAt c - cacheMs)) (cache key)"

definition ks_loaded :: "string option \<times> ks_env \<Rightarrow> kill_switch list option" where
  "ks_loaded q =
     map_option (\<lambda>t. listActiveKillSwitches t (fst q) (ke_now (snd q))) (ke_table (snd q))"

interpretation kcache: loading_cache "ks_entry cacheMs" "cached_switches cacheMs"
  "ks_cache_key \<circ> fst" ks_loaded "ke_now \<circ> snd" "ke_now \<circ> snd" cacheMs for cacheMs
proof unfold_locales
  fix c q r c'
  assume g: "cached_switches cacheMs c q = (r, c')"
  let ?key = "ks_cache_key (fst q)"
  show "(\<exists>v s. ks_entry cacheMs c ((ks_cache_key \<circ> fst) q) = Some (v, s) \<and>
           (ke_now \<circ> snd) q < s + cacheMs \<and> r = Some v \<and> c' = c) \<or>
        (\<exists>v. ks_loaded q = Some v \<and> r = Some v \<and>
           ks_entry cacheMs c' = (ks_entry cacheMs c)((ks_cache_key \<circ> fst) q \<mapsto> (v, (ke_now \<circ> snd) q))) \<or>
        (r = None \<and> c' = c)"
  proof (cases "\<exists>e. c ?key = Some e \<and> ke_now (snd q) < kc_expiresAt e")
    case True
    then obtain e where "c ?key = Some e" "ke_now (snd q) < kc_expiresAt e" by blast
    then show ?thesis using g by (simp add: cached_switches_def ks_entry_def Let_def)
  next
    case False
    then have "cached_switches cacheMs c q =
        (case ke_table (snd q) of
           None \<Rightarrow> (None, c)
         | Some t \<Rightarrow>
             (Some (listActiveKillSwitches t (fst q) (ke_now (snd q))),
              c(?key \<mapsto> \<lparr> kc_switches = listActiveKillSwitches t (fst q) (ke_now (snd q)),
                          kc_expiresAt = ke_now (snd q) + cacheMs \<rparr>)))"
      by (cases "c ?key") (auto simp: cached_switches_def Let_def split: option.splits)
    with g have "case ke_table (snd q) of
          None \<Rightarrow> r = None \<and> c' = c
        | Some t \<Rightarrow> ks_loaded q = r \<and> r = Some (listActiveKillSwitches t (fst q) (ke_now (snd q))) \<and>
            c' = c(?key \<mapsto> \<lparr> kc_switches = the r, kc_expiresAt = ke_now (snd q) + cacheMs \<rparr>)"
      by (cases "ke_table (snd q)") (auto simp: ks_loaded_def)
    then show ?thesis
      by (cases "ke_table (snd q)") (auto simp: ks_entry_def fun_eq_iff)
  qed
qed

text \<open>A check after an invalidation answers as one with nothing cached.\<close>

lemma check_after_invalidate:
  "fst (check ms (invalidate cache (Some p)) p tool agent env) = fst (check ms Map.empty p tool agent env)"
  by (cases "ke_table env") (simp_all add: check_def cached_switches_def invalidate_def Let_def)

section \<open>What the evaluator promises\<close>

text \<open>With nothing cached, the evaluator answers with the oldest active switch that covers
  the event, hard mode denying and soft mode allowing, and with nothing exactly when no active
  switch covers it: the project filter of the query loses no covering switch.\<close>

theorem check_uncached:
  assumes "cache (ks_cache_key p) = None" and "ke_table env = Some t"
    and "e = \<lparr> ev_projectId = p, ev_toolName = tool, ev_agentType = agent \<rparr>"
  shows "(fst (check ms cache p tool agent env) = None \<longleftrightarrow>
            (\<forall>s \<in> set t. ks_active (ke_now env) s \<longrightarrow> \<not> ks_hits e s)) \<and>
         (\<forall>m. fst (check ms cache p tool agent env) = Some m \<longrightarrow>
            km_matched m \<in> set t \<and> ks_active (ke_now env) (km_matched m) \<and> ks_hits e (km_matched m) \<and>
            (km_decision m = KsDeny \<longleftrightarrow> ks_mode (km_matched m) = Hard) \<and>
            (\<forall>s \<in> set t. ks_active (ke_now env) s \<and> ks_hits e s \<longrightarrow>
               ks_pausedAt (km_matched m) \<le> ks_pausedAt s))"
proof -
  let ?L = "listActiveKillSwitches t p (ke_now env)"
  have c: "fst (check ms cache p tool agent env) = map_option ks_verdict (List.find (ks_hits e) ?L)"
    using assms by (simp add: check_def cached_switches_def Let_def find_match)
  have cover: "s \<in> set ?L \<longleftrightarrow> s \<in> set t \<and> ks_active (ke_now env) s" if "ks_hits e s" for s
    using hits_in_context [OF that] assms(3) by (auto simp: listActiveKillSwitches_def)
  have oldest: "ks_pausedAt s \<le> ks_pausedAt s'"
    if f: "List.find (ks_hits e) ?L = Some s" and s': "s' \<in> set ?L" "ks_hits e s'" for s s'
  proof -
    obtain us vs where split: "?L = us @ s # vs" and us: "\<forall>u \<in> set us. \<not> ks_hits e u"
      using f by (auto simp: find_first_match)
    have "sorted (map ks_pausedAt (us @ s # vs))"
      unfolding split [symmetric] listActiveKillSwitches_def by (rule order_by_sorted)
    moreover have "s' \<in> set (s # vs)" using s' us split by auto
    ultimately show ?thesis by (auto simp: sorted_append)
  qed
  show ?thesis
  proof (cases "List.find (ks_hits e) ?L")
    case None
    then have "\<forall>s \<in> set ?L. \<not> ks_hits e s" by (simp add: find_None_iff)
    with None cover show ?thesis by (auto simp: c)
  next
    case (Some s)
    from find_Some_D [OF this] have s: "s \<in> set ?L" "ks_hits e s" by auto
    with cover have "s \<in> set t \<and> ks_active (ke_now env) s" by blast
    with Some s cover oldest [OF Some] show ?thesis by (auto simp: c ks_verdict_def)
  qed
qed

definition sample_switch :: kill_switch where
  "sample_switch =
     \<lparr> ks_id = ''ks_1'', ks_scope = Tool, ks_target = Some ''Bash'', ks_mode = Hard,
       ks_reason = ''incident'', ks_pausedAt = 3, ks_pausedBySessionId = None, ks_expiresAt = None,
       ks_resumedAt = None, ks_resumedBySessionId = None \<rparr>"

text \<open>Over any sequence of requests served one after another, the switches an answer is based on were read under the
  same cache key by that request or by an earlier one less than the cache time before it: a pause
  or a resume takes effect within that time.\<close>

theorem kill_switches_recent:
  assumes "i < length qs" and "kcache.serve ms (\<lambda>_. None) qs ! i = Some ss"
  shows "\<exists>q \<in> set (take (Suc i) qs). ks_cache_key (fst q) = ks_cache_key (fst (qs ! i)) \<and>
           ks_loaded q = Some ss \<and> (q = qs ! i \<or> ke_now (snd (qs ! i)) < ke_now (snd q) + ms)"
  using kcache.served_is_recent [where past = "[]" and c = "\<lambda>_. None" and cacheMs = ms] assms
  by (simp add: kcache.sourced_def ks_entry_def)

text \<open>A failing read falls through to the policy rules without being cached: when no fresh
  entry exists, the evaluator returns nothing and leaves its cache as it was.\<close>

lemma check_fails_open:
  assumes "ke_table env = None"
    and "\<And>c. cache (ks_cache_key p) = Some c \<Longrightarrow> kc_expiresAt c \<le> ke_now env"
  shows "check ms cache p tool agent env = (None, cache)"
  using assms(1) assms(2) by (auto simp: check_def cached_switches_def Let_def split: option.splits)

text \<open>An accepted insert keeps the shape of the table: the new switch is active at once unless
  its expiry has passed, has a non-empty target exactly when its scope is not global, defaults to
  hard mode, and a refused insert has one of the documented faults.\<close>

theorem insertKillSwitch_shape:
  "case insertKillSwitch k now i t of
     Inl e \<Rightarrow> assertValidInsert i = Some e
   | Inr (row, t') \<Rightarrow> t' = t @ [row] \<and> ks_resumedAt row = None \<and>
       (ks_scope row = Global \<longleftrightarrow> ks_target row = None) \<and> ks_target row \<noteq> Some [] \<and>
       trim (ks_reason row) \<noteq> [] \<and> (ii_mode i = None \<longrightarrow> ks_mode row = Hard)"
  by (auto simp: insertKillSwitch_def assertValidInsert_def scope_of_def Let_def
      split: option.splits if_splits)

text \<open>After a bulk resume no switch that matched the filter is unresumed, the rows returned are
  all resumed, and, ids being unique, every switch outside the filter is as it was.\<close>

theorem bulk_resume_complete:
  assumes "distinct (map ks_id t)"
    and "softResumeAllKillSwitches scope target sess now t = (rows, t')"
  shows "\<not> list_ex (resume_filter scope target) t' \<and>
         list_all (\<lambda>s. ks_resumedAt s = Some now) rows \<and>
         filter (\<lambda>s. ks_resumedAt s \<noteq> Some now \<or> \<not> list_ex (\<lambda>u. ks_id u = ks_id s) rows) t' =
         filter (\<lambda>s. \<not> resume_filter scope target s) t"
proof -
  let ?P = "resume_filter scope target"
  let ?f = "\<lambda>s. s\<lparr>ks_resumedAt := Some now, ks_resumedBySessionId := sess\<rparr>"
  have id_filter: "ks_id s \<in> set (map ks_id (filter ?P t)) \<longleftrightarrow> ?P s" if "s \<in> set t" for s
    using that assms(1) by (auto simp: distinct_map inj_on_def)
  have one_id: "u = s" if "u \<in> set t" "s \<in> set t" "ks_id u = ks_id s" for u s
    using that assms(1) by (auto simp: distinct_map inj_on_def)
  show ?thesis
  proof (cases "filter ?P t = []")
    case True
    then have "rows = []" and "t' = t"
      using assms(2) by (auto simp: softResumeAllKillSwitches_def Let_def)
    with True show ?thesis by (auto simp: list_ex_iff filter_empty_conv intro!: filter_cong)
  next
    case False
    have t': "t' = map (\<lambda>s. if ?P s then ?f s else s) t"
      using assms(2) False id_filter
      by (auto simp: softResumeAllKillSwitches_def Let_def intro!: map_cong split: if_splits)
    have rows: "rows = map ?f (filter ?P t)"
    proof -
      have "rows = filter (\<lambda>s. ks_id s \<in> set (map ks_id (filter ?P t)))
          (map (\<lambda>s. if ks_id s \<in> set (map ks_id (filter ?P t)) then ?f s else s) t)"
        using assms(2) False by (auto simp: softResumeAllKillSwitches_def Let_def)
      also have "\<dots> = map ?f (filter (\<lambda>s. ks_id s \<in> set (map ks_id (filter ?P t))) t)"
        by (auto simp: filter_map comp_def if_distrib cong: filter_cong intro!: map_cong)
      also have "\<dots> = map ?f (filter ?P t)"
        using id_filter by (auto intro!: arg_cong [where f = "map ?f"] filter_cong)
      finally show ?thesis .
    qed
    have "filter (\<lambda>s. ks_resumedAt s \<noteq> Some now \<or> \<not> list_ex (\<lambda>u. ks_id u = ks_id s) rows) t' =
        map (\<lambda>s. if ?P s then ?f s else s) (filter (\<lambda>s. \<not> ?P s) t)"
      unfolding t' filter_map rows
      by (rule arg_cong [where f = "map _"], rule filter_cong)
        (use one_id in \<open>auto simp: list_ex_iff image_iff\<close>)
    also have "\<dots> = filter (\<lambda>s. \<not> ?P s) t" by (rule map_idI) simp
    finally show ?thesis
      unfolding t' rows by (auto simp: list_ex_iff list_all_iff resume_filter_def)
  qed
qed

end
