(* ===== verification/Outbox.thy ===== *)
theory Outbox
  imports Coodra_Interfaces
begin

text \<open>
  The durable audit outbox: \<open>scheduleDurableWrite\<close> and \<open>scheduleAuditWriteWithSync\<close> of
  \<open>packages/db/src\<close> put jobs into \<open>pending_jobs\<close>; \<open>OutboxWorker\<close> of
  \<open>packages/cli/src/lib/outbox/worker.ts\<close>, with the backoff schedule beside it, claims them one at
  a time, hands them to the dispatch handler and settles the row.

  The table is the list of its rows; \<open>id\<close> is its primary key.  Columns hold whole seconds, clock
  readings are milliseconds.  The SQLite statements are modelled, each one atomic as the journal
  makes it.  Whether a statement throws is the environment's.
\<close>

section \<open>Jobs and enqueueing\<close>

datatype job_status = Pending | Picked | Dead

record job =
  jb_id :: string
  jb_queue :: string
  jb_payload :: string
  jb_attempts :: int
  jb_status :: job_status
  jb_runAfter :: int
  jb_pickedAt :: "int option"
  jb_failedAt :: "int option"
  jb_lastError :: "string option"

definition seconds :: "int \<Rightarrow> int" where
  "seconds ms = ms div 1000"

record durable_args =
  da_queue :: string
  da_payload :: js
  da_id :: "string option"
  da_runAfter :: "int option"

text \<open>
  \<open>stringify\<close> is \<open>JSON.stringify\<close>, \<open>uuid\<close> the id minted when none is given.  The result is the
  error of an empty queue name, or the id, whether a row was added, and the table.
\<close>

definition insertJob :: "job \<Rightarrow> job list \<Rightarrow> job list \<times> bool" where
  "insertJob = insert_or_ignore jb_id"

definition new_job :: "(js \<Rightarrow> string) \<Rightarrow> string \<Rightarrow> int \<Rightarrow> durable_args \<Rightarrow> job" where
  "new_job stringify i now a =
     \<lparr> jb_id = i, jb_queue = da_queue a, jb_payload = stringify (da_payload a),
       jb_attempts = 0, jb_status = Pending, jb_runAfter = seconds (nullish (da_runAfter a) now),
       jb_pickedAt = None, jb_failedAt = None, jb_lastError = None \<rparr>"

definition scheduleDurableWrite ::
  "(js \<Rightarrow> string) \<Rightarrow> string \<Rightarrow> int \<Rightarrow> durable_args \<Rightarrow> job list \<Rightarrow>
   string + ((string \<times> bool) \<times> job list)"
where
  "scheduleDurableWrite stringify uuid now a t =
     (if da_queue a = [] then Inl ''queue is required and must be a non-empty string''
      else
        (let i = nullish (da_id a) uuid;
             (t', enqueued) = insertJob (new_job stringify i now a) t
         in Inr ((i, enqueued), t')))"

interpretation jobs: keyed_table jb_id insertJob
  unfolding insertJob_def by (rule insert_or_ignore_keyed)

datatype sync_lookup =
    ById string
  | ByIdempotencyKey string
  | ByProjectSession string string
  | ByDailyGrain string string string string string string
  | ByCohortGrain string int string string

fun sync_lookup_json :: "sync_lookup \<Rightarrow> js" where
  "sync_lookup_json (ById v) = JObj [(''kind'', JStr ''id''), (''value'', JStr v)]"
| "sync_lookup_json (ByIdempotencyKey v) =
     JObj [(''kind'', JStr ''idempotency_key''), (''value'', JStr v)]"
| "sync_lookup_json (ByProjectSession p s) =
     JObj [(''kind'', JStr ''project_session''), (''projectId'', JStr p), (''sessionId'', JStr s)]"
| "sync_lookup_json (ByDailyGrain p d c s m a) =
     JObj [(''kind'', JStr ''memory_daily_grain''), (''projectId'', JStr p), (''day'', JStr d),
           (''channel'', JStr c), (''site'', JStr s), (''memoryType'', JStr m),
           (''actorUserId'', JStr a)]"
| "sync_lookup_json (ByCohortGrain r g m i) =
     JObj [(''kind'', JStr ''memory_cohort_grain''), (''runId'', JStr r),
           (''baselineGeneration'', JNum (of_int g)), (''memoryType'', JStr m), (''memoryId'', JStr i)]"

datatype sync_mode = Solo | Team

text \<open>The mode: the caller's override, else \<open>COODRA_MODE\<close> of the environment.\<close>

definition effectiveMode :: "sync_mode option \<Rightarrow> string option \<Rightarrow> sync_mode" where
  "effectiveMode override env =
     (case override of Some m \<Rightarrow> m | None \<Rightarrow> (if env = Some ''team'' then Team else Solo))"

record sync_env =
  se_auditId :: string
  se_syncId :: string
  se_auditNow :: int
  se_syncNow :: int
  se_mode :: "string option"
  se_syncFault :: "string option"

text \<open>
  The two enqueues are separate statements: when the second one throws, the first row stays and the
  caller gets the error.
\<close>

definition scheduleAuditWriteWithSync ::
  "(js \<Rightarrow> string) \<Rightarrow> sync_env \<Rightarrow> durable_args \<Rightarrow> (string \<times> sync_lookup) option \<Rightarrow> sync_mode option \<Rightarrow>
   job list \<Rightarrow> (string + (string \<times> bool) \<times> (string \<times> bool) option) \<times> job list"
where
  "scheduleAuditWriteWithSync stringify env audit sync mode t =
     (case scheduleDurableWrite stringify (se_auditId env) (se_auditNow env) audit t of
        Inl e \<Rightarrow> (Inl e, t)
      | Inr (auditResult, t') \<Rightarrow>
          (case sync of
             None \<Rightarrow> (Inr (auditResult, None), t')
           | Some (table, lookup) \<Rightarrow>
               if effectiveMode mode (se_mode env) \<noteq> Team then (Inr (auditResult, None), t')
               else
                 (case se_syncFault env of
                    Some e \<Rightarrow> (Inl e, t')
                  | None \<Rightarrow>
                      (case scheduleDurableWrite stringify (se_syncId env) (se_syncNow env)
                              \<lparr> da_queue = ''sync_to_cloud'',
                                da_payload = JObj [(''v'', JNum 1), (''table'', JStr table),
                                                   (''lookup'', sync_lookup_json lookup)],
                                da_id = None, da_runAfter = None \<rparr> t' of
                         Inl e \<Rightarrow> (Inl e, t')
                       | Inr (syncResult, t'') \<Rightarrow> (Inr (auditResult, Some syncResult), t'')))))"

section \<open>Backoff\<close>

definition RETRY_DELAYS_MS :: "int list" where
  "RETRY_DELAYS_MS = [1000, 5000, 30000, 5 * 60000, 30 * 60000]"

definition MAX_ATTEMPTS_DEFAULT :: int where
  "MAX_ATTEMPTS_DEFAULT = 6"

datatype backoff_error = AttemptsBelowOne | PastSchedule

definition computeBackoff :: "int \<Rightarrow> backoff_error + int" where
  "computeBackoff attempts =
     (if attempts < 1 then Inl AttemptsBelowOne
      else if attempts > int (length RETRY_DELAYS_MS) then Inl PastSchedule
      else Inr (RETRY_DELAYS_MS ! nat (attempts - 1)))"

definition shouldGiveUp :: "int \<Rightarrow> int \<Rightarrow> bool" where
  "shouldGiveUp attempts maxAttempts \<longleftrightarrow> attempts \<ge> maxAttempts"

section \<open>The worker\<close>

record worker_config =
  wc_leaseMs :: int
  wc_maxAttempts :: int
  wc_queueFilter :: "string list option"

record claimed_row =
  cl_id :: string
  cl_queue :: string
  cl_payload :: string
  cl_attempts :: int

definition claimable :: "worker_config \<Rightarrow> int \<Rightarrow> job \<Rightarrow> bool" where
  "claimable cfg now j \<longleftrightarrow>
     ((jb_status j = Pending \<and> jb_runAfter j \<le> seconds now) \<or>
      (jb_status j = Picked \<and>
       (case jb_pickedAt j of None \<Rightarrow> False | Some p \<Rightarrow> p < seconds (now - wc_leaseMs cfg)))) \<and>
     (case wc_queueFilter cfg of None \<Rightarrow> True | Some qs \<Rightarrow> jb_queue j \<in> set qs)"

definition update_job :: "string \<Rightarrow> (job \<Rightarrow> job) \<Rightarrow> job list \<Rightarrow> job list" where
  "update_job i f t = map (\<lambda>j. if jb_id j = i then f j else j) t"

definition pick :: "int \<Rightarrow> job \<Rightarrow> job" where
  "pick now j = j\<lparr>jb_status := Picked, jb_pickedAt := Some (seconds now),
                  jb_attempts := jb_attempts j + 1\<rparr>"

definition claim :: "worker_config \<Rightarrow> int \<Rightarrow> job list \<Rightarrow> claimed_row option \<times> job list" where
  "claim cfg now t =
     (case first_row (order_by jb_runAfter (filter (claimable cfg now) t)) of
        None \<Rightarrow> (None, t)
      | Some j \<Rightarrow>
          (Some \<lparr> cl_id = jb_id j, cl_queue = jb_queue j, cl_payload = jb_payload j,
                  cl_attempts = jb_attempts j + 1 \<rparr>,
           update_job (jb_id j) (pick now) t))"

definition deleteJob :: "string \<Rightarrow> job list \<Rightarrow> job list" where
  "deleteJob i t = filter (\<lambda>j. jb_id j \<noteq> i) t"

definition markDead :: "int \<Rightarrow> string \<Rightarrow> string \<Rightarrow> job list \<Rightarrow> job list" where
  "markDead now i e t =
     update_job i (\<lambda>j. j\<lparr>jb_status := Dead, jb_failedAt := Some (seconds now), jb_lastError := Some e\<rparr>) t"

definition scheduleRetry :: "int \<Rightarrow> string \<Rightarrow> int \<Rightarrow> string \<Rightarrow> job list \<Rightarrow> job list" where
  "scheduleRetry now i backoffMs e t =
     update_job i (\<lambda>j. j\<lparr>jb_status := Pending, jb_runAfter := seconds (now + backoffMs),
                        jb_lastError := Some e\<rparr>) t"

datatype outcome = Success | Transient string | Permanent string

text \<open>The row update after a dispatch.  A backoff past the schedule throws and changes nothing.\<close>

definition settle :: "worker_config \<Rightarrow> int \<Rightarrow> string \<Rightarrow> int \<Rightarrow> outcome \<Rightarrow> job list \<Rightarrow> job list" where
  "settle cfg now i attempts oc t =
     (case oc of
        Success \<Rightarrow> deleteJob i t
      | Permanent e \<Rightarrow> markDead now i e t
      | Transient e \<Rightarrow>
          if shouldGiveUp attempts (wc_maxAttempts cfg) then markDead now i e t
          else (case computeBackoff attempts of
                  Inl _ \<Rightarrow> t
                | Inr backoffMs \<Rightarrow> scheduleRetry now i backoffMs e t))"

record outbox_job =
  oj_id :: string
  oj_queue :: string
  oj_payload :: js
  oj_attempts :: int

definition wrong_queue_text :: "string \<Rightarrow> string list \<Rightarrow> string" where
  "wrong_queue_text queue qs =
     ''wrong_queue_for_worker_filter: claimed queue='' @ [CHR 0x27] @ queue @ [CHR 0x27] @
     '' not in filter ['' @
     join '','' qs @ '']''"

text \<open>
  What becomes of a claimed row before dispatch: the error the row is marked dead with, or the job
  handed on.  \<open>jparse\<close> is \<open>JSON.parse\<close>, \<open>Inl\<close> the message it throws.
\<close>

definition decode :: "worker_config \<Rightarrow> (string \<Rightarrow> string + js) \<Rightarrow> claimed_row \<Rightarrow> string + outbox_job" where
  "decode cfg jparse c =
     (case wc_queueFilter cfg of
        Some qs \<Rightarrow>
          if cl_queue c \<notin> set qs then Inl (wrong_queue_text (cl_queue c) qs)
          else (case jparse (cl_payload c) of
                  Inl m \<Rightarrow> Inl (''payload not valid JSON: '' @ m)
                | Inr p \<Rightarrow> Inr \<lparr> oj_id = cl_id c, oj_queue = cl_queue c, oj_payload = p,
                                 oj_attempts = cl_attempts c \<rparr>)
      | None \<Rightarrow>
          (case jparse (cl_payload c) of
             Inl m \<Rightarrow> Inl (''payload not valid JSON: '' @ m)
           | Inr p \<Rightarrow> Inr \<lparr> oj_id = cl_id c, oj_queue = cl_queue c, oj_payload = p,
                            oj_attempts = cl_attempts c \<rparr>))"

text \<open>
  One run: clock readings at the claim and at the update, and whether either statement throws.  The
  handler works on the destination state and may throw (\<open>Inl\<close>), which counts as transient.
\<close>

record run_env =
  re_claimAt :: int
  re_settleAt :: int
  re_claimThrows :: bool
  re_settleThrows :: bool

definition runOne ::
  "worker_config \<Rightarrow> (string \<Rightarrow> string + js) \<Rightarrow> (outbox_job \<Rightarrow> 'd \<Rightarrow> (string + outcome) \<times> 'd) \<Rightarrow>
   run_env \<Rightarrow> job list \<Rightarrow> 'd \<Rightarrow> job list \<times> 'd"
where
  "runOne cfg jparse handler env t d =
     (if re_claimThrows env then (t, d)
      else
        (case claim cfg (re_claimAt env) t of
           (None, t') \<Rightarrow> (t', d)
         | (Some c, t') \<Rightarrow>
             (case decode cfg jparse c of
                Inl e \<Rightarrow> ((if re_settleThrows env then t' else markDead (re_settleAt env) (cl_id c) e t'), d)
              | Inr job \<Rightarrow>
                  (let (r, d') = handler job d;
                       oc = (case r of Inl m \<Rightarrow> Transient m | Inr oc \<Rightarrow> oc)
                   in ((if re_settleThrows env then t'
                        else settle cfg (re_settleAt env) (oj_id job) (oj_attempts job) oc t'), d')))))"

section \<open>Many workers, crashes and time\<close>

text \<open>
  The processes that share one table: each worker holds at most one claimed row, with the instant it
  claimed it and, once the handler returned, the outcome.  \<open>sy_accepted\<close> are the ids whose enqueue
  was acknowledged, \<open>sy_done\<close> those whose handler reported success.  A row the worker refuses before
  dispatch (wrong queue, malformed JSON) is settled as a permanent failure.
\<close>

record held =
  hd_id :: string
  hd_attempts :: int
  hd_at :: int
  hd_outcome :: "outcome option"

record sys =
  sy_jobs :: "job list"
  sy_now :: int
  sy_held :: "nat \<Rightarrow> held option"
  sy_accepted :: "string set"
  sy_done :: "string set"

inductive sys_step :: "worker_config \<Rightarrow> sys \<Rightarrow> sys \<Rightarrow> bool" for cfg where
  Pass: "sy_now s \<le> t \<Longrightarrow> sys_step cfg s (s\<lparr>sy_now := t\<rparr>)"
| Enqueue: "scheduleDurableWrite stringify uuid (sy_now s) a (sy_jobs s) = Inr ((i, enqueued), t) \<Longrightarrow>
    sys_step cfg s (s\<lparr>sy_jobs := t, sy_accepted := insert i (sy_accepted s)\<rparr>)"
| Claim: "sy_held s w = None \<Longrightarrow> claim cfg (sy_now s) (sy_jobs s) = (Some c, t) \<Longrightarrow>
    sys_step cfg s (s\<lparr>sy_jobs := t, sy_held := (sy_held s)(w \<mapsto>
      \<lparr>hd_id = cl_id c, hd_attempts = cl_attempts c, hd_at = sy_now s, hd_outcome = None\<rparr>)\<rparr>)"
| Dispatch: "sy_held s w = Some h \<Longrightarrow> hd_outcome h = None \<Longrightarrow>
    sys_step cfg s (s\<lparr>sy_held := (sy_held s)(w \<mapsto> h\<lparr>hd_outcome := Some oc\<rparr>),
      sy_done := (if oc = Success then insert (hd_id h) (sy_done s) else sy_done s)\<rparr>)"
| Settle: "sy_held s w = Some h \<Longrightarrow> hd_outcome h = Some oc \<Longrightarrow>
    sys_step cfg s (s\<lparr>sy_jobs := settle cfg (sy_now s) (hd_id h) (hd_attempts h) oc (sy_jobs s),
      sy_held := (sy_held s)(w := None)\<rparr>)"
| Crash: "sys_step cfg s (s\<lparr>sy_held := (sy_held s)(w := None)\<rparr>)"

text \<open>A settle whose statement throws has the effect of \<open>Crash\<close>: the row stays picked.\<close>

definition sys_start :: "int \<Rightarrow> sys" where
  "sys_start now = \<lparr> sy_jobs = [], sy_now = now, sy_held = Map.empty, sy_accepted = {}, sy_done = {} \<rparr>"

inductive sys_reach :: "worker_config \<Rightarrow> sys \<Rightarrow> bool" for cfg where
  start: "sys_reach cfg (sys_start now)"
| step: "sys_reach cfg s \<Longrightarrow> sys_step cfg s s' \<Longrightarrow> sys_reach cfg s'"

text \<open>No claim is older than the lease.\<close>

definition timely :: "worker_config \<Rightarrow> sys \<Rightarrow> bool" where
  "timely cfg s \<longleftrightarrow> (\<forall>w h. sy_held s w = Some h \<longrightarrow> sy_now s \<le> hd_at h + wc_leaseMs cfg)"

text \<open>The states reached while every worker settles, or dies, within its lease.\<close>

inductive timely_reach :: "worker_config \<Rightarrow> sys \<Rightarrow> bool" for cfg where
  start: "timely_reach cfg (sys_start now)"
| step: "timely_reach cfg s \<Longrightarrow> sys_step cfg s s' \<Longrightarrow> timely cfg s' \<Longrightarrow> timely_reach cfg s'"

inductive_cases sys_stepE: "sys_step cfg s s'"

section \<open>Lemmas on the table\<close>

lemma update_job_ids [simp]:
  "(\<And>j. jb_id (f j) = jb_id j) \<Longrightarrow> map jb_id (update_job i f t) = map jb_id t"
  by (simp add: update_job_def)

lemma update_job_mem:
  "j \<in> set (update_job i f t) \<longleftrightarrow>
     (\<exists>j0 \<in> set t. jb_id j0 = i \<and> j = f j0) \<or> (j \<in> set t \<and> jb_id j \<noteq> i)"
  by (auto simp: update_job_def)

lemma same_id_same_job:
  "distinct (map jb_id t) \<Longrightarrow> j \<in> set t \<Longrightarrow> j' \<in> set t \<Longrightarrow> jb_id j = jb_id j' \<Longrightarrow> j = j'"
  by (auto simp: distinct_map inj_on_def)

lemma claim_Some:
  assumes "claim cfg now t = (Some c, t')"
  obtains j where "j \<in> set t" and "claimable cfg now j" and "cl_id c = jb_id j" and
    "cl_attempts c = jb_attempts j + 1" and "cl_queue c = jb_queue j" and
    "t' = update_job (jb_id j) (pick now) t"
    and "\<forall>j' \<in> set t. claimable cfg now j' \<longrightarrow> jb_runAfter j \<le> jb_runAfter j'"
proof -
  from assms obtain j where f: "first_row (order_by jb_runAfter (filter (claimable cfg now) t)) = Some j"
    and c: "cl_id c = jb_id j" "cl_attempts c = jb_attempts j + 1" "cl_queue c = jb_queue j"
      "t' = update_job (jb_id j) (pick now) t"
    by (auto simp: claim_def split: option.splits)
  with first_row_order_by [OF f] that show thesis by auto
qed

lemma claim_None: "claim cfg now t = (None, t') \<Longrightarrow> t' = t \<and> (\<forall>j \<in> set t. \<not> claimable cfg now j)"
  by (auto simp: claim_def first_row_None filter_empty_conv split: option.splits)

lemma settle_other:
  "jb_id j \<noteq> i \<Longrightarrow> j \<in> set (settle cfg now i n oc t) \<longleftrightarrow> j \<in> set t"
  by (auto simp: settle_def deleteJob_def markDead_def scheduleRetry_def update_job_mem
      split: outcome.splits sum.splits)

lemma settle_ids:
  "jb_id ` set (settle cfg now i n oc t) = (if oc = Success then jb_id ` set t - {i} else jb_id ` set t)"
proof -
  have upd: "jb_id ` set (update_job i f t) = jb_id ` set t" if "\<And>j. jb_id (f j) = jb_id j" for f
    using update_job_ids [of f i t] that by (metis list.set_map)
  show ?thesis
    by (auto simp: settle_def deleteJob_def markDead_def scheduleRetry_def upd
        split: outcome.splits sum.splits)
qed

lemma settle_distinct: "distinct (map jb_id t) \<Longrightarrow> distinct (map jb_id (settle cfg now i n oc t))"
  by (auto simp: settle_def deleteJob_def markDead_def scheduleRetry_def distinct_map_filter
      split: outcome.splits sum.splits)

lemma schedule_rows:
  assumes "scheduleDurableWrite stringify uuid now a t = Inr ((i, enqueued), t')"
  shows "t' = fst (insertJob (new_job stringify i now a) t)"
  using assms by (auto simp: scheduleDurableWrite_def Let_def split: prod.splits if_splits)

lemma new_job_simps [simp]:
  "jb_id (new_job stringify i now a) = i"
  "jb_status (new_job stringify i now a) = Pending"
  "jb_attempts (new_job stringify i now a) = 0"
  by (simp_all add: new_job_def)

section \<open>No accepted job is lost\<close>

definition kept :: "sys \<Rightarrow> bool" where
  "kept s \<longleftrightarrow>
     sy_accepted s \<subseteq> jb_id ` set (sy_jobs s) \<union> sy_done s \<and>
     (\<forall>w h. sy_held s w = Some h \<and> hd_outcome h = Some Success \<longrightarrow> hd_id h \<in> sy_done s)"

lemma claim_ids: "claim cfg now t = (r, t') \<Longrightarrow> map jb_id t' = map jb_id t"
  by (auto simp: claim_def pick_def split: option.splits)

lemma insert_ids: "jb_id ` set (fst (insertJob r t)) = insert (jb_id r) (jb_id ` set t)"
  using jobs.rows_survive [of t r] jobs.key_present [of r t] jobs.new_row_only [of r t] by blast

lemma kept_step: "kept s \<Longrightarrow> sys_step cfg s s' \<Longrightarrow> kept s'"
proof (erule sys_stepE, goal_cases)
  case (2 stringify uuid a i enqueued t)
  have "jb_id ` set t = insert i (jb_id ` set (sy_jobs s))"
    using schedule_rows [OF 2(3)] insert_ids [of "new_job stringify i (sy_now s) a"] by simp
  with 2 show ?case by (auto simp: kept_def)
next
  case (3 w c t)
  have "jb_id ` set t = jb_id ` set (sy_jobs s)"
    using claim_ids [OF 3(4)] by (metis list.set_map)
  with 3 show ?case by (auto simp: kept_def)
next
  case (5 w h oc)
  then show ?case by (auto simp: kept_def settle_ids split: if_splits)
qed (auto simp: kept_def split: if_splits)

text \<open>C2: Whatever the workers do, with crashes at any point, leases running out and handlers
  failing, a job whose enqueue was acknowledged is still in the table (pending, picked or dead)
  unless its handler reported success.\<close>

theorem accepted_job_never_lost:
  assumes "sys_reach cfg s"
  shows "sy_accepted s \<subseteq> jb_id ` set (sy_jobs s) \<union> sy_done s"
proof -
  have "kept s"
    using assms
  proof (induction rule: sys_reach.induct)
    case (start now)
    show ?case by (simp add: kept_def sys_start_def)
  next
    case (step s s')
    then show ?case by (blast intro: kept_step)
  qed
  then show ?thesis by (simp add: kept_def)
qed

section \<open>Leases\<close>

definition lease_inv :: "worker_config \<Rightarrow> sys \<Rightarrow> bool" where
  "lease_inv cfg s \<longleftrightarrow>
     distinct (map jb_id (sy_jobs s)) \<and>
     (\<forall>w h. sy_held s w = Some h \<longrightarrow>
        (\<exists>j \<in> set (sy_jobs s). jb_id j = hd_id h \<and> jb_status j = Picked \<and>
           jb_pickedAt j = Some (seconds (hd_at h)) \<and> jb_attempts j = hd_attempts h)) \<and>
     (\<forall>w w' h h'. sy_held s w = Some h \<and> sy_held s w' = Some h' \<and> hd_id h = hd_id h' \<longrightarrow> w = w') \<and>
     (\<forall>j \<in> set (sy_jobs s). jb_status j = Pending \<longrightarrow> jb_attempts j < wc_maxAttempts cfg)"

lemma lease_invD:
  assumes "lease_inv cfg s"
  shows "distinct (map jb_id (sy_jobs s))"
    and "sy_held s w = Some h \<Longrightarrow> \<exists>j \<in> set (sy_jobs s). jb_id j = hd_id h \<and> jb_status j = Picked \<and>
           jb_pickedAt j = Some (seconds (hd_at h)) \<and> jb_attempts j = hd_attempts h"
    and "sy_held s w = Some h \<Longrightarrow> sy_held s w' = Some h' \<Longrightarrow> hd_id h = hd_id h' \<Longrightarrow> w = w'"
    and "j \<in> set (sy_jobs s) \<Longrightarrow> jb_status j = Pending \<Longrightarrow> jb_attempts j < wc_maxAttempts cfg"
  using assms unfolding lease_inv_def by blast+

text \<open>A row held within its lease is not claimable.\<close>

lemma held_not_claimable:
  assumes inv: "lease_inv cfg s" and "timely cfg s" and h: "sy_held s w = Some h"
    and j: "j \<in> set (sy_jobs s)" "claimable cfg (sy_now s) j"
  shows "hd_id h \<noteq> jb_id j"
proof
  assume eq: "hd_id h = jb_id j"
  obtain j' where j': "j' \<in> set (sy_jobs s)" "jb_id j' = hd_id h" "jb_status j' = Picked"
      "jb_pickedAt j' = Some (seconds (hd_at h))"
    using lease_invD(2) [OF inv h] by blast
  have "j' = j" using same_id_same_job [OF lease_invD(1) [OF inv]] j j' eq by simp
  with j j' have "hd_at h div 1000 < (sy_now s - wc_leaseMs cfg) div 1000"
    by (simp add: claimable_def seconds_def)
  then have "hd_at h < sy_now s - wc_leaseMs cfg" by (meson not_less zdiv_mono1 zero_less_numeral)
  moreover have "sy_now s \<le> hd_at h + wc_leaseMs cfg" using assms(2) h by (simp add: timely_def)
  ultimately show False by simp
qed

lemma lease_inv_claim:
  assumes inv: "lease_inv cfg s" and ty: "timely cfg s"
    and c: "claim cfg (sy_now s) (sy_jobs s) = (Some c, t)" and w: "sy_held s w = None"
  shows "lease_inv cfg (s\<lparr>sy_jobs := t, sy_held := (sy_held s)(w \<mapsto>
           \<lparr>hd_id = cl_id c, hd_attempts = cl_attempts c, hd_at = sy_now s, hd_outcome = None\<rparr>)\<rparr>)"
proof -
  obtain j where j: "j \<in> set (sy_jobs s)" "claimable cfg (sy_now s) j" "cl_id c = jb_id j"
      "cl_attempts c = jb_attempts j + 1" "t = update_job (jb_id j) (pick (sy_now s)) (sy_jobs s)"
    by (rule claim_Some [OF c])
  have other: "hd_id h \<noteq> jb_id j" if "sy_held s w' = Some h" for w' h
    using held_not_claimable [OF inv ty that j(1,2)] .
  have keep: "\<exists>j' \<in> set t. jb_id j' = hd_id h \<and> jb_status j' = Picked \<and>
      jb_pickedAt j' = Some (seconds (hd_at h)) \<and> jb_attempts j' = hd_attempts h"
    if "sy_held s w' = Some h" for w' h
    using lease_invD(2) [OF inv that] other [OF that] unfolding j(5) by (auto simp: update_job_mem)
  have mine: "pick (sy_now s) j \<in> set t"
    using j(1) unfolding j(5) by (auto simp: update_job_mem)
  have "distinct (map jb_id t)" using claim_ids [OF c] lease_invD(1) [OF inv] by simp
  moreover have "jb_attempts j' < wc_maxAttempts cfg" if "j' \<in> set t" "jb_status j' = Pending" for j'
    using that lease_invD(4) [OF inv] unfolding j(5) by (auto simp: update_job_mem pick_def)
  moreover have "\<exists>j' \<in> set t. jb_id j' = cl_id c \<and> jb_status j' = Picked \<and>
      jb_pickedAt j' = Some (seconds (sy_now s)) \<and> jb_attempts j' = cl_attempts c"
    using mine j by (intro bexI [OF _ mine]) (simp add: pick_def)
  moreover have "hd_id h \<noteq> cl_id c" "cl_id c \<noteq> hd_id h" if "sy_held s w' = Some h" for w' h
    using other [OF that] j(3) by auto
  ultimately show ?thesis
    using keep lease_invD(3) [OF inv] unfolding lease_inv_def by (auto split: if_splits)
qed

lemma update_job_at:
  assumes "j \<in> set (update_job i f t)" and "jb_id j = i" and "\<And>j. jb_id (f j) = jb_id j"
  obtains j0 where "j0 \<in> set t" and "jb_id j0 = i" and "j = f j0"
proof -
  from assms(1) [unfolded update_job_def set_map]
  obtain j0 where j0: "j = (if jb_id j0 = i then f j0 else j0)" "j0 \<in> set t" by (rule imageE)
  with assms(2) that show thesis by (cases "jb_id j0 = i") simp_all
qed

lemma settle_pending:
  assumes j: "j \<in> set (settle cfg now i n oc t)" "jb_id j = i" "jb_status j = Pending"
  shows "j \<in> set t \<or> (\<exists>j0 \<in> set t. jb_id j0 = i \<and> jb_attempts j = jb_attempts j0 \<and> n < wc_maxAttempts cfg)"
proof -
  have dead: False if "j \<in> set (markDead now i e t)" for e
    using that [unfolded markDead_def] j(2) by (rule update_job_at) (use j(3) in simp_all)
  have retry: "\<exists>j0 \<in> set t. jb_id j0 = i \<and> jb_attempts j = jb_attempts j0"
    if "j \<in> set (scheduleRetry now i b e t)" for b e
    using that [unfolded scheduleRetry_def] j(2) by (rule update_job_at) auto
  show ?thesis
  proof (cases oc)
    case Success
    with j show ?thesis by (simp add: settle_def deleteJob_def)
  next
    case (Permanent e)
    with j(1) have "j \<in> set (markDead now i e t)" by (simp add: settle_def)
    then show ?thesis using dead by blast
  next
    case (Transient e)
    show ?thesis
    proof (cases "shouldGiveUp n (wc_maxAttempts cfg)")
      case True
      with Transient j(1) have "j \<in> set (markDead now i e t)" by (simp add: settle_def)
      then show ?thesis using dead by blast
    next
      case False
      with Transient j(1) retry show ?thesis
        by (cases "computeBackoff n") (auto simp: settle_def shouldGiveUp_def)
    qed
  qed
qed

lemma lease_invI:
  assumes "distinct (map jb_id (sy_jobs s))"
    and "\<And>w h. sy_held s w = Some h \<Longrightarrow> \<exists>j \<in> set (sy_jobs s). jb_id j = hd_id h \<and> jb_status j = Picked \<and>
           jb_pickedAt j = Some (seconds (hd_at h)) \<and> jb_attempts j = hd_attempts h"
    and "\<And>w w' h h'. sy_held s w = Some h \<Longrightarrow> sy_held s w' = Some h' \<Longrightarrow> hd_id h = hd_id h' \<Longrightarrow> w = w'"
    and "\<And>j. j \<in> set (sy_jobs s) \<Longrightarrow> jb_status j = Pending \<Longrightarrow> jb_attempts j < wc_maxAttempts cfg"
  shows "lease_inv cfg s"
  using assms unfolding lease_inv_def by blast

lemma lease_inv_settle:
  assumes inv: "lease_inv cfg s" and h: "sy_held s w = Some h"
  shows "lease_inv cfg (s\<lparr>sy_jobs := settle cfg (sy_now s) (hd_id h) (hd_attempts h) oc (sy_jobs s),
           sy_held := (sy_held s)(w := None)\<rparr>)" (is "lease_inv cfg ?s'")
proof -
  let ?t = "settle cfg (sy_now s) (hd_id h) (hd_attempts h) oc (sy_jobs s)"
  have other: "hd_id h' \<noteq> hd_id h" if "sy_held s w' = Some h'" "w' \<noteq> w" for w' h'
    using lease_invD(3) [OF inv that(1) h] that(2) by blast
  have pend: "jb_attempts j < wc_maxAttempts cfg" if j: "j \<in> set ?t" "jb_status j = Pending" for j
  proof (cases "jb_id j = hd_id h")
    case False
    with j lease_invD(4) [OF inv] show ?thesis by (simp add: settle_other)
  next
    case True
    obtain j0 where j0: "j0 \<in> set (sy_jobs s)" "jb_id j0 = hd_id h" "jb_status j0 = Picked"
        "jb_attempts j0 = hd_attempts h"
      using lease_invD(2) [OF inv h] by blast
    have only: "j' = j0" if "j' \<in> set (sy_jobs s)" "jb_id j' = hd_id h" for j'
      using same_id_same_job [OF lease_invD(1) [OF inv] that(1) j0(1)] that(2) j0(2) by simp
    from settle_pending [OF j(1) True j(2)] show ?thesis
    proof (elim disjE bexE conjE)
      assume "j \<in> set (sy_jobs s)"
      with lease_invD(4) [OF inv] j(2) show ?thesis by blast
    next
      fix j1 assume "j1 \<in> set (sy_jobs s)" "jb_id j1 = hd_id h" "jb_attempts j = jb_attempts j1"
        "hd_attempts h < wc_maxAttempts cfg"
      with only [of j1] j0(4) show ?thesis by simp
    qed
  qed
  have held: "\<exists>j \<in> set ?t. jb_id j = hd_id h' \<and> jb_status j = Picked \<and>
      jb_pickedAt j = Some (seconds (hd_at h')) \<and> jb_attempts j = hd_attempts h'"
    if "((sy_held s)(w := None)) w' = Some h'" for w' h'
  proof -
    from that have h': "sy_held s w' = Some h'" "w' \<noteq> w" by (auto split: if_splits)
    obtain j where j: "j \<in> set (sy_jobs s)" "jb_id j = hd_id h'" "jb_status j = Picked"
        "jb_pickedAt j = Some (seconds (hd_at h'))" "jb_attempts j = hd_attempts h'"
      using lease_invD(2) [OF inv h'(1)] by blast
    have "j \<in> set ?t" using j(1,2) other [OF h'] by (simp add: settle_other)
    with j show ?thesis by blast
  qed
  have alone: "w1 = w2"
    if "((sy_held s)(w := None)) w1 = Some h1" "((sy_held s)(w := None)) w2 = Some h2" "hd_id h1 = hd_id h2"
    for w1 w2 h1 h2
    using that lease_invD(3) [OF inv, of w1 h1 w2 h2] by (simp split: if_splits)
  have jobs: "sy_jobs ?s' = ?t" and held': "sy_held ?s' = (sy_held s)(w := None)" by simp_all
  show ?thesis
  proof (rule lease_invI, unfold jobs held')
    show "distinct (map jb_id ?t)" by (rule settle_distinct [OF lease_invD(1) [OF inv]])
  qed (erule held, erule (2) alone, erule (1) pend)
qed

lemma lease_inv_enqueue:
  assumes inv: "lease_inv cfg s" and pos: "0 < wc_maxAttempts cfg"
    and e: "scheduleDurableWrite stringify uuid (sy_now s) a (sy_jobs s) = Inr ((i, enqueued), t)"
  shows "lease_inv cfg (s\<lparr>sy_jobs := t, sy_accepted := X\<rparr>)"
proof -
  let ?r = "new_job stringify i (sy_now s) a"
  have t: "t = fst (insertJob ?r (sy_jobs s))" by (rule schedule_rows [OF e])
  have "set (sy_jobs s) \<subseteq> set t" using jobs.rows_survive [of "sy_jobs s" ?r] by (simp add: t)
  moreover have "jb_attempts j < wc_maxAttempts cfg" if "j \<in> set t" "jb_status j = Pending" for j
  proof -
    have "j = ?r \<or> j \<in> set (sy_jobs s)"
      using jobs.new_row_only [of ?r "sy_jobs s"] that(1) by (auto simp: t)
    with that pos lease_invD(4) [OF inv] show ?thesis by auto
  qed
  moreover have "distinct (map jb_id t)"
    using jobs.keys_stay_unique [OF lease_invD(1) [OF inv]] by (simp add: t)
  moreover have "\<exists>j \<in> set t. jb_id j = hd_id h \<and> jb_status j = Picked \<and>
      jb_pickedAt j = Some (seconds (hd_at h)) \<and> jb_attempts j = hd_attempts h"
    if "sy_held s w = Some h" for w h
    using lease_invD(2) [OF inv that] calculation(1) by blast
  ultimately show ?thesis
    using lease_invD(3) [OF inv] unfolding lease_inv_def by simp
qed

lemma timely_reach_inv:
  assumes "timely_reach cfg s" and pos: "0 < wc_maxAttempts cfg"
  shows "lease_inv cfg s \<and> timely cfg s"
  using assms(1)
proof (induction rule: timely_reach.induct)
  case (start now)
  show ?case by (simp add: lease_inv_def timely_def sys_start_def)
next
  case (step s s')
  then have inv: "lease_inv cfg s" and ty: "timely cfg s" by simp_all
  from step.hyps(2) have "lease_inv cfg s'"
  proof (cases rule: sys_step.cases)
    case (Enqueue stringify uuid a i enqueued t)
    then show ?thesis using lease_inv_enqueue [OF inv pos] by simp
  next
    case (Claim w c t)
    then show ?thesis using lease_inv_claim [OF inv ty] by simp
  next
    case (Dispatch w h oc)
    with inv show ?thesis unfolding lease_inv_def by (auto split: if_splits)
  next
    case (Settle w h oc)
    then show ?thesis using lease_inv_settle [OF inv] by simp
  qed (use inv in \<open>auto simp: lease_inv_def split: if_splits\<close>)
  with step.hyps(3) show ?case by simp
qed

text \<open>C3: While every worker settles or dies within its lease, no two workers ever hold the same
  job, and every claim in flight is backed by a picked row that carries its instant and its attempt
  number.\<close>

theorem one_worker_per_job:
  assumes "timely_reach cfg s" and "0 < wc_maxAttempts cfg"
  shows "(\<forall>w w' h h'. sy_held s w = Some h \<and> sy_held s w' = Some h' \<and> hd_id h = hd_id h' \<longrightarrow> w = w') \<and>
         (\<forall>w h. sy_held s w = Some h \<longrightarrow> (\<exists>j \<in> set (sy_jobs s). jb_id j = hd_id h \<and>
            jb_status j = Picked \<and> jb_pickedAt j = Some (seconds (hd_at h)) \<and> jb_attempts j = hd_attempts h))"
  using timely_reach_inv [OF assms] unfolding lease_inv_def by blast

text \<open>In such a run a dead job stays in the table, dead and unchanged, whatever step follows: no
  claim, retry or settle of another job brings it back.\<close>

theorem dead_job_final:
  assumes "timely_reach cfg s" and "0 < wc_maxAttempts cfg" and "sys_step cfg s s'"
    and d: "j \<in> set (sy_jobs s)" "jb_status j = Dead"
  shows "j \<in> set (sy_jobs s')"
proof -
  have inv: "lease_inv cfg s" using timely_reach_inv [OF assms(1,2)] by simp
  from assms(3) show ?thesis
  proof (cases rule: sys_step.cases)
    case (Enqueue stringify uuid a i enqueued t)
    then show ?thesis using schedule_rows [OF Enqueue(2)] jobs.rows_survive d(1) by fastforce
  next
    case (Claim w c t)
    obtain j' where j': "j' \<in> set (sy_jobs s)" "claimable cfg (sy_now s) j'"
        "t = update_job (jb_id j') (pick (sy_now s)) (sy_jobs s)"
      by (rule claim_Some [OF Claim(3)])
    have "jb_id j \<noteq> jb_id j'"
      using same_id_same_job [OF lease_invD(1) [OF inv] d(1) j'(1)] j'(2) d(2) by (auto simp: claimable_def)
    with Claim j'(3) d(1) show ?thesis by (simp add: update_job_mem)
  next
    case (Settle w h oc)
    obtain j' where j': "j' \<in> set (sy_jobs s)" "jb_id j' = hd_id h" "jb_status j' = Picked"
      using lease_invD(2) [OF inv Settle(2)] by blast
    have "jb_id j \<noteq> hd_id h"
      using same_id_same_job [OF lease_invD(1) [OF inv] d(1) j'(1)] j' d(2) by auto
    with Settle d(1) show ?thesis by (simp add: settle_other)
  qed (use d in auto)
qed

section \<open>The steps as a function\<close>

text \<open>One schedule, executed: the step relation read as a program over operations.\<close>

datatype sys_op =
    OpPass int
  | OpEnqueue durable_args string
  | OpClaim nat
  | OpDispatch nat outcome
  | OpSettle nat
  | OpCrash nat

fun sys_do :: "worker_config \<Rightarrow> (js \<Rightarrow> string) \<Rightarrow> sys_op \<Rightarrow> sys \<Rightarrow> sys option" where
  "sys_do cfg sf (OpPass t) s = (if sy_now s \<le> t then Some (s\<lparr>sy_now := t\<rparr>) else None)"
| "sys_do cfg sf (OpEnqueue a uuid) s =
     (case scheduleDurableWrite sf uuid (sy_now s) a (sy_jobs s) of
        Inl _ \<Rightarrow> None
      | Inr ((i, _), t) \<Rightarrow> Some (s\<lparr>sy_jobs := t, sy_accepted := insert i (sy_accepted s)\<rparr>))"
| "sys_do cfg sf (OpClaim w) s =
     (case (sy_held s w, claim cfg (sy_now s) (sy_jobs s)) of
        (None, (Some c, t)) \<Rightarrow> Some (s\<lparr>sy_jobs := t, sy_held := (sy_held s)(w \<mapsto>
          \<lparr>hd_id = cl_id c, hd_attempts = cl_attempts c, hd_at = sy_now s, hd_outcome = None\<rparr>)\<rparr>)
      | _ \<Rightarrow> None)"
| "sys_do cfg sf (OpDispatch w oc) s =
     (case sy_held s w of
        Some h \<Rightarrow> (if hd_outcome h = None
                   then Some (s\<lparr>sy_held := (sy_held s)(w \<mapsto> h\<lparr>hd_outcome := Some oc\<rparr>),
                                sy_done := (if oc = Success then insert (hd_id h) (sy_done s) else sy_done s)\<rparr>)
                   else None)
      | None \<Rightarrow> None)"
| "sys_do cfg sf (OpSettle w) s =
     (case sy_held s w of
        Some h \<Rightarrow> (case hd_outcome h of
                     Some oc \<Rightarrow> Some (s\<lparr>sy_jobs := settle cfg (sy_now s) (hd_id h) (hd_attempts h) oc (sy_jobs s),
                                        sy_held := (sy_held s)(w := None)\<rparr>)
                   | None \<Rightarrow> None)
      | None \<Rightarrow> None)"
| "sys_do cfg sf (OpCrash w) s = Some (s\<lparr>sy_held := (sy_held s)(w := None)\<rparr>)"

lemma sys_do_step: "sys_do cfg sf op s = Some s' \<Longrightarrow> sys_step cfg s s'"
proof (cases op)
  case (OpDispatch w oc)
  assume "sys_do cfg sf op s = Some s'"
  with OpDispatch obtain h where h: "sy_held s w = Some h" "hd_outcome h = None"
    and s': "s' = s\<lparr>sy_held := (sy_held s)(w \<mapsto> h\<lparr>hd_outcome := Some oc\<rparr>),
                    sy_done := (if oc = Success then insert (hd_id h) (sy_done s) else sy_done s)\<rparr>"
    by (auto split: option.splits if_splits)
  show ?thesis unfolding s' by (rule sys_step.Dispatch [OF h])
qed (auto split: option.splits sum.splits prod.splits if_splits intro: sys_step.intros)

fun sys_run :: "worker_config \<Rightarrow> (js \<Rightarrow> string) \<Rightarrow> sys_op list \<Rightarrow> sys \<Rightarrow> sys option" where
  "sys_run cfg sf [] s = Some s"
| "sys_run cfg sf (op # ops) s =
     (case sys_do cfg sf op s of None \<Rightarrow> None | Some s' \<Rightarrow> sys_run cfg sf ops s')"

lemma sys_run_reach: "sys_run cfg sf ops s = Some s' \<Longrightarrow> sys_reach cfg s \<Longrightarrow> sys_reach cfg s'"
proof (induction ops arbitrary: s)
  case Nil
  then show ?case by simp
next
  case (Cons op ops)
  then obtain s1 where s1: "sys_do cfg sf op s = Some s1" "sys_run cfg sf ops s1 = Some s'"
    by (auto split: option.splits)
  from sys_reach.step [OF Cons.prems(2) sys_do_step [OF s1(1)]] Cons.IH [OF s1(2)] show ?case by blast
qed

text \<open>
  Without timeliness exclusion breaks: a worker that settles late puts the row another worker holds
  back to pending, and a third one claims it.
\<close>

definition default_worker :: worker_config where
  "default_worker = \<lparr> wc_leaseMs = 30000, wc_maxAttempts = MAX_ATTEMPTS_DEFAULT, wc_queueFilter = None \<rparr>"

definition audit_job :: durable_args where
  "audit_job = \<lparr> da_queue = ''run_event'', da_payload = JNull, da_id = Some ''a'', da_runAfter = None \<rparr>"

definition late_schedule :: "sys_op list" where
  "late_schedule =
     [OpEnqueue audit_job [], OpClaim 0, OpDispatch 0 (Transient ''busy''), OpPass 31000, OpClaim 1,
      OpSettle 0, OpPass 32000, OpClaim 2]"

text \<open>The row update after a dispatch is by id alone.  A worker whose lease has run out and
  whose dispatch failed makes the job pending while its second claimant holds it, so that a third
  worker claims it: two workers hold one job, both well within their lease.\<close>

theorem late_settle_breaks_exclusion:
  "\<exists>s h h'. sys_reach default_worker s \<and> sy_held s 1 = Some h \<and> sy_held s 2 = Some h' \<and>
     hd_id h = hd_id h' \<and> sy_now s < hd_at h + wc_leaseMs default_worker \<and>
     sy_now s < hd_at h' + wc_leaseMs default_worker"
proof -
  have "\<exists>s h h'. sys_run default_worker (\<lambda>_. []) late_schedule (sys_start 0) = Some s \<and>
      sy_held s 1 = Some h \<and> sy_held s 2 = Some h' \<and> hd_id h = hd_id h' \<and>
      sy_now s < hd_at h + 30000 \<and> sy_now s < hd_at h' + 30000"
    by (simp add: late_schedule_def sys_start_def audit_job_def default_worker_def MAX_ATTEMPTS_DEFAULT_def
        scheduleDurableWrite_def insertJob_def insert_or_ignore_def new_job_def seconds_def claim_def
        claimable_def first_row_def order_by_def update_job_def pick_def settle_def shouldGiveUp_def
        computeBackoff_def RETRY_DELAYS_MS_def scheduleRetry_def Let_def)
  then show ?thesis
    using sys_run_reach [OF _ sys_reach.start [of default_worker 0]]
    by (auto simp: default_worker_def)
qed

section \<open>Retries\<close>

lemma backoff_defined:
  "1 \<le> n \<Longrightarrow> n \<le> 5 \<Longrightarrow> computeBackoff n = Inr (RETRY_DELAYS_MS ! nat (n - 1))"
  by (simp add: computeBackoff_def RETRY_DELAYS_MS_def)

text \<open>A single row in the table, claimed when due.\<close>

lemma claim_single:
  "jb_status j = Pending \<Longrightarrow> jb_runAfter j \<le> seconds now \<Longrightarrow> wc_queueFilter cfg = None \<Longrightarrow>
   claim cfg now [j] =
     (Some \<lparr> cl_id = jb_id j, cl_queue = jb_queue j, cl_payload = jb_payload j,
             cl_attempts = jb_attempts j + 1 \<rparr>, [pick now j])"
  by (simp add: claim_def claimable_def order_by_def first_row_def update_job_def)

text \<open>A handler that fails and counts its calls.\<close>

definition failing :: "string \<Rightarrow> outbox_job \<Rightarrow> nat \<Rightarrow> (string + outcome) \<times> nat" where
  "failing e job n = (Inl e, Suc n)"

text \<open>Runs one after another.\<close>

fun run_many ::
  "worker_config \<Rightarrow> (string \<Rightarrow> string + js) \<Rightarrow> (outbox_job \<Rightarrow> 'd \<Rightarrow> (string + outcome) \<times> 'd) \<Rightarrow>
   run_env list \<Rightarrow> job list \<times> 'd \<Rightarrow> job list \<times> 'd"
where
  "run_many cfg jparse handler [] td = td"
| "run_many cfg jparse handler (env # envs) td =
     run_many cfg jparse handler envs (runOne cfg jparse handler env (fst td) (snd td))"

lemma seconds_mono: "a \<le> b \<Longrightarrow> seconds a \<le> seconds b"
  unfolding seconds_def by (simp add: zdiv_mono1)

definition run_outcome ::
  "worker_config \<Rightarrow> (string \<Rightarrow> string + js) \<Rightarrow> (outbox_job \<Rightarrow> 'd \<Rightarrow> (string + outcome) \<times> 'd) \<Rightarrow>
   claimed_row \<Rightarrow> 'd \<Rightarrow> outcome"
where
  "run_outcome cfg jparse handler c d =
     (case decode cfg jparse c of
        Inl e \<Rightarrow> Permanent e
      | Inr job \<Rightarrow> (case fst (handler job d) of Inl m \<Rightarrow> Transient m | Inr oc \<Rightarrow> oc))"

lemma decode_id: "decode cfg jparse c = Inr job \<Longrightarrow> oj_id job = cl_id c \<and> oj_attempts job = cl_attempts c"
  by (auto simp: decode_def split: option.splits if_splits sum.splits)

lemma runOne_table:
  "fst (runOne cfg jparse handler env t d) =
     (if re_claimThrows env then t
      else case claim cfg (re_claimAt env) t of
        (None, t') \<Rightarrow> t'
      | (Some c, t') \<Rightarrow>
          if re_settleThrows env then t'
          else settle cfg (re_settleAt env) (cl_id c) (cl_attempts c) (run_outcome cfg jparse handler c d) t')"
proof (cases "claim cfg (re_claimAt env) t")
  case (Pair r t')
  show ?thesis
  proof (cases r)
    case None
    with Pair show ?thesis by (simp add: runOne_def)
  next
    case (Some c)
    with Pair show ?thesis
      by (cases "decode cfg jparse c")
        (auto simp: runOne_def run_outcome_def settle_def decode_id split: prod.splits sum.splits)
  qed
qed

text \<open>The runs that claim a given job, in a table that others share.\<close>

fun serving ::
  "worker_config \<Rightarrow> (string \<Rightarrow> string + js) \<Rightarrow> (outbox_job \<Rightarrow> 'd \<Rightarrow> (string + outcome) \<times> 'd) \<Rightarrow> string \<Rightarrow>
   run_env list \<Rightarrow> job list \<times> 'd \<Rightarrow> run_env list"
where
  "serving cfg jparse handler i [] td = []"
| "serving cfg jparse handler i (env # envs) td =
     (case fst (claim cfg (re_claimAt env) (fst td)) of
        Some c \<Rightarrow> if cl_id c = i then [env] else []
      | None \<Rightarrow> []) @
     serving cfg jparse handler i envs (runOne cfg jparse handler env (fst td) (snd td))"

text \<open>The published schedule: one, five and thirty seconds, five and thirty minutes after the end of the run before.\<close>

definition published_delay :: "nat \<Rightarrow> int" where
  "published_delay k = [1000, 5000, 30000, 300000, 1800000] ! k"

fun on_schedule :: "int \<Rightarrow> nat \<Rightarrow> run_env list \<Rightarrow> bool" where
  "on_schedule due k [] \<longleftrightarrow> True"
| "on_schedule due k (env # envs) \<longleftrightarrow>
     due \<le> seconds (re_claimAt env) \<and>
     on_schedule (seconds (re_settleAt env + published_delay k)) (Suc k) envs"

text \<open>Every dispatch of the job fails, by whatever error, thrown or reported.\<close>

definition always_fails :: "(outbox_job \<Rightarrow> 'd \<Rightarrow> (string + outcome) \<times> 'd) \<Rightarrow> string \<Rightarrow> bool" where
  "always_fails handler i \<longleftrightarrow>
     (\<forall>job d. oj_id job = i \<longrightarrow> (\<exists>m. fst (handler job d) = Inl m \<or> fst (handler job d) = Inr (Transient m)))"

lemma update_job_other: "j \<in> set t \<Longrightarrow> jb_id j \<noteq> i \<Longrightarrow> j \<in> set (update_job i f t)"
  by (simp add: update_job_mem)

lemma claimed_row:
  assumes "claim cfg now t = (Some c, t')"
  obtains j where "j \<in> set t" "claimable cfg now j" "cl_id c = jb_id j" "cl_queue c = jb_queue j"
    "cl_payload c = jb_payload j" "cl_attempts c = jb_attempts j + 1" "t' = update_job (jb_id j) (pick now) t"
proof -
  obtain j where j: "first_row (order_by jb_runAfter (filter (claimable cfg now) t)) = Some j"
    using assms by (auto simp: claim_def split: option.splits)
  then have "j \<in> set (filter (claimable cfg now) t)" by (metis first_row_in set_order_by)
  then show ?thesis using that [of j] assms j by (auto simp: claim_def)
qed

lemma runOne_distinct: "distinct (map jb_id t) \<Longrightarrow> distinct (map jb_id (fst (runOne cfg jparse handler env t d)))"
  by (auto simp: runOne_table settle_distinct pick_def elim!: claimed_row dest: claim_None
      split: prod.split option.split)

text \<open>A run that claims another job, or none, leaves a row alone.\<close>

lemma runOne_other:
  assumes "j \<in> set t" and "\<And>c. fst (claim cfg (re_claimAt env) t) = Some c \<Longrightarrow> cl_id c \<noteq> jb_id j"
  shows "j \<in> set (fst (runOne cfg jparse handler env t d))"
proof (cases "claim cfg (re_claimAt env) t")
  case (Pair r t')
  show ?thesis
  proof (cases r)
    case None
    then show ?thesis using Pair assms(1) claim_None [of cfg "re_claimAt env" t t'] by (auto simp: runOne_table)
  next
    case (Some c)
    then have ne: "cl_id c \<noteq> jb_id j" using assms(2) Pair by simp
    have "claim cfg (re_claimAt env) t = (Some c, t')" using Pair Some by simp
    then obtain i where "cl_id c = i" "t' = update_job i (pick (re_claimAt env)) t" by (rule claimed_row) blast
    then have "j \<in> set t'" using update_job_other [OF assms(1)] ne by metis
    then show ?thesis using Pair Some assms(1) ne by (auto simp: runOne_table settle_other)
  qed
qed

text \<open>A run that claims the row of a failing job.\<close>

lemma runOne_failing:
  assumes t: "distinct (map jb_id t)" "j \<in> set t" and j: "jb_status j = Pending" "jparse (jb_payload j) = Inr v"
    and k: "jb_attempts j = int k" "int k < wc_maxAttempts cfg" "wc_maxAttempts cfg \<le> 6"
    and fails: "always_fails handler (jb_id j)"
    and c: "fst (claim cfg (re_claimAt env) t) = Some c" "cl_id c = jb_id j"
    and env: "\<not> re_claimThrows env" "\<not> re_settleThrows env"
  shows "jb_runAfter j \<le> seconds (re_claimAt env) \<and>
    (\<exists>j' \<in> set (fst (runOne cfg jparse handler env t d)).
       jb_id j' = jb_id j \<and> jb_payload j' = jb_payload j \<and> jb_attempts j' = int (Suc k) \<and>
       (if int (Suc k) < wc_maxAttempts cfg
        then jb_status j' = Pending \<and> jb_runAfter j' = seconds (re_settleAt env + published_delay k)
        else jb_status j' = Dead \<and> jb_failedAt j' = Some (seconds (re_settleAt env))))"
proof -
  obtain t' where cl: "claim cfg (re_claimAt env) t = (Some c, t')" using c(1) by (cases "claim cfg (re_claimAt env) t") simp
  obtain j0 where j0: "j0 \<in> set t" "claimable cfg (re_claimAt env) j0" "cl_id c = jb_id j0" "cl_queue c = jb_queue j0"
    "cl_payload c = jb_payload j0" "cl_attempts c = jb_attempts j0 + 1" "t' = update_job (jb_id j0) (pick (re_claimAt env)) t"
    using claimed_row [OF cl] by blast
  have "j0 = j" using t j0(1,3) c(2) by (auto simp: distinct_map inj_on_def)
  note j0 = j0 [unfolded this]
  have due: "jb_runAfter j \<le> seconds (re_claimAt env)" using j0(2) j(1) by (simp add: claimable_def)
  obtain job where job: "decode cfg jparse c = Inr job"
    using j0(2,4,5) j(2) by (auto simp: decode_def claimable_def split: option.splits)
  have "oj_id job = jb_id j" using decode_id [OF job] c(2) by simp
  then obtain m where "fst (handler job d) = Inl m \<or> fst (handler job d) = Inr (Transient m)"
    using fails unfolding always_fails_def by blast
  then have oc: "run_outcome cfg jparse handler c d = Transient m" by (auto simp: run_outcome_def job)
  have table: "fst (runOne cfg jparse handler env t d) =
      settle cfg (re_settleAt env) (jb_id j) (1 + int k) (Transient m) t'"
    using cl env oc j0(3,6) k(1) by (simp add: runOne_table add.commute)
  have mem: "pick (re_claimAt env) j \<in> set t'" using j0(7) t(2) by (auto simp: update_job_mem)
  have delay: "computeBackoff (1 + int k) = Inr (published_delay k)" if "int (Suc k) < wc_maxAttempts cfg"
    using backoff_defined [of "1 + int k"] that k(3) by (simp add: published_delay_def RETRY_DELAYS_MS_def)
  have row: "f (pick (re_claimAt env) j) \<in> set (update_job (jb_id j) f t')" for f
    unfolding update_job_mem by (intro disjI1 bexI [OF _ mem]) (simp add: pick_def)
  show ?thesis
  proof (cases "int (Suc k) < wc_maxAttempts cfg")
    case True
    then have "fst (runOne cfg jparse handler env t d) =
        scheduleRetry (re_settleAt env) (jb_id j) (published_delay k) m t'"
      by (simp add: table settle_def shouldGiveUp_def delay [OF True])
    then show ?thesis using due True k(1)
      by (auto simp: scheduleRetry_def pick_def intro!: bexI [OF _ row])
  next
    case False
    then have "fst (runOne cfg jparse handler env t d) = markDead (re_settleAt env) (jb_id j) m t'"
      by (simp add: table settle_def shouldGiveUp_def)
    then show ?thesis using due False k(1)
      by (auto simp: markDead_def pick_def intro!: bexI [OF _ row])
  qed
qed

lemma dead_stays:
  assumes "distinct (map jb_id t)" and "j \<in> set t" and "jb_status j = Dead"
  shows "serving cfg jparse handler (jb_id j) envs (t, d) = [] \<and> j \<in> set (fst (run_many cfg jparse handler envs (t, d)))"
  using assms
proof (induction envs arbitrary: t d)
  case (Cons env envs)
  have ne: "cl_id c \<noteq> jb_id j" if c: "fst (claim cfg (re_claimAt env) t) = Some c" for c
  proof
    assume i: "cl_id c = jb_id j"
    obtain t' where "claim cfg (re_claimAt env) t = (Some c, t')" using c by (cases "claim cfg (re_claimAt env) t") simp
    then obtain j0 where "j0 \<in> set t" "claimable cfg (re_claimAt env) j0" "cl_id c = jb_id j0" by (rule claimed_row)
    moreover have "j0 = j" using Cons.prems(1,2) calculation(1,3) i by (auto simp: distinct_map inj_on_def)
    ultimately show False using Cons.prems(3) by (simp add: claimable_def)
  qed
  obtain t1 d1 where r: "runOne cfg jparse handler env t d = (t1, d1)" by fastforce
  have "distinct (map jb_id t1)" "j \<in> set t1"
    using runOne_distinct [OF Cons.prems(1)] runOne_other [OF Cons.prems(2) ne] r by (metis fst_conv)+
  from Cons.IH [OF this Cons.prems(3)] show ?case using ne by (auto simp: r split: option.split)
qed simp

lemma failing_serves:
  assumes "distinct (map jb_id t)" and "j \<in> set t" and "jb_status j = Pending" and "jparse (jb_payload j) = Inr v"
    and "jb_attempts j = int k" and "int k < wc_maxAttempts cfg" and "wc_maxAttempts cfg \<le> 6"
    and "always_fails handler (jb_id j)" and "\<forall>env \<in> set envs. \<not> re_claimThrows env \<and> \<not> re_settleThrows env"
  shows "let S = serving cfg jparse handler (jb_id j) envs (t, d) in
    int (k + length S) \<le> wc_maxAttempts cfg \<and> on_schedule (jb_runAfter j) k S \<and>
    (\<exists>j' \<in> set (fst (run_many cfg jparse handler envs (t, d))).
       jb_id j' = jb_id j \<and> jb_attempts j' = int (k + length S) \<and>
       (if int (k + length S) = wc_maxAttempts cfg
        then jb_status j' = Dead \<and> jb_failedAt j' = Some (seconds (re_settleAt (last S)))
        else jb_status j' = Pending \<and>
          jb_runAfter j' = (if S = [] then jb_runAfter j
                            else seconds (re_settleAt (last S) + published_delay (k + length S - 1)))))"
  using assms unfolding Let_def
proof (induction envs arbitrary: t d j k)
  case Nil
  then show ?case by auto
next
  case (Cons env envs)
  obtain t1 d1 where r: "runOne cfg jparse handler env t d = (t1, d1)" by fastforce
  have dist: "distinct (map jb_id t1)" using runOne_distinct [OF Cons.prems(1)] r by (metis fst_conv)
  have env: "\<not> re_claimThrows env" "\<not> re_settleThrows env" using Cons.prems(9) by simp_all
  have many: "run_many cfg jparse handler (env # envs) (t, d) = run_many cfg jparse handler envs (t1, d1)" by (simp add: r)
  have envs: "\<forall>env \<in> set envs. \<not> re_claimThrows env \<and> \<not> re_settleThrows env" using Cons.prems(9) by simp
  show ?case
  proof (cases "\<exists>c. fst (claim cfg (re_claimAt env) t) = Some c \<and> cl_id c = jb_id j")
    case False
    then have "j \<in> set t1" using runOne_other [OF Cons.prems(2)] r by (metis fst_conv)
    moreover have "serving cfg jparse handler (jb_id j) (env # envs) (t, d) = serving cfg jparse handler (jb_id j) envs (t1, d1)"
      using False by (auto simp: r split: option.split)
    ultimately show ?thesis using Cons.IH [where t = t1 and j = j and k = k, OF dist _ Cons.prems(3-8) envs, of d1] by (simp only: many)
  next
    case True
    then obtain c where c: "fst (claim cfg (re_claimAt env) t) = Some c" "cl_id c = jb_id j" by blast
    from runOne_failing [where t = t and j = j and k = k and jparse = jparse and v = v, OF Cons.prems(1-8) c env, of d] obtain j1 where due: "jb_runAfter j \<le> seconds (re_claimAt env)"
      and j1: "j1 \<in> set t1" "jb_id j1 = jb_id j" "jb_payload j1 = jb_payload j" "jb_attempts j1 = int (Suc k)"
        "if int (Suc k) < wc_maxAttempts cfg
         then jb_status j1 = Pending \<and> jb_runAfter j1 = seconds (re_settleAt env + published_delay k)
         else jb_status j1 = Dead \<and> jb_failedAt j1 = Some (seconds (re_settleAt env))"
      by (auto simp: r)
    have S: "serving cfg jparse handler (jb_id j) (env # envs) (t, d) = env # serving cfg jparse handler (jb_id j) envs (t1, d1)"
      using c by (simp add: r)
    show ?thesis
    proof (cases "int (Suc k) < wc_maxAttempts cfg")
      case more: True
      have st: "jb_status j1 = Pending" "jb_runAfter j1 = seconds (re_settleAt env + published_delay k)"
        using j1(5) more by simp_all
      have p: "jparse (jb_payload j1) = Inr v" "always_fails handler (jb_id j1)" using Cons.prems(4,8) j1(2,3) by simp_all
      from Cons.IH [where t = t1 and j = j1 and k = "Suc k", OF dist j1(1) st(1) p(1) j1(4) more Cons.prems(7) p(2) envs, of d1] show ?thesis
        unfolding many S j1(2) st(2) using due more by (auto split: if_splits)
    next
      case last: False
      then have cap: "int (Suc k) = wc_maxAttempts cfg" using Cons.prems(6) by simp
      have st: "jb_status j1 = Dead" "jb_failedAt j1 = Some (seconds (re_settleAt env))" using j1(5) last by simp_all
      from dead_stays [OF dist j1(1) st(1), of cfg jparse handler envs d1]
      have "serving cfg jparse handler (jb_id j) envs (t1, d1) = []" "j1 \<in> set (fst (run_many cfg jparse handler envs (t1, d1)))"
        by (simp_all add: j1(2))
      then show ?thesis unfolding many S using due cap st j1(2,4) by (auto intro!: bexI [of _ j1])
    qed
  qed
qed

text \<open>C10: A new job with a payload that parses, and whose every dispatch throws or reports a transient failure, by
  whatever errors, in a table it may share with other jobs, under the runs of one worker with any queue filter, at any
  times, whose claims and updates do not throw: it is dispatched at most as often as the cap of at most six allows;
  after each failure it is pending and due one, five and thirty seconds, five and thirty minutes after the end of that
  run, and no run takes it before; with the last attempt it is dead, stamped with the end of that run, and is never
  taken again.\<close>

theorem failing_job_dies_on_schedule:
  assumes "distinct (map jb_id t)" and "j \<in> set t" and "jb_status j = Pending" and "jb_attempts j = 0"
    and "jparse (jb_payload j) = Inr v" and "1 \<le> wc_maxAttempts cfg" and "wc_maxAttempts cfg \<le> 6"
    and "always_fails handler (jb_id j)" and "\<forall>env \<in> set envs. \<not> re_claimThrows env \<and> \<not> re_settleThrows env"
    and "S = serving cfg jparse handler (jb_id j) envs (t, d)"
  shows "int (length S) \<le> wc_maxAttempts cfg \<and> on_schedule (jb_runAfter j) 0 S \<and>
    (\<exists>j' \<in> set (fst (run_many cfg jparse handler envs (t, d))).
       jb_id j' = jb_id j \<and> jb_attempts j' = int (length S) \<and>
       (if int (length S) = wc_maxAttempts cfg
        then jb_status j' = Dead \<and> jb_failedAt j' = Some (seconds (re_settleAt (last S)))
        else jb_status j' = Pending \<and>
          jb_runAfter j' = (if S = [] then jb_runAfter j
                            else seconds (re_settleAt (last S) + published_delay (length S - 1)))))"
proof -
  have "jb_attempts j = int 0" "int 0 < wc_maxAttempts cfg" using assms(4,6) by simp_all
  from failing_serves [where t = t and j = j and k = 0 and jparse = jparse and v = v, OF assms(1-3,5) this assms(7-9), of d] show ?thesis
    unfolding assms(10) Let_def by (simp only: add_0)
qed

section \<open>Draining\<close>

text \<open>A handler that succeeds and keeps the ids in the order it saw them.\<close>

definition recording :: "outbox_job \<Rightarrow> string list \<Rightarrow> (string + outcome) \<times> string list" where
  "recording job d = (Inr Success, d @ [oj_id job])"

definition ready :: "worker_config \<Rightarrow> (string \<Rightarrow> string + js) \<Rightarrow> int \<Rightarrow> job \<Rightarrow> bool" where
  "ready cfg jparse now j \<longleftrightarrow>
     claimable cfg now j \<and> (case jparse (jb_payload j) of Inl _ \<Rightarrow> False | Inr _ \<Rightarrow> True)"

lemma recording_run:
  assumes "order_by jb_runAfter t = j # js" and "\<forall>j \<in> set t. ready cfg jparse now j"
    and "distinct (map jb_id t)" and "re_claimAt env = now" "\<not> re_claimThrows env" "\<not> re_settleThrows env"
  shows "runOne cfg jparse recording env t d = (filter (\<lambda>x. jb_id x \<noteq> jb_id j) t, d @ [jb_id j])"
proof -
  have "j \<in> set t" using assms(1) by (metis list.set_intros(1) set_order_by)
  with assms(2) have "ready cfg jparse now j" by blast
  then obtain v where v: "jparse (jb_payload j) = Inr v" "claimable cfg now j"
    by (cases "jparse (jb_payload j)") (auto simp: ready_def)
  have all: "filter (claimable cfg now) t = t"
    using assms(2) by (simp add: ready_def filter_id_conv)
  have c: "claim cfg now t = (Some \<lparr> cl_id = jb_id j, cl_queue = jb_queue j, cl_payload = jb_payload j,
        cl_attempts = jb_attempts j + 1 \<rparr>, update_job (jb_id j) (pick now) t)"
    by (simp add: claim_def all assms(1) first_row_def)
  have "deleteJob (jb_id j) (update_job (jb_id j) (pick now) t) = filter (\<lambda>x. jb_id x \<noteq> jb_id j) t"
    by (induction t) (auto simp: deleteJob_def update_job_def pick_def)
  then show ?thesis
    using assms(4-6) c v
    by (auto simp: runOne_def decode_def recording_def settle_def claimable_def split: option.splits)
qed

text \<open>C11: With every job due and decodable and a handler that succeeds, as many runs as there are
  jobs empty the table, and the jobs are dispatched in the order they became due.\<close>

theorem drain_in_order:
  assumes "\<forall>j \<in> set t. ready cfg jparse now j" and "distinct (map jb_id t)"
    and "\<forall>env \<in> set envs. re_claimAt env = now \<and> \<not> re_claimThrows env \<and> \<not> re_settleThrows env"
    and "length envs = length t"
  shows "run_many cfg jparse recording envs (t, d) = ([], d @ map jb_id (order_by jb_runAfter t))"
  using assms
proof (induction envs arbitrary: t d)
  case Nil
  then show ?case by (simp add: order_by_def)
next
  case (Cons env envs)
  then have "t \<noteq> []" by auto
  then obtain j js where o: "order_by jb_runAfter t = j # js" by (meson list.exhaust order_by_Nil)
  let ?t = "filter (\<lambda>x. jb_id x \<noteq> jb_id j) t"
  have run: "runOne cfg jparse recording env t d = (?t, d @ [jb_id j])"
    by (rule recording_run [OF o Cons.prems(1,2)]) (use Cons.prems(3) in auto)
  have dist: "distinct (map jb_id (j # js))"
    using Cons.prems(2) o by (metis distinct_map distinct_sort order_by_def set_order_by)
  have ot: "order_by jb_runAfter ?t = js"
    using o dist by (simp add: order_by_def filter_sort [symmetric] filter_id_conv) (metis image_eqI)
  have "length ?t = length js" using ot by (metis length_sort order_by_def)
  moreover have "length t = Suc (length js)" using o by (metis length_Cons length_sort order_by_def)
  ultimately have "run_many cfg jparse recording envs (?t, d @ [jb_id j]) =
      ([], (d @ [jb_id j]) @ map jb_id (order_by jb_runAfter ?t))"
    using Cons.prems by (intro Cons.IH) (auto simp: distinct_map_filter)
  then show ?case by (simp add: run ot o)
qed

section \<open>One run, step by step\<close>

definition held_of :: "claimed_row \<Rightarrow> int \<Rightarrow> outcome option \<Rightarrow> held" where
  "held_of c now oc = \<lparr>hd_id = cl_id c, hd_attempts = cl_attempts c, hd_at = now, hd_outcome = oc\<rparr>"

lemma run_outcome_success:
  "run_outcome cfg jparse handler c d = Success \<longleftrightarrow>
     (\<exists>job d'. decode cfg jparse c = Inr job \<and> handler job d = (Inr Success, d'))"
  by (auto simp: run_outcome_def prod_eq_iff split: sum.splits)

text \<open>Claim, dispatch and the time until the settle.\<close>

lemma run_until_settle:
  assumes "sy_held s w = None" and "claim cfg (sy_now s) (sy_jobs s) = (Some c, t)" and "sy_now s \<le> later"
  obtains s3 where "(sys_step cfg)\<^sup>*\<^sup>* s s3" "sy_held s3 = (sy_held s)(w \<mapsto> held_of c (sy_now s) (Some oc))"
    "sy_jobs s3 = t" "sy_now s3 = later" "sy_accepted s3 = sy_accepted s"
    "sy_done s3 = (if oc = Success then insert (cl_id c) (sy_done s) else sy_done s)"
proof -
  define s1 where "s1 = s\<lparr>sy_jobs := t, sy_held := (sy_held s)(w \<mapsto> held_of c (sy_now s) None)\<rparr>"
  define s2 where "s2 = s1\<lparr>sy_held := (sy_held s1)(w \<mapsto> (held_of c (sy_now s) None)\<lparr>hd_outcome := Some oc\<rparr>),
    sy_done := (if oc = Success then insert (hd_id (held_of c (sy_now s) None)) (sy_done s1) else sy_done s1)\<rparr>"
  define s3 where "s3 = s2\<lparr>sy_now := later\<rparr>"
  have "sys_step cfg s s1"
    unfolding s1_def held_of_def by (rule sys_step.Claim [OF assms(1,2)])
  moreover have "sys_step cfg s1 s2"
    unfolding s2_def by (rule sys_step.Dispatch) (simp_all add: s1_def held_of_def)
  moreover have "sys_step cfg s2 s3"
    unfolding s3_def by (rule sys_step.Pass) (simp add: s2_def s1_def assms(3))
  ultimately have "(sys_step cfg)\<^sup>*\<^sup>* s s3"
    by (meson converse_rtranclp_into_rtranclp r_into_rtranclp)
  then show thesis by (rule that) (simp_all add: s3_def s2_def s1_def held_of_def)
qed

text \<open>C9: What one run of the worker does, the steps of the many-worker system do: from a state where the worker holds
  nothing, claim, dispatch and settle (or nothing when no job is due or the claim throws, or claim, dispatch and crash
  when the update throws) lead to the table \<open>runOne\<close> leaves, with the claims of all other workers untouched, and
  a job counts as done in these steps exactly when the handler was given the claimed job and reported success.\<close>

theorem runOne_refines_steps:
  assumes "sy_held s w = None" and "sy_now s = re_claimAt env" and "re_claimAt env \<le> re_settleAt env"
  shows "\<exists>s'. (sys_step cfg)\<^sup>*\<^sup>* s s' \<and> sy_held s' = sy_held s \<and> sy_accepted s' = sy_accepted s \<and>
           sy_jobs s' = fst (runOne cfg jparse handler env (sy_jobs s) d) \<and>
           sy_done s' = sy_done s \<union>
             {cl_id c | c t job d'. \<not> re_claimThrows env \<and> claim cfg (re_claimAt env) (sy_jobs s) = (Some c, t) \<and>
                decode cfg jparse c = Inr job \<and> handler job d = (Inr Success, d')}"
proof (cases "re_claimThrows env \<or> fst (claim cfg (re_claimAt env) (sy_jobs s)) = None")
  case True
  then have "fst (runOne cfg jparse handler env (sy_jobs s) d) = sy_jobs s"
    unfolding runOne_table by (auto split: prod.splits option.splits dest: claim_None)
  with True show ?thesis by (intro exI [of _ s]) auto
next
  case False
  then obtain c t where c: "claim cfg (sy_now s) (sy_jobs s) = (Some c, t)" and nt: "\<not> re_claimThrows env"
    using assms(2) by (cases "claim cfg (re_claimAt env) (sy_jobs s)") auto
  let ?oc = "run_outcome cfg jparse handler c d"
  let ?done = "{cl_id c | c t job d'. \<not> re_claimThrows env \<and> claim cfg (re_claimAt env) (sy_jobs s) = (Some c, t) \<and>
                decode cfg jparse c = Inr job \<and> handler job d = (Inr Success, d')}"
  obtain s3 where r3: "(sys_step cfg)\<^sup>*\<^sup>* s s3" and held: "sy_held s3 = (sy_held s)(w \<mapsto> held_of c (sy_now s) (Some ?oc))"
    and h3: "sy_jobs s3 = t" "sy_now s3 = re_settleAt env" "sy_accepted s3 = sy_accepted s"
    and done3: "sy_done s3 = (if ?oc = Success then insert (cl_id c) (sy_done s) else sy_done s)"
    using run_until_settle [OF assms(1) c, of "re_settleAt env" ?oc] assms(2,3) by auto
  have "?done = {cl_id c | job d'. decode cfg jparse c = Inr job \<and> handler job d = (Inr Success, d')}"
    using c nt assms(2) by auto
  then have d3: "sy_done s3 = sy_done s \<union> ?done" "sy_accepted s3 = sy_accepted s"
    using done3 h3(3) run_outcome_success [of cfg jparse handler c d] by auto
  have restored: "(sy_held s3)(w := None) = sy_held s" "sy_held s3 w = Some (held_of c (sy_now s) (Some ?oc))"
    using assms(1) by (auto simp: held fun_eq_iff)
  show ?thesis
  proof (cases "re_settleThrows env")
    case True
    have "sys_step cfg s3 (s3\<lparr>sy_held := (sy_held s3)(w := None)\<rparr>)" by (rule sys_step.Crash)
    then show ?thesis
      using r3 restored(1) True nt c assms(2) h3(1) d3
      by (intro exI [of _ "s3\<lparr>sy_held := (sy_held s3)(w := None)\<rparr>"])
        (auto simp: runOne_table intro: rtranclp.rtrancl_into_rtrancl)
  next
    case False
    let ?s4 = "s3\<lparr>sy_jobs := settle cfg (re_settleAt env) (cl_id c) (cl_attempts c) ?oc t,
                   sy_held := (sy_held s3)(w := None)\<rparr>"
    have "sys_step cfg s3 ?s4"
      using sys_step.Settle [OF restored(2), of ?oc cfg] h3(1,2) by (simp add: held_of_def)
    then show ?thesis
      using r3 restored(1) False nt c assms(2) d3
      by (intro exI [of _ ?s4]) (auto simp: runOne_table intro: rtranclp.rtrancl_into_rtrancl)
  qed
qed

section \<open>Witnesses\<close>

definition plain_job :: "string \<Rightarrow> int \<Rightarrow> job" where
  "plain_job i due = \<lparr> jb_id = i, jb_queue = ''run_event'', jb_payload = [], jb_attempts = 0,
     jb_status = Pending, jb_runAfter = due, jb_pickedAt = None, jb_failedAt = None, jb_lastError = None \<rparr>"

definition run_at :: "int \<Rightarrow> run_env" where
  "run_at t = \<lparr> re_claimAt = t, re_settleAt = t, re_claimThrows = False, re_settleThrows = False \<rparr>"

lemmas outbox_eval = sys_start_def audit_job_def default_worker_def MAX_ATTEMPTS_DEFAULT_def
  scheduleDurableWrite_def insertJob_def insert_or_ignore_def new_job_def seconds_def claim_def
  claimable_def first_row_def order_by_def update_job_def pick_def settle_def shouldGiveUp_def
  computeBackoff_def RETRY_DELAYS_MS_def scheduleRetry_def markDead_def deleteJob_def Let_def

lemma sys_run_witness:
  assumes "sys_run default_worker (\<lambda>_. []) ops (sys_start 0) = Some s"
  shows "sys_reach default_worker s"
  by (rule sys_run_reach [OF assms sys_reach.start])

lemma accepted_job_never_lost_witness:
  "\<exists>s. sys_run default_worker (\<lambda>_. []) late_schedule (sys_start 0) = Some s \<and> ''a'' \<in> sy_accepted s \<and>
     sy_accepted s \<subseteq> jb_id ` set (sy_jobs s) \<union> sy_done s"
proof -
  have "\<exists>s. sys_run default_worker (\<lambda>_. []) late_schedule (sys_start 0) = Some s \<and> ''a'' \<in> sy_accepted s"
    by (simp add: late_schedule_def outbox_eval)
  then show ?thesis using accepted_job_never_lost [OF sys_run_witness] by blast
qed

text \<open>A short timely run: one job, claimed at once and failed for good.\<close>

fun timely_run :: "worker_config \<Rightarrow> (js \<Rightarrow> string) \<Rightarrow> sys_op list \<Rightarrow> sys \<Rightarrow> sys \<Rightarrow> bool" where
  "timely_run cfg sf [] s s' \<longleftrightarrow> s = s'"
| "timely_run cfg sf (op # ops) s s' \<longleftrightarrow>
     (case sys_do cfg sf op s of None \<Rightarrow> False | Some s1 \<Rightarrow> timely cfg s1 \<and> timely_run cfg sf ops s1 s')"

lemma timely_run_reach:
  "timely_run cfg sf ops s s' \<Longrightarrow> timely_reach cfg s \<Longrightarrow> timely_reach cfg s'"
proof (induction ops arbitrary: s)
  case Nil
  then show ?case by simp
next
  case (Cons op ops)
  then obtain s1 where s1: "sys_do cfg sf op s = Some s1" "timely cfg s1" "timely_run cfg sf ops s1 s'"
    by (auto split: option.splits)
  from timely_reach.step [OF Cons.prems(2) sys_do_step [OF s1(1)] s1(2)] Cons.IH [OF s1(3)]
  show ?case by blast
qed

lemma timely_claim: "\<exists>s. timely_run default_worker (\<lambda>_. []) [OpEnqueue audit_job [], OpClaim 0] (sys_start 0) s \<and>
    sy_held s 0 \<noteq> None"
  by (simp add: timely_def outbox_eval)

lemma one_worker_per_job_witness:
  "\<exists>s h j. timely_run default_worker (\<lambda>_. []) [OpEnqueue audit_job [], OpClaim 0] (sys_start 0) s \<and>
     sy_held s 0 = Some h \<and> j \<in> set (sy_jobs s) \<and> jb_id j = hd_id h \<and> jb_status j = Picked"
proof -
  obtain s h where s: "timely_run default_worker (\<lambda>_. []) [OpEnqueue audit_job [], OpClaim 0] (sys_start 0) s"
      "sy_held s 0 = Some h"
    using timely_claim by blast
  have r: "timely_reach default_worker s" by (rule timely_run_reach [OF s(1) timely_reach.start])
  have "0 < wc_maxAttempts default_worker" by (simp add: default_worker_def MAX_ATTEMPTS_DEFAULT_def)
  from one_worker_per_job [OF r this] s show ?thesis by blast
qed

lemma failing_job_dies_on_schedule_witness:
  "\<exists>j' \<in> set (fst (run_many default_worker (\<lambda>_. Inr JNull) (failing ''busy'')
       (map run_at [0, 500, 1000, 2000, 6000, 36000, 336000, 2136000, 9000000]) ([plain_job ''a'' 0], 0))).
     jb_status j' = Dead \<and> jb_attempts j' = 6 \<and> jb_failedAt j' = Some 2136"
proof -
  let ?envs = "map run_at [0, 500, 1000, 2000, 6000, 36000, 336000, 2136000, 9000000]"
  let ?S = "map run_at [0, 1000, 6000, 36000, 336000, 2136000]"
  have S: "?S = serving default_worker (\<lambda>_. Inr JNull) (failing ''busy'') (jb_id (plain_job ''a'' 0)) ?envs ([plain_job ''a'' 0], 0)"
    by code_simp
  have "int (length ?S) \<le> wc_maxAttempts default_worker \<and> on_schedule (jb_runAfter (plain_job ''a'' 0)) 0 ?S \<and>
    (\<exists>j' \<in> set (fst (run_many default_worker (\<lambda>_. Inr JNull) (failing ''busy'') ?envs ([plain_job ''a'' 0], 0))).
       jb_id j' = jb_id (plain_job ''a'' 0) \<and> jb_attempts j' = int (length ?S) \<and>
       (if int (length ?S) = wc_maxAttempts default_worker
        then jb_status j' = Dead \<and> jb_failedAt j' = Some (seconds (re_settleAt (last ?S)))
        else jb_status j' = Pending \<and>
          jb_runAfter j' = (if ?S = [] then jb_runAfter (plain_job ''a'' 0)
                            else seconds (re_settleAt (last ?S) + published_delay (length ?S - 1)))))"
    by (rule failing_job_dies_on_schedule [OF _ _ _ _ _ _ _ _ _ S])
      (simp_all add: run_at_def plain_job_def default_worker_def MAX_ATTEMPTS_DEFAULT_def always_fails_def failing_def)
  moreover have "seconds (re_settleAt (last ?S)) = 2136" "int (length ?S) = 6" "wc_maxAttempts default_worker = 6"
    by (simp_all add: run_at_def seconds_def default_worker_def MAX_ATTEMPTS_DEFAULT_def)
  ultimately show ?thesis by metis
qed

lemma drain_in_order_witness:
  "run_many default_worker (\<lambda>_. Inr JNull) recording [run_at 9000, run_at 9000]
     ([plain_job ''a'' 5, plain_job ''b'' 3], []) = ([], [''b'', ''a''])"
  using drain_in_order [where t = "[plain_job ''a'' 5, plain_job ''b'' 3]" and cfg = default_worker and
      jparse = "\<lambda>_. Inr JNull" and now = 9000 and envs = "[run_at 9000, run_at 9000]" and d = "[]"]
  by (simp add: ready_def claimable_def plain_job_def run_at_def default_worker_def seconds_def order_by_def)

lemma runOne_refines_steps_witness:
  "\<exists>s'. (sys_step default_worker)\<^sup>*\<^sup>* ((sys_start 7000)\<lparr>sy_jobs := [plain_job ''a'' 0]\<rparr>) s' \<and>
     sy_jobs s' = [] \<and> sy_done s' = {''a''}"
proof -
  let ?s = "(sys_start 7000)\<lparr>sy_jobs := [plain_job ''a'' 0]\<rparr>"
  let ?done = "{cl_id c | c t job d'. \<not> re_claimThrows (run_at 7000) \<and>
      claim default_worker (re_claimAt (run_at 7000)) (sy_jobs ?s) = (Some c, t) \<and>
      decode default_worker (\<lambda>_. Inr JNull) c = Inr job \<and> recording job [] = (Inr Success, d')}"
  have c: "claim default_worker (re_claimAt (run_at 7000)) (sy_jobs ?s) =
      (Some \<lparr> cl_id = ''a'', cl_queue = ''run_event'', cl_payload = [], cl_attempts = 1 \<rparr>, [pick 7000 (plain_job ''a'' 0)])"
    by (simp add: run_at_def plain_job_def outbox_eval)
  have d: "?done = {''a''}" unfolding c by (auto simp: run_at_def decode_def default_worker_def recording_def)
  have t: "fst (runOne default_worker (\<lambda>_. Inr JNull) recording (run_at 7000) (sy_jobs ?s) []) = []"
    unfolding runOne_table c
    by (simp add: run_at_def run_outcome_def decode_def default_worker_def recording_def settle_def deleteJob_def pick_def plain_job_def)
  have "\<exists>s'. (sys_step default_worker)\<^sup>*\<^sup>* ?s s' \<and> sy_held s' = sy_held ?s \<and> sy_accepted s' = sy_accepted ?s \<and>
      sy_jobs s' = fst (runOne default_worker (\<lambda>_. Inr JNull) recording (run_at 7000) (sy_jobs ?s) []) \<and>
      sy_done s' = sy_done ?s \<union> ?done"
    by (rule runOne_refines_steps [where w = 0]) (simp_all add: sys_start_def run_at_def)
  then show ?thesis unfolding t d by (auto simp: sys_start_def)
qed

section \<open>The timer chain\<close>

text \<open>
  The worker's own state: the armed timer with its delay, the run in flight (\<open>Some True\<close> when the
  timer started it, so that its end schedules the next tick; \<open>Some False\<close> for a direct \<open>tick()\<close>),
  and whether \<open>stop()\<close> was called.
\<close>

record lifecycle =
  lc_timer :: "int option"
  lc_inFlight :: "bool option"
  lc_stopped :: bool

definition new_worker :: "string list option \<Rightarrow> string + lifecycle" where
  "new_worker queueFilter =
     (if queueFilter = Some []
      then Inl ''OutboxWorker: queueFilter must contain at least one queue kind when provided''
      else Inr \<lparr> lc_timer = None, lc_inFlight = None, lc_stopped = False \<rparr>)"

definition scheduleNext :: "int \<Rightarrow> lifecycle \<Rightarrow> lifecycle" where
  "scheduleNext d lc = (if lc_stopped lc then lc else lc\<lparr>lc_timer := Some d\<rparr>)"

definition start :: "int \<Rightarrow> lifecycle \<Rightarrow> string + lifecycle" where
  "start tickMs lc =
     (if lc_stopped lc then Inl ''OutboxWorker: cannot start after stop()''
      else if lc_timer lc \<noteq> None \<or> lc_inFlight lc \<noteq> None then Inr lc
      else Inr (scheduleNext tickMs lc))"

definition stop :: "lifecycle \<Rightarrow> lifecycle" where
  "stop lc = lc\<lparr>lc_stopped := True, lc_timer := None\<rparr>"

definition kick :: "lifecycle \<Rightarrow> lifecycle" where
  "kick lc = (if lc_stopped lc then lc else scheduleNext 0 lc)"

definition tick :: "lifecycle \<Rightarrow> lifecycle" where
  "tick lc =
     (if lc_stopped lc then lc else if lc_inFlight lc \<noteq> None then lc else lc\<lparr>lc_inFlight := Some False\<rparr>)"

definition tickFromTimer :: "int \<Rightarrow> lifecycle \<Rightarrow> lifecycle" where
  "tickFromTimer tickMs lc =
     (if lc_stopped lc then lc
      else if lc_inFlight lc \<noteq> None then scheduleNext tickMs lc
      else lc\<lparr>lc_inFlight := Some True\<rparr>)"

text \<open>The timer fires only when armed; a run ends only when in flight.\<close>

definition timer_fires :: "int \<Rightarrow> lifecycle \<Rightarrow> lifecycle" where
  "timer_fires tickMs lc =
     (if lc_timer lc = None then lc else tickFromTimer tickMs (lc\<lparr>lc_timer := None\<rparr>))"

definition run_ends :: "int \<Rightarrow> lifecycle \<Rightarrow> lifecycle" where
  "run_ends tickMs lc =
     (case lc_inFlight lc of
        None \<Rightarrow> lc
      | Some chained \<Rightarrow>
          (let lc' = lc\<lparr>lc_inFlight := None\<rparr> in if chained then scheduleNext tickMs lc' else lc'))"

datatype lc_op = LStart | LStop | LKick | LTick | LFire | LEnd

fun lc_do :: "int \<Rightarrow> lc_op \<Rightarrow> lifecycle \<Rightarrow> lifecycle" where
  "lc_do tickMs LStart lc = (case start tickMs lc of Inl _ \<Rightarrow> lc | Inr lc' \<Rightarrow> lc')"
| "lc_do tickMs LStop lc = stop lc"
| "lc_do tickMs LKick lc = kick lc"
| "lc_do tickMs LTick lc = tick lc"
| "lc_do tickMs LFire lc = timer_fires tickMs lc"
| "lc_do tickMs LEnd lc = run_ends tickMs lc"

definition lc_run :: "int \<Rightarrow> lc_op list \<Rightarrow> lifecycle \<Rightarrow> lifecycle" where
  "lc_run tickMs ops lc = fold (lc_do tickMs) ops lc"

definition chain_alive :: "lifecycle \<Rightarrow> bool" where
  "chain_alive lc \<longleftrightarrow> lc_timer lc \<noteq> None \<or> lc_inFlight lc = Some True"

lemmas lifecycle_defs = start_def stop_def kick_def tick_def tickFromTimer_def timer_fires_def
  run_ends_def scheduleNext_def Let_def

lemma lc_do_alive: "lc_stopped lc \<or> chain_alive lc \<Longrightarrow> lc_stopped (lc_do m op lc) \<or> chain_alive (lc_do m op lc)"
  by (cases op) (auto simp: lifecycle_defs chain_alive_def split: option.splits)

text \<open>C12: Once the tick chain runs it runs until \<open>stop()\<close>: after any sequence of starts, kicks,
  direct ticks, timer firings and run ends, an unstopped worker has a timer armed or a run in flight
  whose end arms it.  A kick starts the chain, and so does a start, unless a direct tick is in
  flight with no timer armed.\<close>

theorem tick_chain_alive:
  assumes "chain_alive lc \<or> (\<exists>lc0. lc = kick lc0) \<or>
      (\<exists>lc0. start m lc0 = Inr lc \<and> (lc_inFlight lc0 = Some False \<longrightarrow> lc_timer lc0 \<noteq> None))"
  shows "lc_stopped (lc_run m ops lc) \<or> chain_alive (lc_run m ops lc)"
proof -
  have "lc_stopped lc \<or> chain_alive lc"
    using assms by (auto simp: lifecycle_defs chain_alive_def split: if_splits)
  then show ?thesis
    unfolding lc_run_def by (induction ops arbitrary: lc) (simp_all add: lc_do_alive)
qed

lemma tick_chain_alive_witness:
  "chain_alive (lc_run 1000 [LKick, LFire, LTick, LEnd, LFire, LKick]
     (kick \<lparr> lc_timer = None, lc_inFlight = None, lc_stopped = False \<rparr>))"
proof -
  let ?ops = "[LKick, LFire, LTick, LEnd, LFire, LKick]"
  let ?lc = "kick \<lparr> lc_timer = None, lc_inFlight = None, lc_stopped = False \<rparr>"
  have "lc_stopped (lc_run 1000 ?ops ?lc) \<or> chain_alive (lc_run 1000 ?ops ?lc)"
    by (rule tick_chain_alive) blast
  moreover have "\<not> lc_stopped (lc_run 1000 ?ops ?lc)" by (simp add: lc_run_def lifecycle_defs)
  ultimately show ?thesis by blast
qed

text \<open>After \<open>stop()\<close> no timer is ever armed and no new run begins, whatever is called: only the
  run that was in flight may still end.  A later start is refused.\<close>

theorem stopped_worker_stays_idle:
  "lc_stopped (lc_run m ops (stop lc)) \<and> lc_timer (lc_run m ops (stop lc)) = None \<and>
   lc_inFlight (lc_run m ops (stop lc)) \<in> {None, lc_inFlight lc} \<and>
   (\<exists>e. start m (lc_run m ops (stop lc)) = Inl e)"
proof -
  have one: "lc_stopped (lc_do m op l) \<and> lc_timer (lc_do m op l) = None \<and>
      lc_inFlight (lc_do m op l) \<in> {None, lc_inFlight l}" if "lc_stopped l" "lc_timer l = None" for op l
    using that by (cases op) (auto simp: lifecycle_defs split: option.splits)
  have "lc_stopped (lc_run m ops l) \<and> lc_timer (lc_run m ops l) = None \<and>
      lc_inFlight (lc_run m ops l) \<in> {None, lc_inFlight l}" if "lc_stopped l" "lc_timer l = None" for l
    using that
  proof (induction ops arbitrary: l)
    case Nil
    then show ?case by (simp add: lc_run_def)
  next
    case (Cons op ops)
    from one [OF Cons.prems, of op] Cons.IH [of "lc_do m op l"] show ?case
      by (auto simp: lc_run_def)
  qed
  from this [of "stop lc"] show ?thesis by (simp add: stop_def start_def)
qed

text \<open>A kick before the first start is not a no-op: on a fresh worker it arms the timer, and the
  chain runs from there on.\<close>

theorem kick_before_start_starts:
  "case new_worker qf of
     Inl _ \<Rightarrow> qf = Some []
   | Inr lc \<Rightarrow> lc_timer (kick lc) = Some 0 \<and> lc_inFlight (timer_fires m (kick lc)) = Some True"
  by (simp add: new_worker_def lifecycle_defs)

end
