(* ===== verification/Policy_Audit.thy ===== *)
theory Policy_Audit
  imports Policy_Engine Coodra_Interfaces
begin

text \<open>
  The \<open>policy_decisions\<close> table of \<open>packages/policy/src/policy.ts\<close>: \<open>recordPolicyDecision\<close> inserts
  a row unless its idempotency key is taken, and the two \<open>resolveAsk\<close> operations close an open
  \<open>ask\<close>.  The table is the list of its rows in insertion order; a row's id is the one minted for
  the call.
\<close>

section \<open>The table\<close>

datatype ask_outcome = Approved | NotExecuted | Unresolved

record record_args =
  ra_orgId :: "string option"
  ra_projectId :: string
  ra_sessionId :: string
  ra_agentType :: string
  ra_eventType :: string
  ra_toolName :: string
  ra_toolUseId :: "string option"
  ra_permissionMode :: "string option"
  ra_toolInputSnapshot :: string
  ra_permissionDecision :: policy_decision
  ra_governanceVerdict :: "governance_verdict option"
  ra_policyVersionId :: "string option"
  ra_reason :: string
  ra_matchedRuleId :: "string option"
  ra_matchedExceptionId :: "string option"
  ra_matchedGrantId :: "string option"
  ra_baseDecision :: "policy_decision option"
  ra_effectiveDecision :: "policy_decision option"
  ra_askOutcome :: "ask_outcome option"
  ra_askOutcomeAt :: "int option"
  ra_correlatedRunEventId :: "string option"
  ra_evidenceJson :: "string option"
  ra_resultLabelsJson :: "string option"
  ra_activeCapabilitiesJson :: "string option"
  ra_matchedCapability :: "string option"
  ra_runId :: "string option"

record decision_row =
  dr_id :: string
  dr_orgId :: "string option"
  dr_idempotencyKey :: string
  dr_runId :: "string option"
  dr_sessionId :: string
  dr_projectId :: string
  dr_agentType :: string
  dr_eventType :: string
  dr_toolName :: string
  dr_toolUseId :: "string option"
  dr_permissionMode :: "string option"
  dr_toolInputSnapshot :: string
  dr_permissionDecision :: policy_decision
  dr_governanceVerdict :: "governance_verdict option"
  dr_policyVersionId :: "string option"
  dr_matchedRuleId :: "string option"
  dr_matchedExceptionId :: "string option"
  dr_matchedGrantId :: "string option"
  dr_baseDecision :: policy_decision
  dr_effectiveDecision :: policy_decision
  dr_reason :: string
  dr_askOutcome :: "ask_outcome option"
  dr_askOutcomeAt :: "int option"
  dr_correlatedRunEventId :: "string option"
  dr_evidenceJson :: "string option"
  dr_resultLabelsJson :: "string option"
  dr_activeCapabilitiesJson :: "string option"
  dr_matchedCapability :: "string option"

definition record_key :: "record_args \<Rightarrow> string" where
  "record_key a = buildPolicyDecisionIdempotencyKey
     \<lparr> ak_sessionId = ra_sessionId a, ak_toolUseId = ra_toolUseId a, ak_toolName = ra_toolName a,
       ak_eventType = ra_eventType a, ak_toolInputSnapshot = Some (ra_toolInputSnapshot a) \<rparr>"

definition decision_row_of :: "string \<Rightarrow> record_args \<Rightarrow> decision_row" where
  "decision_row_of rid a =
     \<lparr> dr_id = rid,
       dr_orgId = ra_orgId a,
       dr_idempotencyKey = record_key a,
       dr_runId = ra_runId a,
       dr_sessionId = ra_sessionId a,
       dr_projectId = ra_projectId a,
       dr_agentType = ra_agentType a,
       dr_eventType = ra_eventType a,
       dr_toolName = ra_toolName a,
       dr_toolUseId = ra_toolUseId a,
       dr_permissionMode = ra_permissionMode a,
       dr_toolInputSnapshot = ra_toolInputSnapshot a,
       dr_permissionDecision = ra_permissionDecision a,
       dr_governanceVerdict = ra_governanceVerdict a,
       dr_policyVersionId = ra_policyVersionId a,
       dr_matchedRuleId = ra_matchedRuleId a,
       dr_matchedExceptionId = ra_matchedExceptionId a,
       dr_matchedGrantId = ra_matchedGrantId a,
       dr_baseDecision = nullish (ra_baseDecision a) (ra_permissionDecision a),
       dr_effectiveDecision = nullish (ra_effectiveDecision a) (ra_permissionDecision a),
       dr_reason = ra_reason a,
       dr_askOutcome =
         nullish_opt (ra_askOutcome a)
           (if ra_permissionDecision a = Ask then Some Unresolved else None),
       dr_askOutcomeAt = ra_askOutcomeAt a,
       dr_correlatedRunEventId = ra_correlatedRunEventId a,
       dr_evidenceJson = ra_evidenceJson a,
       dr_resultLabelsJson = ra_resultLabelsJson a,
       dr_activeCapabilitiesJson = ra_activeCapabilitiesJson a,
       dr_matchedCapability = ra_matchedCapability a \<rparr>"

definition insertDecision :: "decision_row \<Rightarrow> decision_row list \<Rightarrow> decision_row list \<times> bool" where
  "insertDecision = insert_or_ignore dr_idempotencyKey"

definition recordPolicyDecision ::
  "string \<Rightarrow> record_args \<Rightarrow> decision_row list \<Rightarrow> decision_row list \<times> bool"
where
  "recordPolicyDecision rid a t = insertDecision (decision_row_of rid a) t"

text \<open>An open ask: \<open>permission_decision = 'ask'\<close> and no outcome, or the outcome \<open>unresolved\<close>.\<close>

definition open_ask :: "decision_row \<Rightarrow> bool" where
  "open_ask r \<longleftrightarrow> dr_permissionDecision r = Ask \<and> dr_askOutcome r \<in> {None, Some Unresolved}"

definition update_where ::
  "('r \<Rightarrow> bool) \<Rightarrow> ('r \<Rightarrow> 'r) \<Rightarrow> 'r list \<Rightarrow> 'r list \<times> nat"
where
  "update_where P f t = (map (\<lambda>r. if P r then f r else r) t, length (filter P t))"

definition resolveAskOutcomeApproved ::
  "string \<Rightarrow> string \<Rightarrow> string \<Rightarrow> string option \<Rightarrow> int \<Rightarrow> decision_row list \<Rightarrow> decision_row list \<times> nat"
where
  "resolveAskOutcomeApproved sessionId toolUseId toolName runEventId now =
     update_where
       (\<lambda>r. dr_sessionId r = sessionId \<and> dr_toolUseId r = Some toolUseId \<and>
            dr_toolName r = toolName \<and> open_ask r)
       (\<lambda>r. r\<lparr> dr_askOutcome := Some Approved, dr_askOutcomeAt := Some now,
               dr_correlatedRunEventId := runEventId \<rparr>)"

definition resolveAskOutcomesNotExecuted ::
  "string \<Rightarrow> int \<Rightarrow> decision_row list \<Rightarrow> decision_row list \<times> nat"
where
  "resolveAskOutcomesNotExecuted sessionId now =
     update_where
       (\<lambda>r. dr_sessionId r = sessionId \<and> open_ask r)
       (\<lambda>r. r\<lparr> dr_askOutcome := Some NotExecuted, dr_askOutcomeAt := Some now \<rparr>)"

interpretation decisions: keyed_table dr_idempotencyKey insertDecision
  unfolding insertDecision_def by (rule insert_or_ignore_keyed)

section \<open>Histories\<close>

datatype audit_op =
    RecordOp string record_args
  | ApproveOp string string string "string option" int
  | CloseSessionOp string int

fun audit_step :: "audit_op \<Rightarrow> decision_row list \<Rightarrow> decision_row list" where
  "audit_step (RecordOp rid a) t = fst (recordPolicyDecision rid a t)"
| "audit_step (ApproveOp s u n e now) t = fst (resolveAskOutcomeApproved s u n e now t)"
| "audit_step (CloseSessionOp s now) t = fst (resolveAskOutcomesNotExecuted s now t)"

definition audit_run :: "audit_op list \<Rightarrow> decision_row list \<Rightarrow> decision_row list" where
  "audit_run ops t = fold audit_step ops t"

lemma update_where_keeps:
  "(\<And>r. key (f r) = key r) \<Longrightarrow> map key (fst (update_where P f t)) = map key t"
  by (induction t) (auto simp: update_where_def)

lemma update_where_untouched: "r \<in> set t \<Longrightarrow> \<not> P r \<Longrightarrow> r \<in> set (fst (update_where P f t))"
  by (force simp: update_where_def)

lemma audit_step_keys:
  "distinct (map dr_idempotencyKey t) \<Longrightarrow> distinct (map dr_idempotencyKey (audit_step op t))"
  by (cases op)
    (simp_all add: recordPolicyDecision_def decisions.keys_stay_unique resolveAskOutcomeApproved_def
      resolveAskOutcomesNotExecuted_def update_where_keeps [where key = dr_idempotencyKey])

lemma audit_step_settled:
  "r \<in> set t \<Longrightarrow> \<not> open_ask r \<Longrightarrow> r \<in> set (audit_step op t)"
  using decisions.rows_survive
  by (cases op)
    (auto simp: recordPolicyDecision_def resolveAskOutcomeApproved_def
      resolveAskOutcomesNotExecuted_def intro!: update_where_untouched)

text \<open>In every history of audit operations from an empty table there is at most one row per
  idempotency key, and a row whose ask has been resolved, or that never was an ask, is never
  changed or removed by any later operation.\<close>

theorem audit_trail_settled:
  assumes "t = audit_run before []" and "r \<in> set t" and "\<not> open_ask r"
  shows "distinct (map dr_idempotencyKey (audit_run after t)) \<and> r \<in> set (audit_run after t)"
proof -
  have "distinct (map dr_idempotencyKey (audit_run ops u))"
    if "distinct (map dr_idempotencyKey u)" for ops u
    using that by (induction ops arbitrary: u) (simp_all add: audit_run_def audit_step_keys)
  moreover have "r \<in> set (audit_run ops u)" if "r \<in> set u" for ops u
    using that assms(3) by (induction ops arbitrary: u) (simp_all add: audit_run_def audit_step_settled)
  ultimately show ?thesis using assms by simp
qed

text \<open>Recording the decision of one tool invocation again, under whatever new row id and with
  whatever verdict, is reported as not inserted and leaves the table as the first write left it.\<close>

theorem retry_keeps_first_decision:
  assumes "ra_sessionId b = ra_sessionId a" and "ra_toolUseId b = ra_toolUseId a"
    and "ra_toolName b = ra_toolName a" and "ra_eventType b = ra_eventType a"
    and "ra_toolUseId a \<noteq> None"
  shows "recordPolicyDecision rid' b (fst (recordPolicyDecision rid a t)) =
           (fst (recordPolicyDecision rid a t), False)"
proof -
  have "record_key b = record_key a"
    using assms by (auto simp: record_key_def buildPolicyDecisionIdempotencyKey_def audit_turn_def)
  then show ?thesis
    unfolding recordPolicyDecision_def
    by (intro decisions.second_insert_ignored) (simp add: decision_row_of_def)
qed

lemma closed_not_open: "\<not> open_ask (r\<lparr>dr_askOutcome := Some Approved\<rparr>)"
  "\<not> open_ask (r\<lparr>dr_askOutcome := Some NotExecuted\<rparr>)"
  by (simp_all add: open_ask_def)

text \<open>Closing a session resolves every ask of it that is still open and touches no other
  session: afterwards the session has no open ask, the count returned is the number there was, and
  a second close changes nothing.\<close>

theorem close_session_resolves_asks:
  assumes "resolveAskOutcomesNotExecuted s now t = (t', n)"
  shows "n = length (filter (\<lambda>r. dr_sessionId r = s \<and> open_ask r) t) \<and>
         filter (\<lambda>r. dr_sessionId r = s \<and> open_ask r) t' = [] \<and>
         filter (\<lambda>r. dr_sessionId r \<noteq> s) t' = filter (\<lambda>r. dr_sessionId r \<noteq> s) t \<and>
         resolveAskOutcomesNotExecuted s now' t' = (t', 0)"
proof -
  let ?P = "\<lambda>r. dr_sessionId r = s \<and> open_ask r"
  let ?f = "\<lambda>r. r\<lparr> dr_askOutcome := Some NotExecuted, dr_askOutcomeAt := Some now \<rparr>"
  have t': "t' = map (\<lambda>r. if ?P r then ?f r else r) t" and n: "n = length (filter ?P t)"
    using assms by (auto simp: resolveAskOutcomesNotExecuted_def update_where_def)
  have step: "\<not> ?P (if ?P q then ?f q else q)" for q
    by (cases "?P q") (auto simp: open_ask_def)
  have none: "\<not> ?P r" if "r \<in> set t'" for r
  proof -
    from that obtain q where "r = (if ?P q then ?f q else q)" unfolding t' set_map by (rule imageE)
    then show ?thesis using step [of q] by (rule ssubst)
  qed
  have other: "filter (\<lambda>r. dr_sessionId r \<noteq> s) t' = filter (\<lambda>r. dr_sessionId r \<noteq> s) t"
    unfolding t' by (induction t) auto
  have "map (\<lambda>r. if ?P r then g r else r) t' = t'" for g
    by (rule map_idI) (use none in auto)
  moreover have "filter ?P t' = []" using none by (simp add: filter_empty_conv)
  ultimately show ?thesis
    using n other by (simp add: resolveAskOutcomesNotExecuted_def update_where_def)
qed

section \<open>Witnesses\<close>

definition sample_args :: "policy_decision \<Rightarrow> record_args" where
  "sample_args d = \<lparr> ra_orgId = None, ra_projectId = ''proj'', ra_sessionId = ''s1'',
     ra_agentType = ''claude_code'', ra_eventType = ''PreToolUse'', ra_toolName = ''Bash'',
     ra_toolUseId = Some ''t1'', ra_permissionMode = None, ra_toolInputSnapshot = ''{}'',
     ra_permissionDecision = d, ra_governanceVerdict = None, ra_policyVersionId = None,
     ra_reason = ''r'', ra_matchedRuleId = None, ra_matchedExceptionId = None,
     ra_matchedGrantId = None, ra_baseDecision = None, ra_effectiveDecision = None,
     ra_askOutcome = None, ra_askOutcomeAt = None, ra_correlatedRunEventId = None,
     ra_evidenceJson = None, ra_resultLabelsJson = None, ra_activeCapabilitiesJson = None,
     ra_matchedCapability = None, ra_runId = None \<rparr>"

end
