(* ===== verification/Runs.thy ===== *)
theory Runs
  imports Coodra_Interfaces
begin

text \<open>
  The runs of agent sessions and what hangs off them: the destination writes of
  \<open>packages/db/src/destinations.ts\<close>, the lookups and the compaction generation of
  \<open>lookup-run.ts\<close> and the capability column of \<open>run-capabilities.ts\<close>.

  A table is the list of its rows.  Columns the modelled code neither reads nor writes are left out
  (issue and PR references, the work pack).  Where the code catches a database error
  and answers with a default, the flag \<open>fault\<close> says that the statement threw.
\<close>

section \<open>Tables\<close>

record run =
  rn_id :: string
  rn_orgId :: "string option"
  rn_projectId :: string
  rn_sessionId :: string
  rn_agentType :: string
  rn_mode :: string
  rn_status :: string
  rn_createdByUserId :: "string option"
  rn_startedAt :: int
  rn_endedAt :: "int option"
  rn_baselineGeneration :: int
  rn_activeCapabilitiesJson :: string
  rn_baseSha :: "string option"
  rn_compactionNudgedAt :: "int option"

record run_event =
  rv_id :: string
  rv_orgId :: "string option"
  rv_projectId :: "string option"
  rv_runId :: "string option"
  rv_phase :: string
  rv_toolName :: string
  rv_toolUseId :: string
  rv_toolInput :: string
  rv_outcome :: "string option"
  rv_createdAt :: int

record memory_access =
  ma_id :: string
  ma_orgId :: "string option"
  ma_projectId :: "string option"
  ma_runId :: "string option"
  ma_sessionId :: "string option"
  ma_actorUserId :: "string option"
  ma_agentType :: "string option"
  ma_runEventId :: "string option"
  ma_channel :: string
  ma_site :: string
  ma_memoryType :: string
  ma_memoryId :: "string option"
  ma_position :: "int option"
  ma_bytes :: "int option"
  ma_latencyMs :: "int option"
  ma_triggerType :: string
  ma_queryHash :: "string option"
  ma_triggerTextHash :: "string option"
  ma_resultCount :: "int option"
  ma_freshnessStatusAtAccess :: "string option"
  ma_baselineGeneration :: int

record run_args =
  na_id :: string
  na_orgId :: "string option"
  na_projectId :: string
  na_sessionId :: string
  na_agentType :: string
  na_mode :: string
  na_status :: "string option"
  na_activeCapabilitiesJson :: "string option"
  na_createdByUserId :: "string option"

section \<open>Destination writes\<close>

definition insertRunEvent :: "run_event \<Rightarrow> run_event list \<Rightarrow> run_event list \<times> bool" where
  "insertRunEvent = insert_or_ignore rv_id"

definition insertMemoryAccessEvent ::
  "memory_access \<Rightarrow> memory_access list \<Rightarrow> memory_access list \<times> bool"
where
  "insertMemoryAccessEvent = insert_or_ignore ma_id"

definition run_row :: "int \<Rightarrow> run_args \<Rightarrow> run" where
  "run_row now a =
     \<lparr> rn_id = na_id a, rn_orgId = na_orgId a, rn_projectId = na_projectId a,
       rn_sessionId = na_sessionId a, rn_agentType = na_agentType a, rn_mode = na_mode a,
       rn_status = nullish (na_status a) ''in_progress'', rn_createdByUserId = na_createdByUserId a,
       rn_startedAt = now, rn_endedAt = None, rn_baselineGeneration = 0,
       rn_activeCapabilitiesJson = nullish (na_activeCapabilitiesJson a) ''[]'', rn_baseSha = None,
       rn_compactionNudgedAt = None \<rparr>"

definition run_session :: "run \<Rightarrow> string \<times> string" where
  "run_session r = (rn_projectId r, rn_sessionId r)"

text \<open>
  The conflict target is \<open>(project_id, session_id)\<close>; a new pair under an id that is taken violates
  the primary key, and the statement throws.
\<close>

definition insertSession :: "run \<Rightarrow> run list \<Rightarrow> run list \<times> bool" where
  "insertSession = insert_or_ignore run_session"

definition insertRun :: "int \<Rightarrow> run_args \<Rightarrow> run list \<Rightarrow> string + run list" where
  "insertRun now a t =
     (let r = run_row now a in
      if run_session r \<notin> run_session ` set t \<and> rn_id r \<in> rn_id ` set t
      then Inl ''UNIQUE constraint failed: runs.id''
      else Inr (fst (insertSession r t)))"

interpretation run_events: keyed_table rv_id insertRunEvent
  unfolding insertRunEvent_def by (rule insert_or_ignore_keyed)

interpretation memory_accesses: keyed_table ma_id insertMemoryAccessEvent
  unfolding insertMemoryAccessEvent_def by (rule insert_or_ignore_keyed)

interpretation sessions: keyed_table run_session insertSession
  unfolding insertSession_def by (rule insert_or_ignore_keyed)

definition closeRun :: "string \<Rightarrow> string \<Rightarrow> int \<Rightarrow> run list \<Rightarrow> run list" where
  "closeRun p s endedAt t =
     map (\<lambda>r. if run_session r = (p, s)
              then r\<lparr>rn_status := ''completed'', rn_endedAt := Some endedAt\<rparr> else r) t"

section \<open>Lookups\<close>

definition lookupRunId :: "bool \<Rightarrow> run list \<Rightarrow> string \<Rightarrow> string \<Rightarrow> string option" where
  "lookupRunId fault t p s =
     (if fault then None
      else map_option rn_id
             (first_row (order_by_desc rn_startedAt (filter (\<lambda>r. run_session r = (p, s)) t))))"

record run_ref =
  rf_runId :: string
  rf_projectId :: string
  rf_orgId :: "string option"

definition run_ref_of :: "run \<Rightarrow> run_ref" where
  "run_ref_of r = \<lparr> rf_runId = rn_id r, rf_projectId = rn_projectId r, rf_orgId = rn_orgId r \<rparr>"

definition lookupRunBySessionId :: "bool \<Rightarrow> run list \<Rightarrow> string \<Rightarrow> run_ref option" where
  "lookupRunBySessionId fault t s =
     (if fault then None
      else map_option run_ref_of
             (first_row (order_by_desc rn_startedAt (filter (\<lambda>r. rn_sessionId r = s) t))))"

definition lookupRunById :: "bool \<Rightarrow> run list \<Rightarrow> string \<Rightarrow> run_ref option" where
  "lookupRunById fault t i =
     (if fault then None else map_option run_ref_of (first_row (filter (\<lambda>r. rn_id r = i) t)))"

definition bumpRunBaselineGeneration :: "bool \<Rightarrow> string \<Rightarrow> run list \<Rightarrow> int option \<times> run list" where
  "bumpRunBaselineGeneration fault i t =
     (if fault then (None, t)
      else (let t' = map (\<lambda>r. if rn_id r = i
                              then r\<lparr>rn_baselineGeneration := rn_baselineGeneration r + 1\<rparr> else r) t
            in (map_option rn_baselineGeneration (first_row (filter (\<lambda>r. rn_id r = i) t')), t')))"

definition getRunBaselineGeneration :: "bool \<Rightarrow> run list \<Rightarrow> string \<Rightarrow> int" where
  "getRunBaselineGeneration fault t i =
     (if fault then 0
      else nullish (map_option rn_baselineGeneration (first_row (filter (\<lambda>r. rn_id r = i) t))) 0)"

definition surfacedMemoryIdsForGeneration ::
  "bool \<Rightarrow> memory_access list \<Rightarrow> string \<Rightarrow> int \<Rightarrow> string set"
where
  "surfacedMemoryIdsForGeneration fault t runId generation =
     (if fault then {}
      else set (List.map_filter ma_memoryId
             (filter (\<lambda>m. ma_runId m = Some runId \<and> ma_baselineGeneration m = generation \<and>
                          ma_channel m = ''push'') t)))"

section \<open>Capabilities\<close>

text \<open>\<open>/^[a-z][a-z0-9_.:-]{0,63}$/\<close>\<close>

definition capability_start :: "char \<Rightarrow> bool" where
  "capability_start c \<longleftrightarrow> 97 \<le> (of_char c :: nat) \<and> (of_char c :: nat) \<le> 122"

definition capability_char :: "char \<Rightarrow> bool" where
  "capability_char c \<longleftrightarrow>
     capability_start c \<or> is_digit c \<or> c \<in> {CHR ''_'', CHR ''.'', CHR '':'', CHR ''-''}"

definition capability_id :: "string \<Rightarrow> bool" where
  "capability_id s =
     (case s of [] \<Rightarrow> False | c # cs \<Rightarrow> capability_start c \<and> list_all capability_char cs \<and> length cs \<le> 63)"

definition normalizeRunCapability :: "string \<Rightarrow> string option" where
  "normalizeRunCapability v =
     (let normalized = to_lower (trim v) in
      if normalized = [] then None else if capability_id normalized then Some normalized else None)"

fun normalize_from :: "string set \<Rightarrow> string list \<Rightarrow> string list" where
  "normalize_from seen [] = []"
| "normalize_from seen (v # vs) =
     (case normalizeRunCapability v of
        None \<Rightarrow> normalize_from seen vs
      | Some n \<Rightarrow> if n \<in> seen then normalize_from seen vs else n # normalize_from (insert n seen) vs)"

definition normalizeRunCapabilities :: "string list \<Rightarrow> string list" where
  "normalizeRunCapabilities vs = normalize_from {} vs"

text \<open>\<open>jparse\<close> is \<open>JSON.parse\<close>, \<open>None\<close> when it throws; \<open>stringify\<close> is \<open>JSON.stringify\<close>.\<close>

definition js_strings :: "js list \<Rightarrow> string list" where
  "js_strings vs = List.map_filter (\<lambda>v. as_string (Some v)) vs"

definition parseRunCapabilitiesJson :: "(string \<Rightarrow> js option) \<Rightarrow> string option \<Rightarrow> string list" where
  "parseRunCapabilitiesJson jparse value =
     (case value of
        None \<Rightarrow> []
      | Some s \<Rightarrow>
          if trim s = [] then []
          else (case jparse s of Some (JArr vs) \<Rightarrow> normalizeRunCapabilities (js_strings vs) | _ \<Rightarrow> []))"

definition serializeRunCapabilities :: "(js \<Rightarrow> string) \<Rightarrow> string list \<Rightarrow> string" where
  "serializeRunCapabilities stringify values = stringify (JArr (map JStr (normalizeRunCapabilities values)))"

definition getRunActiveCapabilities :: "(string \<Rightarrow> js option) \<Rightarrow> run list \<Rightarrow> string \<Rightarrow> string list" where
  "getRunActiveCapabilities jparse t runId =
     parseRunCapabilitiesJson jparse
       (map_option rn_activeCapabilitiesJson (first_row (filter (\<lambda>r. rn_id r = runId) t)))"

definition getRunActiveCapabilitiesForSession ::
  "(string \<Rightarrow> js option) \<Rightarrow> run list \<Rightarrow> string \<Rightarrow> string \<Rightarrow> string list"
where
  "getRunActiveCapabilitiesForSession jparse t p s =
     parseRunCapabilitiesJson jparse
       (map_option rn_activeCapabilitiesJson (first_row (filter (\<lambda>r. run_session r = (p, s)) t)))"

datatype mutation_status = Updated | NotFound

definition updateRunActiveCapabilities ::
  "(js \<Rightarrow> string) \<Rightarrow> string \<Rightarrow> string list \<Rightarrow> run list \<Rightarrow> (mutation_status \<times> string list) \<times> run list"
where
  "updateRunActiveCapabilities stringify runId caps t =
     (let capabilities = normalizeRunCapabilities caps;
          text = serializeRunCapabilities stringify capabilities in
      if first_row (filter (\<lambda>r. rn_id r = runId) t) = None then ((NotFound, capabilities), t)
      else ((Updated, capabilities),
            map (\<lambda>r. if rn_id r = runId then r\<lparr>rn_activeCapabilitiesJson := text\<rparr> else r) t))"

section \<open>The run table\<close>

definition runs_ok :: "run list \<Rightarrow> bool" where
  "runs_ok t \<longleftrightarrow> distinct (map rn_id t) \<and> distinct (map run_session t)"

datatype run_op =
    OpenRun int run_args
  | CloseRun string string int
  | BumpGeneration string
  | SetCapabilities string "string list"

text \<open>A statement that throws changes nothing.\<close>

fun run_do :: "(js \<Rightarrow> string) \<Rightarrow> run_op \<Rightarrow> run list \<Rightarrow> run list" where
  "run_do stringify (OpenRun now a) t = (case insertRun now a t of Inl _ \<Rightarrow> t | Inr t' \<Rightarrow> t')"
| "run_do stringify (CloseRun p s at') t = closeRun p s at' t"
| "run_do stringify (BumpGeneration i) t = snd (bumpRunBaselineGeneration False i t)"
| "run_do stringify (SetCapabilities i caps) t = snd (updateRunActiveCapabilities stringify i caps t)"

lemma runs_ok_update:
  "runs_ok t \<Longrightarrow> (\<And>r. rn_id (f r) = rn_id r) \<Longrightarrow> (\<And>r. run_session (f r) = run_session r) \<Longrightarrow> runs_ok (map f t)"
  by (simp add: runs_ok_def comp_def)

lemma run_session_simps [simp]:
  "run_session (r\<lparr>rn_status := x\<rparr>) = run_session r"
  "run_session (r\<lparr>rn_endedAt := e\<rparr>) = run_session r"
  "run_session (r\<lparr>rn_baselineGeneration := g\<rparr>) = run_session r"
  "run_session (r\<lparr>rn_activeCapabilitiesJson := c\<rparr>) = run_session r"
  by (simp_all add: run_session_def)

lemma closeRun_keys [simp]:
  "map rn_id (closeRun p s e t) = map rn_id t" "map run_session (closeRun p s e t) = map run_session t"
  by (simp_all add: closeRun_def)

lemma closeRun_key_sets [simp]:
  "rn_id ` set (closeRun p s e t) = rn_id ` set t" "run_session ` set (closeRun p s e t) = run_session ` set t"
  using closeRun_keys [of p s e t] by (metis list.set_map)+

lemma closeRun_ok [simp]: "runs_ok (closeRun p s e t) \<longleftrightarrow> runs_ok t"
  by (simp add: runs_ok_def)

lemma insertRun_ok: "runs_ok t \<Longrightarrow> insertRun now a t = Inr t' \<Longrightarrow> runs_ok t'"
  by (cases "run_session (run_row now a) \<in> run_session ` set t")
    (auto simp: insertRun_def runs_ok_def Let_def sessions.ins_fresh sessions.ins_conflict split: if_splits)

lemma run_do_ok: "runs_ok t \<Longrightarrow> runs_ok (run_do stringify op t)"
proof (cases op)
  case (OpenRun now a)
  then show "runs_ok t \<Longrightarrow> ?thesis" by (auto split: sum.splits intro: insertRun_ok)
qed (simp_all add: closeRun_def bumpRunBaselineGeneration_def updateRunActiveCapabilities_def
    Let_def runs_ok_update)

lemma lookup_session:
  assumes "runs_ok t" and "r \<in> set t"
  shows "lookupRunId False t (rn_projectId r) (rn_sessionId r) = Some (rn_id r)"
proof -
  have key: "run_session r = (rn_projectId r, rn_sessionId r)" by (simp add: run_session_def)
  let ?F = "filter (\<lambda>x. run_session x = (rn_projectId r, rn_sessionId r)) t"
  have only: "set ?F = {r}"
    using assms key by (auto simp: runs_ok_def distinct_map inj_on_def)
  obtain ys where ys: "order_by_desc rn_startedAt ?F = ys" by simp
  have set: "set ys = {r}" using only set_order_by_desc [of rn_startedAt ?F] ys by simp
  then obtain z zs where "ys = z # zs" by (cases ys) auto
  with set ys show ?thesis by (simp add: lookupRunId_def first_row_def)
qed

text \<open>Whatever opens, closes, compactions and capability updates happen, run ids stay unique and
  each project has at most one run per session, so that looking up a session of any run in the table
  gives that run.\<close>

theorem session_lookup_exact:
  assumes "r \<in> set (fold (run_do stringify) ops [])"
  shows "lookupRunId False (fold (run_do stringify) ops []) (rn_projectId r) (rn_sessionId r) = Some (rn_id r) \<and>
         runs_ok (fold (run_do stringify) ops [])"
proof -
  have "runs_ok t \<Longrightarrow> runs_ok (fold (run_do stringify) ops t)" for t
    by (induction ops arbitrary: t) (simp_all add: run_do_ok)
  then have "runs_ok (fold (run_do stringify) ops [])" by (simp add: runs_ok_def)
  with lookup_session [OF this assms] show ?thesis by simp
qed

definition sample_run_args :: "string \<Rightarrow> string \<Rightarrow> run_args" where
  "sample_run_args i s = \<lparr> na_id = i, na_orgId = None, na_projectId = ''p'', na_sessionId = s,
     na_agentType = ''codex'', na_mode = ''solo'', na_status = None, na_activeCapabilitiesJson = None,
     na_createdByUserId = None \<rparr>"

section \<open>Capabilities read back\<close>

lemma capability_char_plain:
  "capability_char c \<Longrightarrow> \<not> js_space c \<and> lower_char c = c"
  by (auto simp: capability_char_def capability_start_def is_digit_def js_space_def lower_char_def Let_def)

lemma capability_id_chars: "capability_id s \<Longrightarrow> c \<in> set s \<Longrightarrow> capability_char c"
  by (cases s) (auto simp: capability_id_def capability_char_def list_all_iff)

lemma dropWhile_none: "\<forall>x \<in> set xs. \<not> P x \<Longrightarrow> dropWhile P xs = xs"
  by (cases xs) simp_all

lemma trim_plain: "(\<And>c. c \<in> set s \<Longrightarrow> \<not> js_space c) \<Longrightarrow> trim s = s"
  by (simp add: trim_def trim_end_def dropWhile_none)

lemma normalize_fixed: "normalizeRunCapability v = Some n \<Longrightarrow> normalizeRunCapability n = Some n"
proof -
  assume "normalizeRunCapability v = Some n"
  then have n: "capability_id n" "n \<noteq> []"
    by (auto simp: normalizeRunCapability_def Let_def split: if_splits)
  have "trim n = n" by (rule trim_plain) (use n capability_id_chars capability_char_plain in blast)
  moreover have "to_lower n = n"
    unfolding to_lower_def by (rule map_idI) (use n capability_id_chars capability_char_plain in blast)
  ultimately show ?thesis using n by (simp add: normalizeRunCapability_def)
qed

lemma normalize_from_fixed:
  "\<forall>v \<in> set (normalize_from seen vs). normalizeRunCapability v = Some v \<and> v \<notin> seen"
proof (induction seen vs rule: normalize_from.induct)
  case (1 seen)
  then show ?case by simp
next
  case (2 seen v vs)
  show ?case
  proof (cases "normalizeRunCapability v")
    case None
    with 2 show ?thesis by simp
  next
    case (Some n)
    show ?thesis
    proof (cases "n \<in> seen")
      case True
      with 2(2) [OF Some True] Some show ?thesis by simp
    next
      case False
      note IH = 2(3) [OF Some False]
      have "normalizeRunCapability n = Some n" by (rule normalize_fixed [OF Some])
      with IH False have "\<forall>x \<in> insert n (set (normalize_from (insert n seen) vs)).
          normalizeRunCapability x = Some x \<and> x \<notin> seen" by blast
      moreover have "set (normalize_from seen (v # vs)) = insert n (set (normalize_from (insert n seen) vs))"
        by (simp add: Some False)
      ultimately show ?thesis by metis
    qed
  qed
qed

lemma normalize_from_distinct: "distinct (normalize_from seen vs)"
proof (induction seen vs rule: normalize_from.induct)
  case (1 seen)
  then show ?case by simp
next
  case (2 seen v vs)
  have "n \<notin> set (normalize_from (insert n seen) vs)" for n
    using normalize_from_fixed [of "insert n seen" vs] by blast
  with 2 show ?case by (auto split: option.splits)
qed

lemma normalize_from_id:
  "distinct vs \<Longrightarrow> \<forall>v \<in> set vs. normalizeRunCapability v = Some v \<and> v \<notin> seen \<Longrightarrow> normalize_from seen vs = vs"
proof (induction vs arbitrary: seen)
  case Nil
  then show ?case by simp
next
  case (Cons v vs)
  then have "normalize_from (insert v seen) vs = vs" by (intro Cons.IH) auto
  with Cons.prems show ?case by simp
qed

lemma normalize_idem: "normalizeRunCapabilities (normalizeRunCapabilities vs) = normalizeRunCapabilities vs"
  unfolding normalizeRunCapabilities_def
  by (rule normalize_from_id) (use normalize_from_distinct normalize_from_fixed in auto)

lemma js_strings_JStr [simp]: "js_strings (map JStr vs) = vs"
  by (induction vs) (simp_all add: js_strings_def map_filter_simps as_string_def)

text \<open>The capabilities stored on a run read back as what the update answered: trimmed, lower-cased,
  well-formed, without repetitions and in the order given, for a JSON library that reads back what it
  wrote.\<close>

theorem capabilities_read_back:
  assumes upd: "updateRunActiveCapabilities stringify runId caps t = ((Updated, stored), t')"
    and json: "jparse (stringify (JArr (map JStr stored))) = Some (JArr (map JStr stored))"
      "trim (stringify (JArr (map JStr stored))) \<noteq> []"
  shows "getRunActiveCapabilities jparse t' runId = stored \<and> distinct stored \<and>
         list_all capability_id stored \<and> stored = normalizeRunCapabilities caps"
proof -
  let ?f = "\<lambda>r. if rn_id r = runId
      then r\<lparr>rn_activeCapabilitiesJson := serializeRunCapabilities stringify stored\<rparr> else r"
  from upd have st: "stored = normalizeRunCapabilities caps" and t': "t' = map ?f t"
    and some: "filter (\<lambda>r. rn_id r = runId) t \<noteq> []"
    by (auto simp: updateRunActiveCapabilities_def Let_def first_row_None split: if_splits)
  have "filter (\<lambda>r. rn_id r = runId) t' = map ?f (filter (\<lambda>r. rn_id r = runId) t)"
    unfolding t' by (simp add: filter_map comp_def if_distrib [of rn_id] cong: if_cong)
  with some obtain r rs where "filter (\<lambda>r. rn_id r = runId) t' = r # rs"
    and "rn_activeCapabilitiesJson r = serializeRunCapabilities stringify stored"
    by (cases "filter (\<lambda>r. rn_id r = runId) t") (auto dest: filter_eq_ConsD)
  then have "getRunActiveCapabilities jparse t' runId = stored"
    using json by (simp add: getRunActiveCapabilities_def first_row_def parseRunCapabilitiesJson_def
        serializeRunCapabilities_def normalize_idem st)
  moreover have "list_all capability_id stored"
    using normalize_from_fixed [of "{}" caps]
    by (auto simp: st normalizeRunCapabilities_def list_all_iff normalizeRunCapability_def Let_def split: if_splits)
  ultimately show ?thesis
    using st normalize_from_distinct by (simp add: normalizeRunCapabilities_def)
qed

end
