(* ===== verification/Dispatcher.thy ===== *)
theory Dispatcher
  imports Outbox Policy_Audit Runs
begin

text \<open>
  \<open>packages/cli/src/lib/outbox/dispatcher.ts\<close>: the handler both daemons run on every claimed job.
  Each branch of the code first narrows the payload and then writes the destination; the model names
  the two halves \<open>parse_payload\<close> and \<open>perform\<close>.

  Parameters: \<open>date_ms\<close> is \<open>Date.parse\<close> (\<open>None\<close> for an invalid date, which SQLite stores as NULL) and
  \<open>vshow\<close> is \<open>String(v)\<close> of the version found.  Per delivery the environment gives the minted decision
  id, the clock, whether the run lookup throws, and the error of the destination statement if it
  throws (a busy database, a foreign key).
\<close>

section \<open>Requests\<close>

datatype resolution = PreResolved "string option" | SessionLookup string string

datatype request =
    WriteRunEvent resolution run_event
  | WriteDecision resolution record_args
  | WriteMemoryAccess resolution memory_access
  | OpenSession run_args
  | CloseSession string string

record destination =
  de_runs :: "run list"
  de_runEvents :: "run_event list"
  de_memoryAccess :: "memory_access list"
  de_decisions :: "decision_row list"

record dispatch_env =
  dn_uuid :: string
  dn_now :: int
  dn_lookupFault :: bool
  dn_fault :: "string option"

section \<open>Narrowing\<close>

definition optionalString :: "js option \<Rightarrow> string option" where
  "optionalString v = as_nonempty v"

definition trunc :: "rat \<Rightarrow> int" where
  "trunc r = (if r < 0 then \<lceil>r\<rceil> else \<lfloor>r\<rfloor>)"

definition optionalInteger :: "js option \<Rightarrow> int option" where
  "optionalInteger v = (case v of Some (JNum r) \<Rightarrow> Some (trunc r) | _ \<Rightarrow> None)"

text \<open>\<open>v === null || typeof v === 'string' ? v : null\<close>\<close>

definition nullable_string :: "js option \<Rightarrow> string option" where
  "nullable_string v = as_string v"

definition readResolution :: "js option \<Rightarrow> resolution option" where
  "readResolution value =
     (case value of
        Some (JObj kvs) \<Rightarrow>
          (let get = js_get (JObj kvs) in
           case get ''kind'' of
             Some (JStr k) \<Rightarrow>
               if k = ''pre_resolved'' then
                 (case get ''runId'' of
                    Some JNull \<Rightarrow> Some (PreResolved None)
                  | Some (JStr r) \<Rightarrow> Some (PreResolved (Some r))
                  | _ \<Rightarrow> None)
               else if k = ''session_lookup'' then
                 (case (as_string (get ''sessionId''), as_string (get ''projectId'')) of
                    (Some s, Some p) \<Rightarrow> Some (SessionLookup s p)
                  | _ \<Rightarrow> None)
               else None
           | _ \<Rightarrow> None)
      | _ \<Rightarrow> None)"

definition read_decision :: "js option \<Rightarrow> policy_decision option" where
  "read_decision v =
     (if v = Some (JStr ''allow'') then Some Allow
      else if v = Some (JStr ''deny'') then Some Deny
      else if v = Some (JStr ''ask'') then Some Ask
      else None)"

definition read_verdict :: "js option \<Rightarrow> governance_verdict option" where
  "read_verdict v =
     (if v = Some (JStr ''pass'') then Some Pass
      else if v = Some (JStr ''record'') then Some RecordV
      else if v = Some (JStr ''advise'') then Some Advise
      else if v = Some (JStr ''warn'') then Some Warn
      else if v = Some (JStr ''confirm'') then Some Confirm
      else if v = Some (JStr ''escalate'') then Some Escalate
      else if v = Some (JStr ''block'') then Some Block
      else None)"

definition read_ask_outcome :: "js option \<Rightarrow> ask_outcome option" where
  "read_ask_outcome v =
     (if v = Some (JStr ''approved'') then Some Approved
      else if v = Some (JStr ''not_executed'') then Some NotExecuted
      else if v = Some (JStr ''unresolved'') then Some Unresolved
      else None)"

definition parse_run_event :: "js \<Rightarrow> string + request" where
  "parse_run_event p =
     (case (as_string (js_get p ''rowId''), as_string (js_get p ''phase''),
            as_string (js_get p ''toolName''), as_string (js_get p ''toolUseId''),
            as_string (js_get p ''toolInput''), readResolution (js_get p ''resolution'')) of
        (Some rowId, Some ph, Some toolName, Some toolUseId, Some toolInput, Some res) \<Rightarrow>
          Inr (WriteRunEvent res
            \<lparr> rv_id = rowId, rv_orgId = None, rv_projectId = None, rv_runId = None, rv_phase = ph,
              rv_toolName = toolName, rv_toolUseId = toolUseId, rv_toolInput = toolInput,
              rv_outcome = nullable_string (js_get p ''outcome''), rv_createdAt = 0 \<rparr>)
      | _ \<Rightarrow> Inl ''run_event payload missing required fields'')"

definition parse_policy_decision :: "(string \<Rightarrow> int option) \<Rightarrow> js \<Rightarrow> string + request" where
  "parse_policy_decision date_ms p =
     (case (as_string (js_get p ''projectId''), as_string (js_get p ''sessionId''),
            as_string (js_get p ''agentType''), as_string (js_get p ''eventType''),
            as_string (js_get p ''toolName''), as_string (js_get p ''toolInputSnapshot''),
            read_decision (js_get p ''permissionDecision''), as_string (js_get p ''reason''),
            readResolution (js_get p ''resolution'')) of
        (Some projectId, Some sessionId, Some agentType, Some eventType, Some toolName,
         Some snapshot, Some decision, Some reason, Some res) \<Rightarrow>
          Inr (WriteDecision res
            \<lparr> ra_orgId = None, ra_projectId = projectId, ra_sessionId = sessionId,
              ra_agentType = agentType, ra_eventType = eventType, ra_toolName = toolName,
              ra_toolUseId = as_string (js_get p ''toolUseId''),
              ra_permissionMode = nullable_string (js_get p ''permissionMode''),
              ra_toolInputSnapshot = snapshot, ra_permissionDecision = decision,
              ra_governanceVerdict = read_verdict (js_get p ''governanceVerdict''),
              ra_policyVersionId = nullable_string (js_get p ''policyVersionId''),
              ra_reason = reason,
              ra_matchedRuleId = nullable_string (js_get p ''matchedRuleId''),
              ra_matchedExceptionId = nullable_string (js_get p ''matchedExceptionId''),
              ra_matchedGrantId = nullable_string (js_get p ''matchedGrantId''),
              ra_baseDecision = nullish_opt (read_decision (js_get p ''baseDecision'')) (Some decision),
              ra_effectiveDecision =
                nullish_opt (read_decision (js_get p ''effectiveDecision'')) (Some decision),
              ra_askOutcome = read_ask_outcome (js_get p ''askOutcome''),
              ra_askOutcomeAt =
                (case as_string (js_get p ''askOutcomeAt'') of None \<Rightarrow> None | Some d \<Rightarrow> date_ms d),
              ra_correlatedRunEventId = nullable_string (js_get p ''correlatedRunEventId''),
              ra_evidenceJson = nullable_string (js_get p ''evidenceJson''),
              ra_resultLabelsJson = nullable_string (js_get p ''resultLabelsJson''),
              ra_activeCapabilitiesJson = nullable_string (js_get p ''activeCapabilitiesJson''),
              ra_matchedCapability = nullable_string (js_get p ''matchedCapability''),
              ra_runId = None \<rparr>)
      | _ \<Rightarrow> Inl ''policy_decision payload missing required fields'')"

definition parse_memory_access :: "js \<Rightarrow> string + request" where
  "parse_memory_access p =
     (case (as_string (js_get p ''rowId''), as_string (js_get p ''channel''),
            as_string (js_get p ''site''), as_string (js_get p ''memoryType''),
            as_string (js_get p ''triggerType''), readResolution (js_get p ''resolution'')) of
        (Some rowId, Some channel, Some site, Some memoryType, Some triggerType, Some res) \<Rightarrow>
          if channel \<noteq> ''push'' \<and> channel \<noteq> ''pull''
          then Inl (''memory_access unknown channel '' @ channel)
          else Inr (WriteMemoryAccess res
            \<lparr> ma_id = rowId, ma_orgId = optionalString (js_get p ''orgId''),
              ma_projectId = optionalString (js_get p ''projectId''), ma_runId = None,
              ma_sessionId = optionalString (js_get p ''sessionId''),
              ma_actorUserId = optionalString (js_get p ''actorUserId''),
              ma_agentType = optionalString (js_get p ''agentType''),
              ma_runEventId = optionalString (js_get p ''runEventId''),
              ma_channel = channel, ma_site = site, ma_memoryType = memoryType,
              ma_memoryId = optionalString (js_get p ''memoryId''),
              ma_position = optionalInteger (js_get p ''position''),
              ma_bytes = optionalInteger (js_get p ''bytes''),
              ma_latencyMs = optionalInteger (js_get p ''latencyMs''),
              ma_triggerType = triggerType,
              ma_queryHash = optionalString (js_get p ''queryHash''),
              ma_triggerTextHash = optionalString (js_get p ''triggerTextHash''),
              ma_resultCount = optionalInteger (js_get p ''resultCount''),
              ma_freshnessStatusAtAccess = optionalString (js_get p ''freshnessStatusAtAccess''),
              ma_baselineGeneration = nullish (optionalInteger (js_get p ''baselineGeneration'')) 0 \<rparr>)
      | _ \<Rightarrow> Inl ''memory_access payload missing required fields'')"

definition parse_session_open :: "js \<Rightarrow> string + request" where
  "parse_session_open p =
     (case (as_string (js_get p ''rowId''), as_string (js_get p ''projectId''),
            as_string (js_get p ''sessionId''), as_string (js_get p ''agentType''),
            as_string (js_get p ''mode'')) of
        (Some rowId, Some projectId, Some sessionId, Some agentType, Some mode) \<Rightarrow>
          Inr (OpenSession
            \<lparr> na_id = rowId, na_orgId = None, na_projectId = projectId, na_sessionId = sessionId,
              na_agentType = agentType, na_mode = mode, na_status = None,
              na_activeCapabilitiesJson = nullable_string (js_get p ''activeCapabilitiesJson''),
              na_createdByUserId = as_nonempty (js_get p ''createdByUserId'') \<rparr>)
      | _ \<Rightarrow> Inl ''session_open payload missing required fields'')"

definition parse_session_close :: "js \<Rightarrow> string + request" where
  "parse_session_close p =
     (case (as_string (js_get p ''projectId''), as_string (js_get p ''sessionId'')) of
        (Some projectId, Some sessionId) \<Rightarrow> Inr (CloseSession projectId sessionId)
      | _ \<Rightarrow> Inl ''session_close payload missing required fields'')"

definition parse_payload ::
  "(string \<Rightarrow> int option) \<Rightarrow> (js option \<Rightarrow> string) \<Rightarrow> string \<Rightarrow> js \<Rightarrow> string + request"
where
  "parse_payload date_ms vshow queue p =
     (if \<not> js_is_record p then Inl (''payload not an object for queue='' @ queue)
      else if js_get p ''v'' \<noteq> Some (JNum 1)
      then Inl (''unsupported payload version '' @ vshow (js_get p ''v'') @ '' for queue='' @ queue)
      else if queue = ''run_event'' then parse_run_event p
      else if queue = ''policy_decision'' then parse_policy_decision date_ms p
      else if queue = ''memory_access'' then parse_memory_access p
      else if queue = ''session_open'' then parse_session_open p
      else if queue = ''session_close'' then parse_session_close p
      else Inl (''unknown queue '' @ [CHR 0x27] @ queue @ [CHR 0x27]))"

section \<open>Writing\<close>

definition resolveRunId :: "bool \<Rightarrow> run list \<Rightarrow> resolution \<Rightarrow> string option" where
  "resolveRunId fault t res =
     (case res of PreResolved r \<Rightarrow> r | SessionLookup s p \<Rightarrow> lookupRunId fault t p s)"

text \<open>The write of a request: the message it throws, or the new tables.  The creation time of a run event is
  the column's default, the clock of the database.\<close>

definition perform :: "dispatch_env \<Rightarrow> request \<Rightarrow> destination \<Rightarrow> string + destination" where
  "perform env req d =
     (let runId = resolveRunId (dn_lookupFault env) (de_runs d) in
      case dn_fault env of
        Some e \<Rightarrow> Inl e
      | None \<Rightarrow>
          (case req of
             WriteRunEvent res row \<Rightarrow>
               Inr (d\<lparr>de_runEvents := fst (insertRunEvent (row\<lparr>rv_runId := runId res, rv_createdAt := dn_now env\<rparr>) (de_runEvents d))\<rparr>)
           | WriteDecision res a \<Rightarrow>
               Inr (d\<lparr>de_decisions :=
                 fst (recordPolicyDecision (dn_uuid env) (a\<lparr>ra_runId := runId res\<rparr>) (de_decisions d))\<rparr>)
           | WriteMemoryAccess res row \<Rightarrow>
               Inr (d\<lparr>de_memoryAccess :=
                 fst (insertMemoryAccessEvent (row\<lparr>ma_runId := runId res\<rparr>) (de_memoryAccess d))\<rparr>)
           | OpenSession a \<Rightarrow>
               (case insertRun (dn_now env) a (de_runs d) of
                  Inl e \<Rightarrow> Inl e
                | Inr t \<Rightarrow> Inr (d\<lparr>de_runs := t\<rparr>))
           | CloseSession p s \<Rightarrow> Inr (d\<lparr>de_runs := closeRun p s (dn_now env) (de_runs d)\<rparr>)))"

definition dispatchOutboxJob ::
  "(string \<Rightarrow> int option) \<Rightarrow> (js option \<Rightarrow> string) \<Rightarrow> dispatch_env \<Rightarrow> outbox_job \<Rightarrow> destination \<Rightarrow>
   (string + outcome) \<times> destination"
where
  "dispatchOutboxJob date_ms vshow env job d =
     (case parse_payload date_ms vshow (oj_queue job) (oj_payload job) of
        Inl e \<Rightarrow> (Inr (Permanent e), d)
      | Inr req \<Rightarrow>
          (case perform env req d of
             Inl m \<Rightarrow> (Inr (Transient m), d)
           | Inr d' \<Rightarrow> (Inr Success, d')))"

section \<open>What a write leaves behind\<close>

text \<open>The row a request asks for is in its table; a close asks for no row.\<close>

fun present :: "request \<Rightarrow> destination \<Rightarrow> bool" where
  "present (WriteRunEvent res row) d \<longleftrightarrow> rv_id row \<in> rv_id ` set (de_runEvents d)"
| "present (WriteDecision res a) d \<longleftrightarrow> record_key a \<in> dr_idempotencyKey ` set (de_decisions d)"
| "present (WriteMemoryAccess res row) d \<longleftrightarrow> ma_id row \<in> ma_id ` set (de_memoryAccess d)"
| "present (OpenSession a) d \<longleftrightarrow> (na_projectId a, na_sessionId a) \<in> run_session ` set (de_runs d)"
| "present (CloseSession p s) d \<longleftrightarrow> True"

fun closes :: "request \<Rightarrow> bool" where
  "closes (CloseSession p s) = True"
| "closes _ = False"

definition dest_ok :: "destination \<Rightarrow> bool" where
  "dest_ok d \<longleftrightarrow>
     runs_ok (de_runs d) \<and> distinct (map rv_id (de_runEvents d)) \<and>
     distinct (map ma_id (de_memoryAccess d)) \<and> distinct (map dr_idempotencyKey (de_decisions d))"

lemma record_key_run [simp]: "record_key (a\<lparr>ra_runId := r\<rparr>) = record_key a"
  by (simp add: record_key_def)

lemma decision_row_key [simp]: "dr_idempotencyKey (decision_row_of i a) = record_key a"
  by (simp add: decision_row_of_def)

lemma run_row_session [simp]: "run_session (run_row now a) = (na_projectId a, na_sessionId a)"
  by (simp add: run_row_def run_session_def)

lemma run_row_id [simp]: "rn_id (run_row now a) = na_id a"
  by (simp add: run_row_def)

lemma perform_present: "perform env req d = Inr d' \<Longrightarrow> present req d'"
proof (cases req)
  case (WriteRunEvent res row)
  then show "perform env req d = Inr d' \<Longrightarrow> ?thesis"
    using run_events.key_present [of "row\<lparr>rv_runId := resolveRunId (dn_lookupFault env) (de_runs d) res, rv_createdAt := dn_now env\<rparr>"]
    by (auto simp: perform_def Let_def split: option.splits)
next
  case (WriteDecision res a)
  then show "perform env req d = Inr d' \<Longrightarrow> ?thesis"
    using decisions.key_present [of "decision_row_of (dn_uuid env)
        (a\<lparr>ra_runId := resolveRunId (dn_lookupFault env) (de_runs d) res\<rparr>)"]
    by (auto simp: perform_def Let_def recordPolicyDecision_def split: option.splits)
next
  case (WriteMemoryAccess res row)
  then show "perform env req d = Inr d' \<Longrightarrow> ?thesis"
    using memory_accesses.key_present [of "row\<lparr>ma_runId := resolveRunId (dn_lookupFault env) (de_runs d) res\<rparr>"]
    by (auto simp: perform_def Let_def split: option.splits)
next
  case (OpenSession a)
  then show "perform env req d = Inr d' \<Longrightarrow> ?thesis"
    using sessions.key_present [of "run_row (dn_now env) a" "de_runs d"]
    by (auto simp: perform_def Let_def insertRun_def split: option.splits if_splits)
qed simp_all

lemma perform_absorbed:
  "present req d \<Longrightarrow> \<not> closes req \<Longrightarrow> dn_fault env = None \<Longrightarrow> perform env req d = Inr d"
  by (cases req)
    (auto simp: perform_def Let_def recordPolicyDecision_def insertRun_def run_events.ins_conflict
      decisions.ins_conflict memory_accesses.ins_conflict sessions.ins_conflict)

text \<open>Every write keeps the rows of all tables, up to the status and end of runs.\<close>

lemma perform_rows:
  assumes "perform env req d = Inr d'"
  shows "set (de_runEvents d) \<subseteq> set (de_runEvents d') \<and> set (de_decisions d) \<subseteq> set (de_decisions d') \<and>
    set (de_memoryAccess d) \<subseteq> set (de_memoryAccess d') \<and>
    run_session ` set (de_runs d) \<subseteq> run_session ` set (de_runs d') \<and>
    rn_id ` set (de_runs d) \<subseteq> rn_id ` set (de_runs d')"
proof (cases req)
  case (WriteRunEvent res row)
  with assms show ?thesis
    by (auto simp: perform_def Let_def split: option.splits dest: subsetD [OF run_events.rows_survive])
next
  case (WriteDecision res a)
  with assms show ?thesis
    by (auto simp: perform_def Let_def recordPolicyDecision_def split: option.splits
        dest: subsetD [OF decisions.rows_survive])
next
  case (WriteMemoryAccess res row)
  with assms show ?thesis
    by (auto simp: perform_def Let_def split: option.splits dest: subsetD [OF memory_accesses.rows_survive])
next
  case (OpenSession a)
  with assms obtain t where "insertRun (dn_now env) a (de_runs d) = Inr t" "d' = d\<lparr>de_runs := t\<rparr>"
    by (auto simp: perform_def Let_def split: option.splits sum.splits)
  moreover from this have "set (de_runs d) \<subseteq> set t"
    using sessions.rows_survive [of "de_runs d" "run_row (dn_now env) a"]
    by (auto simp: insertRun_def Let_def split: if_splits)
  ultimately show ?thesis by (simp add: image_mono)
next
  case (CloseSession p s)
  with assms have "d' = d\<lparr>de_runs := closeRun p s (dn_now env) (de_runs d)\<rparr>"
    by (auto simp: perform_def Let_def split: option.splits)
  then show ?thesis by simp
qed

lemma perform_run_ids:
  "perform env req d = Inr d' \<Longrightarrow> rn_id ` set (de_runs d) \<subseteq> rn_id ` set (de_runs d')"
  using perform_rows by blast

lemma perform_keeps_present: "perform env req d = Inr d' \<Longrightarrow> present r d \<Longrightarrow> present r d'"
  using perform_rows [of env req d d'] by (cases r) auto

lemma perform_ok: "perform env req d = Inr d' \<Longrightarrow> dest_ok d \<Longrightarrow> dest_ok d'"
proof (cases req)
  case (OpenSession a)
  then show "perform env req d = Inr d' \<Longrightarrow> dest_ok d \<Longrightarrow> ?thesis"
    by (auto simp: perform_def dest_ok_def Let_def intro: insertRun_ok split: option.splits sum.splits)
next
  case (CloseSession p s)
  then show "perform env req d = Inr d' \<Longrightarrow> dest_ok d \<Longrightarrow> ?thesis"
    by (auto simp: perform_def Let_def dest_ok_def split: option.splits)
qed (auto simp: perform_def dest_ok_def Let_def recordPolicyDecision_def split: option.splits
    intro: run_events.keys_stay_unique decisions.keys_stay_unique memory_accesses.keys_stay_unique)

section \<open>What a delivery does\<close>

text \<open>The handler never throws and changes nothing unless it reports success.  It reports a
  permanent failure exactly for a payload it cannot narrow, a transient one exactly when the write
  threw, and on success the requested row is in its table: its own, or the one an earlier delivery of
  the same key wrote.\<close>

theorem dispatch_outcome:
  "case dispatchOutboxJob date_ms vshow env job d of
     (Inr Success, d') \<Rightarrow>
       (\<exists>req. parse_payload date_ms vshow (oj_queue job) (oj_payload job) = Inr req \<and> present req d')
   | (Inr (Permanent e), d') \<Rightarrow>
       d' = d \<and> parse_payload date_ms vshow (oj_queue job) (oj_payload job) = Inl e
   | (Inr (Transient m), d') \<Rightarrow>
       d' = d \<and> (\<exists>req. parse_payload date_ms vshow (oj_queue job) (oj_payload job) = Inr req \<and>
                      perform env req d = Inl m)
   | (Inl _, d') \<Rightarrow> False"
  by (auto simp: dispatchOutboxJob_def perform_present split: sum.splits)

text \<open>A delivery is a job with the environment it meets.\<close>

definition deliver_seq ::
  "(string \<Rightarrow> int option) \<Rightarrow> (js option \<Rightarrow> string) \<Rightarrow> (dispatch_env \<times> outbox_job) list \<Rightarrow> destination \<Rightarrow>
   destination"
where
  "deliver_seq date_ms vshow js d = fold (\<lambda>(env, j) d. snd (dispatchOutboxJob date_ms vshow env j d)) js d"

text \<open>No sequence of deliveries, with whatever duplicates, retries and failures, puts two rows of
  one key into a table: run ids, sessions, run events, memory accesses and decision keys stay
  unique.\<close>

theorem deliveries_keep_keys_unique:
  assumes "dest_ok d"
  shows "dest_ok (deliver_seq date_ms vshow js d)"
proof -
  have "dest_ok d \<Longrightarrow> dest_ok (snd (dispatchOutboxJob date_ms vshow env j d))" for env j d
    by (auto simp: dispatchOutboxJob_def intro: perform_ok split: sum.splits)
  with assms show ?thesis
    unfolding deliver_seq_def by (induction js arbitrary: d) auto
qed

section \<open>Redelivery\<close>

text \<open>The deliveries of the four insert queues, with a destination that does not throw.\<close>

definition insert_delivery ::
  "(string \<Rightarrow> int option) \<Rightarrow> (js option \<Rightarrow> string) \<Rightarrow> dispatch_env \<times> outbox_job \<Rightarrow> destination \<Rightarrow> destination"
where
  "insert_delivery date_ms vshow ej d =
     (case parse_payload date_ms vshow (oj_queue (snd ej)) (oj_payload (snd ej)) of
        Inl _ \<Rightarrow> d
      | Inr req \<Rightarrow>
          if closes req then d
          else (case perform ((fst ej)\<lparr>dn_fault := None\<rparr>) req d of Inl _ \<Rightarrow> d | Inr d' \<Rightarrow> d'))"

text \<open>Settled: no delivery of the job, whatever its environment, can change the destination.\<close>

definition landed ::
  "(string \<Rightarrow> int option) \<Rightarrow> (js option \<Rightarrow> string) \<Rightarrow> dispatch_env \<times> outbox_job \<Rightarrow> destination \<Rightarrow> bool"
where
  "landed date_ms vshow ej d \<longleftrightarrow>
     (case parse_payload date_ms vshow (oj_queue (snd ej)) (oj_payload (snd ej)) of
        Inl _ \<Rightarrow> True
      | Inr req \<Rightarrow> present req d \<or> (\<exists>a. req = OpenSession a \<and> na_id a \<in> rn_id ` set (de_runs d)))"

lemma perform_no_fault_Inl:
  "perform (env\<lparr>dn_fault := None\<rparr>) req d = Inl e \<Longrightarrow> \<exists>a. req = OpenSession a \<and> na_id a \<in> rn_id ` set (de_runs d)"
  by (cases req) (auto simp: perform_def Let_def insertRun_def split: if_splits)

lemma open_taken:
  "na_id a \<in> rn_id ` set (de_runs d) \<Longrightarrow> \<not> present (OpenSession a) d \<Longrightarrow> dn_fault env = None \<Longrightarrow>
   \<exists>e. perform env (OpenSession a) d = Inl e"
  by (simp add: perform_def Let_def insertRun_def)

interpretation sink: redelivery_sink "insert_delivery date_ms vshow" "landed date_ms vshow" for date_ms vshow
proof unfold_locales
  fix ej d
  show "landed date_ms vshow ej (insert_delivery date_ms vshow ej d)"
    by (auto simp: landed_def insert_delivery_def perform_present dest: perform_no_fault_Inl
        split: sum.splits elim: closes.elims)
next
  fix ej d
  assume l: "landed date_ms vshow ej d"
  show "insert_delivery date_ms vshow ej d = d"
  proof (cases "parse_payload date_ms vshow (oj_queue (snd ej)) (oj_payload (snd ej))")
    case (Inl e)
    then show ?thesis by (simp add: insert_delivery_def)
  next
    case (Inr req)
    let ?env = "(fst ej)\<lparr>dn_fault := None\<rparr>"
    consider "closes req" | "\<not> closes req" "present req d"
      | a where "req = OpenSession a" "na_id a \<in> rn_id ` set (de_runs d)" "\<not> present req d"
      using l Inr unfolding landed_def by (cases "closes req"; cases "present req d") auto
    then show ?thesis
    proof cases
      case 1
      with Inr show ?thesis by (simp add: insert_delivery_def)
    next
      case 2
      then have "perform ?env req d = Inr d" by (intro perform_absorbed) simp_all
      with Inr 2 show ?thesis by (simp add: insert_delivery_def)
    next
      case 3
      then obtain e where "perform ?env req d = Inl e" using open_taken [of a d ?env] by auto
      with Inr 3 show ?thesis by (simp add: insert_delivery_def)
    qed
  qed
next
  fix ej d k
  assume l: "landed date_ms vshow ej d"
  show "landed date_ms vshow ej (insert_delivery date_ms vshow k d)"
  proof (cases "insert_delivery date_ms vshow k d = d")
    case True
    with l show ?thesis by simp
  next
    case False
    then obtain req where "perform ((fst k)\<lparr>dn_fault := None\<rparr>) req d = Inr (insert_delivery date_ms vshow k d)"
      by (auto simp: insert_delivery_def split: sum.splits if_splits)
    with l perform_keeps_present [OF this] perform_run_ids [OF this] show ?thesis
      by (auto simp: landed_def split: sum.splits)
  qed
qed

definition insert_only :: "(dispatch_env \<times> outbox_job) list \<Rightarrow> bool" where
  "insert_only js \<longleftrightarrow> list_all (\<lambda>(env, j). dn_fault env = None \<and> oj_queue j \<noteq> ''session_close'') js"

lemma parse_closes:
  "parse_payload date_ms vshow q p = Inr req \<Longrightarrow> q \<noteq> ''session_close'' \<Longrightarrow> \<not> closes req"
  by (auto simp: parse_payload_def parse_run_event_def parse_policy_decision_def parse_memory_access_def
      parse_session_open_def split: if_splits option.splits prod.splits)

lemma insert_only_deliver:
  "insert_only js \<Longrightarrow> deliver_seq date_ms vshow js d = sink.deliver_all date_ms vshow js d"
proof (induction js arbitrary: d)
  case Nil
  then show ?case by (simp add: deliver_seq_def)
next
  case (Cons ej js)
  obtain env j where ej: "ej = (env, j)" by fastforce
  with Cons.prems have f: "dn_fault env = None" "oj_queue j \<noteq> ''session_close''" and js: "insert_only js"
    by (simp_all add: insert_only_def)
  have "env\<lparr>dn_fault := None\<rparr> = env" using f(1) by (cases env) simp
  then have "snd (dispatchOutboxJob date_ms vshow env j d) = insert_delivery date_ms vshow ej d"
    using parse_closes [OF _ f(2)]
    by (auto simp: dispatchOutboxJob_def insert_delivery_def ej split: sum.splits)
  with Cons.IH [OF js] ej show ?case by (simp add: deliver_seq_def)
qed

lemma landed_job: "landed date_ms vshow (env, j) d \<longleftrightarrow> landed date_ms vshow (env', j) d"
  by (simp add: landed_def)

text \<open>On the insert queues (run events, decisions, memory accesses, session opens) redelivery is
  harmless: delivering again any jobs that were already delivered, any number of times, in any order
  and in whatever environment, leaves the destination exactly as it was.\<close>

theorem redelivery_changes_nothing:
  assumes "insert_only js" and "insert_only again" and "snd ` set again \<subseteq> snd ` set js"
  shows "deliver_seq date_ms vshow again (deliver_seq date_ms vshow js d) = deliver_seq date_ms vshow js d"
proof -
  have "\<forall>ej \<in> set again. landed date_ms vshow ej (sink.deliver_all date_ms vshow js d)"
  proof
    fix ej assume "ej \<in> set again"
    obtain env j where ej: "ej = (env, j)" by (cases ej)
    have "snd ej \<in> snd ` set js" using assms(3) \<open>ej \<in> set again\<close> by blast
    then obtain env' where "(env', j) \<in> set js" by (auto simp: ej)
    then have "landed date_ms vshow (env', j) (sink.deliver_all date_ms vshow js d)"
      by (rule sink.all_settled)
    then show "landed date_ms vshow ej (sink.deliver_all date_ms vshow js d)"
      unfolding ej by (simp only: landed_job [of date_ms vshow env j _ env'])
  qed
  from sink.settled_noop [OF this] show ?thesis
    by (simp only: insert_only_deliver [OF assms(1)] insert_only_deliver [OF assms(2)])
qed

text \<open>A close has no such guard: the update is not limited to runs still in progress, so that a
  redelivered close moves the end of the run to the time of the last delivery.\<close>

theorem redelivered_close_moves_end:
  "closeRun p s t2 (closeRun p s t1 rs) = closeRun p s t2 rs \<and>
   map rn_endedAt (filter (\<lambda>r. run_session r = (p, s)) (closeRun p s t2 rs)) =
   map (\<lambda>_. Some t2) (filter (\<lambda>r. run_session r = (p, s)) rs)"
  by (induction rs) (auto simp: closeRun_def)

section \<open>Witnesses\<close>

definition empty_destination :: destination where
  "empty_destination = \<lparr> de_runs = [], de_runEvents = [], de_memoryAccess = [], de_decisions = [] \<rparr>"

definition sample_dispatch_env :: "int \<Rightarrow> dispatch_env" where
  "sample_dispatch_env now = \<lparr> dn_uuid = ''u'', dn_now = now, dn_lookupFault = False, dn_fault = None \<rparr>"

definition sample_open_job :: "string \<Rightarrow> outbox_job" where
  "sample_open_job i = \<lparr> oj_id = ''job'', oj_queue = ''session_open'', oj_payload = JObj
     [(''v'', JNum 1), (''rowId'', JStr i), (''projectId'', JStr ''p''), (''sessionId'', JStr ''s''),
      (''agentType'', JStr ''codex''), (''mode'', JStr ''solo'')], oj_attempts = 1 \<rparr>"

end
