(* ===== verification/Check_Policy.thy ===== *)
theory Check_Policy
  imports Policy_Client Kill_Switch Dispatcher
begin

text \<open>
  The \<open>check_policy\<close> tool, \<open>apps/mcp-server/src/tools/check-policy/handler.ts\<close>: project lookup, kill
  switches, policy evaluation, the answer, and the durable audit job with its paired sync job.

  The handler threads three states: the policy cache, the kill-switch cache and \<open>pending_jobs\<close>.
  \<open>stringify\<close> is \<open>JSON.stringify\<close> (\<open>None\<close> when it throws); \<open>dots\<close> is the one-character ellipsis the
  truncation appends, a code unit above 255.  The audit enqueue is not awaited: the model runs it to
  its end within the call, and an error in it is dropped as the code's \<open>catch\<close> does.
\<close>

section \<open>Types\<close>

record check_input =
  ci_projectSlug :: string
  ci_sessionId :: string
  ci_agentType :: string
  ci_eventType :: phase
  ci_toolName :: string
  ci_toolInput :: js
  ci_runId :: "string option"
  ci_activeCapabilities :: "string list option"
  ci_toolUseId :: "string option"

datatype check_reason = NoRuleMatched | RuleMatched | PolicyEngineUnavailable | KillSwitchPaused

record check_answer =
  an_permissionDecision :: policy_decision
  an_reason :: check_reason
  an_ruleReason :: "string option"
  an_matchedRuleId :: "string option"
  an_policyVersionId :: "string option"
  an_matchedExceptionId :: "string option"
  an_matchedGrantId :: "string option"
  an_matchedCapability :: "string option"
  an_baseDecision :: policy_decision
  an_effectiveDecision :: policy_decision
  an_failOpen :: bool

datatype check_output = ProjectNotFound | Answer check_answer

record check_deps =
  cd_policy :: policy_config
  cd_killSwitches :: "int option"
  cd_stringify :: "js \<Rightarrow> string option"
  cd_dots :: string

text \<open>\<open>cd_killSwitches\<close> is the cache time of the evaluator when one was given.\<close>

record check_state =
  cs_policyCache :: policy_cache
  cs_killSwitchCache :: ks_cache
  cs_jobs :: "job list"

record check_env =
  ch_projects :: "(string \<times> string) list"
  ch_agentType :: string
  ch_killSwitches :: ks_env
  ch_eval :: eval_env
  ch_sync :: sync_env
  ch_enqueueFails :: bool

section \<open>The handler\<close>

definition resolveProjectId :: "(string \<times> string) list \<Rightarrow> string \<Rightarrow> string option" where
  "resolveProjectId projects slug = map_option snd (first_row (filter (\<lambda>p. fst p = slug) projects))"

definition TOOL_INPUT_SNAPSHOT_MAX :: nat where
  "TOOL_INPUT_SNAPSHOT_MAX = 8192"

definition truncateToolInputSnapshot :: "(js \<Rightarrow> string option) \<Rightarrow> string \<Rightarrow> js \<Rightarrow> string" where
  "truncateToolInputSnapshot stringify dots toolInput =
     (case stringify toolInput of
        None \<Rightarrow> ''[unserialisable]''
      | Some raw \<Rightarrow>
          if length raw \<le> TOOL_INPUT_SNAPSHOT_MAX then raw
          else take TOOL_INPUT_SNAPSHOT_MAX raw @ dots @ ''[truncated:'' @ nat_digits (length raw) @ '']'')"

definition effectiveAgentType :: "string \<Rightarrow> string \<Rightarrow> string" where
  "effectiveAgentType ctx_type input_type = (if ctx_type \<noteq> ''unknown'' then ctx_type else input_type)"

fun ks_policy_decision :: "ks_decision \<Rightarrow> policy_decision" where
  "ks_policy_decision KsDeny = Deny"
| "ks_policy_decision KsAllow = Allow"

text \<open>The part of the evaluation result the handler reads, synthesised for a kill switch.\<close>

definition kill_switch_result :: "ks_match \<Rightarrow> policy_result" where
  "kill_switch_result m =
     \<lparr> pr_decision = ks_policy_decision (km_decision m),
       pr_baseDecision = ks_policy_decision (km_decision m),
       pr_governanceVerdict = Pass, pr_enforcementMode = Detective, pr_reason = km_reason m,
       pr_matchedRuleId = None, pr_matchedCapability = None, pr_matchedExceptionId = None,
       pr_matchedGrantId = None, pr_policyVersionId = None \<rparr>"

definition map_reason :: "bool \<Rightarrow> policy_result \<Rightarrow> check_reason \<times> string option" where
  "map_reason paused r =
     (if paused then (KillSwitchPaused, Some (pr_reason r))
      else if pr_reason r = ''policy_check_unavailable'' then (PolicyEngineUnavailable, None)
      else if pr_matchedRuleId r = None then (NoRuleMatched, None)
      else (RuleMatched, Some (pr_reason r)))"

fun reason_text :: "check_reason \<Rightarrow> string" where
  "reason_text NoRuleMatched = ''no_rule_matched''"
| "reason_text RuleMatched = ''rule_matched''"
| "reason_text PolicyEngineUnavailable = ''policy_engine_unavailable''"
| "reason_text KillSwitchPaused = ''kill_switch_paused''"

fun decision_text :: "policy_decision \<Rightarrow> string" where
  "decision_text Allow = ''allow''"
| "decision_text Deny = ''deny''"
| "decision_text Ask = ''ask''"

definition js_nullable :: "string option \<Rightarrow> js" where
  "js_nullable v = (case v of None \<Rightarrow> JNull | Some s \<Rightarrow> JStr s)"

definition audit_payload ::
  "check_input \<Rightarrow> string \<Rightarrow> string \<Rightarrow> string \<Rightarrow> string \<Rightarrow> policy_result \<Rightarrow> string \<Rightarrow> js"
where
  "audit_payload i projectId agentType snapshot capabilitiesJson r auditReason =
     JObj ([(''v'', JNum 1),
       (''resolution'', JObj [(''kind'', JStr ''pre_resolved''), (''runId'', js_nullable (ci_runId i))]),
       (''projectId'', JStr projectId), (''sessionId'', JStr (ci_sessionId i)),
       (''agentType'', JStr agentType), (''eventType'', JStr (phase_event_type (ci_eventType i))),
       (''toolName'', JStr (ci_toolName i))] @
      (case ci_toolUseId i of None \<Rightarrow> [] | Some t \<Rightarrow> [(''toolUseId'', JStr t)]) @
      [(''toolInputSnapshot'', JStr snapshot),
       (''permissionDecision'', JStr (decision_text (pr_decision r))),
       (''policyVersionId'', js_nullable (pr_policyVersionId r)),
       (''matchedRuleId'', js_nullable (pr_matchedRuleId r)),
       (''matchedExceptionId'', js_nullable (pr_matchedExceptionId r)),
       (''matchedGrantId'', js_nullable (pr_matchedGrantId r)),
       (''activeCapabilitiesJson'', JStr capabilitiesJson),
       (''matchedCapability'', js_nullable (pr_matchedCapability r)),
       (''baseDecision'', JStr (decision_text (pr_baseDecision r))),
       (''effectiveDecision'', JStr (decision_text (pr_decision r))),
       (''askOutcome'', (if pr_decision r = Ask then JStr ''unresolved'' else JNull)),
       (''reason'', JStr auditReason)])"

definition audit_sync_key :: "check_input \<Rightarrow> string \<Rightarrow> string" where
  "audit_sync_key i snapshot =
     buildPolicyDecisionIdempotencyKey
       \<lparr> ak_sessionId = ci_sessionId i, ak_toolUseId = ci_toolUseId i, ak_toolName = ci_toolName i,
         ak_eventType = phase_event_type (ci_eventType i), ak_toolInputSnapshot = Some snapshot \<rparr>"

text \<open>The pre-phase kill-switch check.\<close>

definition consult_kill_switches ::
  "check_deps \<Rightarrow> ks_cache \<Rightarrow> string \<Rightarrow> check_input \<Rightarrow> check_env \<Rightarrow> ks_match option \<times> ks_cache"
where
  "consult_kill_switches deps cache projectId i env =
     (case cd_killSwitches deps of
        None \<Rightarrow> (None, cache)
      | Some ms \<Rightarrow>
          if ci_eventType i \<noteq> Pre then (None, cache)
          else check ms cache (Some projectId) (ci_toolName i)
                 (effectiveAgentType (ch_agentType env) (ci_agentType i)) (ch_killSwitches env))"

definition check_policy_input :: "check_input \<Rightarrow> string \<Rightarrow> policy_input" where
  "check_policy_input i projectId =
     \<lparr> pi_toolName = ci_toolName i, pi_sessionId = ci_sessionId i, pi_input = ci_toolInput i,
       pi_phase = ci_eventType i, pi_activeCapabilities = ci_activeCapabilities i,
       pi_projectId = Some projectId \<rparr>"

definition answer_of :: "bool \<Rightarrow> policy_result \<Rightarrow> check_answer" where
  "answer_of paused r =
     (let (reason, ruleReason) = map_reason paused r in
      \<lparr> an_permissionDecision = pr_decision r, an_reason = reason, an_ruleReason = ruleReason,
        an_matchedRuleId = pr_matchedRuleId r, an_policyVersionId = pr_policyVersionId r,
        an_matchedExceptionId = pr_matchedExceptionId r, an_matchedGrantId = pr_matchedGrantId r,
        an_matchedCapability = pr_matchedCapability r, an_baseDecision = pr_baseDecision r,
        an_effectiveDecision = pr_decision r, an_failOpen = (reason = PolicyEngineUnavailable) \<rparr>)"

definition enqueue_audit ::
  "check_deps \<Rightarrow> check_env \<Rightarrow> check_input \<Rightarrow> js \<Rightarrow> string \<Rightarrow> job list \<Rightarrow> job list"
where
  "enqueue_audit deps env i payload key jobs =
     (if ch_enqueueFails env then jobs
      else snd (scheduleAuditWriteWithSync (\<lambda>v. nullish (cd_stringify deps v) []) (ch_sync env)
             \<lparr> da_queue = ''policy_decision'', da_payload = payload, da_id = None, da_runAfter = None \<rparr>
             (Some (''policy_decisions'', ByIdempotencyKey key)) None jobs))"

definition checkPolicyHandler ::
  "check_deps \<Rightarrow> check_env \<Rightarrow> check_input \<Rightarrow> check_state \<Rightarrow> check_output \<times> check_state"
where
  "checkPolicyHandler deps env i st =
     (case resolveProjectId (ch_projects env) (ci_projectSlug i) of
        None \<Rightarrow> (ProjectNotFound, st)
      | Some projectId \<Rightarrow>
          (let agentType = effectiveAgentType (ch_agentType env) (ci_agentType i);
               (killSwitch, ksCache) = consult_kill_switches deps (cs_killSwitchCache st) projectId i env;
               (r, cache) =
                 (case killSwitch of
                    Some m \<Rightarrow> (kill_switch_result m, cs_policyCache st)
                  | None \<Rightarrow> evaluate (cd_policy deps) (cs_policyCache st)
                              (check_policy_input i projectId) (ch_eval env));
               (reason, ruleReason) = map_reason (killSwitch \<noteq> None) r;
               auditReason = nullish ruleReason (reason_text reason);
               snapshot = truncateToolInputSnapshot (cd_stringify deps) (cd_dots deps) (ci_toolInput i);
               capabilitiesJson = serializeRunCapabilities (\<lambda>v. nullish (cd_stringify deps v) [])
                 (nullish (ci_activeCapabilities i) []);
               payload = audit_payload i projectId agentType snapshot capabilitiesJson r auditReason;
               jobs = enqueue_audit deps env i payload (audit_sync_key i snapshot) (cs_jobs st)
           in (Answer (answer_of (killSwitch \<noteq> None) r),
               \<lparr> cs_policyCache = cache, cs_killSwitchCache = ksCache, cs_jobs = jobs \<rparr>)))"

section \<open>The audit row\<close>

lemma read_decision_text [simp]: "read_decision (Some (JStr (decision_text d))) = Some d"
  by (cases d) (simp_all add: read_decision_def)

lemma read_null [simp]:
  "nullable_string (Some (js_nullable v)) = v"
  by (cases v) (simp_all add: nullable_string_def js_nullable_def as_string_def)

text \<open>C8: The audit job and the sync job the handler enqueues agree: the dispatcher accepts the audit
  payload, attributes it to the run the caller named, records the decision that was answered, and
  files the row under exactly the idempotency key the sync job looks up.\<close>

theorem audit_row_found_by_sync:
  "\<exists>a. parse_payload date_ms vshow ''policy_decision''
          (audit_payload i projectId agentType snapshot caps r auditReason) =
        Inr (WriteDecision (PreResolved (ci_runId i)) a) \<and>
      record_key a = audit_sync_key i snapshot \<and> ra_projectId a = projectId \<and>
      ra_permissionDecision a = pr_decision r \<and> ra_effectiveDecision a = Some (pr_decision r) \<and>
      ra_matchedRuleId a = pr_matchedRuleId r \<and> ra_reason a = auditReason \<and>
      ra_askOutcome a = (if pr_decision r = Ask then Some Unresolved else None)"
proof -
  have tu: "as_string (js_get (audit_payload i projectId agentType snapshot caps r auditReason) ''toolUseId'') =
      ci_toolUseId i"
    by (cases "ci_toolUseId i") (simp_all add: audit_payload_def as_string_def)
  have res: "readResolution (js_get (audit_payload i projectId agentType snapshot caps r auditReason) ''resolution'') =
      Some (PreResolved (ci_runId i))"
    by (cases "ci_runId i"; cases "ci_toolUseId i")
      (simp_all add: audit_payload_def readResolution_def js_nullable_def Let_def)
  show ?thesis
    unfolding parse_payload_def parse_policy_decision_def tu res
    by (cases "ci_toolUseId i")
      (simp_all add: audit_payload_def as_string_def record_key_def audit_sync_key_def read_ask_outcome_def)
qed

section \<open>Kill switches come first\<close>

lemma handler_cases:
  assumes "resolveProjectId (ch_projects env) (ci_projectSlug i) = Some p"
    and "consult_kill_switches deps (cs_killSwitchCache st) p i env = (ks, kc)"
  shows "\<exists>jobs. checkPolicyHandler deps env i st =
    (case ks of
       Some m \<Rightarrow> (Answer (answer_of True (kill_switch_result m)),
                 \<lparr> cs_policyCache = cs_policyCache st, cs_killSwitchCache = kc, cs_jobs = jobs \<rparr>)
     | None \<Rightarrow> (Answer (answer_of False (fst (evaluate (cd_policy deps) (cs_policyCache st)
                  (check_policy_input i p) (ch_eval env)))),
               \<lparr> cs_policyCache = snd (evaluate (cd_policy deps) (cs_policyCache st)
                  (check_policy_input i p) (ch_eval env)), cs_killSwitchCache = kc, cs_jobs = jobs \<rparr>))"
  using assms
  by (cases ks; cases "map_reason (ks \<noteq> None) (case ks of Some m \<Rightarrow> kill_switch_result m
        | None \<Rightarrow> fst (evaluate (cd_policy deps) (cs_policyCache st) (check_policy_input i p) (ch_eval env)))")
    (auto simp: checkPolicyHandler_def Let_def split: prod.splits)

definition tool_event :: "check_input \<Rightarrow> string \<Rightarrow> check_env \<Rightarrow> ks_event" where
  "tool_event i p env =
     \<lparr> ev_projectId = Some p, ev_toolName = ci_toolName i,
       ev_agentType = effectiveAgentType (ch_agentType env) (ci_agentType i) \<rparr>"

lemma pause_found:
  assumes pre: "ci_eventType i = Pre" and dep: "cd_killSwitches deps = Some ms"
    and fresh: "cache (ks_cache_key (Some p)) = None"
    and table: "ke_table (ch_killSwitches env) = Some t"
    and s: "s \<in> set t" "ks_active (ke_now (ch_killSwitches env)) s" "ks_hits (tool_event i p env) s"
    and hard: "\<And>s'. s' \<in> set t \<Longrightarrow> ks_active (ke_now (ch_killSwitches env)) s' \<Longrightarrow>
                 ks_hits (tool_event i p env) s' \<Longrightarrow> ks_mode s' = Hard"
  shows "\<exists>m kc. consult_kill_switches deps cache p i env = (Some m, kc) \<and> km_decision m = KsDeny"
proof -
  let ?agent = "effectiveAgentType (ch_agentType env) (ci_agentType i)"
  let ?find = "List.find (ks_hits (tool_event i p env)) (listActiveKillSwitches t (Some p) (ke_now (ch_killSwitches env)))"
  have c: "fst (check ms cache (Some p) (ci_toolName i) ?agent (ch_killSwitches env)) = map_option ks_verdict ?find"
    using fresh table by (simp add: check_def cached_switches_def Let_def find_match tool_event_def)
  have "in_context (Some p) s" using hits_in_context [OF s(3)] by (simp add: tool_event_def)
  with s have "s \<in> set (listActiveKillSwitches t (Some p) (ke_now (ch_killSwitches env)))"
    by (simp add: listActiveKillSwitches_def)
  with s(3) obtain m where m: "?find = Some m" by (cases ?find) (auto simp: find_None_iff)
  with find_Some_D [OF m] have "ks_mode m = Hard" by (auto simp: listActiveKillSwitches_def intro: hard)
  then have "km_decision (ks_verdict m) = KsDeny" by (simp add: ks_verdict_def)
  moreover have "\<exists>kc. consult_kill_switches deps cache p i env = (Some (ks_verdict m), kc)"
    using c m pre dep
    by (cases "check ms cache (Some p) (ci_toolName i) ?agent (ch_killSwitches env)")
      (simp add: consult_kill_switches_def)
  ultimately show ?thesis by blast
qed

lemma pause_answer:
  assumes "resolveProjectId (ch_projects env) (ci_projectSlug i) = Some p"
    and "consult_kill_switches deps (cs_killSwitchCache st) p i env = (Some m, kc)" and "km_decision m = KsDeny"
  shows "\<exists>a st'. checkPolicyHandler deps env i st = (Answer a, st') \<and> an_permissionDecision a = Deny \<and>
           an_reason a = KillSwitchPaused \<and> \<not> an_failOpen a \<and> cs_policyCache st' = cs_policyCache st"
  using handler_cases [OF assms(1,2)] assms(3) by (auto simp: answer_of_def map_reason_def kill_switch_result_def)

text \<open>C1: Before a tool runs, an active kill switch that covers the call denies it whatever the policy
  says: with the evaluator in place, nothing cached and every covering switch in hard mode, the answer
  is a denial for \<open>kill_switch_paused\<close> and the policy engine is not asked at all.\<close>

theorem hard_pause_denies:
  assumes proj: "resolveProjectId (ch_projects env) (ci_projectSlug i) = Some p"
    and pre: "ci_eventType i = Pre" and dep: "cd_killSwitches deps = Some ms"
    and fresh: "cs_killSwitchCache st (ks_cache_key (Some p)) = None"
    and table: "ke_table (ch_killSwitches env) = Some t"
    and s: "s \<in> set t" "ks_active (ke_now (ch_killSwitches env)) s" "ks_hits (tool_event i p env) s"
    and hard: "\<And>s'. s' \<in> set t \<Longrightarrow> ks_active (ke_now (ch_killSwitches env)) s' \<Longrightarrow>
                 ks_hits (tool_event i p env) s' \<Longrightarrow> ks_mode s' = Hard"
  shows "\<exists>a st'. checkPolicyHandler deps env i st = (Answer a, st') \<and> an_permissionDecision a = Deny \<and>
           an_reason a = KillSwitchPaused \<and> \<not> an_failOpen a \<and> cs_policyCache st' = cs_policyCache st"
proof -
  from pause_found [of i deps ms "cs_killSwitchCache st" p env, OF pre dep fresh table s hard] obtain m kc
    where "consult_kill_switches deps (cs_killSwitchCache st) p i env = (Some m, kc)" "km_decision m = KsDeny" by blast
  from pause_answer [OF proj this] show ?thesis .
qed

section \<open>The fail-open flag\<close>

text \<open>When the policy state cannot be read the answer carries \<open>policy_engine_unavailable\<close> and
  \<open>failOpen\<close> even if it is a denial, which it is exactly when the warm cache holds a deny-on-error
  denial for the call: the flag does not mean that the call was let through.\<close>

theorem fault_flagged_fail_open:
  assumes "resolveProjectId (ch_projects env) (ci_projectSlug i) = Some p"
    and "consult_kill_switches deps (cs_killSwitchCache st) p i env = (None, kc)"
    and "getPolicyState (cd_policy deps) (cs_policyCache st) (Some p) (ch_eval env) = (Inl e, cache')"
  shows "\<exists>a st'. checkPolicyHandler deps env i st = (Answer a, st') \<and> an_failOpen a \<and>
           an_reason a = PolicyEngineUnavailable \<and>
           (an_permissionDecision a = Deny \<longleftrightarrow>
              (\<exists>c m. cs_policyCache st (cache_key (Some p)) = Some c \<and>
                 evaluateRules (pc_pm (cd_policy deps)) (ls_rules (ca_state c)) (check_policy_input i p) = Some m \<and>
                 cr_denyOnPolicyError m \<and> effectiveDecisionForRule m = Deny))"
proof -
  let ?r = "fst (evaluate (cd_policy deps) (cs_policyCache st) (check_policy_input i p) (ch_eval env))"
  have g: "getPolicyState (cd_policy deps) (cs_policyCache st) (pi_projectId (check_policy_input i p)) (ch_eval env) =
      (Inl e, cache')"
    using assms(3) by (simp add: check_policy_input_def)
  have "pr_reason ?r = ''policy_check_unavailable''"
    using g by (auto simp: evaluate_def failClosedResultFromWarmCache_def FAIL_OPEN_RESULT_def
        split: option.splits if_splits)
  moreover have "pr_decision ?r = Deny \<longleftrightarrow>
      (\<exists>c m. cs_policyCache st (cache_key (Some p)) = Some c \<and>
         evaluateRules (pc_pm (cd_policy deps)) (ls_rules (ca_state c)) (check_policy_input i p) = Some m \<and>
         cr_denyOnPolicyError m \<and> effectiveDecisionForRule m = Deny)"
    using g getPolicyState_fault [OF g]
    by (auto simp: evaluate_def failClosedResultFromWarmCache_def FAIL_OPEN_RESULT_def check_policy_input_def
        split: option.splits if_splits)
  ultimately show ?thesis
    using handler_cases [OF assms(1,2)] by (auto simp: answer_of_def map_reason_def)
qed

section \<open>Witnesses\<close>

definition sample_check_input :: check_input where
  "sample_check_input = \<lparr> ci_projectSlug = ''demo'', ci_sessionId = ''s'', ci_agentType = ''codex'',
     ci_eventType = Pre, ci_toolName = ''Bash'', ci_toolInput = JObj [], ci_runId = None,
     ci_activeCapabilities = None, ci_toolUseId = Some ''t1'' \<rparr>"

definition sample_check_env :: "exec_error option \<Rightarrow> check_env" where
  "sample_check_env fault = \<lparr> ch_projects = [(''demo'', ''proj'')], ch_agentType = ''unknown'',
     ch_killSwitches = \<lparr> ke_table = Some [sample_switch], ke_now = 9 \<rparr>, ch_eval = sample_env True fault,
     ch_sync = \<lparr> se_auditId = ''a'', se_syncId = ''b'', se_auditNow = 9, se_syncNow = 9, se_mode = None,
                 se_syncFault = None \<rparr>, ch_enqueueFails = False \<rparr>"

definition sample_check_deps :: "int option \<Rightarrow> check_deps" where
  "sample_check_deps ks = \<lparr> cd_policy = sample_cfg, cd_killSwitches = ks, cd_stringify = (\<lambda>_. Some ''{}''),
     cd_dots = ''.'' \<rparr>"

definition sample_check_state :: "policy_cache \<Rightarrow> check_state" where
  "sample_check_state c = \<lparr> cs_policyCache = c, cs_killSwitchCache = (\<lambda>_. None), cs_jobs = [] \<rparr>"

lemmas check_sample_defs = sample_check_input_def sample_check_env_def sample_check_deps_def
  sample_check_state_def

lemma hard_pause_denies_witness:
  "\<exists>a st'. checkPolicyHandler (sample_check_deps (Some 5000)) (sample_check_env None) sample_check_input
       (sample_check_state (\<lambda>_. None)) = (Answer a, st') \<and> an_permissionDecision a = Deny"
proof -
  have "\<exists>a st'. checkPolicyHandler (sample_check_deps (Some 5000)) (sample_check_env None) sample_check_input
       (sample_check_state (\<lambda>_. None)) = (Answer a, st') \<and> an_permissionDecision a = Deny \<and>
       an_reason a = KillSwitchPaused \<and> \<not> an_failOpen a \<and>
       cs_policyCache st' = cs_policyCache (sample_check_state (\<lambda>_. None))"
    by (rule hard_pause_denies [where p = "''proj''" and ms = 5000 and t = "[sample_switch]" and s = sample_switch])
      (simp_all add: check_sample_defs resolveProjectId_def first_row_def sample_switch_def ks_active_def
        ks_hits_def tool_event_def effectiveAgentType_def)
  then show ?thesis by blast
qed

text \<open>A denial that carries the fail-open flag.\<close>

end
