(* ===== verification/Context_Pack.thy ===== *)
theory Context_Pack
  imports Outbox "HOL-Library.Word"
begin

text \<open>
  The context-pack store, \<open>apps/mcp-server/src/lib/context-pack.ts\<close>: excerpts, \<open>write\<close> with its three
  outcomes, and the diversified selection that a new session is started with.  File names are those of
  \<open>packages/shared/src/context-pack-paths.ts\<close>.

  Content and excerpts are lists of UTF-16 code units (\<open>16 word\<close>), since the excerpt counts code points.
  Times are the whole seconds of \<open>created_at\<close>; \<open>iso_day\<close> renders one as \<open>YYYY-MM-DD\<close>.  The database
  statements of one call succeed, except that an insert under a taken id throws; whether the sync
  enqueue and the file write throw is the environment's.
\<close>

section \<open>Excerpts\<close>

type_synonym ustring = "16 word list"

definition high_surrogate :: "16 word \<Rightarrow> bool" where
  "high_surrogate c \<longleftrightarrow> 0xD800 \<le> c \<and> c \<le> 0xDBFF"

definition low_surrogate :: "16 word \<Rightarrow> bool" where
  "low_surrogate c \<longleftrightarrow> 0xDC00 \<le> c \<and> c \<le> 0xDFFF"

text \<open>\<open>Array.from\<close>: a high surrogate takes the low one after it along.\<close>

fun code_points :: "ustring \<Rightarrow> ustring list" where
  "code_points [] = []"
| "code_points [c] = [[c]]"
| "code_points (c # d # s) =
     (if high_surrogate c \<and> low_surrogate d then [c, d] # code_points s else [c] # code_points (d # s))"

text \<open>The class \<open>\<setminus>s\<close>.\<close>

definition unicode_space :: "16 word \<Rightarrow> bool" where
  "unicode_space c \<longleftrightarrow>
     c \<in> {9, 10, 11, 12, 13, 32, 0xA0, 0x1680, 0x2028, 0x2029, 0x202F, 0x205F, 0x3000, 0xFEFF} \<or>
     (0x2000 \<le> c \<and> c \<le> 0x200A)"

definition trim_end_unicode :: "ustring \<Rightarrow> ustring" where
  "trim_end_unicode s = rev (dropWhile unicode_space (rev s))"

definition EXCERPT_MAX_CODE_POINTS :: nat where
  "EXCERPT_MAX_CODE_POINTS = 500"

definition computeContentExcerpt :: "ustring \<Rightarrow> nat \<Rightarrow> ustring" where
  "computeContentExcerpt content mx =
     (let chars = code_points content;
          sliced = (if length chars \<le> mx then chars else take mx chars)
      in trim_end_unicode (concat sliced))"

section \<open>The tables\<close>

datatype pack_source = Agent | BridgeAuto

record pack_row =
  pk_id :: string
  pk_orgId :: "string option"
  pk_runId :: string
  pk_projectId :: string
  pk_title :: string
  pk_content :: ustring
  pk_contentExcerpt :: ustring
  pk_source :: pack_source
  pk_meta :: "string option"
  pk_createdByUserId :: "string option"
  pk_workPackId :: "string option"
  pk_kind :: "string option"
  pk_importance :: "string option"
  pk_archivedInPackId :: "string option"
  pk_createdAt :: int

record work_pack_row =
  wp_id :: string
  wp_slug :: string
  wp_status :: string
  wp_lastActivityAt :: "int option"
  wp_latestContextPackId :: "string option"

record pack_store =
  st_packs :: "pack_row list"
  st_workPacks :: "work_pack_row list"
  st_jobs :: "job list"
  st_files :: "string \<Rightarrow> ustring option"

definition selectAllByRunId :: "pack_row list \<Rightarrow> string \<Rightarrow> pack_row list" where
  "selectAllByRunId t runId = order_by_desc pk_createdAt (filter (\<lambda>r. pk_runId r = runId) t)"

definition selectByRunId :: "pack_row list \<Rightarrow> string \<Rightarrow> pack_row option" where
  "selectByRunId t runId = first_row (selectAllByRunId t runId)"

definition touchWorkPackActivity :: "string \<Rightarrow> string \<Rightarrow> int \<Rightarrow> pack_store \<Rightarrow> pack_store" where
  "touchWorkPackActivity workPackId packId now st =
     st\<lparr>st_workPacks := map (\<lambda>w. if wp_id w = workPackId
          then w\<lparr>wp_lastActivityAt := Some now, wp_latestContextPackId := Some packId\<rparr> else w) (st_workPacks st)\<rparr>"

definition touch_if :: "string option \<Rightarrow> string \<Rightarrow> int \<Rightarrow> pack_store \<Rightarrow> pack_store" where
  "touch_if workPackId packId now st =
     (case workPackId of None \<Rightarrow> st | Some w \<Rightarrow> touchWorkPackActivity w packId now st)"

definition update_pack :: "string \<Rightarrow> (pack_row \<Rightarrow> pack_row) \<Rightarrow> pack_row list \<Rightarrow> pack_row list" where
  "update_pack i f t = map (\<lambda>r. if pk_id r = i then f r else r) t"

definition linkExistingContextPackToWorkPack :: "string \<Rightarrow> string \<Rightarrow> pack_store \<Rightarrow> pack_store" where
  "linkExistingContextPackToWorkPack i w st =
     st\<lparr>st_packs := update_pack i (\<lambda>r. r\<lparr>pk_workPackId := Some w\<rparr>) (st_packs st)\<rparr>"

section \<open>Writing\<close>

record pack_input =
  in_runId :: string
  in_projectId :: string
  in_title :: string
  in_content :: ustring

text \<open>\<open>op_meta\<close> is the JSON text of the metadata.\<close>

record write_options =
  op_source :: pack_source
  op_meta :: "string option"
  op_createdByUserId :: "string option"
  op_orgId :: "string option"
  op_workPackId :: "string option"
  op_kind :: "string option"
  op_importance :: "string option"

datatype write_status = Created | IdempotentHit | UpgradedFromBridgeAuto

record write_result =
  wr_id :: string
  wr_runId :: string
  wr_createdAt :: int
  wr_contentExcerpt :: ustring
  wr_filePath :: "string option"
  wr_source :: pack_source
  wr_status :: write_status

datatype write_error = InvalidPack | DuplicateId

record write_env =
  we_id :: string
  we_now :: int
  we_team :: bool
  we_jobId :: string
  we_enqueueFails :: bool
  we_fsFails :: bool

definition upgradeBridgeAutoToAgent ::
  "string \<Rightarrow> pack_input \<Rightarrow> ustring \<Rightarrow> write_options \<Rightarrow> string option \<Rightarrow> pack_store \<Rightarrow> pack_store"
where
  "upgradeBridgeAutoToAgent i inp excerpt opts workPackId st =
     st\<lparr>st_packs := update_pack i (\<lambda>r. r\<lparr>pk_title := in_title inp, pk_content := in_content inp,
          pk_contentExcerpt := excerpt, pk_source := Agent, pk_meta := op_meta opts,
          pk_workPackId := workPackId, pk_kind := op_kind opts, pk_importance := op_importance opts\<rparr>)
        (st_packs st)\<rparr>"

text \<open>\<open>/[<>:"/\<setminus>|?* -]/g\<close> replaced by a hyphen; the class has one backslash.\<close>

definition reserved_char :: "char \<Rightarrow> bool" where
  "reserved_char c \<longleftrightarrow> (of_char c :: nat) \<in> {60, 62, 58, 34, 47, 92, 124, 63, 42, 32, 45}"

definition sanitize :: "string \<Rightarrow> string" where
  "sanitize s = map (\<lambda>c. if reserved_char c then CHR ''-'' else c) s"

definition contextPackFilename :: "(int \<Rightarrow> string) \<Rightarrow> string \<Rightarrow> int \<Rightarrow> string option \<Rightarrow> string" where
  "contextPackFilename iso_day runId createdAt discriminator =
     iso_day createdAt @ ''-'' @ take 16 (sanitize runId) @
     (case discriminator of
        None \<Rightarrow> []
      | Some d \<Rightarrow> if d = [] then [] else ''-'' @ take 8 (sanitize d)) @ ''.md''"

text \<open>The file is written under its name; a failure leaves the files alone.\<close>

definition materialise :: "write_env \<Rightarrow> string \<Rightarrow> ustring \<Rightarrow> pack_store \<Rightarrow> string option \<times> pack_store" where
  "materialise env name content st =
     (if we_fsFails env then (None, st) else (Some name, st\<lparr>st_files := (st_files st)(name \<mapsto> content)\<rparr>))"

definition enqueue_pack_sync :: "(js \<Rightarrow> string) \<Rightarrow> write_env \<Rightarrow> string \<Rightarrow> pack_store \<Rightarrow> pack_store" where
  "enqueue_pack_sync stringify env i st =
     (if \<not> we_team env \<or> we_enqueueFails env then st
      else
        (case scheduleDurableWrite stringify (we_jobId env) (we_now env)
                \<lparr> da_queue = ''sync_to_cloud'',
                  da_payload = JObj [(''v'', JNum 1), (''table'', JStr ''context_packs''),
                                     (''lookup'', sync_lookup_json (ById i))],
                  da_id = None, da_runAfter = None \<rparr> (st_jobs st) of
           Inl _ \<Rightarrow> st
         | Inr (_, jobs) \<Rightarrow> st\<lparr>st_jobs := jobs\<rparr>))"

definition pack_row_of :: "write_env \<Rightarrow> pack_input \<Rightarrow> ustring \<Rightarrow> write_options \<Rightarrow> pack_row" where
  "pack_row_of env inp excerpt opts =
     \<lparr> pk_id = we_id env, pk_orgId = op_orgId opts, pk_runId = in_runId inp,
       pk_projectId = in_projectId inp, pk_title = in_title inp, pk_content = in_content inp,
       pk_contentExcerpt = excerpt, pk_source = op_source opts, pk_meta = op_meta opts,
       pk_createdByUserId = op_createdByUserId opts, pk_workPackId = op_workPackId opts,
       pk_kind = op_kind opts, pk_importance = op_importance opts, pk_archivedInPackId = None,
       pk_createdAt = seconds (we_now env) \<rparr>"

text \<open>An exact match of title and content: nothing is stored but a missing Work Pack link.\<close>

definition idempotent_hit :: "write_env \<Rightarrow> pack_row \<Rightarrow> write_options \<Rightarrow> pack_store \<Rightarrow> write_result \<times> pack_store" where
  "idempotent_hit env m opts st =
     (let st1 = (case (pk_workPackId m, op_workPackId opts) of
                   (None, Some w) \<Rightarrow> linkExistingContextPackToWorkPack (pk_id m) w st
                 | _ \<Rightarrow> st);
          st2 = touch_if (nullish_opt (pk_workPackId m) (op_workPackId opts)) (pk_id m) (seconds (we_now env)) st1
      in (\<lparr> wr_id = pk_id m, wr_runId = pk_runId m, wr_createdAt = pk_createdAt m,
            wr_contentExcerpt = pk_contentExcerpt m, wr_filePath = None, wr_source = pk_source m,
            wr_status = IdempotentHit \<rparr>, st2))"

definition upgrade ::
  "(int \<Rightarrow> string) \<Rightarrow> write_env \<Rightarrow> pack_row \<Rightarrow> pack_input \<Rightarrow> write_options \<Rightarrow> pack_store \<Rightarrow>
   write_result \<times> pack_store"
where
  "upgrade iso_day env m inp opts st =
     (let excerpt = computeContentExcerpt (in_content inp) EXCERPT_MAX_CODE_POINTS;
          workPackId = nullish_opt (op_workPackId opts) (pk_workPackId m);
          st1 = upgradeBridgeAutoToAgent (pk_id m) inp excerpt opts workPackId st;
          st2 = touch_if workPackId (pk_id m) (seconds (we_now env)) st1;
          (filePath, st3) = materialise env (contextPackFilename iso_day (in_runId inp) (pk_createdAt m) None)
                              (in_content inp) st2
      in (\<lparr> wr_id = pk_id m, wr_runId = pk_runId m, wr_createdAt = pk_createdAt m,
            wr_contentExcerpt = excerpt, wr_filePath = filePath, wr_source = Agent,
            wr_status = UpgradedFromBridgeAuto \<rparr>, st3))"

definition create_pack ::
  "(int \<Rightarrow> string) \<Rightarrow> (js \<Rightarrow> string) \<Rightarrow> write_env \<Rightarrow> pack_input \<Rightarrow> write_options \<Rightarrow> pack_store \<Rightarrow>
   (write_error + write_result) \<times> pack_store"
where
  "create_pack iso_day stringify env inp opts st =
     (let excerpt = computeContentExcerpt (in_content inp) EXCERPT_MAX_CODE_POINTS;
          row = pack_row_of env inp excerpt opts in
      if pk_id row \<in> pk_id ` set (st_packs st) then (Inl DuplicateId, st)
      else
        (let st1 = st\<lparr>st_packs := st_packs st @ [row]\<rparr>;
             st2 = touch_if (op_workPackId opts) (pk_id row) (seconds (we_now env)) st1;
             st3 = enqueue_pack_sync stringify env (pk_id row) st2;
             (filePath, st4) = materialise env
               (contextPackFilename iso_day (in_runId inp) (pk_createdAt row) (Some (pk_id row)))
               (in_content inp) st3
         in (Inr \<lparr> wr_id = pk_id row, wr_runId = in_runId inp, wr_createdAt = pk_createdAt row,
                   wr_contentExcerpt = excerpt, wr_filePath = filePath, wr_source = op_source opts,
                   wr_status = Created \<rparr>, st4)))"

definition write_pack ::
  "(int \<Rightarrow> string) \<Rightarrow> (js \<Rightarrow> string) \<Rightarrow> write_env \<Rightarrow> pack_input \<Rightarrow> write_options \<Rightarrow> pack_store \<Rightarrow>
   (write_error + write_result) \<times> pack_store"
where
  "write_pack iso_day stringify env inp opts st =
     (if in_runId inp = [] \<or> in_projectId inp = [] \<or> in_title inp = [] then (Inl InvalidPack, st)
      else
        (let existing = selectAllByRunId (st_packs st) (in_runId inp) in
         case List.find (\<lambda>r. pk_title r = in_title inp \<and> pk_content r = in_content inp) existing of
           Some m \<Rightarrow> (let (r, st') = idempotent_hit env m opts st in (Inr r, st'))
         | None \<Rightarrow>
             (case first_row existing of
                Some m \<Rightarrow>
                  if pk_source m = BridgeAuto \<and> op_source opts = Agent
                  then (let (r, st') = upgrade iso_day env m inp opts st in (Inr r, st'))
                  else create_pack iso_day stringify env inp opts st
              | None \<Rightarrow> create_pack iso_day stringify env inp opts st)))"

definition read_pack :: "pack_store \<Rightarrow> string \<Rightarrow> write_error + pack_row option" where
  "read_pack st runId = (if runId = [] then Inl InvalidPack else Inr (selectByRunId (st_packs st) runId))"

definition list_packs ::
  "(string \<times> string) list \<Rightarrow> pack_store \<Rightarrow> string option \<Rightarrow> string option \<Rightarrow> int option \<Rightarrow> pack_row list"
where
  "list_packs projects st runId projectSlug limit =
     (let n = (case limit of Some l \<Rightarrow> if 0 < l then min l 200 else 50 | None \<Rightarrow> 50);
          by_run = (\<lambda>r. case runId of None \<Rightarrow> True | Some i \<Rightarrow> i = [] \<or> pk_runId r = i);
          rows = (\<lambda>P. take (nat n) (order_by_desc pk_createdAt (filter P (st_packs st))))
      in case projectSlug of
           None \<Rightarrow> rows by_run
         | Some slug \<Rightarrow>
             if slug = [] then rows by_run
             else (case first_row (filter (\<lambda>p. snd p = slug) projects) of
                     None \<Rightarrow> []
                   | Some p \<Rightarrow> if fst p = [] then [] else rows (\<lambda>r. by_run r \<and> pk_projectId r = fst p)))"

section \<open>What a write keeps\<close>

lemma touch_packs [simp]: "st_packs (touch_if w i now st) = st_packs st" "st_jobs (touch_if w i now st) = st_jobs st"
  by (simp_all add: touch_if_def touchWorkPackActivity_def split: option.splits)

lemma materialise_packs [simp]:
  "st_packs (snd (materialise env n c st)) = st_packs st" "st_jobs (snd (materialise env n c st)) = st_jobs st"
  by (simp_all add: materialise_def)

lemma enqueue_packs [simp]: "st_packs (enqueue_pack_sync sf env i st) = st_packs st"
  by (simp add: enqueue_pack_sync_def split: sum.splits prod.splits)

lemma hit_packs:
  "st_packs (snd (idempotent_hit env m opts st)) =
     (case (pk_workPackId m, op_workPackId opts) of
        (None, Some w) \<Rightarrow> update_pack (pk_id m) (\<lambda>r. r\<lparr>pk_workPackId := Some w\<rparr>) (st_packs st)
      | _ \<Rightarrow> st_packs st)"
  by (simp add: idempotent_hit_def Let_def linkExistingContextPackToWorkPack_def split: option.splits)

lemma upgrade_packs:
  "st_packs (snd (upgrade iso_day env m inp opts st)) =
     update_pack (pk_id m) (\<lambda>r. r\<lparr>pk_title := in_title inp, pk_content := in_content inp,
       pk_contentExcerpt := computeContentExcerpt (in_content inp) EXCERPT_MAX_CODE_POINTS,
       pk_source := Agent, pk_meta := op_meta opts,
       pk_workPackId := nullish_opt (op_workPackId opts) (pk_workPackId m), pk_kind := op_kind opts,
       pk_importance := op_importance opts\<rparr>) (st_packs st)"
  by (simp add: upgrade_def Let_def case_prod_beta upgradeBridgeAutoToAgent_def)

lemma create_packs:
  "st_packs (snd (create_pack iso_day sf env inp opts st)) =
     (if we_id env \<in> pk_id ` set (st_packs st) then st_packs st
      else st_packs st @ [pack_row_of env inp (computeContentExcerpt (in_content inp) EXCERPT_MAX_CODE_POINTS) opts])"
  by (simp add: create_pack_def Let_def case_prod_beta pack_row_of_def)

lemma pack_row_simps [simp]:
  "pk_id (pack_row_of env inp x opts) = we_id env" "pk_runId (pack_row_of env inp x opts) = in_runId inp"
  "pk_title (pack_row_of env inp x opts) = in_title inp"
  "pk_content (pack_row_of env inp x opts) = in_content inp"
  by (simp_all add: pack_row_of_def)

text \<open>The rows a run shows, and the three ways a write goes.\<close>

lemma selected_rows [simp]: "set (selectAllByRunId t i) = {r \<in> set t. pk_runId r = i}"
  by (auto simp: selectAllByRunId_def)

lemma write_cases:
  assumes w: "write_pack iso_day sf env inp opts st = (res, st')"
  obtains (refused) "st' = st" "\<exists>e. res = Inl e"
  | (hit) m where "m \<in> set (st_packs st)" "pk_runId m = in_runId inp" "pk_title m = in_title inp"
      "pk_content m = in_content inp"
      "List.find (\<lambda>r. pk_title r = in_title inp \<and> pk_content r = in_content inp)
         (selectAllByRunId (st_packs st) (in_runId inp)) = Some m"
      "res = Inr (fst (idempotent_hit env m opts st))" "st' = snd (idempotent_hit env m opts st)"
  | (upgraded) m where "m \<in> set (st_packs st)" "pk_runId m = in_runId inp" "pk_source m = BridgeAuto"
      "\<forall>r \<in> set (st_packs st). pk_runId r = in_runId inp \<longrightarrow>
         \<not> (pk_title r = in_title inp \<and> pk_content r = in_content inp)"
      "res = Inr (fst (upgrade iso_day env m inp opts st))" "st' = snd (upgrade iso_day env m inp opts st)"
  | (created) "we_id env \<notin> pk_id ` set (st_packs st)"
      "\<forall>r \<in> set (st_packs st). pk_runId r = in_runId inp \<longrightarrow>
         \<not> (pk_title r = in_title inp \<and> pk_content r = in_content inp)"
      "(res, st') = create_pack iso_day sf env inp opts st"
proof (cases "in_runId inp = [] \<or> in_projectId inp = [] \<or> in_title inp = []")
  case True
  with w refused show thesis by (auto simp: write_pack_def)
next
  case valid: False
  let ?rows = "selectAllByRunId (st_packs st) (in_runId inp)"
  let ?P = "\<lambda>r. pk_title r = in_title inp \<and> pk_content r = in_content inp"
  show thesis
  proof (cases "List.find ?P ?rows")
    case (Some m)
    with find_Some_D [OF Some] w valid hit show thesis by (auto simp: write_pack_def Let_def case_prod_beta)
  next
    case None
    then have no: "\<forall>r \<in> set (st_packs st). pk_runId r = in_runId inp \<longrightarrow> \<not> ?P r"
      by (auto simp: find_None_iff)
    show thesis
    proof (cases "\<exists>m. first_row ?rows = Some m \<and> pk_source m = BridgeAuto \<and> op_source opts = Agent")
      case True
      then obtain m where m: "first_row ?rows = Some m" "pk_source m = BridgeAuto" "op_source opts = Agent" by blast
      then have "m \<in> set ?rows" by (auto simp: first_row_Some simp del: selected_rows)
      then have "m \<in> set (st_packs st)" "pk_runId m = in_runId inp" by simp_all
      with m None w valid no upgraded [of m] show thesis by (auto simp: write_pack_def Let_def case_prod_beta)
    next
      case False
      with None w valid have c: "create_pack iso_day sf env inp opts st = (res, st')"
        by (auto simp: write_pack_def Let_def case_prod_beta split: option.splits if_splits)
      show thesis
      proof (cases "we_id env \<in> pk_id ` set (st_packs st)")
        case True
        with c refused show thesis by (auto simp: create_pack_def Let_def)
      next
        case False
        with c no created show thesis by simp
      qed
    qed
  qed
qed

text \<open>Same row up to the Work Pack link and the metadata beside it.\<close>

definition same_text :: "pack_row \<Rightarrow> pack_row \<Rightarrow> bool" where
  "same_text r r' \<longleftrightarrow>
     pk_id r' = pk_id r \<and> pk_runId r' = pk_runId r \<and> pk_title r' = pk_title r \<and>
     pk_content r' = pk_content r \<and> pk_contentExcerpt r' = pk_contentExcerpt r \<and>
     pk_source r' = pk_source r \<and> pk_createdAt r' = pk_createdAt r"

lemma same_text_link [simp]: "same_text r (r\<lparr>pk_workPackId := w\<rparr>)"
  by (simp add: same_text_def)

lemma same_text_refl [simp]: "same_text r r"
  by (simp add: same_text_def)

lemma same_text_trans: "same_text r s \<Longrightarrow> same_text s u \<Longrightarrow> same_text r u"
  by (simp add: same_text_def)

lemma update_pack_ids [simp]:
  "(\<And>r. pk_id (f r) = pk_id r) \<Longrightarrow> map pk_id (update_pack i f t) = map pk_id t"
  by (simp add: update_pack_def)

lemma update_pack_keeps:
  assumes "r \<in> set t" and "pk_id r = i \<Longrightarrow> same_text r (f r)"
  shows "\<exists>r' \<in> set (update_pack i f t). same_text r r'"
proof -
  have "(if pk_id r = i then f r else r) \<in> set (update_pack i f t)"
    using assms(1) unfolding update_pack_def set_map by (rule imageI)
  moreover have "same_text r (if pk_id r = i then f r else r)"
    using assms(2) by (simp add: same_text_def)
  ultimately show ?thesis by blast
qed

lemma write_step:
  assumes ids: "distinct (map pk_id (st_packs st))" and w: "write_pack iso_day sf env inp opts st = (res, st')"
  shows "distinct (map pk_id (st_packs st')) \<and>
    (\<forall>r \<in> set (st_packs st). pk_source r = Agent \<longrightarrow> (\<exists>r' \<in> set (st_packs st'). same_text r r'))"
  using w
proof (cases rule: write_cases)
  case refused
  with ids show ?thesis by (auto simp: same_text_def)
next
  case (hit m)
  show ?thesis
  proof (cases "pk_workPackId m = None \<and> op_workPackId opts \<noteq> None")
    case True
    then obtain w where p: "st_packs st' = update_pack (pk_id m) (\<lambda>r. r\<lparr>pk_workPackId := Some w\<rparr>) (st_packs st)"
      using hit by (auto simp: hit_packs)
    show ?thesis
      unfolding p using ids by (auto intro!: update_pack_keeps)
  next
    case False
    then have "st_packs st' = st_packs st" using hit by (auto simp: hit_packs split: option.splits)
    with ids show ?thesis by (auto simp: same_text_def)
  qed
next
  case (upgraded m)
  let ?f = "\<lambda>r. r\<lparr>pk_title := in_title inp, pk_content := in_content inp,
       pk_contentExcerpt := computeContentExcerpt (in_content inp) EXCERPT_MAX_CODE_POINTS,
       pk_source := Agent, pk_meta := op_meta opts,
       pk_workPackId := nullish_opt (op_workPackId opts) (pk_workPackId m), pk_kind := op_kind opts,
       pk_importance := op_importance opts\<rparr>"
  have p: "st_packs st' = update_pack (pk_id m) ?f (st_packs st)"
    using upgraded by (simp add: upgrade_packs)
  have other: "pk_id r \<noteq> pk_id m" if "r \<in> set (st_packs st)" "pk_source r = Agent" for r
    using that upgraded(1,3) ids by (auto simp: distinct_map inj_on_def)
  show ?thesis
    unfolding p using ids other by (auto intro!: update_pack_keeps)
next
  case created
  then have "st_packs st' = st_packs st @
      [pack_row_of env inp (computeContentExcerpt (in_content inp) EXCERPT_MAX_CODE_POINTS) opts]"
    using create_packs [of iso_day sf env inp opts st] by (metis snd_conv)
  with ids created(1) show ?thesis by (auto simp: same_text_def)
qed

text \<open>A sequence of writes, whatever their inputs, their outcomes and the environment of each.\<close>

inductive writes :: "(int \<Rightarrow> string) \<Rightarrow> (js \<Rightarrow> string) \<Rightarrow> pack_store \<Rightarrow> pack_store \<Rightarrow> bool"
  for iso_day sf where
  no_write: "writes iso_day sf st st"
| one_more: "writes iso_day sf st st1 \<Longrightarrow> write_pack iso_day sf env inp opts st1 = (res, st2) \<Longrightarrow>
     writes iso_day sf st st2"

lemma writes_keep_agent:
  assumes "writes iso_day sf st st'" and "distinct (map pk_id (st_packs st))"
  shows "distinct (map pk_id (st_packs st')) \<and>
    (\<forall>r \<in> set (st_packs st). pk_source r = Agent \<longrightarrow> (\<exists>r' \<in> set (st_packs st'). same_text r r'))"
  using assms
proof (induction rule: writes.induct)
  case (no_write st)
  then show ?case by (blast intro: same_text_refl)
next
  case (one_more st st1 env inp opts res st2)
  from one_more.IH [OF one_more.prems] write_step [OF _ one_more.hyps(2)]
  have step: "distinct (map pk_id (st_packs st2))"
    "\<forall>r \<in> set (st_packs st1). pk_source r = Agent \<longrightarrow> (\<exists>r' \<in> set (st_packs st2). same_text r r')"
    by blast+
  show ?case
  proof (intro conjI ballI impI)
    fix r assume "r \<in> set (st_packs st)" "pk_source r = Agent"
    with one_more.IH [OF one_more.prems] obtain r1 where r1: "r1 \<in> set (st_packs st1)" "same_text r r1" by blast
    with \<open>pk_source r = Agent\<close> have "pk_source r1 = Agent" by (simp add: same_text_def)
    with r1 step(2) obtain r2 where "r2 \<in> set (st_packs st2)" "same_text r1 r2" by blast
    with r1(2) show "\<exists>r' \<in> set (st_packs st2). same_text r r'" by (blast intro: same_text_trans)
  qed (rule step(1))
qed

text \<open>C13: A context pack an agent wrote is never lost and never rewritten: whatever writes follow, under
  whatever faults, it is still there with its title, content, excerpt, run and time, and it is the only
  row of its id.  Only the bridge's own automatic rows are ever replaced.\<close>

theorem agent_packs_immutable:
  assumes "writes iso_day sf st st'" and "distinct (map pk_id (st_packs st))"
    and "r \<in> set (st_packs st)" and "pk_source r = Agent"
  shows "\<exists>r'. filter (\<lambda>s. pk_id s = pk_id r) (st_packs st') = [r'] \<and> same_text r r'"
proof -
  from writes_keep_agent [OF assms(1,2)] assms(3,4) obtain r' where
    d: "distinct (map pk_id (st_packs st'))" and r': "r' \<in> set (st_packs st')" "same_text r r'" by blast
  then have "pk_id r' = pk_id r" by (simp add: same_text_def)
  with filter_distinct_key [OF d r'(1)] r'(2) show ?thesis by auto
qed

definition sample_pack_env :: "string \<Rightarrow> int \<Rightarrow> write_env" where
  "sample_pack_env i now = \<lparr> we_id = i, we_now = now, we_team = True, we_jobId = ''j'' @ i,
     we_enqueueFails = False, we_fsFails = False \<rparr>"

definition sample_options :: "pack_source \<Rightarrow> string option \<Rightarrow> write_options" where
  "sample_options src w = \<lparr> op_source = src, op_meta = None, op_createdByUserId = None, op_orgId = None,
     op_workPackId = w, op_kind = None, op_importance = None \<rparr>"

definition sample_input :: "ustring \<Rightarrow> pack_input" where
  "sample_input c = \<lparr> in_runId = ''run'', in_projectId = ''p'', in_title = ''t'', in_content = c \<rparr>"

definition sample_pack :: "string \<Rightarrow> pack_source \<Rightarrow> ustring \<Rightarrow> pack_row" where
  "sample_pack i src c = pack_row_of (sample_pack_env i 5000) (sample_input c) c (sample_options src None)"

definition sample_store :: "pack_row list \<Rightarrow> pack_store" where
  "sample_store ps = \<lparr> st_packs = ps, st_workPacks = [], st_jobs = [], st_files = (\<lambda>_. None) \<rparr>"

lemma agent_packs_immutable_witness:
  "\<exists>r'. filter (\<lambda>s. pk_id s = ''a'')
      (st_packs (snd (write_pack (\<lambda>_. []) (\<lambda>_. []) (sample_pack_env ''b'' 9000)
         (sample_input [66]) (sample_options Agent None) (sample_store [sample_pack ''a'' Agent [65]])))) = [r'] \<and>
     pk_content r' = [65]"
proof -
  let ?st = "sample_store [sample_pack ''a'' Agent [65]]"
  let ?w = "write_pack (\<lambda>_. []) (\<lambda>_. []) (sample_pack_env ''b'' 9000) (sample_input [66]) (sample_options Agent None) ?st"
  have "writes (\<lambda>_. []) (\<lambda>_. []) ?st (snd ?w)"
    by (rule one_more [OF no_write]) (rule prod.collapse [symmetric])
  from agent_packs_immutable [OF this, of "sample_pack ''a'' Agent [65]"]
  show ?thesis
    by (auto simp: sample_store_def sample_pack_def sample_pack_env_def pack_row_of_def sample_options_def
        sample_input_def same_text_def)
qed

section \<open>Retries\<close>

text \<open>The row a write's title and content are found under.\<close>

definition saved_row :: "pack_input \<Rightarrow> pack_store \<Rightarrow> pack_row option" where
  "saved_row inp st = List.find (\<lambda>r. pk_title r = in_title inp \<and> pk_content r = in_content inp)
     (selectAllByRunId (st_packs st) (in_runId inp))"

lemma selected_update:
  assumes "\<And>r. pk_runId (f r) = pk_runId r" and "\<And>r. pk_createdAt (f r) = pk_createdAt r"
  shows "selectAllByRunId (update_pack i f t) runId = update_pack i f (selectAllByRunId t runId)"
proof -
  let ?g = "\<lambda>r. if pk_id r = i then f r else r"
  have "filter (\<lambda>r. pk_runId r = runId) (map ?g t) = map ?g (filter (\<lambda>r. pk_runId r = runId) t)"
    using assms(1) by (simp add: filter_map o_def if_distrib [of pk_runId])
  then show ?thesis
    by (simp add: selectAllByRunId_def update_pack_def order_by_desc_map assms(2))
qed

lemma saved_after_link:
  assumes "saved_row inp st = Some m"
    and "st_packs st' = update_pack i (\<lambda>r. r\<lparr>pk_workPackId := w\<rparr>) (st_packs st)"
  shows "\<exists>m'. saved_row inp st' = Some m' \<and> same_text m m'"
proof -
  let ?g = "\<lambda>r. if pk_id r = i then r\<lparr>pk_workPackId := w\<rparr> else r"
  have "selectAllByRunId (st_packs st') (in_runId inp) = map ?g (selectAllByRunId (st_packs st) (in_runId inp))"
    by (simp add: assms(2) selected_update) (simp add: update_pack_def)
  then have "saved_row inp st' = map_option ?g (saved_row inp st)"
    by (simp add: saved_row_def find_map_same)
  with assms(1) show ?thesis by simp
qed

lemma saved_after_hit:
  assumes "saved_row inp st = Some m"
  shows "\<exists>m'. saved_row inp (snd (idempotent_hit env k opts st)) = Some m' \<and> same_text m m'"
proof (cases "pk_workPackId k = None \<and> op_workPackId opts \<noteq> None")
  case True
  then obtain w where "st_packs (snd (idempotent_hit env k opts st)) =
      update_pack (pk_id k) (\<lambda>r. r\<lparr>pk_workPackId := Some w\<rparr>) (st_packs st)"
    by (auto simp: hit_packs)
  from saved_after_link [OF assms this] show ?thesis .
next
  case False
  then have "st_packs (snd (idempotent_hit env k opts st)) = st_packs st"
    by (auto simp: hit_packs split: option.splits)
  with assms show ?thesis by (simp add: saved_row_def)
qed

lemma saved_when_only:
  assumes "m \<in> set (st_packs st)" and "pk_runId m = in_runId inp"
    and "pk_title m = in_title inp" and "pk_content m = in_content inp"
    and "\<And>r. r \<in> set (st_packs st) \<Longrightarrow> pk_runId r = in_runId inp \<Longrightarrow> pk_title r = in_title inp \<Longrightarrow>
           pk_content r = in_content inp \<Longrightarrow> r = m"
  shows "saved_row inp st = Some m"
  unfolding saved_row_def
proof (rule find_unique)
  fix y assume "y \<in> set (selectAllByRunId (st_packs st) (in_runId inp))"
    "pk_title y = in_title inp \<and> pk_content y = in_content inp"
  then show "y = m" by (intro assms(5)) simp_all
qed (simp_all add: assms(1-4))

lemma hit_result [simp]:
  "wr_id (fst (idempotent_hit env m opts st)) = pk_id m"
  "wr_contentExcerpt (fst (idempotent_hit env m opts st)) = pk_contentExcerpt m"
  "wr_status (fst (idempotent_hit env m opts st)) = IdempotentHit"
  by (simp_all add: idempotent_hit_def Let_def)

lemma hit_jobs [simp]:
  "st_jobs (snd (idempotent_hit env m opts st)) = st_jobs st"
  "st_files (snd (idempotent_hit env m opts st)) = st_files st"
  by (simp_all add: idempotent_hit_def Let_def linkExistingContextPackToWorkPack_def touch_if_def
      touchWorkPackActivity_def split: option.splits)

lemma write_saves:
  assumes ids: "distinct (map pk_id (st_packs st))"
    and w: "write_pack iso_day sf env inp opts st = (Inr r, st')"
  shows "\<exists>m. saved_row inp st' = Some m \<and> pk_id m = wr_id r \<and> pk_contentExcerpt m = wr_contentExcerpt r"
  using w
proof (cases rule: write_cases)
  case (hit m)
  then have "saved_row inp st = Some m" by (simp add: saved_row_def)
  from saved_after_hit [OF this, of env m opts] hit(6,7) show ?thesis by (auto simp: same_text_def)
next
  case (upgraded m)
  let ?x = "computeContentExcerpt (in_content inp) EXCERPT_MAX_CODE_POINTS"
  let ?f = "\<lambda>r. r\<lparr>pk_title := in_title inp, pk_content := in_content inp, pk_contentExcerpt := ?x,
       pk_source := Agent, pk_meta := op_meta opts,
       pk_workPackId := nullish_opt (op_workPackId opts) (pk_workPackId m), pk_kind := op_kind opts,
       pk_importance := op_importance opts\<rparr>"
  have p: "set (st_packs st') = (\<lambda>r. if pk_id r = pk_id m then ?f r else r) ` set (st_packs st)"
    unfolding upgraded(6) upgrade_packs update_pack_def by simp
  have same: "x = m" if "x \<in> set (st_packs st)" "pk_id x = pk_id m" for x
    using ids that upgraded(1) by (auto simp: distinct_map inj_on_def)
  have "saved_row inp st' = Some (?f m)"
  proof (rule saved_when_only)
    show "?f m \<in> set (st_packs st')" unfolding p using upgraded(1) by (auto intro!: image_eqI [of _ _ m])
    fix r assume r: "r \<in> set (st_packs st')" "pk_runId r = in_runId inp" "pk_title r = in_title inp"
      "pk_content r = in_content inp"
    then obtain x where x: "x \<in> set (st_packs st)" "r = (if pk_id x = pk_id m then ?f x else x)"
      unfolding p by blast
    show "r = ?f m"
    proof (cases "pk_id x = pk_id m")
      case True
      with same [OF x(1)] x(2) show ?thesis by simp
    next
      case False
      with x r(2-4) upgraded(4) show ?thesis by auto
    qed
  qed (simp_all add: upgraded(2))
  with upgraded(5) show ?thesis by (auto simp: upgrade_def Let_def case_prod_beta)
next
  case created
  let ?row = "pack_row_of env inp (computeContentExcerpt (in_content inp) EXCERPT_MAX_CODE_POINTS) opts"
  have p: "st_packs st' = st_packs st @ [?row]"
    using create_packs [of iso_day sf env inp opts st] created(1,3) by (metis snd_conv)
  have "saved_row inp st' = Some ?row"
    using created(2) by (intro saved_when_only) (auto simp: p)
  moreover have "pk_id ?row = wr_id r" "pk_contentExcerpt ?row = wr_contentExcerpt r"
    using created(1,3) by (auto simp: create_pack_def Let_def case_prod_beta pack_row_of_def)
  ultimately show ?thesis by blast
qed simp_all

lemma hit_texts: "list_all2 same_text (st_packs st) (st_packs (snd (idempotent_hit env m opts st)))"
proof -
  have "list_all2 same_text t t" for t by (simp add: list.rel_refl)
  moreover have "list_all2 same_text t (update_pack i (\<lambda>r. r\<lparr>pk_workPackId := w\<rparr>) t)" for t i w
    by (simp add: update_pack_def list_all2_conv_all_nth)
  ultimately show ?thesis by (simp add: hit_packs split: option.splits)
qed

lemma write_found:
  assumes "in_runId inp \<noteq> [] \<and> in_projectId inp \<noteq> [] \<and> in_title inp \<noteq> []" and "saved_row inp st = Some m"
  shows "write_pack iso_day sf env inp opts st =
     (Inr (fst (idempotent_hit env m opts st)), snd (idempotent_hit env m opts st))"
  using assms by (auto simp: write_pack_def saved_row_def Let_def case_prod_beta)

lemma write_valid:
  "write_pack iso_day sf env inp opts st = (Inr r, st') \<Longrightarrow>
   in_runId inp \<noteq> [] \<and> in_projectId inp \<noteq> [] \<and> in_title inp \<noteq> []"
  by (auto simp: write_pack_def split: if_splits)

text \<open>Saving is safe to retry.  After any successful save, saving the same title and content for the
  run again, whatever the options and the environment, reports an idempotent hit on the row the first
  save reported, with the same excerpt; no row, job or file appears and no row's text changes.\<close>

theorem retry_is_a_hit:
  assumes "distinct (map pk_id (st_packs st))" and "write_pack iso_day sf env inp opts st = (Inr r, st1)"
  shows "\<exists>r2 st2. write_pack iso_day sf env2 inp opts2 st1 = (Inr r2, st2) \<and>
     wr_status r2 = IdempotentHit \<and> wr_id r2 = wr_id r \<and> wr_contentExcerpt r2 = wr_contentExcerpt r \<and>
     list_all2 same_text (st_packs st1) (st_packs st2) \<and> st_jobs st2 = st_jobs st1 \<and> st_files st2 = st_files st1"
proof -
  from write_saves [OF assms] obtain m where m: "saved_row inp st1 = Some m" "pk_id m = wr_id r"
    "pk_contentExcerpt m = wr_contentExcerpt r" by blast
  show ?thesis
    using write_found [OF write_valid [OF assms(2)] m(1)] hit_texts [of st1 env2 m opts2] m(2,3) by simp
qed

section \<open>What reaches the cloud\<close>

text \<open>In team mode a new pack enqueues one pending sync job; a pack that is re-linked to a Work Pack, or
  whose automatic text an agent's save replaces, enqueues none.\<close>

theorem only_new_packs_sync:
  assumes w: "write_pack iso_day sf env inp opts st = (Inr r, st')"
    and env: "we_team env" "\<not> we_enqueueFails env" "we_jobId env \<notin> jb_id ` set (st_jobs st)"
  shows "(if wr_status r = Created
          then (\<exists>j. st_jobs st' = st_jobs st @ [j] \<and> jb_status j = Pending \<and> jb_queue j = ''sync_to_cloud'')
          else st_jobs st' = st_jobs st)"
  using w
proof (cases rule: write_cases)
  case (upgraded m)
  then have "st_jobs st' = st_jobs st" "wr_status r \<noteq> Created"
    by (auto simp: upgrade_def Let_def case_prod_beta upgradeBridgeAutoToAgent_def)
  then show ?thesis by simp
next
  case created
  from created(1,3) have s: "wr_status r = Created"
    by (auto simp: create_pack_def Let_def case_prod_beta)
  have j: "st_jobs st' = st_jobs (enqueue_pack_sync sf env (we_id env) st)"
    using created(1,3)
    by (simp add: create_pack_def Let_def case_prod_beta enqueue_pack_sync_def split: sum.splits prod.splits)
  have "\<exists>j. st_jobs (enqueue_pack_sync sf env (we_id env) st) = st_jobs st @ [j] \<and>
      jb_status j = Pending \<and> jb_queue j = ''sync_to_cloud''"
    using env by (simp add: enqueue_pack_sync_def scheduleDurableWrite_def Let_def insertJob_def
        insert_or_ignore_def new_job_def)
  with j s show ?thesis by simp
qed simp_all

definition store_after :: "pack_row list \<Rightarrow> pack_source \<Rightarrow> pack_store" where
  "store_after ps src = snd (write_pack (\<lambda>_. []) (\<lambda>_. []) (sample_pack_env ''b'' 9000) (sample_input [66])
     (sample_options src None) (sample_store ps))"

section \<open>The excerpt\<close>

fun code_point :: "ustring \<Rightarrow> bool" where
  "code_point [c] \<longleftrightarrow> True"
| "code_point [c, d] \<longleftrightarrow> low_surrogate d"
| "code_point _ \<longleftrightarrow> False"

lemma code_points_concat: "concat (code_points s) = s"
  by (induction s rule: code_points.induct) simp_all

lemma code_points_wf: "p \<in> set (code_points s) \<Longrightarrow> code_point p"
  by (induction s rule: code_points.induct) (auto split: if_splits)

lemma code_points_hd: "\<exists>p ps. code_points (c # s) = (c # p) # ps"
  by (cases s) auto

lemma code_points_prefix: "code_points (concat (take k (code_points s))) = take k (code_points s)"
proof (induction s arbitrary: k rule: code_points.induct)
  case (2 c)
  then show ?case by (cases k) simp_all
next
  case (3 c d s)
  show ?case
  proof (cases k)
    case (Suc j)
    show ?thesis
    proof (cases "high_surrogate c \<and> low_surrogate d")
      case True
      with 3(1) Suc show ?thesis by simp
    next
      case False
      obtain p ps where h: "code_points (d # s) = (d # p) # ps" using code_points_hd by blast
      show ?thesis
      proof (cases j)
        case 0
        with False Suc show ?thesis by simp
      next
        case (Suc i)
        with 3(2) [OF False, of j] False \<open>k = Suc j\<close> h show ?thesis by auto
      qed
    qed
  qed simp
qed simp

lemma low_not_space: "low_surrogate c \<Longrightarrow> \<not> unicode_space c"
  by (auto simp: low_surrogate_def unicode_space_def word_le_nat_alt)

lemma trim_points:
  assumes "\<forall>p \<in> set ps. code_point p"
  shows "\<exists>k. trim_end_unicode (concat ps) = concat (take k ps) \<and>
     (\<forall>p \<in> set (drop k ps). \<exists>c. p = [c] \<and> unicode_space c)"
  using assms
proof (induction ps rule: rev_induct)
  case Nil
  then show ?case by (simp add: trim_end_unicode_def)
next
  case (snoc p ps)
  show ?case
  proof (cases "\<exists>c. p = [c] \<and> unicode_space c")
    case True
    then obtain c where c: "p = [c]" "unicode_space c" by blast
    from snoc obtain k where k: "trim_end_unicode (concat ps) = concat (take k ps)"
      "\<forall>q \<in> set (drop k ps). \<exists>c. q = [c] \<and> unicode_space c" by auto
    show ?thesis
    proof (cases "k \<le> length ps")
      case True
      with k c show ?thesis by (intro exI [of _ k]) (auto simp: trim_end_unicode_def)
    next
      case False
      with k c show ?thesis by (intro exI [of _ "length ps"]) (auto simp: trim_end_unicode_def)
    qed
  next
    case False
    with snoc.prems have "\<exists>q c. p = q @ [c] \<and> \<not> unicode_space c"
      by (cases p rule: code_point.cases) (auto dest: low_not_space)
    then show ?thesis by (intro exI [of _ "Suc (length ps)"]) (auto simp: trim_end_unicode_def)
  qed
qed

lemma trimmed_end: "trim_end_unicode s \<noteq> [] \<Longrightarrow> \<not> unicode_space (last (trim_end_unicode s))"
proof (cases "dropWhile unicode_space (rev s)")
  case (Cons y ys)
  then have "\<not> unicode_space y" by (simp add: dropWhile_eq_Cons_conv)
  with Cons show ?thesis by (simp add: trim_end_unicode_def)
qed (simp add: trim_end_unicode_def)

text \<open>An excerpt is a prefix of the content by whole characters: its code points are the first \<open>k\<close> of
  the content for some \<open>k\<close> up to the limit (500), so that no surrogate pair is split; what was cut
  between \<open>k\<close> and the limit is white space only, and the excerpt does not end in white space.\<close>

theorem excerpt_whole_characters:
  "\<exists>k \<le> mx. code_points (computeContentExcerpt content mx) = take k (code_points content) \<and>
     (\<forall>p \<in> set (drop k (take mx (code_points content))). \<exists>c. p = [c] \<and> unicode_space c) \<and>
     (computeContentExcerpt content mx = [] \<or> \<not> unicode_space (last (computeContentExcerpt content mx)))"
proof -
  let ?ps = "take mx (code_points content)"
  have e: "computeContentExcerpt content mx = trim_end_unicode (concat ?ps)"
    by (simp add: computeContentExcerpt_def Let_def)
  obtain k where k: "trim_end_unicode (concat ?ps) = concat (take k ?ps)"
    "\<forall>p \<in> set (drop k ?ps). \<exists>c. p = [c] \<and> unicode_space c"
    using trim_points [of ?ps] by (auto dest: in_set_takeD code_points_wf)
  have "code_points (computeContentExcerpt content mx) = take (min k mx) (code_points content)"
    unfolding e k(1) take_take by (rule code_points_prefix)
  moreover have "\<forall>p \<in> set (drop (min k mx) ?ps). \<exists>c. p = [c] \<and> unicode_space c"
    using k(2) by (auto simp: min_def)
  ultimately show ?thesis
    using trimmed_end [of "concat ?ps"] e by (intro exI [of _ "min k mx"]) auto
qed

end
