(* ===== verification/Pack_Selection.thy ===== *)
theory Pack_Selection
  imports Context_Pack "HOL-Library.Multiset" "HOL-Library.AList" "HOL-Library.Product_Lexorder"
begin

text \<open>
  The packs a new session is started with: the diversified selection of
  \<open>apps/mcp-server/src/lib/context-pack.ts\<close>.  Candidates are the recent packs of the project with the
  Work Packs each is linked to; they are grouped by Work Pack, or by run where there is none, and the
  groups are served in the order of their newest pack.

  A JavaScript \<open>Map\<close> is an association list in insertion order.  Limits, budgets and caps are natural
  numbers.  Kinds named like a property every object inherits (\<open>constructor\<close>) are outside the model.
\<close>

section \<open>Candidates\<close>

datatype injection_tier = Hot | Warm

record work_pack_link =
  wl_id :: string
  wl_slug :: string
  wl_status :: string

record pack_link_row =
  pl_workPackId :: string
  pl_contextPackId :: string

record candidate =
  dv_id :: string
  dv_title :: string
  dv_excerpt :: ustring
  dv_workPackIds :: "string list"
  dv_workPackSlugs :: "string list"
  dv_kind :: "string option"
  dv_runId :: string
  dv_createdAt :: int
  dv_tier :: injection_tier

definition KIND_PRIORITY :: "(string \<times> nat) list" where
  "KIND_PRIORITY = [(''final_recap'', 0), (''implementation_recap'', 1), (''audit_findings'', 2),
     (''work_start'', 3), (''sync'', 4), (''bridge_auto'', 5)]"

definition kindRank :: "string option \<Rightarrow> nat" where
  "kindRank kind = (case kind of None \<Rightarrow> 6 | Some k \<Rightarrow> nullish (map_of KIND_PRIORITY k) 6)"

definition tierForWorkPackStatuses :: "string list \<Rightarrow> string option \<Rightarrow> injection_tier option" where
  "tierForWorkPackStatuses statuses archivedInPackId =
     (if archivedInPackId \<noteq> None then None
      else if statuses = [] then Some Hot
      else if list_all (\<lambda>s. s = ''done'') statuses then Some Warm else Some Hot)"

text \<open>The link table joined to the Work Packs, collected by pack.\<close>

definition joined_links :: "pack_link_row list \<Rightarrow> work_pack_row list \<Rightarrow> string list \<Rightarrow> (string \<times> work_pack_link) list" where
  "joined_links links wps ids =
     concat (map (\<lambda>l. map (\<lambda>w. (pl_contextPackId l,
         \<lparr> wl_id = pl_workPackId l, wl_slug = wp_slug w, wl_status = wp_status w \<rparr>))
       (filter (\<lambda>w. wp_id w = pl_workPackId l) wps)) (filter (\<lambda>l. pl_contextPackId l \<in> set ids) links))"

definition fetchSecondaryWorkPackLinks ::
  "pack_link_row list \<Rightarrow> work_pack_row list \<Rightarrow> string list \<Rightarrow> (string \<times> work_pack_link list) list"
where
  "fetchSecondaryWorkPackLinks links wps ids =
     foldl (\<lambda>m (c, l). AList.update c (nullish (map_of m c) [] @ [l]) m) [] (joined_links links wps ids)"

definition merged_links :: "work_pack_row list \<Rightarrow> work_pack_link list \<Rightarrow> pack_row \<Rightarrow> (string \<times> work_pack_link) list" where
  "merged_links wps secondary r =
     (let primary = (case pk_workPackId r of
                       None \<Rightarrow> []
                     | Some i \<Rightarrow>
                         (case first_row (filter (\<lambda>w. wp_id w = i) wps) of
                            None \<Rightarrow> []
                          | Some w \<Rightarrow> [(i, \<lparr> wl_id = i, wl_slug = wp_slug w, wl_status = wp_status w \<rparr>)]))
      in foldl (\<lambda>m l. if map_of m (wl_id l) = None then AList.update (wl_id l) l m else m) primary secondary)"

definition candidate_of :: "pack_row \<Rightarrow> (string \<times> work_pack_link) list \<Rightarrow> candidate list" where
  "candidate_of r links =
     (case tierForWorkPackStatuses (map (wl_status \<circ> snd) links) (pk_archivedInPackId r) of
        None \<Rightarrow> []
      | Some tier \<Rightarrow>
          [\<lparr> dv_id = pk_id r, dv_title = pk_title r, dv_excerpt = pk_contentExcerpt r,
             dv_workPackIds = map fst links, dv_workPackSlugs = map (wl_slug \<circ> snd) links,
             dv_kind = pk_kind r, dv_runId = pk_runId r, dv_createdAt = pk_createdAt r, dv_tier = tier \<rparr>])"

definition fetchDiversificationCandidates :: "pack_store \<Rightarrow> pack_link_row list \<Rightarrow> string \<Rightarrow> nat \<Rightarrow> candidate list" where
  "fetchDiversificationCandidates st links projectId limit =
     (let primaryRows = take limit (order_by_desc pk_createdAt (filter (\<lambda>r. pk_projectId r = projectId) (st_packs st)));
          secondaryLinks = fetchSecondaryWorkPackLinks links (st_workPacks st) (map pk_id primaryRows)
      in concat (map (\<lambda>r. candidate_of r
           (merged_links (st_workPacks st) (nullish (map_of secondaryLinks (pk_id r)) []) r)) primaryRows))"

section \<open>Groups\<close>

type_synonym ('k, 'a) groups = "('k \<times> 'a \<times> candidate list) list"

definition push_group :: "'k \<Rightarrow> 'a \<Rightarrow> candidate \<Rightarrow> ('k, 'a) groups \<Rightarrow> ('k, 'a) groups" where
  "push_group k a row m =
     (case map_of m k of
        None \<Rightarrow> AList.update k (a, [row]) m
      | Some (a', rows) \<Rightarrow> AList.update k (a', rows @ [row]) m)"

definition push_work_packs :: "candidate \<Rightarrow> (string, string) groups \<Rightarrow> (string, string) groups" where
  "push_work_packs row m =
     foldl (\<lambda>m (w, slug). push_group w slug row m) m (zip (dv_workPackIds row) (dv_workPackSlugs row))"

definition group_row ::
  "(string, string) groups \<times> (string, unit) groups \<Rightarrow> candidate \<Rightarrow> (string, string) groups \<times> (string, unit) groups"
where
  "group_row g row =
     (if dv_workPackIds row \<noteq> [] then (push_work_packs row (fst g), snd g)
      else (fst g, push_group (dv_runId row) () row (snd g)))"

datatype group =
    WorkPackGroup string string "candidate list"
  | RunGroup string "candidate list"

fun group_rows :: "group \<Rightarrow> candidate list" where
  "group_rows (WorkPackGroup _ _ rows) = rows"
| "group_rows (RunGroup _ rows) = rows"

definition group_time :: "group \<Rightarrow> int" where
  "group_time g = dv_createdAt (hd (group_rows g))"

definition build_groups :: "candidate list \<Rightarrow> group list" where
  "build_groups rows =
     (let (byWorkPack, noWorkPackByRun) = foldl group_row ([], []) rows
      in order_by_desc group_time
           (map (\<lambda>(w, slug, rs). WorkPackGroup w slug rs) byWorkPack @
            map (\<lambda>(r, _, rs). RunGroup r rs) noWorkPackByRun))"

section \<open>Selection\<close>

record selection_limits =
  sl_fetch :: nat
  sl_budget :: nat
  sl_perWorkPack :: nat
  sl_perRun :: nat

definition default_limits :: selection_limits where
  "default_limits = \<lparr> sl_fetch = 50, sl_budget = 6, sl_perWorkPack = 2, sl_perRun = 1 \<rparr>"

fun group_cap :: "selection_limits \<Rightarrow> group \<Rightarrow> nat" where
  "group_cap lm (WorkPackGroup _ _ _) = sl_perWorkPack lm"
| "group_cap lm (RunGroup _ _) = sl_perRun lm"

fun rank_rows :: "group \<Rightarrow> candidate list \<Rightarrow> candidate list" where
  "rank_rows (WorkPackGroup _ _ _) rows = sort_key (\<lambda>r. (kindRank (dv_kind r), - dv_createdAt r)) rows"
| "rank_rows (RunGroup _ _) rows = rows"

fun overflow_note :: "group \<Rightarrow> nat \<Rightarrow> (string \<times> nat) list" where
  "overflow_note (WorkPackGroup _ slug _) hidden = (if 0 < hidden then [(slug, hidden)] else [])"
| "overflow_note (RunGroup _ _) hidden = []"

fun pick_groups ::
  "selection_limits \<Rightarrow> group list \<Rightarrow> candidate list \<Rightarrow> string set \<Rightarrow> (string \<times> nat) list \<Rightarrow>
   candidate list \<times> (string \<times> nat) list"
where
  "pick_groups lm [] selected picked overflow = (selected, overflow)"
| "pick_groups lm (g # gs) selected picked overflow =
     (if sl_budget lm \<le> length selected then (selected, overflow)
      else
        (let unclaimed = filter (\<lambda>r. dv_id r \<notin> picked) (group_rows g) in
         if unclaimed = [] then pick_groups lm gs selected picked overflow
         else
           (let ranked = rank_rows g unclaimed;
                taken = take (min (group_cap lm g) (sl_budget lm - length selected)) ranked
            in pick_groups lm gs (selected @ taken) (picked \<union> dv_id ` set taken)
                 (overflow @ overflow_note g (length ranked - length taken)))))"

definition selectDiversifiedRecentContextPacks ::
  "selection_limits \<Rightarrow> pack_store \<Rightarrow> pack_link_row list \<Rightarrow> string \<Rightarrow> candidate list \<times> (string \<times> nat) list"
where
  "selectDiversifiedRecentContextPacks lm st links projectId =
     (let (selected, overflow) =
        pick_groups lm (build_groups (fetchDiversificationCandidates st links projectId (sl_fetch lm))) [] {} []
      in (order_by_desc dv_createdAt selected, overflow))"

section \<open>What the grouping does\<close>

text \<open>A pack's links have distinct Work Packs, and ids and slugs go together.\<close>

lemma merged_distinct: "distinct (map fst (merged_links wps sec r))"
proof -
  have "distinct (map fst (foldl (\<lambda>m l. if map_of m (wl_id l) = None then AList.update (wl_id l) l m else m) m ls))"
    if "distinct (map fst m)" for m :: "(string \<times> work_pack_link) list" and ls
    using that by (induction ls arbitrary: m) (simp_all add: distinct_update)
  then show ?thesis by (simp add: merged_links_def Let_def split: option.splits)
qed

definition good_candidate :: "candidate \<Rightarrow> bool" where
  "good_candidate c \<longleftrightarrow> distinct (dv_workPackIds c) \<and> length (dv_workPackSlugs c) = length (dv_workPackIds c)"

lemma candidate_of_good: "c \<in> set (candidate_of r (merged_links wps sec r)) \<Longrightarrow> good_candidate c"
  by (auto simp: candidate_of_def good_candidate_def merged_distinct split: option.splits)

lemma candidates_good: "c \<in> set (fetchDiversificationCandidates st links p n) \<Longrightarrow> good_candidate c"
  by (auto simp: fetchDiversificationCandidates_def Let_def dest: candidate_of_good)

lemma candidates_come_from:
  assumes "c \<in> set (fetchDiversificationCandidates st links p n)"
  shows "\<exists>r \<in> set (st_packs st). pk_id r = dv_id c \<and> pk_projectId r = p \<and> pk_archivedInPackId r = None \<and>
    pk_title r = dv_title c \<and> pk_contentExcerpt r = dv_excerpt c \<and> pk_createdAt r = dv_createdAt c"
  using assms
  by (auto simp: fetchDiversificationCandidates_def Let_def candidate_of_def tierForWorkPackStatuses_def
      dest!: in_set_takeD split: option.splits if_splits)

text \<open>The rows a key of the grouping map holds, and the three facts every push keeps.\<close>

definition members :: "'k \<Rightarrow> ('k, 'a) groups \<Rightarrow> candidate list" where
  "members k m = (case map_of m k of None \<Rightarrow> [] | Some (_, rows) \<Rightarrow> rows)"

definition good_groups :: "('k, 'a) groups \<Rightarrow> bool" where
  "good_groups m \<longleftrightarrow> distinct (map fst m) \<and> (\<forall>(k, a, rows) \<in> set m. rows \<noteq> [])"

lemma members_push: "members k (push_group k' a row m) = members k m @ (if k = k' then [row] else [])"
  by (auto simp: members_def push_group_def update_conv' split: option.splits)

lemma set_update_subset: "set (AList.update k v m) \<subseteq> insert (k, v) (set m)"
  by (induction m) auto

lemma good_push: "good_groups m \<Longrightarrow> good_groups (push_group k a row m)"
  using set_update_subset [of k] by (fastforce simp: good_groups_def push_group_def distinct_update split: option.splits)

lemma good_groups_Nil [simp]: "good_groups []" "members k [] = []"
  by (simp_all add: good_groups_def members_def)

lemma good_groups_members:
  assumes "good_groups m"
  shows "(\<exists>a. (k, a, rows) \<in> set m) \<longleftrightarrow> members k m = rows \<and> rows \<noteq> []"
  using assms by (auto simp: good_groups_def members_def split: option.splits dest: map_of_SomeD map_of_is_SomeI eq_key_imp_eq_value)

lemma members_push_fold:
  "members k (foldl (\<lambda>m (w, s). push_group w s row m) m ps) = members k m @ map (\<lambda>_. row) (filter (\<lambda>p. fst p = k) ps)"
  by (induction ps arbitrary: m) (auto simp: members_push)

lemma good_push_fold: "good_groups m \<Longrightarrow> good_groups (foldl (\<lambda>m (w, s). push_group w s row m) m ps)"
  by (induction ps arbitrary: m) (auto simp: good_push)

lemma members_push_work_packs:
  assumes "good_candidate row"
  shows "members k (push_work_packs row m) = members k m @ (if k \<in> set (dv_workPackIds row) then [row] else [])"
proof -
  let ?ps = "zip (dv_workPackIds row) (dv_workPackSlugs row)"
  have d: "distinct (map fst ?ps)" and s: "fst ` set ?ps = set (dv_workPackIds row)"
    using assms by (simp_all add: good_candidate_def flip: set_map)
  have "map (\<lambda>_. row) (filter (\<lambda>p. fst p = k) ?ps) = (if k \<in> set (dv_workPackIds row) then [row] else [])"
  proof (cases "k \<in> fst ` set ?ps")
    case True
    then obtain p where "p \<in> set ?ps" "fst p = k" by blast
    with filter_distinct_key [OF d] True s show ?thesis by force
  next
    case False
    then have "filter (\<lambda>p. fst p = k) ?ps = []" by (auto simp: filter_empty_conv)
    with False s show ?thesis by simp
  qed
  then show ?thesis by (simp add: push_work_packs_def members_push_fold)
qed

lemma grouping:
  assumes "\<forall>c \<in> set rows. good_candidate c" and "good_groups bw" and "good_groups nr"
  shows "good_groups (fst (foldl group_row (bw, nr) rows)) \<and> good_groups (snd (foldl group_row (bw, nr) rows)) \<and>
    (\<forall>w. members w (fst (foldl group_row (bw, nr) rows)) =
       members w bw @ filter (\<lambda>c. w \<in> set (dv_workPackIds c)) rows) \<and>
    (\<forall>i. members i (snd (foldl group_row (bw, nr) rows)) =
       members i nr @ filter (\<lambda>c. dv_workPackIds c = [] \<and> dv_runId c = i) rows)"
  using assms
proof (induction rows arbitrary: bw nr)
  case (Cons c rows)
  have g: "good_groups (fst (group_row (bw, nr) c))" "good_groups (snd (group_row (bw, nr) c))"
    using Cons.prems by (simp_all add: group_row_def good_push push_work_packs_def good_push_fold)
  obtain bw' nr' where s: "group_row (bw, nr) c = (bw', nr')" by fastforce
  have "members w bw' = members w bw @ (if w \<in> set (dv_workPackIds c) then [c] else [])" for w
    using s Cons.prems(1) by (auto simp: group_row_def members_push_work_packs split: if_splits)
  moreover have "members i nr' = members i nr @ (if dv_workPackIds c = [] \<and> dv_runId c = i then [c] else [])" for i
    using s by (auto simp: group_row_def members_push split: if_splits)
  ultimately show ?case using Cons.IH [of bw' nr'] Cons.prems(1) g s by simp
qed simp

fun group_key :: "group \<Rightarrow> candidate \<Rightarrow> bool" where
  "group_key (WorkPackGroup w _ _) c \<longleftrightarrow> w \<in> set (dv_workPackIds c)"
| "group_key (RunGroup r _) c \<longleftrightarrow> dv_workPackIds c = [] \<and> dv_runId c = r"

lemma group_key_fun [simp]:
  "group_key (WorkPackGroup w s rs) = (\<lambda>c. w \<in> set (dv_workPackIds c))"
  "group_key (RunGroup r rs) = (\<lambda>c. dv_workPackIds c = [] \<and> dv_runId c = r)"
  by auto

lemma build_groups_rows:
  assumes "\<forall>c \<in> set rows. good_candidate c" and "g \<in> set (build_groups rows)"
  shows "group_rows g = filter (group_key g) rows \<and> group_rows g \<noteq> []"
proof -
  obtain bw nr where f: "foldl group_row ([], []) rows = (bw, nr)" by fastforce
  note m = grouping [OF assms(1) good_groups_Nil(1) good_groups_Nil(1), unfolded f, simplified]
  show ?thesis
  proof (cases g)
    case (WorkPackGroup w slug rs)
    with assms(2) f have "(w, slug, rs) \<in> set bw" by (auto simp: build_groups_def)
    with good_groups_members [of bw w rs] m WorkPackGroup show ?thesis by auto
  next
    case (RunGroup r rs)
    with assms(2) f have "\<exists>a. (r, a, rs) \<in> set nr" by (auto simp: build_groups_def)
    with good_groups_members [of nr r rs] m RunGroup show ?thesis by auto
  qed
qed

lemma build_groups_covers:
  assumes "\<forall>c \<in> set rows. good_candidate c" and "c \<in> set rows"
  shows "\<exists>g \<in> set (build_groups rows). c \<in> set (group_rows g)"
proof -
  obtain bw nr where f: "foldl group_row ([], []) rows = (bw, nr)" by fastforce
  note m = grouping [OF assms(1) good_groups_Nil(1) good_groups_Nil(1), unfolded f, simplified]
  show ?thesis
  proof (cases "dv_workPackIds c")
    case Nil
    let ?rs = "filter (\<lambda>d. dv_workPackIds d = [] \<and> dv_runId d = dv_runId c) rows"
    have c: "c \<in> set ?rs" using Nil assms(2) by simp
    then have "?rs \<noteq> []" by force
    with good_groups_members [of nr "dv_runId c" ?rs] m obtain a where "(dv_runId c, a, ?rs) \<in> set nr" by auto
    then have "RunGroup (dv_runId c) ?rs \<in> set (build_groups rows)" using f by (force simp: build_groups_def)
    with c show ?thesis by (metis group_rows.simps(2))
  next
    case (Cons w ws)
    let ?rs = "filter (\<lambda>d. w \<in> set (dv_workPackIds d)) rows"
    have c: "c \<in> set ?rs" using Cons assms(2) by simp
    then have "?rs \<noteq> []" by force
    with good_groups_members [of bw w ?rs] m obtain a where "(w, a, ?rs) \<in> set bw" by auto
    then have "WorkPackGroup w a ?rs \<in> set (build_groups rows)" using f by (force simp: build_groups_def)
    with c show ?thesis by (metis group_rows.simps(1))
  qed
qed

section \<open>What the selection does\<close>

lemma rank_rows_set [simp]: "set (rank_rows g rs) = set rs" "length (rank_rows g rs) = length rs"
  by (cases g; simp)+

lemma rank_rows_distinct [simp]: "distinct (map dv_id (rank_rows g rs)) = distinct (map dv_id rs)"
proof (cases g)
  case (WorkPackGroup w s x)
  have "mset (map dv_id (rank_rows g rs)) = mset (map dv_id rs)" by (simp add: WorkPackGroup)
  then show ?thesis by (metis mset_eq_imp_distinct_iff)
qed simp

text \<open>What one group adds to the selection, and the loop as a fold of it.\<close>

definition newly_taken :: "selection_limits \<Rightarrow> group \<Rightarrow> candidate list \<Rightarrow> candidate list" where
  "newly_taken lm g sel = take (min (group_cap lm g) (sl_budget lm - length sel))
     (rank_rows g (filter (\<lambda>r. dv_id r \<notin> dv_id ` set sel) (group_rows g)))"

lemma newly_taken_set: "r \<in> set (newly_taken lm g sel) \<Longrightarrow> r \<in> set (group_rows g) \<and> dv_id r \<notin> dv_id ` set sel"
  by (auto simp: newly_taken_def dest!: in_set_takeD)

lemma newly_taken_distinct: "distinct (map dv_id (group_rows g)) \<Longrightarrow> distinct (map dv_id (newly_taken lm g sel))"
  by (simp add: newly_taken_def distinct_take distinct_map_filter flip: take_map)

lemma newly_taken_length: "length (newly_taken lm g sel) \<le> min (group_cap lm g) (sl_budget lm - length sel)"
  by (simp add: newly_taken_def min_le_iff_disj)

lemma newly_taken_new: "dv_id ` set sel \<inter> dv_id ` set (newly_taken lm g sel) = {}"
proof (rule equals0I)
  fix i assume i: "i \<in> dv_id ` set sel \<inter> dv_id ` set (newly_taken lm g sel)"
  then obtain r where "r \<in> set (newly_taken lm g sel)" "dv_id r = i" by auto
  with i newly_taken_set [of r lm g sel] show False by simp
qed

lemma newly_taken_full: "sl_budget lm \<le> length sel \<Longrightarrow> newly_taken lm g sel = []"
  by (simp add: newly_taken_def)

lemma newly_taken_serves:
  assumes "0 < group_cap lm g" and "length sel < sl_budget lm" and "group_rows g \<noteq> []"
  shows "\<exists>r \<in> set (group_rows g). dv_id r \<in> dv_id ` set (sel @ newly_taken lm g sel)"
proof (cases "filter (\<lambda>r. dv_id r \<notin> dv_id ` set sel) (group_rows g) = []")
  case True
  then have "dv_id (hd (group_rows g)) \<in> dv_id ` set sel"
    using assms(3) by (simp add: filter_empty_conv)
  with assms(3) show ?thesis by (intro bexI [of _ "hd (group_rows g)"]) auto
next
  case False
  then have "rank_rows g (filter (\<lambda>r. dv_id r \<notin> dv_id ` set sel) (group_rows g)) \<noteq> []"
    by (metis length_0_conv rank_rows_set(2))
  with assms(1,2) have "newly_taken lm g sel \<noteq> []" by (simp add: newly_taken_def)
  then obtain r where r: "r \<in> set (newly_taken lm g sel)" using hd_in_set by blast
  with newly_taken_set [OF r] show ?thesis by auto
qed

definition serve :: "selection_limits \<Rightarrow> group list \<Rightarrow> candidate list \<Rightarrow> candidate list" where
  "serve lm gs sel = foldl (\<lambda>sel g. sel @ newly_taken lm g sel) sel gs"

lemma serve_simps [simp]:
  "serve lm [] sel = sel" "serve lm (g # gs) sel = serve lm gs (sel @ newly_taken lm g sel)"
  by (simp_all add: serve_def)

lemma serve_full: "sl_budget lm \<le> length sel \<Longrightarrow> serve lm gs sel = sel"
  by (induction gs) (simp_all add: newly_taken_full)

lemma pick_groups_serve: "fst (pick_groups lm gs sel (dv_id ` set sel) ov) = serve lm gs sel"
proof (induction gs arbitrary: sel ov)
  case (Cons g gs)
  show ?case
  proof (cases "sl_budget lm \<le> length sel")
    case True
    then show ?thesis by (simp add: serve_full newly_taken_full)
  next
    case room: False
    show ?thesis
    proof (cases "filter (\<lambda>r. dv_id r \<notin> dv_id ` set sel) (group_rows g) = []")
      case True
      then have "newly_taken lm g sel = []"
        by (simp add: newly_taken_def) (metis length_0_conv rank_rows_set(2))
      with True room Cons.IH [of sel] show ?thesis by simp
    next
      case False
      with room have "fst (pick_groups lm (g # gs) sel (dv_id ` set sel) ov) =
          fst (pick_groups lm gs (sel @ newly_taken lm g sel) (dv_id ` set (sel @ newly_taken lm g sel))
            (ov @ overflow_note g (length (rank_rows g (filter (\<lambda>r. dv_id r \<notin> dv_id ` set sel) (group_rows g))) -
               length (newly_taken lm g sel))))"
        by (simp only: pick_groups.simps Let_def if_False newly_taken_def set_append image_Un)
      then show ?thesis by (simp only: Cons.IH serve_simps)
    qed
  qed
qed simp

lemma serve_extends: "set sel \<subseteq> set (serve lm gs sel)"
proof (induction gs arbitrary: sel)
  case (Cons g gs)
  have "set sel \<subseteq> set (sel @ newly_taken lm g sel)" by simp
  also have "\<dots> \<subseteq> set (serve lm (g # gs) sel)" unfolding serve_simps by (rule Cons.IH)
  finally show ?case .
qed simp

lemma serve_sound:
  assumes "\<forall>g \<in> set gs. distinct (map dv_id (group_rows g))"
    and "distinct (map dv_id sel)" and "length sel \<le> sl_budget lm"
  shows "distinct (map dv_id (serve lm gs sel)) \<and> length (serve lm gs sel) \<le> sl_budget lm"
  using assms
proof (induction gs arbitrary: sel)
  case (Cons g gs)
  let ?new = "newly_taken lm g sel"
  have "distinct (map dv_id (sel @ ?new))"
    using Cons.prems newly_taken_distinct [of g lm sel] newly_taken_new [of sel lm g] by simp
  moreover have "length (sel @ ?new) \<le> sl_budget lm"
    using Cons.prems(3) newly_taken_length [of lm g sel] by auto
  ultimately show ?case using Cons.IH Cons.prems(1) by simp
qed simp

lemma serve_from: "s \<in> set (serve lm gs sel) \<Longrightarrow> s \<in> set sel \<or> (\<exists>g \<in> set gs. s \<in> set (group_rows g))"
  by (induction gs arbitrary: sel) (fastforce dest: newly_taken_set)+

lemma serve_fair:
  assumes "\<forall>g \<in> set gs. 0 < group_cap lm g" and "g \<in> set gs" and "group_rows g \<noteq> []"
    and "\<forall>r \<in> set (group_rows g). dv_id r \<notin> dv_id ` set (serve lm gs sel)"
  shows "sl_budget lm \<le> length (serve lm gs sel) \<and>
    (\<forall>s \<in> set (serve lm gs sel). s \<in> set sel \<or>
       (\<exists>us vs. gs = us @ g # vs \<and> (\<exists>h \<in> set us. s \<in> set (group_rows h))))"
  using assms
proof (induction gs arbitrary: sel)
  case (Cons g1 gs)
  show ?case
  proof (cases "sl_budget lm \<le> length sel")
    case True
    then show ?thesis by (simp add: serve_full newly_taken_full)
  next
    case room: False
    have "g \<noteq> g1"
    proof
      assume "g = g1"
      then obtain r where "r \<in> set (group_rows g)" "dv_id r \<in> dv_id ` set (sel @ newly_taken lm g1 sel)"
        using newly_taken_serves [of lm g1 sel] room Cons.prems(1,3) by auto
      with Cons.prems(4) serve_extends [of "sel @ newly_taken lm g1 sel" lm gs] show False
        by (metis image_mono serve_simps(2) subsetD)
    qed
    with Cons.prems(2) have gs: "g \<in> set gs" by simp
    then obtain us0 vs0 where split: "gs = us0 @ g # vs0" by (meson split_list)
    have ih: "sl_budget lm \<le> length (serve lm gs (sel @ newly_taken lm g1 sel))"
      "\<forall>s \<in> set (serve lm gs (sel @ newly_taken lm g1 sel)). s \<in> set (sel @ newly_taken lm g1 sel) \<or>
         (\<exists>us vs. gs = us @ g # vs \<and> (\<exists>h \<in> set us. s \<in> set (group_rows h)))"
      using Cons.IH [OF _ gs Cons.prems(3), of "sel @ newly_taken lm g1 sel"] Cons.prems(1,4)
      unfolding serve_simps by auto
    have "s \<in> set sel \<or> (\<exists>us vs. g1 # gs = us @ g # vs \<and> (\<exists>h \<in> set us. s \<in> set (group_rows h)))"
      if "s \<in> set (serve lm (g1 # gs) sel)" for s
    proof -
      from that ih(2) consider "s \<in> set sel" | "s \<in> set (newly_taken lm g1 sel)"
        | us vs h where "gs = us @ g # vs" "h \<in> set us" "s \<in> set (group_rows h)" by force
      then show ?thesis
      proof cases
        case 2
        then have "g1 # gs = (g1 # us0) @ g # vs0" "s \<in> set (group_rows g1)"
          using split newly_taken_set by simp_all
        then show ?thesis by (metis list.set_intros(1))
      next
        case 3
        then have "g1 # gs = (g1 # us) @ g # vs" "h \<in> set (g1 # us)" by simp_all
        with 3(3) show ?thesis by blast
      qed simp
    qed
    with ih(1) show ?thesis by simp
  qed
qed simp

section \<open>Candidates and groups in order\<close>

lemma distinct_order_by_desc: "distinct (map f (order_by_desc k rows)) \<longleftrightarrow> distinct (map f rows)"
proof -
  have "mset (map f (order_by_desc k rows)) = mset (map f rows)" by (simp add: order_by_desc_def)
  then show ?thesis by (metis mset_eq_imp_distinct_iff)
qed

lemma candidate_of_cases:
  "candidate_of r ls = [] \<or> (\<exists>c. candidate_of r ls = [c] \<and> dv_id c = pk_id r \<and> dv_createdAt c = pk_createdAt r)"
  by (simp add: candidate_of_def split: option.splits)

lemma candidates_distinct_rows:
  assumes "distinct (map pk_id rs)"
  shows "distinct (map dv_id (concat (map (\<lambda>r. candidate_of r (f r)) rs)))"
  using assms
proof (induction rs)
  case (Cons r rs)
  let ?cs = "concat (map (\<lambda>r. candidate_of r (f r)) rs)"
  have "dv_id ` set ?cs \<subseteq> pk_id ` set rs"
    by (auto simp: candidate_of_def split: option.splits)
  then have "pk_id r \<notin> dv_id ` set ?cs" using Cons.prems by auto
  moreover have "distinct (map dv_id ?cs)" using Cons by simp
  ultimately have d: "distinct (pk_id r # map dv_id ?cs)" by simp
  from candidate_of_cases [of r "f r"] show ?case
  proof (elim disjE exE conjE)
    assume "candidate_of r (f r) = []"
    with d show ?thesis by simp
  next
    fix c assume "candidate_of r (f r) = [c]" "dv_id c = pk_id r"
    then have "map dv_id (concat (map (\<lambda>r. candidate_of r (f r)) (r # rs))) = pk_id r # map dv_id ?cs" by simp
    with d show ?thesis by (simp only:)
  qed
qed simp

lemma candidates_sorted_rows:
  assumes "sorted (map (\<lambda>r. - pk_createdAt r) rs)"
  shows "sorted (map (\<lambda>c. - dv_createdAt c) (concat (map (\<lambda>r. candidate_of r (f r)) rs)))"
  using assms
proof (induction rs)
  case (Cons r rs)
  have "\<exists>x \<in> set rs. dv_createdAt c = pk_createdAt x" if "c \<in> set (concat (map (\<lambda>r. candidate_of r (f r)) rs))" for c
    using that by (auto simp: candidate_of_def split: option.splits)
  then have "dv_createdAt c \<le> pk_createdAt r" if "c \<in> set (concat (map (\<lambda>r. candidate_of r (f r)) rs))" for c
    using that Cons.prems by fastforce
  with Cons candidate_of_cases [of r "f r"] show ?case by auto
qed simp

lemma candidates_distinct:
  assumes "distinct (map pk_id (st_packs st))"
  shows "distinct (map dv_id (fetchDiversificationCandidates st links p n))"
  unfolding fetchDiversificationCandidates_def Let_def
  by (rule candidates_distinct_rows)
    (simp add: assms distinct_take distinct_order_by_desc distinct_map_filter flip: take_map)

lemma candidates_sorted: "sorted (map (\<lambda>c. - dv_createdAt c) (fetchDiversificationCandidates st links p n))"
  unfolding fetchDiversificationCandidates_def Let_def
  by (rule candidates_sorted_rows) (simp add: sorted_wrt_take order_by_desc_sorted flip: take_map)

lemma group_time_newest:
  assumes "\<forall>c \<in> set rows. good_candidate c" and "sorted (map (\<lambda>c. - dv_createdAt c) rows)"
    and "g \<in> set (build_groups rows)" and "c \<in> set (group_rows g)"
  shows "dv_createdAt c \<le> group_time g \<and> (\<exists>h \<in> set rows. group_key g h \<and> dv_createdAt h = group_time g)"
proof -
  note g = build_groups_rows [OF assms(1,3)]
  have "sorted (map (\<lambda>c. - dv_createdAt c) (group_rows g))"
    using g assms(2) by (simp add: sorted_filter)
  moreover obtain x xs where x: "group_rows g = x # xs" using g by (meson neq_Nil_conv)
  ultimately have "dv_createdAt c \<le> group_time g" using assms(4) by (auto simp: group_time_def)
  moreover have "x \<in> set (filter (group_key g) rows)" using g x by (metis list.set_intros(1))
  ultimately show ?thesis using x by (auto simp: group_time_def)
qed

lemma earlier_group_newer:
  assumes "build_groups rows = us @ g # vs" and "h \<in> set us"
  shows "group_time g \<le> group_time h"
proof -
  have "sorted (map (\<lambda>g. - group_time g) (us @ g # vs))"
    using assms(1) order_by_desc_sorted [of group_time] by (metis (no_types, lifting) build_groups_def case_prod_unfold)
  with assms(2) show ?thesis by (auto simp: sorted_append)
qed

section \<open>The caps\<close>

text \<open>The packs of one run that belong to no Work Pack.\<close>

definition ad_hoc :: "string \<Rightarrow> candidate \<Rightarrow> bool" where
  "ad_hoc i c \<longleftrightarrow> dv_workPackIds c = [] \<and> dv_runId c = i"

lemma serve_capped:
  "length (filter P (serve lm gs sel)) \<le>
     length (filter P sel) + sum_list (map (group_cap lm) (filter (\<lambda>g. \<exists>r \<in> set (group_rows g). P r) gs))"
proof (induction gs arbitrary: sel)
  case (Cons g gs)
  let ?new = "newly_taken lm g sel"
  have "length (filter P ?new) \<le> (if \<exists>r \<in> set (group_rows g). P r then group_cap lm g else 0)"
  proof (cases "\<exists>r \<in> set (group_rows g). P r")
    case True
    have "length (filter P ?new) \<le> length ?new" by simp
    also have "\<dots> \<le> group_cap lm g" using newly_taken_length [of lm g sel] by simp
    finally show ?thesis using True by simp
  next
    case False
    then have "filter P ?new = []" by (auto simp: filter_empty_conv dest: newly_taken_set)
    then show ?thesis by simp
  qed
  with Cons.IH [of "sel @ ?new"] show ?case by (cases "\<exists>r \<in> set (group_rows g). P r") simp_all
qed simp

lemma run_groups_once:
  assumes "distinct (map fst m)" and "\<And>k a rs r. (k, a, rs) \<in> set m \<Longrightarrow> r \<in> set rs \<Longrightarrow> dv_runId r = k"
  shows "sum_list (map (group_cap lm) (filter (\<lambda>g. \<exists>r \<in> set (group_rows g). ad_hoc i r)
      (map (\<lambda>(r, _, rs). RunGroup r rs) m))) \<le> sl_perRun lm"
  using assms
proof (induction m)
  case (Cons e m)
  obtain k a rs where e: "e = (k, a, rs)" by (cases e)
  show ?case
  proof (cases "\<exists>r \<in> set rs. ad_hoc i r")
    case True
    then have "k = i" using Cons.prems(2) [of k a rs] e by (auto simp: ad_hoc_def)
    have "\<not> ad_hoc i r" if "(k', a', rs') \<in> set m" "r \<in> set rs'" for k' a' rs' r
    proof -
      have "k' \<noteq> i" using Cons.prems(1) e \<open>k = i\<close> that(1) by force
      with Cons.prems(2) [of k' a' rs' r] that show ?thesis by (simp add: ad_hoc_def)
    qed
    then have "filter (\<lambda>g. \<exists>r \<in> set (group_rows g). ad_hoc i r) (map (\<lambda>(r, _, rs). RunGroup r rs) m) = []"
      by (auto simp: filter_empty_conv)
    with True e show ?thesis by simp
  next
    case False
    have "sum_list (map (group_cap lm) (filter (\<lambda>g. \<exists>r \<in> set (group_rows g). ad_hoc i r)
        (map (\<lambda>(r, _, rs). RunGroup r rs) m))) \<le> sl_perRun lm"
    proof (rule Cons.IH)
      show "distinct (map fst m)" using Cons.prems(1) by simp
      show "dv_runId r = k" if "(k, a, rs) \<in> set m" "r \<in> set rs" for k a rs r
        using Cons.prems(2) [of k a rs r] that by simp
    qed
    with False e show ?thesis by simp
  qed
qed simp

lemma sum_list_map_mset: "mset xs = mset ys \<Longrightarrow> sum_list (map f xs) = (sum_list (map f ys) :: nat)"
  by (metis mset_map sum_mset_sum_list)

lemma build_groups_capped:
  assumes "\<forall>c \<in> set rows. good_candidate c"
  shows "sum_list (map (group_cap lm) (filter (\<lambda>g. \<exists>r \<in> set (group_rows g). ad_hoc i r) (build_groups rows)))
     \<le> sl_perRun lm"
proof -
  let ?Q = "\<lambda>g. \<exists>r \<in> set (group_rows g). ad_hoc i r"
  obtain bw nr where f: "foldl group_row ([], []) rows = (bw, nr)" by fastforce
  note m = grouping [OF assms good_groups_Nil(1) good_groups_Nil(1), unfolded f, simplified]
  let ?A = "map (\<lambda>(w, slug, rs). WorkPackGroup w slug rs) bw" and ?B = "map (\<lambda>(r, _, rs). RunGroup r rs) nr"
  have bw: "rs = filter (\<lambda>c. w \<in> set (dv_workPackIds c)) rows" if "(w, a, rs) \<in> set bw" for w a rs
    using that m good_groups_members [of bw w rs] by auto
  have nr: "rs = filter (\<lambda>c. dv_workPackIds c = [] \<and> dv_runId c = k) rows" if "(k, a, rs) \<in> set nr" for k a rs
    using that m good_groups_members [of nr k rs] by auto
  have A: "filter ?Q ?A = []" by (auto simp: filter_empty_conv ad_hoc_def dest!: bw)
  have B: "sum_list (map (group_cap lm) (filter ?Q ?B)) \<le> sl_perRun lm"
  proof (rule run_groups_once)
    fix k a rs r assume "(k, a, rs) \<in> set nr" "r \<in> set rs"
    with nr [of k a rs] show "dv_runId r = k" by simp
  qed (use m in \<open>simp add: good_groups_def\<close>)
  have "mset (filter ?Q (build_groups rows)) = mset (filter ?Q ?B)"
  proof -
    have "build_groups rows = order_by_desc group_time (?A @ ?B)" using f by (simp add: build_groups_def)
    then have "filter ?Q (build_groups rows) = order_by_desc group_time (filter ?Q ?B)"
      using A by (simp add: filter_order_by_desc del: filter_map)
    then show ?thesis by (simp add: order_by_desc_def)
  qed
  then have "sum_list (map (group_cap lm) (filter ?Q (build_groups rows))) = sum_list (map (group_cap lm) (filter ?Q ?B))"
    by (rule sum_list_map_mset)
  with B show ?thesis by simp
qed

lemma selected_serve:
  "fst (selectDiversifiedRecentContextPacks lm st links p) =
     order_by_desc dv_createdAt (serve lm (build_groups (fetchDiversificationCandidates st links p (sl_fetch lm))) [])"
  using pick_groups_serve [of lm _ "[]" "[]"]
  by (simp add: selectDiversifiedRecentContextPacks_def case_prod_beta)

text \<open>What a session is started with stays within bounds: at most the budget of packs, no pack twice,
  newest first, at most the cap of one run's packs without a Work Pack, and each an unarchived pack of
  the project.\<close>

theorem selection_bounded:
  assumes "distinct (map pk_id (st_packs st))"
    and "selectDiversifiedRecentContextPacks lm st links p = (sel, overflow)"
  shows "length sel \<le> sl_budget lm \<and> distinct (map dv_id sel) \<and> sorted (map (\<lambda>c. - dv_createdAt c) sel) \<and>
    length (filter (ad_hoc i) sel) \<le> sl_perRun lm \<and>
    (\<forall>c \<in> set sel. \<exists>r \<in> set (st_packs st). pk_id r = dv_id c \<and> pk_projectId r = p \<and> pk_archivedInPackId r = None)"
proof -
  let ?cs = "fetchDiversificationCandidates st links p (sl_fetch lm)"
  let ?gs = "build_groups ?cs"
  have sel: "sel = order_by_desc dv_createdAt (serve lm ?gs [])"
    using assms(2) selected_serve [of lm st links p] by simp
  have good: "\<forall>c \<in> set ?cs. good_candidate c" using candidates_good by blast
  have rows: "group_rows g = filter (group_key g) ?cs" if "g \<in> set ?gs" for g
    using build_groups_rows [OF good that] by blast
  have "\<forall>g \<in> set ?gs. distinct (map dv_id (group_rows g))"
    using rows candidates_distinct [OF assms(1)] by (simp add: distinct_map_filter)
  from serve_sound [OF this, of "[]" lm]
  have s: "distinct (map dv_id (serve lm ?gs []))" "length (serve lm ?gs []) \<le> sl_budget lm" by simp_all
  have "length (filter (ad_hoc i) (serve lm ?gs [])) \<le> sl_perRun lm"
    using serve_capped [of "ad_hoc i" lm ?gs "[]"] build_groups_capped [OF good, of lm i] by simp
  moreover have "c \<in> set ?cs" if "c \<in> set (serve lm ?gs [])" for c
    using serve_from [OF that] rows by auto
  then have "\<exists>r \<in> set (st_packs st). pk_id r = dv_id c \<and> pk_projectId r = p \<and> pk_archivedInPackId r = None"
    if "c \<in> set (serve lm ?gs [])" for c
    using candidates_come_from that by blast
  ultimately show ?thesis
    using s by (simp add: sel distinct_order_by_desc filter_order_by_desc order_by_desc_sorted)
qed

text \<open>Whether two packs belong to a common group.\<close>

definition same_group :: "candidate \<Rightarrow> candidate \<Rightarrow> bool" where
  "same_group c d \<longleftrightarrow> (\<exists>w \<in> set (dv_workPackIds c). w \<in> set (dv_workPackIds d)) \<or>
     (dv_workPackIds c = [] \<and> dv_workPackIds d = [] \<and> dv_runId c = dv_runId d)"

lemma same_group_key: "group_key g c \<Longrightarrow> group_key g d \<Longrightarrow> same_group c d"
  by (cases g) (auto simp: same_group_def)

text \<open>C14: No Work Pack and no run is starved: a candidate none of whose groups is represented was passed over
  only because the budget is spent, and every pack shown then shares a group with one at least as
  recent as that candidate.\<close>

theorem selection_fair:
  assumes ids: "distinct (map pk_id (st_packs st))" and caps: "0 < sl_perWorkPack lm" "0 < sl_perRun lm"
    and sel: "selectDiversifiedRecentContextPacks lm st links p = (sel, overflow)"
    and c: "c \<in> set (fetchDiversificationCandidates st links p (sl_fetch lm))" "\<forall>s \<in> set sel. \<not> same_group s c"
  shows "length sel = sl_budget lm \<and>
    (\<forall>s \<in> set sel. \<exists>h \<in> set (fetchDiversificationCandidates st links p (sl_fetch lm)).
       dv_createdAt c \<le> dv_createdAt h \<and> same_group s h)"
proof -
  let ?cs = "fetchDiversificationCandidates st links p (sl_fetch lm)"
  let ?gs = "build_groups ?cs"
  have set_sel: "set sel = set (serve lm ?gs [])" "length sel = length (serve lm ?gs [])"
    using sel selected_serve [of lm st links p] by simp_all
  have good: "\<forall>c \<in> set ?cs. good_candidate c" using candidates_good by blast
  have rows: "group_rows g = filter (group_key g) ?cs" "group_rows g \<noteq> []" if "g \<in> set ?gs" for g
    using build_groups_rows [OF good that] by blast+
  have from_cs: "s \<in> set ?cs" if "s \<in> set sel" for s
    using that serve_from [of s lm ?gs "[]"] rows by (auto simp: set_sel)
  obtain g where g: "g \<in> set ?gs" "c \<in> set (group_rows g)" using build_groups_covers [OF good c(1)] by blast
  then have cg: "group_key g c" using rows(1) by simp
  have "dv_id r \<notin> dv_id ` set sel" if r: "r \<in> set (group_rows g)" for r
  proof
    assume "dv_id r \<in> dv_id ` set sel"
    then obtain s where s: "s \<in> set sel" "dv_id s = dv_id r" by auto
    have "r \<in> set ?cs" "group_key g r" using r rows(1) [OF g(1)] by simp_all
    with s from_cs candidates_distinct [OF ids, of links p "sl_fetch lm"] have "s = r"
      by (auto simp: distinct_map inj_on_def)
    with s(1) c(2) same_group_key [OF \<open>group_key g r\<close> cg] show False by simp
  qed
  then have unserved: "\<forall>r \<in> set (group_rows g). dv_id r \<notin> dv_id ` set (serve lm ?gs [])" by (simp add: set_sel)
  have "0 < group_cap lm g" for g using caps by (cases g) simp_all
  then have fair: "sl_budget lm \<le> length (serve lm ?gs [])"
    "\<forall>s \<in> set (serve lm ?gs []). \<exists>us vs. ?gs = us @ g # vs \<and> (\<exists>h \<in> set us. s \<in> set (group_rows h))"
    using serve_fair [of ?gs lm g "[]"] g(1) rows(2) [OF g(1)] unserved by auto
  have "\<forall>g \<in> set ?gs. distinct (map dv_id (group_rows g))"
    using rows(1) candidates_distinct [OF ids] by (simp add: distinct_map_filter)
  with serve_sound [of ?gs "[]" lm] fair(1) have "length sel = sl_budget lm" by (simp add: set_sel)
  moreover have "\<exists>h \<in> set ?cs. dv_createdAt c \<le> dv_createdAt h \<and> same_group s h" if "s \<in> set sel" for s
  proof -
    from that fair(2) obtain us vs h where h: "?gs = us @ g # vs" "h \<in> set us" "s \<in> set (group_rows h)"
      unfolding set_sel by blast
    then have hg: "h \<in> set ?gs" by simp
    obtain x where x: "x \<in> set ?cs" "group_key h x" "dv_createdAt x = group_time h"
      using group_time_newest [OF good candidates_sorted hg h(3)] by blast
    have "dv_createdAt c \<le> group_time g" using group_time_newest [OF good candidates_sorted g] by blast
    also have "\<dots> \<le> dv_createdAt x" using earlier_group_newer [OF h(1,2)] x(3) by simp
    finally have "dv_createdAt c \<le> dv_createdAt x" .
    moreover have "group_key h s" using h(3) rows(1) [OF hg] by simp
    ultimately show ?thesis using x(1,2) same_group_key by blast
  qed
  ultimately show ?thesis by blast
qed

section \<open>A small store\<close>

definition sample_wp :: "string \<Rightarrow> work_pack_row" where
  "sample_wp i = \<lparr> wp_id = i, wp_slug = i, wp_status = ''open'', wp_lastActivityAt = None, wp_latestContextPackId = None \<rparr>"

definition linked_pack :: "string \<Rightarrow> string option \<Rightarrow> int \<Rightarrow> pack_row" where
  "linked_pack i w t = (sample_pack i Agent [65])\<lparr>pk_workPackId := w, pk_createdAt := t\<rparr>"

definition linked_store :: pack_store where
  "linked_store = (sample_store [linked_pack ''1'' (Some ''A'') 5, linked_pack ''2'' (Some ''A'') 4,
     linked_pack ''3'' (Some ''A'') 3, linked_pack ''4'' None 2, linked_pack ''5'' None 1])
     \<lparr>st_workPacks := [sample_wp ''A'', sample_wp ''B'']\<rparr>"

definition linked_rows :: "pack_link_row list" where
  "linked_rows = [\<lparr> pl_workPackId = ''B'', pl_contextPackId = ''3'' \<rparr>]"

text \<open>A pack that one Work Pack's note counts as hidden may be shown all the same, through another Work
  Pack: here the third pack is both.\<close>

lemma hidden_pack_is_shown:
  "map dv_id (fst (selectDiversifiedRecentContextPacks default_limits linked_store linked_rows ''p'')) =
     [''1'', ''2'', ''3'', ''4''] \<and>
   snd (selectDiversifiedRecentContextPacks default_limits linked_store linked_rows ''p'') = [(''A'', 1)]"
  by code_simp

lemma linked_ids: "distinct (map pk_id (st_packs linked_store))"
  by code_simp

lemma tight_selection:
  "(\<exists>c \<in> set (fetchDiversificationCandidates linked_store linked_rows ''p'' 50). dv_id c = ''4'' \<and>
     (\<forall>s \<in> set (fst (selectDiversifiedRecentContextPacks (default_limits\<lparr>sl_budget := 1\<rparr>) linked_store linked_rows ''p'')).
        \<not> same_group s c))"
  by code_simp

lemma selection_fair_witness:
  "length (fst (selectDiversifiedRecentContextPacks (default_limits\<lparr>sl_budget := 1\<rparr>) linked_store linked_rows ''p'')) = 1"
proof -
  let ?lm = "default_limits\<lparr>sl_budget := 1\<rparr>"
  obtain c where c: "c \<in> set (fetchDiversificationCandidates linked_store linked_rows ''p'' (sl_fetch ?lm))"
    "\<forall>s \<in> set (fst (selectDiversifiedRecentContextPacks ?lm linked_store linked_rows ''p'')). \<not> same_group s c"
    using tight_selection by (auto simp: default_limits_def)
  show ?thesis
    using selection_fair [OF linked_ids _ _ prod.collapse [symmetric] c] by (simp add: default_limits_def)
qed

end
