(* ===== verification/Run_Binding.thy ===== *)
theory Run_Binding
  imports Coodra_Prelude "HOL-Library.AList"
begin

text \<open>
  \<open>apps/mcp-server/src/lib/run-binding.ts\<close>: which agent run a transport session serves, learned from the
  tool calls that name it.  The map is an association list in insertion order, oldest first.
\<close>

datatype binding_source = FromOutput | FromInput

definition RUN_BINDING_SOURCES :: "(string \<times> binding_source) list" where
  "RUN_BINDING_SOURCES = [(''get_run_id'', FromOutput), (''record_decision'', FromInput),
     (''save_context_pack'', FromInput)]"

definition MAX_TRACKED_SESSIONS :: nat where
  "MAX_TRACKED_SESSIONS = 512"

type_synonym bindings = "(string \<times> string) list"

definition readStringField :: "js \<Rightarrow> string \<Rightarrow> string option" where
  "readStringField source field =
     (if js_is_record source then as_nonempty (js_get source field) else None)"

definition succeeded :: "js \<Rightarrow> bool" where
  "succeeded result = (js_is_record result \<and> js_get result ''ok'' \<noteq> Some (JBool False))"

text \<open>\<open>delete\<close>, \<open>set\<close>, and the eviction loop, which drops entries from the front while there are too many.\<close>

definition bind_session :: "string \<Rightarrow> string \<Rightarrow> bindings \<Rightarrow> bindings" where
  "bind_session s r m = filter (\<lambda>e. fst e \<noteq> s) m @ [(s, r)]"

fun evict :: "bindings \<Rightarrow> bindings" where
  "evict m = (if MAX_TRACKED_SESSIONS < length m
              then (case m of [] \<Rightarrow> m | e # rest \<Rightarrow> evict rest) else m)"

declare evict.simps [simp del]

definition learned_run :: "string \<Rightarrow> js \<Rightarrow> js \<Rightarrow> string option" where
  "learned_run toolName input result =
     (case map_of RUN_BINDING_SOURCES toolName of
        None \<Rightarrow> None
      | Some source \<Rightarrow>
          if \<not> succeeded result then None
          else readStringField (case source of FromOutput \<Rightarrow> result | FromInput \<Rightarrow> input) ''runId'')"

definition observe :: "string \<Rightarrow> string \<Rightarrow> js \<Rightarrow> js \<Rightarrow> bindings \<Rightarrow> bindings" where
  "observe sessionId toolName input result m =
     (case learned_run toolName input result of
        None \<Rightarrow> m
      | Some runId \<Rightarrow> evict (bind_session sessionId runId m))"

definition resolve :: "string \<Rightarrow> bindings \<Rightarrow> string option" where
  "resolve sessionId m = map_of m sessionId"

section \<open>Invariants\<close>

lemma evict_drop: "evict m = drop (length m - MAX_TRACKED_SESSIONS) m"
proof (induction m rule: evict.induct)
  case (1 m)
  show ?case
  proof (cases "MAX_TRACKED_SESSIONS < length m")
    case True
    then obtain e rest where m: "m = e # rest" by (cases m) auto
    have "evict m = evict rest" using True m by (subst evict.simps) simp
    also have "\<dots> = drop (length rest - MAX_TRACKED_SESSIONS) rest" by (rule "1.IH" [OF True m])
    also have "\<dots> = drop (length m - MAX_TRACKED_SESSIONS) m" using True m by (simp add: Suc_diff_le)
    finally show ?thesis .
  qed (simp add: evict.simps)
qed

text \<open>A sequence of completed calls: session, tool, input and output of each.\<close>

type_synonym completed_call = "string \<times> string \<times> js \<times> js"

definition observe_all :: "completed_call list \<Rightarrow> bindings \<Rightarrow> bindings" where
  "observe_all calls m = foldl (\<lambda>m (s, t, i, out). observe s t i out m) m calls"

lemma observe_all_simps [simp]:
  "observe_all [] m = m" "observe_all ((s, t, i, out) # cs) m = observe_all cs (observe s t i out m)"
  "observe_all (cs @ [(s, t, i, out)]) m = observe s t i out (observe_all cs m)"
  by (simp_all add: observe_all_def)

definition binding_inv :: "bindings \<Rightarrow> bool" where
  "binding_inv m \<longleftrightarrow> distinct (map fst m) \<and> length m \<le> MAX_TRACKED_SESSIONS"

lemma bind_session_distinct: "distinct (map fst m) \<Longrightarrow> distinct (map fst (bind_session s r m))"
  by (auto simp: bind_session_def distinct_map_filter)

lemma observe_inv: "binding_inv m \<Longrightarrow> binding_inv (observe s t i out m)"
  by (auto simp: observe_def binding_inv_def evict_drop bind_session_distinct distinct_drop
      simp flip: drop_map split: option.splits)

lemma observe_all_inv: "binding_inv m \<Longrightarrow> binding_inv (observe_all cs m)"
proof (induction cs arbitrary: m)
  case (Cons c cs)
  then show ?case by (cases c) (simp add: observe_inv)
qed simp

text \<open>The run a session named last, and the sessions that named one.\<close>

definition binds :: "completed_call \<Rightarrow> (string \<times> string) option" where
  "binds c = (case c of (s, t, i, out) \<Rightarrow> map_option (\<lambda>r. (s, r)) (learned_run t i out))"

definition bind_log :: "completed_call list \<Rightarrow> (string \<times> string) list" where
  "bind_log cs = List.map_filter binds cs"

lemma bind_log_simps [simp]:
  "bind_log [] = []" "bind_log (c # cs) = (case binds c of None \<Rightarrow> bind_log cs | Some e \<Rightarrow> e # bind_log cs)"
  "bind_log (cs @ ds) = bind_log cs @ bind_log ds"
  by (simp_all add: bind_log_def map_filter_def split: option.splits)

lemma observe_binds:
  "observe s t i out m = (case binds (s, t, i, out) of None \<Rightarrow> m | Some (s', r) \<Rightarrow> evict (bind_session s' r m))"
  by (simp add: observe_def binds_def split: option.splits)

definition replay :: "(string \<times> string) list \<Rightarrow> bindings \<Rightarrow> bindings" where
  "replay l m = foldl (\<lambda>m (s, r). evict (bind_session s r m)) m l"

lemma replay_simps [simp]:
  "replay [] m = m" "replay ((s, r) # l) m = replay l (evict (bind_session s r m))"
  "replay (l @ [(s, r)]) m = evict (bind_session s r (replay l m))" "replay (l @ l') m = replay l' (replay l m)"
  by (simp_all add: replay_def)

lemma observe_all_replay: "observe_all cs m = replay (bind_log cs) m"
proof (induction cs arbitrary: m)
  case (Cons c cs)
  obtain s t i out where c: "c = (s, t, i, out)" by (cases c)
  show ?case
  proof (cases "binds c")
    case None
    with Cons.IH [of m] c show ?thesis by (simp add: observe_binds)
  next
    case (Some e)
    obtain s' r' where e: "e = (s', r')" by (cases e)
    with Some Cons.IH [of "evict (bind_session s' r' m)"] c show ?thesis by (simp add: observe_binds)
  qed
qed simp

lemma replay_inv: "binding_inv m \<Longrightarrow> binding_inv (replay l m)"
  by (induction l arbitrary: m)
    (auto simp: binding_inv_def evict_drop bind_session_distinct distinct_drop simp flip: drop_map)

text \<open>What is remembered of a session is what it named last.\<close>

lemma replay_last:
  assumes "(s, r) \<in> set (replay l [])"
  shows "\<exists>us vs. l = us @ (s, r) # vs \<and> s \<notin> fst ` set vs"
  using assms
proof (induction l rule: rev_induct)
  case (snoc e l)
  obtain s' r' where e: "e = (s', r')" by (cases e)
  from snoc.prems have "(s, r) \<in> set (bind_session s' r' (replay l []))"
    by (auto simp: e evict_drop dest: in_set_dropD)
  then consider "s = s'" "r = r'" | "(s, r) \<in> set (replay l [])" "s \<noteq> s'" by (auto simp: bind_session_def)
  then show ?case
  proof cases
    case 1
    then show ?thesis by (intro exI [of _ l] exI [of _ "[]"]) (simp add: e)
  next
    case 2
    with snoc.IH obtain us vs where "l = us @ (s, r) # vs" "s \<notin> fst ` set vs" by blast
    with 2(2) show ?thesis by (intro exI [of _ us] exI [of _ "vs @ [e]"]) (simp add: e)
  qed
qed simp

lemma evict_keeps_tail:
  assumes "Suc (length post) \<le> MAX_TRACKED_SESSIONS"
  shows "\<exists>pre'. evict (pre @ x # post) = pre' @ x # post"
proof -
  have "length (pre @ x # post) - MAX_TRACKED_SESSIONS \<le> length pre" using assms by simp
  then show ?thesis by (simp add: evict_drop)
qed

lemma bind_keeps_recent:
  assumes m: "m = pre @ (s, r) # post" "distinct (map fst m)" and "s' \<noteq> s"
    and A: "fst ` set post \<subseteq> A" "finite A" "card (insert s' A) < MAX_TRACKED_SESSIONS"
  shows "\<exists>pre' post'. evict (bind_session s' r' m) = pre' @ (s, r) # post' \<and> fst ` set post' \<subseteq> insert s' A"
proof -
  let ?post = "filter (\<lambda>e. fst e \<noteq> s') post @ [(s', r')]"
  have b: "bind_session s' r' m = filter (\<lambda>e. fst e \<noteq> s') pre @ (s, r) # ?post"
    using m(1) assms(3) by (simp add: bind_session_def)
  have "distinct (map fst post)" using m by simp
  moreover have "s' \<notin> fst ` set (filter (\<lambda>e. fst e \<noteq> s') post)" by (simp add: image_iff)
  ultimately have "distinct (map fst ?post)" by (simp add: distinct_map_filter)
  from distinct_card [OF this] have "length ?post = card (fst ` set ?post)" by (simp only: length_map set_map)
  also have "\<dots> \<le> card (insert s' A)" using A(1,2) by (intro card_mono) auto
  finally have "Suc (length ?post) \<le> MAX_TRACKED_SESSIONS" using A(3) by simp
  then obtain pre' where "evict (bind_session s' r' m) = pre' @ (s, r) # ?post"
    using evict_keeps_tail [of ?post "filter (\<lambda>e. fst e \<noteq> s') pre" "(s, r)"] by (auto simp only: b)
  moreover have "fst ` set ?post \<subseteq> insert s' A" using A(1) by auto
  ultimately show ?thesis by blast
qed

lemma replay_keeps_recent:
  assumes "m = pre @ (s, r) # post" "binding_inv m" "s \<notin> fst ` set l" "fst ` set post \<subseteq> A" "finite A"
    and "card (A \<union> fst ` set l) < MAX_TRACKED_SESSIONS"
  shows "(s, r) \<in> set (replay l m)"
  using assms
proof (induction l arbitrary: m pre post A)
  case (Cons e l)
  obtain s' r' where e: "e = (s', r')" by (cases e)
  have u: "A \<union> fst ` set (e # l) = insert s' A \<union> fst ` set l" by (auto simp: e)
  have "card (insert s' A) \<le> card (insert s' A \<union> fst ` set l)" using Cons.prems(5) by (intro card_mono) auto
  then have c: "card (insert s' A) < MAX_TRACKED_SESSIONS" using Cons.prems(6) u by simp
  obtain pre' post' where n: "evict (bind_session s' r' m) = pre' @ (s, r) # post'" "fst ` set post' \<subseteq> insert s' A"
    using bind_keeps_recent [OF Cons.prems(1) _ _ Cons.prems(4,5) c, of r'] Cons.prems(2,3)
    by (auto simp: e binding_inv_def)
  have "binding_inv (evict (bind_session s' r' m))" using replay_inv [OF Cons.prems(2), of "[e]"] by (simp add: e)
  from Cons.IH [OF n(1) this _ n(2)] Cons.prems(3,5,6) u show ?case by (simp add: e)
qed simp

lemma replay_retains:
  assumes "s \<notin> fst ` set vs" and "card (fst ` set vs) < MAX_TRACKED_SESSIONS"
  shows "(s, r) \<in> set (replay (us @ (s, r) # vs) [])"
proof -
  let ?m = "replay (us @ [(s, r)]) []"
  have "\<exists>pre. ?m = pre @ (s, r) # []"
    using evict_keeps_tail [of "[]"] by (simp add: bind_session_def MAX_TRACKED_SESSIONS_def)
  then obtain pre where "?m = pre @ (s, r) # []" ..
  moreover have "binding_inv ?m" by (rule replay_inv) (simp add: binding_inv_def)
  ultimately have "(s, r) \<in> set (replay vs ?m)"
    using assms by (intro replay_keeps_recent [where A = "{}"]) auto
  then show ?thesis by simp
qed

text \<open>Whatever calls complete, the registry remembers at most 512 sessions, once each, and for a session
  the run it named last.  It forgets a session only when 512 others have named a run since: with
  fewer, the run is still known.  Calls that fail, or of tools that only filter by run, teach it nothing.\<close>

theorem binding_remembers:
  shows "length (observe_all cs []) \<le> MAX_TRACKED_SESSIONS \<and>
    (resolve s (observe_all cs []) = Some r \<longrightarrow>
       (\<exists>us vs. bind_log cs = us @ (s, r) # vs \<and> s \<notin> fst ` set vs)) \<and>
    (\<forall>us vs. bind_log cs = us @ (s, r) # vs \<and> s \<notin> fst ` set vs \<and> card (fst ` set vs) < MAX_TRACKED_SESSIONS \<longrightarrow>
       resolve s (observe_all cs []) = Some r)"
proof -
  let ?m = "observe_all cs []"
  have inv: "binding_inv ?m" by (rule observe_all_inv) (simp add: binding_inv_def)
  then have r: "resolve s ?m = Some r \<longleftrightarrow> (s, r) \<in> set ?m"
    by (auto simp: resolve_def binding_inv_def dest: map_of_SomeD intro: map_of_is_SomeI)
  show ?thesis
    unfolding r using inv replay_last [of s r "bind_log cs"] replay_retains [of s _ r]
    by (auto simp: observe_all_replay binding_inv_def)
qed

definition sample_calls :: "completed_call list" where
  "sample_calls =
     [(''t1'', ''record_decision'', JObj [(''runId'', JStr ''r1'')], JObj [(''ok'', JBool True)]),
      (''t1'', ''query_decisions'', JObj [(''runId'', JStr ''r9'')], JObj [(''ok'', JBool True)]),
      (''t2'', ''get_run_id'', JObj [], JObj [(''runId'', JStr ''r2'')])]"

end
