(* ===== verification/Memory_Access.thy ===== *)
theory Memory_Access
  imports Dispatcher
begin

text \<open>
  What agents ask of the memory and what is shown to them:
  \<open>apps/mcp-server/src/lib/memory-access-recorder.ts\<close>, with the freshness marks of
  \<open>packages/db/src/memory-freshness.ts\<close> and the question hash of \<open>packages/shared/src/query-hash.ts\<close>.

  Parameters: \<open>stringify\<close> is \<open>JSON.stringify\<close>, \<open>jparse\<close> is \<open>JSON.parse\<close> (\<open>None\<close> when it throws), \<open>sha256\<close> the
  hash in hexadecimal.  The environment of a call gives the minted ids, the clock, which lookups
  throw and at which row the enqueue throws.
\<close>

section \<open>Freshness\<close>

datatype freshness = Unverified | Fresh | Stale

fun freshness_text :: "freshness \<Rightarrow> string" where
  "freshness_text Unverified = ''unverified''"
| "freshness_text Fresh = ''fresh''"
| "freshness_text Stale = ''stale''"

record freshness_row =
  fr_id :: string
  fr_status :: freshness
  fr_staleReason :: "string option"
  fr_commit :: "string option"
  fr_files :: "string option"
  fr_verifiedAt :: "int option"

record freshness_mark =
  fm_status :: freshness
  fm_staleReason :: "string option"
  fm_commit :: "string option"
  fm_files :: "string list option"
  fm_verifiedAt :: "int option"

definition encodeFiles :: "(js \<Rightarrow> string) \<Rightarrow> string list option \<Rightarrow> string option" where
  "encodeFiles stringify files = map_option (\<lambda>fs. stringify (JArr (map JStr fs))) files"

definition decodeVerifiedAgainstFiles :: "(string \<Rightarrow> js option) \<Rightarrow> string option \<Rightarrow> string list" where
  "decodeVerifiedAgainstFiles jparse v =
     (case v of
        None \<Rightarrow> []
      | Some s \<Rightarrow> if s = [] then [] else (case jparse s of Some (JArr vs) \<Rightarrow> js_strings vs | _ \<Rightarrow> []))"

text \<open>The update of a row of \<open>context_packs\<close> or \<open>decisions\<close>; both have the same columns.\<close>

definition mark_freshness ::
  "(js \<Rightarrow> string) \<Rightarrow> int \<Rightarrow> string \<Rightarrow> freshness_mark \<Rightarrow> freshness_row list \<Rightarrow> freshness_row list"
where
  "mark_freshness stringify now i m t =
     map (\<lambda>r. if fr_id r = i
              then r\<lparr>fr_status := fm_status m, fr_staleReason := fm_staleReason m, fr_commit := fm_commit m,
                     fr_files := encodeFiles stringify (fm_files m),
                     fr_verifiedAt := Some (seconds (nullish (fm_verifiedAt m) now))\<rparr>
              else r) t"

definition evaluateStaleness ::
  "string list \<Rightarrow> string list \<Rightarrow> string list option \<Rightarrow> freshness \<times> string option"
where
  "evaluateStaleness verifiedAgainstFiles changedFiles deletedFiles =
     (if verifiedAgainstFiles = [] then (Unverified, None)
      else
        (let deleted = set (nullish deletedFiles []);
             changed = set changedFiles;
             goneDeps = filter (\<lambda>f. f \<in> deleted) verifiedAgainstFiles in
         if goneDeps \<noteq> [] then (Stale, Some (''files_deleted:'' @ join '','' (take 5 goneDeps)))
         else
           (let changedDeps = filter (\<lambda>f. f \<in> changed) verifiedAgainstFiles in
            if changedDeps \<noteq> [] then (Stale, Some (''files_changed:'' @ join '','' (take 5 changedDeps)))
            else (Fresh, None))))"

record freshness_db =
  fd_packs :: "freshness_row list"
  fd_decisions :: "freshness_row list"

text \<open>The map of the batch; a fault leaves it empty.\<close>

definition freshnessForMemoryIds :: "bool \<Rightarrow> freshness_db \<Rightarrow> string \<Rightarrow> string list \<Rightarrow> string \<rightharpoonup> freshness" where
  "freshnessForMemoryIds fault db memoryType ids =
     (if ids = [] \<or> fault then Map.empty
      else
        (let rows = (\<lambda>t. map_of (rev (map (\<lambda>r. (fr_id r, fr_status r)) (filter (\<lambda>r. fr_id r \<in> set ids) t)))) in
         if memoryType = ''context_pack'' then rows (fd_packs db)
         else if memoryType = ''decision'' then rows (fd_decisions db)
         else Map.empty))"

section \<open>The question asked\<close>

function collapse_spaces :: "string \<Rightarrow> string" where
  "collapse_spaces [] = []"
| "collapse_spaces (c # s) =
     (if js_space c then CHR '' '' # collapse_spaces (dropWhile js_space s) else c # collapse_spaces s)"
  by pat_completeness auto
termination
  by (relation "measure length") (simp_all add: le_imp_less_Suc length_dropWhile_le)

definition normalise_question :: "string \<Rightarrow> string" where
  "normalise_question s = to_lower (collapse_spaces (trim s))"

definition hashQueryText :: "(string \<Rightarrow> string) \<Rightarrow> js option \<Rightarrow> string option" where
  "hashQueryText sha256 v =
     (case v of
        Some (JStr s) \<Rightarrow> (let n = normalise_question s in if n = [] then None else Some (sha256 n))
      | _ \<Rightarrow> None)"

definition QUERY_FIELDS :: "(string \<times> string list) list" where
  "QUERY_FIELDS = [(''search_packs_nl'', [''query'']), (''wiki_ask'', [''question'']),
     (''query_decisions'', [''query'']), (''query_decisions_by_file'', [''filePath''])]"

fun first_hash :: "(string \<Rightarrow> string) \<Rightarrow> js \<Rightarrow> string list \<Rightarrow> string option" where
  "first_hash sha256 input [] = None"
| "first_hash sha256 input (f # fs) =
     (case hashQueryText sha256 (js_get input f) of Some h \<Rightarrow> Some h | None \<Rightarrow> first_hash sha256 input fs)"

definition queryHashForTool :: "(string \<Rightarrow> string) \<Rightarrow> string \<Rightarrow> js \<Rightarrow> string option" where
  "queryHashForTool sha256 toolName input =
     (case map_of QUERY_FIELDS toolName of
        None \<Rightarrow> None
      | Some names \<Rightarrow> if js_is_record input then first_hash sha256 input names else None)"

section \<open>What a tool's answer holds\<close>

record extracted =
  ex_memoryType :: string
  ex_ids :: "string list"
  ex_bytes :: "nat list"
  ex_resultCount :: nat

definition sizeOf :: "(js \<Rightarrow> string) \<Rightarrow> js option \<Rightarrow> nat" where
  "sizeOf stringify v = (case v of None \<Rightarrow> 0 | Some x \<Rightarrow> length (stringify x))"

definition entry_id :: "string \<Rightarrow> js \<Rightarrow> string option" where
  "entry_id idKey entry = (if js_is_record entry then as_nonempty (js_get entry idKey) else None)"

definition fromArray :: "(js \<Rightarrow> string) \<Rightarrow> js \<Rightarrow> string \<Rightarrow> string \<Rightarrow> string \<Rightarrow> extracted option" where
  "fromArray stringify result field idKey memoryType =
     (case js_get result field of
        Some (JArr arr) \<Rightarrow>
          (let entries = filter (\<lambda>e. entry_id idKey e \<noteq> None) arr in
           Some \<lparr> ex_memoryType = memoryType, ex_ids = map (\<lambda>e. the (entry_id idKey e)) entries,
                  ex_bytes = map (\<lambda>e. sizeOf stringify (Some e)) entries, ex_resultCount = length arr \<rparr>)
      | _ \<Rightarrow> None)"

definition one_item :: "(js \<Rightarrow> string) \<Rightarrow> string \<Rightarrow> js option \<Rightarrow> js option \<Rightarrow> extracted option" where
  "one_item stringify memoryType i content =
     (case i of
        Some (JStr s) \<Rightarrow> Some \<lparr> ex_memoryType = memoryType, ex_ids = [s], ex_bytes = [sizeOf stringify content],
                                ex_resultCount = 1 \<rparr>
      | _ \<Rightarrow> None)"

definition read_pack_items :: "(js \<Rightarrow> string) \<Rightarrow> js \<Rightarrow> extracted option" where
  "read_pack_items stringify result =
     (if js_get result ''ok'' \<noteq> Some (JBool True) then None
      else if js_get result ''found'' \<noteq> Some (JBool True)
      then Some \<lparr> ex_memoryType = ''context_pack'', ex_ids = [], ex_bytes = [], ex_resultCount = 0 \<rparr>
      else one_item stringify ''context_pack'' (js_get result ''id'') (js_get result ''content''))"

definition recipe_items :: "(js \<Rightarrow> string) \<Rightarrow> js \<Rightarrow> extracted option" where
  "recipe_items stringify result =
     (if js_get result ''ok'' \<noteq> Some (JBool True) then None
      else one_item stringify ''recipe'' (js_get result ''slug'') (js_get result ''body''))"

definition PULL_ADAPTERS :: "(js \<Rightarrow> string) \<Rightarrow> (string \<times> (js \<Rightarrow> extracted option)) list" where
  "PULL_ADAPTERS stringify =
     [(''read_context_pack'', read_pack_items stringify),
      (''search_packs_nl'', \<lambda>r. fromArray stringify r ''packs'' ''id'' ''context_pack''),
      (''list_context_packs'', \<lambda>r. fromArray stringify r ''packs'' ''id'' ''context_pack''),
      (''query_decisions'', \<lambda>r. fromArray stringify r ''decisions'' ''id'' ''decision''),
      (''query_decisions_by_file'', \<lambda>r. fromArray stringify r ''decisions'' ''id'' ''decision''),
      (''wiki_ask'', \<lambda>r. fromArray stringify r ''results'' ''pageId'' ''wiki_page''),
      (''list_recipes'', \<lambda>r. fromArray stringify r ''features'' ''slug'' ''recipe''),
      (''get_recipe'', recipe_items stringify)]"

definition isInstrumentedPullTool :: "string \<Rightarrow> bool" where
  "isInstrumentedPullTool toolName = (map_of (PULL_ADAPTERS (\<lambda>_. [])) toolName \<noteq> None)"

section \<open>Recording a pull\<close>

record project_ref =
  pj_id :: string
  pj_slug :: string
  pj_orgId :: "string option"

definition lookupProjectBySlug :: "project_ref list \<Rightarrow> string \<Rightarrow> project_ref option" where
  "lookupProjectBySlug t slug = first_row (filter (\<lambda>p. pj_slug p = slug) t)"

record pull_args =
  pa_toolName :: string
  pa_projectSlug :: "string option"
  pa_sessionId :: string
  pa_agentType :: "string option"
  pa_output :: js
  pa_input :: js
  pa_boundRunId :: "string option"
  pa_latencyMs :: int

record recorder_env =
  mr_rowId :: "nat \<Rightarrow> string"
  mr_jobId :: "nat \<Rightarrow> string"
  mr_now :: int
  mr_projectFault :: bool
  mr_runFault :: bool
  mr_sessionFault :: bool
  mr_boundFault :: bool
  mr_freshnessFault :: bool
  mr_enqueueFault :: "nat \<Rightarrow> bool"

record memory_db =
  md_projects :: "project_ref list"
  md_runs :: "run list"
  md_freshness :: freshness_db

record attribution =
  at_runId :: "string option"
  at_projectId :: "string option"
  at_orgId :: "string option"

definition no_attribution :: attribution where
  "no_attribution = \<lparr> at_runId = None, at_projectId = None, at_orgId = None \<rparr>"

text \<open>By the project and the session, or by the session alone where the tool names no project.\<close>

definition session_attribution :: "recorder_env \<Rightarrow> memory_db \<Rightarrow> pull_args \<Rightarrow> attribution" where
  "session_attribution env db a =
     (if nullish (pa_projectSlug a) [] \<noteq> [] then
        (case lookupProjectBySlug (md_projects db) (nullish (pa_projectSlug a) []) of
           None \<Rightarrow> no_attribution
         | Some p \<Rightarrow> \<lparr> at_runId = lookupRunId (mr_runFault env) (md_runs db) (pj_id p) (pa_sessionId a),
                       at_projectId = Some (pj_id p), at_orgId = pj_orgId p \<rparr>)
      else
        (case lookupRunBySessionId (mr_sessionFault env) (md_runs db) (pa_sessionId a) of
           None \<Rightarrow> no_attribution
         | Some r \<Rightarrow> \<lparr> at_runId = Some (rf_runId r), at_projectId = Some (rf_projectId r), at_orgId = rf_orgId r \<rparr>))"

text \<open>The bound run is asked for only when that leaves no run.\<close>

definition attribute_pull :: "recorder_env \<Rightarrow> memory_db \<Rightarrow> pull_args \<Rightarrow> attribution" where
  "attribute_pull env db a =
     (let t = session_attribution env db a in
      if at_runId t = None \<and> nullish (pa_boundRunId a) [] \<noteq> [] then
        (case lookupRunById (mr_boundFault env) (md_runs db) (nullish (pa_boundRunId a) []) of
           None \<Rightarrow> t
         | Some b \<Rightarrow> \<lparr> at_runId = Some (rf_runId b), at_projectId = nullish_opt (at_projectId t) (Some (rf_projectId b)),
                       at_orgId = nullish_opt (at_orgId t) (rf_orgId b) \<rparr>)
      else t)"

record pull_item =
  pi_memoryId :: "string option"
  pi_position :: "nat option"
  pi_bytes :: "nat option"

definition pull_items :: "extracted \<Rightarrow> pull_item list" where
  "pull_items x =
     (if ex_ids x = [] then [\<lparr> pi_memoryId = None, pi_position = None, pi_bytes = None \<rparr>]
      else map (\<lambda>i. \<lparr> pi_memoryId = Some (ex_ids x ! i), pi_position = Some i,
                      pi_bytes = (if i < length (ex_bytes x) then Some (ex_bytes x ! i) else None) \<rparr>)
             [0..<length (ex_ids x)])"

definition opt_str :: "string option \<Rightarrow> js" where
  "opt_str v = (case v of None \<Rightarrow> JNull | Some s \<Rightarrow> JStr s)"

definition opt_nat :: "nat option \<Rightarrow> js" where
  "opt_nat v = (case v of None \<Rightarrow> JNull | Some n \<Rightarrow> JNum (of_nat n))"

definition pull_payload ::
  "(string \<Rightarrow> string) \<Rightarrow> recorder_env \<Rightarrow> memory_db \<Rightarrow> pull_args \<Rightarrow> extracted \<Rightarrow> nat \<Rightarrow> pull_item \<Rightarrow> js"
where
  "pull_payload sha256 env db a x i item =
     (let t = attribute_pull env db a;
          ids = List.map_filter pi_memoryId (pull_items x);
          fresh = freshnessForMemoryIds (mr_freshnessFault env) (md_freshness db) (ex_memoryType x) ids in
      JObj [(''v'', JNum 1), (''rowId'', JStr (''mae_'' @ mr_rowId env i)),
            (''resolution'', JObj [(''kind'', JStr ''pre_resolved''), (''runId'', opt_str (at_runId t))]),
            (''channel'', JStr ''pull''), (''site'', JStr (pa_toolName a)),
            (''memoryType'', JStr (ex_memoryType x)), (''triggerType'', JStr ''tool_call''),
            (''orgId'', opt_str (at_orgId t)), (''projectId'', opt_str (at_projectId t)),
            (''sessionId'', JStr (pa_sessionId a)), (''agentType'', opt_str (pa_agentType a)),
            (''memoryId'', opt_str (pi_memoryId item)), (''position'', opt_nat (pi_position item)),
            (''bytes'', opt_nat (pi_bytes item)),
            (''latencyMs'', if i = 0 then JNum (of_int (pa_latencyMs a)) else JNull),
            (''resultCount'', JNum (of_nat (ex_resultCount x))),
            (''queryHash'', opt_str (queryHashForTool sha256 (pa_toolName a) (pa_input a))),
            (''freshnessStatusAtAccess'',
               case pi_memoryId item of
                 None \<Rightarrow> JNull
               | Some m \<Rightarrow> JStr (freshness_text (nullish (fresh m) Unverified)))])"

definition pull_payloads ::
  "(string \<Rightarrow> string) \<Rightarrow> recorder_env \<Rightarrow> memory_db \<Rightarrow> pull_args \<Rightarrow> extracted \<Rightarrow> js list"
where
  "pull_payloads sha256 env db a x =
     (let items = pull_items x in map (\<lambda>i. pull_payload sha256 env db a x i (items ! i)) [0..<length items])"

text \<open>The jobs in turn; the first enqueue that throws ends the call.  The flag says that all went in.\<close>

fun enqueue_from ::
  "(js \<Rightarrow> string) \<Rightarrow> recorder_env \<Rightarrow> nat \<Rightarrow> js list \<Rightarrow> job list \<Rightarrow> bool \<times> job list"
where
  "enqueue_from stringify env i [] t = (True, t)"
| "enqueue_from stringify env i (p # ps) t =
     (if mr_enqueueFault env i then (False, t)
      else
        (case scheduleDurableWrite stringify (mr_jobId env i) (mr_now env)
                \<lparr> da_queue = ''memory_access'', da_payload = p, da_id = None, da_runAfter = None \<rparr> t of
           Inl _ \<Rightarrow> (False, t)
         | Inr (_, t') \<Rightarrow> enqueue_from stringify env (Suc i) ps t'))"

record recorder =
  rc_misses :: nat
  rc_jobs :: "job list"
  rc_kicks :: nat

definition recordPull ::
  "(js \<Rightarrow> string) \<Rightarrow> (string \<Rightarrow> string) \<Rightarrow> recorder_env \<Rightarrow> memory_db \<Rightarrow> pull_args \<Rightarrow> recorder \<Rightarrow>
   (string + unit) \<times> recorder"
where
  "recordPull stringify sha256 env db a rc =
     (case map_of (PULL_ADAPTERS stringify) (pa_toolName a) of
        None \<Rightarrow> (Inr (), rc)
      | Some adapter \<Rightarrow>
          (case adapter (pa_output a) of
             None \<Rightarrow> (Inr (), rc)
           | Some x \<Rightarrow>
               if mr_projectFault env \<and> nullish (pa_projectSlug a) [] \<noteq> []
               then (Inl ''project lookup failed'', rc)
               else
                 (let missed = (at_runId (attribute_pull env db a) = None);
                      (complete, jobs) = enqueue_from stringify env 0 (pull_payloads sha256 env db a x) (rc_jobs rc)
                  in (Inr (), rc\<lparr>rc_misses := (if missed then rc_misses rc + 1 else rc_misses rc),
                                 rc_jobs := jobs,
                                 rc_kicks := (if complete then rc_kicks rc + 1 else rc_kicks rc)\<rparr>))))"

section \<open>Recording a push\<close>

record push_item =
  sh_memoryType :: string
  sh_memoryId :: string
  sh_position :: nat
  sh_bytes :: nat

record push_args =
  ph_site :: string
  ph_triggerType :: string
  ph_sessionId :: string
  ph_runId :: "string option"
  ph_projectId :: "string option"
  ph_orgId :: "string option"
  ph_agentType :: "string option"
  ph_idempotencyKey :: string
  ph_baselineGeneration :: "int option"
  ph_items :: "push_item list"

definition push_payload :: "recorder_env \<Rightarrow> memory_db \<Rightarrow> push_args \<Rightarrow> nat \<Rightarrow> push_item \<Rightarrow> js" where
  "push_payload env db a i item =
     (let ofType = map sh_memoryId (filter (\<lambda>x. sh_memoryType x = sh_memoryType item) (ph_items a));
          fresh = freshnessForMemoryIds (mr_freshnessFault env) (md_freshness db) (sh_memoryType item) ofType in
      JObj ([(''v'', JNum 1),
             (''rowId'', JStr (''mae_'' @ ph_idempotencyKey a @ ''_'' @ sh_memoryType item @ ''_'' @ nat_digits i)),
             (''resolution'', JObj [(''kind'', JStr ''pre_resolved''), (''runId'', opt_str (ph_runId a))]),
             (''channel'', JStr ''push''), (''site'', JStr (ph_site a)),
             (''memoryType'', JStr (sh_memoryType item)), (''triggerType'', JStr (ph_triggerType a)),
             (''orgId'', opt_str (ph_orgId a)), (''projectId'', opt_str (ph_projectId a)),
             (''sessionId'', JStr (ph_sessionId a)), (''agentType'', opt_str (ph_agentType a)),
             (''memoryId'', JStr (sh_memoryId item)), (''position'', JNum (of_nat (sh_position item))),
             (''bytes'', JNum (of_nat (sh_bytes item))),
             (''resultCount'', JNum (of_nat (length (ph_items a)))),
             (''freshnessStatusAtAccess'',
                JStr (freshness_text (nullish (fresh (sh_memoryId item)) Unverified)))] @
            (case ph_baselineGeneration a of None \<Rightarrow> [] | Some g \<Rightarrow> [(''baselineGeneration'', JNum (of_int g))])))"

definition recordPush ::
  "(js \<Rightarrow> string) \<Rightarrow> recorder_env \<Rightarrow> memory_db \<Rightarrow> push_args \<Rightarrow> recorder \<Rightarrow> recorder"
where
  "recordPush stringify env db a rc =
     (let items = ph_items a;
          payloads = map (\<lambda>i. push_payload env db a i (items ! i)) [0..<length items];
          (complete, jobs) = enqueue_from stringify env 0 payloads (rc_jobs rc)
      in rc\<lparr>rc_jobs := jobs, rc_kicks := (if complete then rc_kicks rc + 1 else rc_kicks rc)\<rparr>)"

section \<open>From the pull to the log\<close>

text \<open>The row the dispatcher writes for an item; the log has no room for empty strings.\<close>

definition nonempty :: "string option \<Rightarrow> string option" where
  "nonempty v = (if v = Some [] then None else v)"

definition pull_row ::
  "(string \<Rightarrow> string) \<Rightarrow> recorder_env \<Rightarrow> memory_db \<Rightarrow> pull_args \<Rightarrow> extracted \<Rightarrow> nat \<Rightarrow> pull_item \<Rightarrow> memory_access"
where
  "pull_row sha256 env db a x i item =
     (let t = attribute_pull env db a;
          fresh = freshnessForMemoryIds (mr_freshnessFault env) (md_freshness db) (ex_memoryType x)
                    (List.map_filter pi_memoryId (pull_items x)) in
      \<lparr> ma_id = ''mae_'' @ mr_rowId env i, ma_orgId = nonempty (at_orgId t), ma_projectId = nonempty (at_projectId t),
        ma_runId = at_runId t, ma_sessionId = nonempty (Some (pa_sessionId a)), ma_actorUserId = None,
        ma_agentType = nonempty (pa_agentType a), ma_runEventId = None, ma_channel = ''pull'',
        ma_site = pa_toolName a, ma_memoryType = ex_memoryType x, ma_memoryId = nonempty (pi_memoryId item),
        ma_position = map_option int (pi_position item), ma_bytes = map_option int (pi_bytes item),
        ma_latencyMs = (if i = 0 then Some (pa_latencyMs a) else None), ma_triggerType = ''tool_call'',
        ma_queryHash = nonempty (queryHashForTool sha256 (pa_toolName a) (pa_input a)),
        ma_triggerTextHash = None, ma_resultCount = Some (int (ex_resultCount x)),
        ma_freshnessStatusAtAccess =
          map_option (\<lambda>m. freshness_text (nullish (fresh m) Unverified)) (pi_memoryId item),
        ma_baselineGeneration = 0 \<rparr>)"

lemma optional_strings [simp]:
  "optionalString (Some (opt_str v)) = nonempty v" "optionalString (Some (JStr s)) = nonempty (Some s)"
  "optionalString None = None" "optionalString (Some JNull) = None"
  by (auto simp: optionalString_def opt_str_def nonempty_def as_nonempty_def split: option.splits)

lemma optional_ints [simp]:
  "optionalInteger (Some (JNum (of_int n))) = Some n" "optionalInteger (Some (JNum (of_nat k))) = Some (int k)"
  "optionalInteger (Some (opt_nat v)) = map_option int v"
  "optionalInteger None = None" "optionalInteger (Some JNull) = None"
  by (auto simp: optionalInteger_def trunc_def opt_nat_def split: option.splits)

lemma resolution_pre [simp]:
  "readResolution (Some (JObj [(''kind'', JStr ''pre_resolved''), (''runId'', opt_str r)])) = Some (PreResolved r)"
  by (simp add: readResolution_def opt_str_def split: option.splits)

lemma nonempty_None [simp]: "nonempty None = None"
  by (simp add: nonempty_def)

lemma nonempty_freshness [simp]: "nonempty (Some (freshness_text f)) = Some (freshness_text f)"
  by (cases f) (simp_all add: nonempty_def)

lemma parse_pull_payload:
  "parse_memory_access (pull_payload sha256 env db a x i item) =
     Inr (WriteMemoryAccess (PreResolved (at_runId (attribute_pull env db a)))
       ((pull_row sha256 env db a x i item)\<lparr>ma_runId := None\<rparr>))"
  by (simp add: parse_memory_access_def pull_payload_def pull_row_def Let_def as_string_def split: option.split)

definition access_job :: "(js \<Rightarrow> string) \<Rightarrow> recorder_env \<Rightarrow> nat \<Rightarrow> js \<Rightarrow> job" where
  "access_job stringify env i p = new_job stringify (mr_jobId env i) (mr_now env)
     \<lparr> da_queue = ''memory_access'', da_payload = p, da_id = None, da_runAfter = None \<rparr>"

lemma enqueue_all:
  assumes "\<forall>i. \<not> mr_enqueueFault env i" and "inj (mr_jobId env)" and "\<forall>i \<ge> k. mr_jobId env i \<notin> jb_id ` set t"
  shows "enqueue_from stringify env k ps t =
     (True, t @ map (\<lambda>i. access_job stringify env (k + i) (ps ! i)) [0..<length ps])"
  using assms(3)
proof (induction ps arbitrary: k t)
  case (Cons p ps)
  have fresh: "mr_jobId env k \<notin> jb_id ` set t" using Cons.prems by simp
  let ?t = "t @ [access_job stringify env k p]"
  have "\<forall>i \<ge> Suc k. mr_jobId env i \<notin> jb_id ` set ?t"
    using Cons.prems assms(2) by (auto simp: access_job_def new_job_def dest: injD)
  from Cons.IH [OF this] fresh assms(1)
  have "enqueue_from stringify env k (p # ps) t =
      (True, ?t @ map (\<lambda>i. access_job stringify env (Suc k + i) (ps ! i)) [0..<length ps])"
    by (simp add: scheduleDurableWrite_def insertJob_def insert_or_ignore_def access_job_def new_job_def Let_def)
  moreover have "map (\<lambda>i. access_job stringify env (k + i) ((p # ps) ! i)) [0..<length (p # ps)] =
      access_job stringify env k p # map (\<lambda>i. access_job stringify env (Suc k + i) (ps ! i)) [0..<length ps]"
    by (simp add: upt_conv_Cons del: upt_Suc flip: map_Suc_upt)
  ultimately show ?case by simp
qed simp

text \<open>The dispatcher on a list of payloads of the queue.\<close>

definition deliver_accesses ::
  "(string \<Rightarrow> int option) \<Rightarrow> (js option \<Rightarrow> string) \<Rightarrow> dispatch_env \<Rightarrow> js list \<Rightarrow> destination \<Rightarrow> destination"
where
  "deliver_accesses date_ms vshow env ps d =
     foldl (\<lambda>d p. snd (dispatchOutboxJob date_ms vshow env
       \<lparr> oj_id = [], oj_queue = ''memory_access'', oj_payload = p, oj_attempts = 1 \<rparr> d)) d ps"

lemma deliver_pull:
  assumes "dn_fault dv = None" and "''mae_'' @ mr_rowId env i \<notin> ma_id ` set (de_memoryAccess d)"
  shows "snd (dispatchOutboxJob date_ms vshow dv
      \<lparr> oj_id = [], oj_queue = ''memory_access'', oj_payload = pull_payload sha256 env db a x i item, oj_attempts = 1 \<rparr> d) =
    d\<lparr>de_memoryAccess := de_memoryAccess d @ [pull_row sha256 env db a x i item]\<rparr>"
proof -
  have rec: "js_is_record (pull_payload sha256 env db a x i item)"
    "js_get (pull_payload sha256 env db a x i item) ''v'' = Some (JNum 1)"
    by (simp_all add: pull_payload_def Let_def)
  have i: "ma_id (pull_row sha256 env db a x i item) = ''mae_'' @ mr_rowId env i"
    by (simp add: pull_row_def Let_def)
  have r: "(pull_row sha256 env db a x i item)\<lparr>ma_runId := at_runId (attribute_pull env db a)\<rparr> = pull_row sha256 env db a x i item"
    by (simp add: pull_row_def Let_def)
  show ?thesis
    using assms rec i r
    by (simp add: dispatchOutboxJob_def parse_payload_def parse_pull_payload perform_def Let_def resolveRunId_def
        insertMemoryAccessEvent_def insert_or_ignore_def)
qed

lemma deliver_pulls:
  assumes "dn_fault dv = None" and "inj (mr_rowId env)"
    and "\<forall>i \<in> set is. ''mae_'' @ mr_rowId env i \<notin> ma_id ` set (de_memoryAccess d)" and "distinct is"
  shows "deliver_accesses date_ms vshow dv (map (\<lambda>i. pull_payload sha256 env db a x i (f i)) is) d =
    d\<lparr>de_memoryAccess := de_memoryAccess d @ map (\<lambda>i. pull_row sha256 env db a x i (f i)) is\<rparr>"
  using assms(3,4)
proof (induction "is" arbitrary: d)
  case (Cons i "is")
  let ?d = "d\<lparr>de_memoryAccess := de_memoryAccess d @ [pull_row sha256 env db a x i (f i)]\<rparr>"
  have "ma_id (pull_row sha256 env db a x i (f i)) = ''mae_'' @ mr_rowId env i" by (simp add: pull_row_def Let_def)
  then have "\<forall>j \<in> set is. ''mae_'' @ mr_rowId env j \<notin> ma_id ` set (de_memoryAccess ?d)"
    using Cons.prems assms(2) by (auto dest: injD)
  from Cons.IH [OF this] Cons.prems deliver_pull [OF assms(1), of env i d] show ?case
    by (simp add: deliver_accesses_def)
qed (simp add: deliver_accesses_def)

text \<open>A pull is logged whole: one job per item found (one job if nothing was found), and their delivery
  adds exactly one row for each to the access log, at its rank, with the run the call was attributed
  to; only the first carries the latency.\<close>

theorem pull_is_logged:
  assumes found: "map_of (PULL_ADAPTERS stringify) (pa_toolName a) = Some adapter" "adapter (pa_output a) = Some x"
    and env: "\<not> mr_projectFault env" "\<forall>i. \<not> mr_enqueueFault env i" "inj (mr_jobId env)" "inj (mr_rowId env)"
    and fresh: "\<forall>i. mr_jobId env i \<notin> jb_id ` set (rc_jobs rc)"
      "\<forall>i. ''mae_'' @ mr_rowId env i \<notin> ma_id ` set (de_memoryAccess d)"
    and dv: "dn_fault dv = None"
  shows "\<exists>ps rows. rc_jobs (snd (recordPull stringify sha256 env db a rc)) =
      rc_jobs rc @ map (\<lambda>i. access_job stringify env i (ps ! i)) [0..<length ps] \<and>
    deliver_accesses date_ms vshow dv ps d = d\<lparr>de_memoryAccess := de_memoryAccess d @ rows\<rparr> \<and>
    length ps = max 1 (length (ex_ids x)) \<and> length rows = length ps \<and>
    (\<forall>i < length rows. ma_runId (rows ! i) = at_runId (attribute_pull env db a) \<and>
       ma_position (rows ! i) = (if ex_ids x = [] then None else Some (int i)) \<and>
       (ma_latencyMs (rows ! i) = None \<longleftrightarrow> 0 < i))"
proof -
  let ?items = "pull_items x"
  let ?ps = "pull_payloads sha256 env db a x"
  let ?rows = "map (\<lambda>i. pull_row sha256 env db a x i (?items ! i)) [0..<length ?items]"
  have len: "length ?items = max 1 (length (ex_ids x))"
    by (cases "ex_ids x") (auto simp: pull_items_def)
  have pos: "pi_position (?items ! i) = (if ex_ids x = [] then None else Some i)" if "i < length ?items" for i
    using that by (auto simp: pull_items_def split: if_splits)
  have "rc_jobs (snd (recordPull stringify sha256 env db a rc)) =
      rc_jobs rc @ map (\<lambda>i. access_job stringify env i (?ps ! i)) [0..<length ?ps]"
    using enqueue_all [OF env(2,3), of 0 "rc_jobs rc" stringify ?ps] fresh(1) found env(1)
    by (simp add: recordPull_def Let_def)
  moreover have "deliver_accesses date_ms vshow dv ?ps d = d\<lparr>de_memoryAccess := de_memoryAccess d @ ?rows\<rparr>"
    unfolding pull_payloads_def Let_def using deliver_pulls [OF dv env(4)] fresh(2) by simp
  ultimately show ?thesis
    using len pos
    by (intro exI [of _ ?ps] exI [of _ ?rows])
      (simp add: pull_payloads_def Let_def pull_row_def map_nth)
qed

definition sample_recorder_env :: recorder_env where
  "sample_recorder_env = \<lparr> mr_rowId = (\<lambda>i. replicate i CHR ''r''), mr_jobId = (\<lambda>i. replicate i CHR ''j''), mr_now = 5000,
     mr_projectFault = False, mr_runFault = False, mr_sessionFault = False, mr_boundFault = False,
     mr_freshnessFault = False, mr_enqueueFault = (\<lambda>_. False) \<rparr>"

definition sample_pull :: pull_args where
  "sample_pull = \<lparr> pa_toolName = ''query_decisions'', pa_projectSlug = Some ''p'', pa_sessionId = ''s'', pa_agentType = None,
     pa_output = JObj [(''decisions'', JArr [JObj [(''id'', JStr ''d1'')], JObj [(''id'', JStr ''d2'')]])],
     pa_input = JNull, pa_boundRunId = None, pa_latencyMs = 7 \<rparr>"

definition empty_memory :: memory_db where
  "empty_memory = \<lparr> md_projects = [], md_runs = [], md_freshness = \<lparr> fd_packs = [], fd_decisions = [] \<rparr> \<rparr>"

lemma replicate_inj: "inj (\<lambda>i. replicate i c)"
  by (auto simp: inj_def dest: arg_cong [where f = length])

text \<open>C16: A pull is never attributed to a run on a guess: the run named is a row of the run table that
  carries the caller's session id, or the one this connection is bound to.\<close>

theorem attribution_is_evidence:
  assumes "at_runId (attribute_pull env db a) = Some r"
  shows "\<exists>run \<in> set (md_runs db). rn_id run = r \<and> (rn_sessionId run = pa_sessionId a \<or> pa_boundRunId a = Some r)"
proof -
  have session: "\<exists>run \<in> set (md_runs db). rn_id run = r \<and> rn_sessionId run = pa_sessionId a"
    if "at_runId (session_attribution env db a) = Some r"
    using that
    by (auto simp: session_attribution_def no_attribution_def lookupRunId_def lookupRunBySessionId_def run_ref_of_def
        run_session_def dest!: first_row_in split: if_splits option.splits)
  show ?thesis
  proof (cases "at_runId (session_attribution env db a)")
    case (Some r')
    with assms session show ?thesis by (auto simp: attribute_pull_def Let_def)
  next
    case None
    with assms obtain b where "lookupRunById (mr_boundFault env) (md_runs db) (nullish (pa_boundRunId a) []) = Some b"
      "rf_runId b = r" "nullish (pa_boundRunId a) [] \<noteq> []"
      by (auto simp: attribute_pull_def Let_def split: if_splits option.splits)
    then show ?thesis
      by (cases "pa_boundRunId a")
        (auto simp: lookupRunById_def run_ref_of_def dest!: first_row_in split: if_splits)
  qed
qed

definition one_run_memory :: memory_db where
  "one_run_memory = empty_memory\<lparr>md_runs := [run_row 1 (sample_run_args ''r1'' ''t'')]\<rparr>"

lemma attribution_is_evidence_witness:
  "\<exists>run \<in> set (md_runs one_run_memory). rn_id run = ''r1'' \<and>
     (rn_sessionId run = ''s'' \<or> pa_boundRunId (sample_pull\<lparr>pa_boundRunId := Some ''r1''\<rparr>) = Some ''r1'')"
proof -
  have "at_runId (attribute_pull sample_recorder_env one_run_memory (sample_pull\<lparr>pa_boundRunId := Some ''r1''\<rparr>)) = Some ''r1''"
    by (simp add: attribute_pull_def session_attribution_def no_attribution_def lookupProjectBySlug_def lookupRunById_def
        Let_def first_row_def one_run_memory_def empty_memory_def sample_pull_def sample_recorder_env_def run_row_def sample_run_args_def run_ref_of_def)
  from attribution_is_evidence [OF this] show ?thesis by (simp add: sample_pull_def)
qed

section \<open>From the push to the log\<close>

lemma parse_push_payload:
  "\<exists>row. parse_memory_access (push_payload env db a i item) = Inr (WriteMemoryAccess (PreResolved (ph_runId a)) row) \<and>
     ma_channel row = ''push'' \<and> ma_memoryType row = sh_memoryType item \<and>
     ma_memoryId row = nonempty (Some (sh_memoryId item)) \<and>
     ma_baselineGeneration row = nullish (ph_baselineGeneration a) 0"
  by (cases "ph_baselineGeneration a")
    (simp_all add: parse_memory_access_def push_payload_def Let_def as_string_def)

end
