(* ===== verification/Tool_Registry.thy ===== *)
theory Tool_Registry
  imports Run_Binding Memory_Access "HOL-Library.List_Lexorder" "HOL-Library.Multiset"
begin

text \<open>
  The tool framework of the MCP server, \<open>apps/mcp-server/src/framework/tool-registry.ts\<close> with
  \<open>idempotency.ts\<close>: what a tool must satisfy to be registered, aliases, and \<open>handleCall\<close>, the pipeline
  every tool call goes through.

  Zod is a parameter: a schema is its \<open>safeParse\<close>, which answers with issues or with the parsed value.
  So are the handlers: a handler reads its input and its context, may change a world of type \<open>'s\<close>, and
  throws or answers.  The environment of a call gives the clock, the minted request id and the answers
  of the policy client.  What the call asks of the other components is kept in a log, in order.
\<close>

section \<open>Tools\<close>

datatype idem_kind = ReadonlyKey | MutatingKey

record idem_key =
  ik_kind :: idem_kind
  ik_key :: string

record call_ctx =
  cx_toolName :: string
  cx_sessionId :: string
  cx_requestId :: string
  cx_receivedAt :: int
  cx_idempotencyKey :: idem_key
  cx_agentType :: string
  cx_identity :: "string option"

record 's tool =
  tl_name :: string
  tl_title :: "string option"
  tl_description :: string
  tl_input :: "js \<Rightarrow> js + js"
  tl_output :: "js \<Rightarrow> js + js"
  tl_jsonSchema :: js
  tl_idempotencyKey :: "js \<Rightarrow> string \<Rightarrow> int \<Rightarrow> string + idem_key"
  tl_handler :: "js \<Rightarrow> call_ctx \<Rightarrow> 's \<Rightarrow> (string + js) \<times> 's"

text \<open>What is registered: beside the above, the shape of the schemas and the arities of the functions.\<close>

record 's registration =
  rg_tool :: "'s tool"
  rg_inputIsObject :: bool
  rg_outputGiven :: bool
  rg_handlerArity :: nat
  rg_builderArity :: nat
  rg_manifest :: "string + js"

datatype register_error =
    InvalidName
  | AlreadyRegistered
  | ShortDescription
  | InputNotObject
  | OutputMissing
  | HandlerArity
  | BuilderArity
  | BuilderThrew string
  | InvalidKey
  | ManifestThrew string
  | NotRegistered
  | AliasCollides

text \<open>\<open>/^[a-z][a-z0-9_]{2,63}$/\<close>\<close>

definition tool_name :: "string \<Rightarrow> bool" where
  "tool_name s =
     (case s of
        [] \<Rightarrow> False
      | c # cs \<Rightarrow> capability_start c \<and> list_all (\<lambda>d. capability_start d \<or> is_digit d \<or> d = CHR ''_'') cs \<and>
                   2 \<le> length cs \<and> length cs \<le> 63)"

definition MIN_DESCRIPTION_LENGTH :: nat where
  "MIN_DESCRIPTION_LENGTH = 200"

definition probeFor :: "(js \<Rightarrow> js + js) \<Rightarrow> js" where
  "probeFor schema = (case schema (JObj []) of Inl _ \<Rightarrow> JObj [] | Inr v \<Rightarrow> v)"

definition assertIdempotencyKeyBuilder ::
  "nat \<Rightarrow> (js \<Rightarrow> string \<Rightarrow> int \<Rightarrow> string + idem_key) \<Rightarrow> js \<Rightarrow> register_error option"
where
  "assertIdempotencyKeyBuilder arity builder probe =
     (if arity < 1 \<or> 2 < arity then Some BuilderArity
      else (case builder probe ''probe_session'' 0 of
              Inl e \<Rightarrow> Some (BuilderThrew e)
            | Inr k \<Rightarrow> if ik_key k = [] \<or> 200 < length (ik_key k) then Some InvalidKey else None))"

record 's registry =
  ry_tools :: "(string \<times> 's tool) list"
  ry_aliases :: "(string \<times> string) list"

definition assertValid :: "'s registration \<Rightarrow> 's registry \<Rightarrow> register_error option" where
  "assertValid reg ry =
     (let t = rg_tool reg in
      if \<not> tool_name (tl_name t) then Some InvalidName
      else if map_of (ry_tools ry) (tl_name t) \<noteq> None then Some AlreadyRegistered
      else if length (tl_description t) < MIN_DESCRIPTION_LENGTH then Some ShortDescription
      else if \<not> rg_inputIsObject reg then Some InputNotObject
      else if \<not> rg_outputGiven reg then Some OutputMissing
      else if rg_handlerArity reg \<noteq> 2 then Some HandlerArity
      else assertIdempotencyKeyBuilder (rg_builderArity reg) (tl_idempotencyKey t) (probeFor (tl_input t)))"

definition register :: "'s registration \<Rightarrow> 's registry \<Rightarrow> register_error + 's registry" where
  "register reg ry =
     (case assertValid reg ry of
        Some e \<Rightarrow> Inl e
      | None \<Rightarrow>
          (case rg_manifest reg of
             Inl e \<Rightarrow> Inl (ManifestThrew e)
           | Inr schema \<Rightarrow>
               Inr (ry\<lparr>ry_tools := AList.update (tl_name (rg_tool reg)) ((rg_tool reg)\<lparr>tl_jsonSchema := schema\<rparr>)
                                     (ry_tools ry)\<rparr>)))"

definition registerAlias :: "string \<Rightarrow> string \<Rightarrow> 's registry \<Rightarrow> register_error + 's registry" where
  "registerAlias alias target ry =
     (if \<not> tool_name alias then Inl InvalidName
      else if map_of (ry_tools ry) target = None then Inl NotRegistered
      else if map_of (ry_tools ry) alias \<noteq> None then Inl AliasCollides
      else Inr (ry\<lparr>ry_aliases := AList.update alias target (ry_aliases ry)\<rparr>))"

definition resolveName :: "'s registry \<Rightarrow> string \<Rightarrow> string" where
  "resolveName ry name = nullish (map_of (ry_aliases ry) name) name"

text \<open>\<open>localeCompare\<close> on tool names: the underscore before digits, digits before letters.\<close>

definition collation :: "string \<Rightarrow> nat list" where
  "collation s = map (\<lambda>c. if c = CHR ''_'' then 0 else of_char c) s"

definition list_tools :: "'s registry \<Rightarrow> (string \<times> string option \<times> string \<times> js) list" where
  "list_tools ry =
     sort_key (\<lambda>e. collation (fst e))
       (map (\<lambda>(_, t). (tl_name t, tl_title t, tl_description t, tl_jsonSchema t)) (ry_tools ry))"

definition has_tool :: "'s registry \<Rightarrow> string \<Rightarrow> bool" where
  "has_tool ry name = (map_of (ry_tools ry) name \<noteq> None \<or> map_of (ry_aliases ry) name \<noteq> None)"

definition registry_size :: "'s registry \<Rightarrow> nat" where
  "registry_size ry = length (ry_tools ry)"

section \<open>A call\<close>

datatype phase = PrePhase | PostPhase

record gate_result =
  gt_decision :: policy_decision
  gt_reason :: string
  gt_matchedRuleId :: "string option"

datatype call_error =
    ToolNotFound string
  | InvalidSession string
  | InvalidInput string js
  | KeyBuildFailed string string
  | PolicyDenied string string "string option"
  | HandlerThrew string string
  | OutputInvalid string js

datatype call_reply =
    Refused call_error
  | Answered js js

datatype call_effect =
    PolicyAsked phase
  | HandlerRun call_ctx js
  | EventRecorded string string string idem_key js js
  | PullRecorded pull_args

record 's server =
  sv_world :: 's
  sv_bindings :: bindings
  sv_log :: "call_effect list"

record call_env =
  cv_receivedAt :: int
  cv_requestId :: string
  cv_policy :: "phase \<Rightarrow> string \<Rightarrow> string \<Rightarrow> idem_key \<Rightarrow> js \<Rightarrow> string + gate_result"
  cv_latencyMs :: int
  cv_recordsPulls :: bool

record call_options =
  co_requestId :: "string option"
  co_agentType :: string
  co_identity :: "string option"

definition log_effect :: "call_effect \<Rightarrow> 's server \<Rightarrow> 's server" where
  "log_effect e sv = sv\<lparr>sv_log := sv_log sv @ [e]\<rparr>"

text \<open>A policy client that throws is taken for an allowance.\<close>

definition gate_of :: "string + gate_result \<Rightarrow> gate_result" where
  "gate_of r = (case r of
      Inl _ \<Rightarrow> \<lparr> gt_decision = Allow, gt_reason = ''policy_check_unavailable'', gt_matchedRuleId = None \<rparr>
    | Inr g \<Rightarrow> g)"

definition text_output :: "js \<Rightarrow> js" where
  "text_output d =
     (case js_get d ''hookOutput'' of
        Some h \<Rightarrow> if js_typeof_object h \<and> h \<noteq> JNull then h
                  else JObj [(''ok'', JBool True), (''data'', d)]
      | None \<Rightarrow> JObj [(''ok'', JBool True), (''data'', d)])"

text \<open>What follows a validated answer.\<close>

definition record_event :: "string \<Rightarrow> string \<Rightarrow> idem_key \<Rightarrow> js \<Rightarrow> js \<Rightarrow> 's server \<Rightarrow> 's server" where
  "record_event name sessionId key input data sv =
     (case as_nonempty (js_get input ''runId'') of
        None \<Rightarrow> sv
      | Some r \<Rightarrow> log_effect (EventRecorded r (''coodra__'' @ name) sessionId key input data) sv)"

definition record_pull :: "call_env \<Rightarrow> string \<Rightarrow> string \<Rightarrow> string \<Rightarrow> js \<Rightarrow> js \<Rightarrow> 's server \<Rightarrow> 's server" where
  "record_pull env name sessionId agentType input data sv =
     (if cv_recordsPulls env \<and> isInstrumentedPullTool name
      then log_effect (PullRecorded
        \<lparr> pa_toolName = name, pa_projectSlug = as_nonempty (js_get input ''projectSlug''), pa_sessionId = sessionId,
          pa_agentType = Some agentType, pa_output = data, pa_input = input,
          pa_boundRunId = resolve sessionId (sv_bindings sv), pa_latencyMs = cv_latencyMs env \<rparr>) sv
      else sv)"

definition after_answer ::
  "call_env \<Rightarrow> string \<Rightarrow> string \<Rightarrow> string \<Rightarrow> idem_key \<Rightarrow> js \<Rightarrow> js \<Rightarrow> 's server \<Rightarrow> 's server"
where
  "after_answer env name sessionId agentType key input data sv =
     (let sv1 = log_effect (PolicyAsked PostPhase) sv;
          sv2 = record_event name sessionId key input data sv1;
          sv3 = sv2\<lparr>sv_bindings := observe sessionId name input data (sv_bindings sv2)\<rparr>
      in record_pull env name sessionId agentType input data sv3)"

text \<open>What follows the gate.\<close>

definition run_handler ::
  "call_env \<Rightarrow> 's tool \<Rightarrow> string \<Rightarrow> string \<Rightarrow> call_options \<Rightarrow> idem_key \<Rightarrow> js \<Rightarrow> 's server \<Rightarrow> call_reply \<times> 's server"
where
  "run_handler env tool name sessionId opts key input sv =
     (let ctx = \<lparr> cx_toolName = name, cx_sessionId = sessionId,
                  cx_requestId = nullish (co_requestId opts) (cv_requestId env),
                  cx_receivedAt = cv_receivedAt env, cx_idempotencyKey = key,
                  cx_agentType = co_agentType opts, cx_identity = co_identity opts \<rparr>;
          (out, world) = tl_handler tool input ctx (sv_world sv);
          sv2 = (log_effect (HandlerRun ctx input) sv)\<lparr>sv_world := world\<rparr> in
      case out of
        Inl e \<Rightarrow> (Refused (HandlerThrew name e), sv2)
      | Inr v \<Rightarrow>
          (case tl_output tool v of
             Inl issues \<Rightarrow> (Refused (OutputInvalid name issues), sv2)
           | Inr data \<Rightarrow>
               (Answered (text_output data) data,
                after_answer env name sessionId (co_agentType opts) key input data sv2)))"

definition handleCall ::
  "call_env \<Rightarrow> 's registry \<Rightarrow> string \<Rightarrow> js \<Rightarrow> string \<Rightarrow> call_options \<Rightarrow> 's server \<Rightarrow> call_reply \<times> 's server"
where
  "handleCall env ry rawName rawInput sessionId opts sv =
     (let name = resolveName ry rawName in
      case map_of (ry_tools ry) name of
        None \<Rightarrow> (Refused (ToolNotFound name), sv)
      | Some tool \<Rightarrow>
          if sessionId = [] \<or> CHR '':'' \<in> set sessionId then (Refused (InvalidSession name), sv)
          else
            (case tl_input tool rawInput of
               Inl issues \<Rightarrow> (Refused (InvalidInput name issues), sv)
             | Inr input \<Rightarrow>
                 (case tl_idempotencyKey tool input sessionId (cv_receivedAt env) of
                    Inl e \<Rightarrow> (Refused (KeyBuildFailed name e), sv)
                  | Inr key \<Rightarrow>
                      (let pre = gate_of (cv_policy env PrePhase name sessionId key input);
                           sv1 = log_effect (PolicyAsked PrePhase) sv in
                       if gt_decision pre = Deny
                       then (Refused (PolicyDenied name (gt_reason pre) (gt_matchedRuleId pre)), sv1)
                       else run_handler env tool name sessionId opts key input sv1))))"

section \<open>The registry\<close>

definition empty_registry :: "'s registry" where
  "empty_registry = \<lparr> ry_tools = [], ry_aliases = [] \<rparr>"

inductive reachable_registry :: "'s registry \<Rightarrow> bool" where
  boot: "reachable_registry empty_registry"
| tool_added: "reachable_registry ry \<Longrightarrow> register reg ry = Inr ry' \<Longrightarrow> reachable_registry ry'"
| alias_added: "reachable_registry ry \<Longrightarrow> registerAlias a c ry = Inr ry' \<Longrightarrow> reachable_registry ry'"

definition probe_ok :: "'s tool \<Rightarrow> bool" where
  "probe_ok t = (case tl_idempotencyKey t (probeFor (tl_input t)) ''probe_session'' 0 of
      Inl _ \<Rightarrow> False | Inr k \<Rightarrow> 1 \<le> length (ik_key k) \<and> length (ik_key k) \<le> 200)"

definition contract :: "string \<times> 's tool \<Rightarrow> bool" where
  "contract e = (case e of (n, t) \<Rightarrow> n = tl_name t \<and> tool_name n \<and> MIN_DESCRIPTION_LENGTH \<le> length (tl_description t) \<and> probe_ok t)"

definition registry_ok :: "'s registry \<Rightarrow> bool" where
  "registry_ok ry \<longleftrightarrow> distinct (map fst (ry_tools ry)) \<and> (\<forall>e \<in> set (ry_tools ry). contract e) \<and>
     (\<forall>a c. map_of (ry_aliases ry) a = Some c \<longrightarrow> tool_name a \<and> map_of (ry_tools ry) c \<noteq> None)"

lemma update_fresh: "map_of m k = None \<Longrightarrow> AList.update k v m = m @ [(k, v)]"
  by (induction m) auto

lemma register_Inr:
  assumes "register reg ry = Inr ry'"
  shows "\<exists>schema. ry' = ry\<lparr>ry_tools := ry_tools ry @ [(tl_name (rg_tool reg), (rg_tool reg)\<lparr>tl_jsonSchema := schema\<rparr>)]\<rparr> \<and>
    map_of (ry_tools ry) (tl_name (rg_tool reg)) = None \<and> contract (tl_name (rg_tool reg), rg_tool reg)"
proof -
  obtain schema where v: "assertValid reg ry = None"
    and ry': "ry' = ry\<lparr>ry_tools := AList.update (tl_name (rg_tool reg)) ((rg_tool reg)\<lparr>tl_jsonSchema := schema\<rparr>) (ry_tools ry)\<rparr>"
    using assms by (auto simp: register_def split: option.splits sum.splits)
  from v have "map_of (ry_tools ry) (tl_name (rg_tool reg)) = None" "contract (tl_name (rg_tool reg), rg_tool reg)"
    by (auto simp: assertValid_def Let_def assertIdempotencyKeyBuilder_def contract_def probe_ok_def Suc_le_eq
        split: if_splits sum.splits)
  with ry' show ?thesis by (auto simp: update_fresh)
qed

lemma contract_schema [simp]: "contract (n, t\<lparr>tl_jsonSchema := s\<rparr>) = contract (n, t)"
  by (simp add: contract_def probe_ok_def)

lemma reachable_ok: "reachable_registry ry \<Longrightarrow> registry_ok ry"
proof (induction rule: reachable_registry.induct)
  case boot
  show ?case by (simp add: registry_ok_def empty_registry_def)
next
  case (tool_added ry reg ry')
  from register_Inr [OF tool_added.hyps(2)] tool_added.IH show ?case
    by (auto simp: registry_ok_def map_of_eq_None_iff map_add_def split: option.splits)
next
  case (alias_added ry a c ry')
  then show ?case
    by (auto simp: registry_ok_def registerAlias_def update_conv' split: if_splits)
qed

text \<open>Whatever is registered and aliased, in any order: every tool kept satisfies the contract (name shape,
  description length, a well-formed key on the probe) under a name of its own, every alias leads to a
  tool, and \<open>tools/list\<close> names each tool once, in order, and nothing else.\<close>

theorem registry_contract:
  assumes "reachable_registry ry"
  shows "registry_ok ry \<and> sorted (map collation (map fst (list_tools ry))) \<and> distinct (map fst (list_tools ry)) \<and>
    set (map fst (list_tools ry)) = fst ` set (ry_tools ry) \<and> length (list_tools ry) = registry_size ry"
proof -
  have ok: "registry_ok ry" by (rule reachable_ok [OF assms])
  let ?es = "map (\<lambda>(_, t). (tl_name t, tl_title t, tl_description t, tl_jsonSchema t)) (ry_tools ry)"
  have names: "map fst ?es = map fst (ry_tools ry)"
    using ok by (auto simp: registry_ok_def contract_def)
  have "mset (map fst (list_tools ry)) = mset (map fst (ry_tools ry))"
    unfolding list_tools_def names [symmetric] mset_map by simp
  then have "distinct (map fst (list_tools ry))" "set (map fst (list_tools ry)) = set (map fst (ry_tools ry))"
    using ok by (metis mset_eq_imp_distinct_iff registry_ok_def, metis mset_eq_setD)
  moreover have "sorted (map (\<lambda>e. collation (fst e)) (list_tools ry))"
    by (simp add: list_tools_def)
  ultimately show ?thesis using ok by (simp add: registry_size_def list_tools_def o_def)
qed

section \<open>The pipeline\<close>

lemma log_simps [simp]:
  "sv_log (log_effect e sv) = sv_log sv @ [e]" "sv_world (log_effect e sv) = sv_world sv"
  "sv_bindings (log_effect e sv) = sv_bindings sv"
  by (simp_all add: log_effect_def)

lemma record_simps [simp]:
  "sv_world (record_event n s k i d sv) = sv_world sv" "sv_bindings (record_event n s k i d sv) = sv_bindings sv"
  "sv_world (record_pull env n s a i d sv) = sv_world sv" "sv_bindings (record_pull env n s a i d sv) = sv_bindings sv"
  by (simp_all add: record_event_def record_pull_def split: option.split)

lemma after_answer_simps [simp]:
  "sv_world (after_answer env n s a k i d sv) = sv_world sv"
  "sv_bindings (after_answer env n s a k i d sv) = observe s n i d (sv_bindings sv)"
  by (simp_all add: after_answer_def Let_def)

text \<open>What an answered call adds to the log: the audit-side policy check, then the two records if due.\<close>

lemma after_answer_log:
  "\<exists>l. sv_log (after_answer env n s a k i d sv) = sv_log sv @ PolicyAsked PostPhase # l \<and>
     (\<forall>e \<in> set l. (\<exists>r t. e = EventRecorded r t s k i d) \<or> (\<exists>p. e = PullRecorded p))"
  by (auto simp: after_answer_def record_event_def record_pull_def Let_def split: option.splits)

text \<open>The four ways a call ends.\<close>

lemma call_cases:
  assumes "handleCall env ry rawName rawInput s opts sv = (reply, sv')"
  obtains (early) e where "reply = Refused e" "sv' = sv"
  | (denied) e where "reply = Refused e" "sv' = log_effect (PolicyAsked PrePhase) sv"
  | (failed) e tool input key ctx where "reply = Refused e"
      "map_of (ry_tools ry) (resolveName ry rawName) = Some tool" "tl_input tool rawInput = Inr input"
      "tl_idempotencyKey tool input s (cv_receivedAt env) = Inr key"
      "gt_decision (gate_of (cv_policy env PrePhase (resolveName ry rawName) s key input)) \<noteq> Deny"
      "sv_log sv' = sv_log sv @ [PolicyAsked PrePhase, HandlerRun ctx input]" "cx_idempotencyKey ctx = key"
      "sv_world sv' = snd (tl_handler tool input ctx (sv_world sv))" "sv_bindings sv' = sv_bindings sv"
      "s \<noteq> []" "CHR '':'' \<notin> set s"
  | (answered) tool input key ctx d where "reply = Answered (text_output d) d"
      "map_of (ry_tools ry) (resolveName ry rawName) = Some tool" "tl_input tool rawInput = Inr input"
      "tl_idempotencyKey tool input s (cv_receivedAt env) = Inr key"
      "gt_decision (gate_of (cv_policy env PrePhase (resolveName ry rawName) s key input)) \<noteq> Deny"
      "sv' = after_answer env (resolveName ry rawName) s (co_agentType opts) key input d
         ((log_effect (HandlerRun ctx input) (log_effect (PolicyAsked PrePhase) sv))
            \<lparr>sv_world := snd (tl_handler tool input ctx (sv_world sv))\<rparr>)"
      "cx_idempotencyKey ctx = key" "s \<noteq> []" "CHR '':'' \<notin> set s"
proof -
  let ?n = "resolveName ry rawName"
  show thesis
  proof (cases "map_of (ry_tools ry) ?n")
    case None
    with assms early show thesis by (auto simp: handleCall_def run_handler_def Let_def)
  next
    case tool: (Some tool)
    show thesis
    proof (cases "s = [] \<or> CHR '':'' \<in> set s")
      case True
      with assms tool early show thesis by (auto simp: handleCall_def run_handler_def Let_def)
    next
      case seg: False
      show thesis
      proof (cases "tl_input tool rawInput")
        case (Inl issues)
        with assms tool seg early show thesis by (auto simp: handleCall_def run_handler_def Let_def)
      next
        case input: (Inr input)
        show thesis
        proof (cases "tl_idempotencyKey tool input s (cv_receivedAt env)")
          case (Inl e)
          with assms tool seg input early show thesis by (auto simp: handleCall_def run_handler_def Let_def)
        next
          case key: (Inr key)
          let ?pre = "gate_of (cv_policy env PrePhase ?n s key input)"
          let ?ctx = "\<lparr> cx_toolName = ?n, cx_sessionId = s, cx_requestId = nullish (co_requestId opts) (cv_requestId env),
                        cx_receivedAt = cv_receivedAt env, cx_idempotencyKey = key, cx_agentType = co_agentType opts,
                        cx_identity = co_identity opts \<rparr>"
          show thesis
          proof (cases "gt_decision ?pre = Deny")
            case True
            with assms tool seg input key denied show thesis by (auto simp: handleCall_def run_handler_def Let_def)
          next
            case allowed: False
            obtain out world where h: "tl_handler tool input ?ctx (sv_world sv) = (out, world)" by fastforce
            note run = assms [unfolded handleCall_def run_handler_def Let_def] tool seg input key allowed h
            show thesis
            proof (cases "\<exists>v d. out = Inr v \<and> tl_output tool v = Inr d")
              case True
              then obtain v d where "out = Inr v" "tl_output tool v = Inr d" by blast
              with run show thesis by (intro answered [of d tool input key ?ctx]) auto
            next
              case False
              then consider e where "out = Inl e" | v i where "out = Inr v" "tl_output tool v = Inl i"
                by (metis sum.exhaust)
              then show thesis using run by cases (auto intro!: failed [of _ tool input key ?ctx])
            qed
          qed
        qed
      qed
    qed
  qed
qed

definition is_handler_run :: "call_effect \<Rightarrow> bool" where
  "is_handler_run e = (case e of HandlerRun _ _ \<Rightarrow> True | _ \<Rightarrow> False)"

text \<open>C15: A handler cannot be reached around the gate: it runs at most once per call, only as the tool the name
  resolves to, on input its schema accepted, under a session id without the key separator and a key its
  builder made, and right after a policy check that did not deny.  A call that runs no handler changes
  neither the world nor the bindings, and asks nothing but that check.\<close>

theorem handler_behind_gate:
  assumes "handleCall env ry rawName rawInput s opts sv = (reply, sv')"
  shows "\<exists>l. sv_log sv' = sv_log sv @ l \<and>
    (if list_ex is_handler_run l
     then (\<exists>tool input key ctx rest. l = PolicyAsked PrePhase # HandlerRun ctx input # rest \<and>
             \<not> list_ex is_handler_run rest \<and> map_of (ry_tools ry) (resolveName ry rawName) = Some tool \<and>
             tl_input tool rawInput = Inr input \<and> s \<noteq> [] \<and> CHR '':'' \<notin> set s \<and>
             tl_idempotencyKey tool input s (cv_receivedAt env) = Inr key \<and> cx_idempotencyKey ctx = key \<and>
             gt_decision (gate_of (cv_policy env PrePhase (resolveName ry rawName) s key input)) \<noteq> Deny)
     else l \<in> {[], [PolicyAsked PrePhase]} \<and> sv_world sv' = sv_world sv \<and> sv_bindings sv' = sv_bindings sv)"
  using assms
proof (cases rule: call_cases)
  case early
  then show ?thesis by (intro exI [of _ "[]"]) simp
next
  case denied
  then show ?thesis by (intro exI [of _ "[PolicyAsked PrePhase]"]) (simp add: is_handler_run_def)
next
  case (failed e tool input key ctx)
  then show ?thesis
    by (intro exI [of _ "[PolicyAsked PrePhase, HandlerRun ctx input]"]) (simp add: is_handler_run_def)
next
  case (answered tool input key ctx d)
  let ?sv = "(log_effect (HandlerRun ctx input) (log_effect (PolicyAsked PrePhase) sv))
     \<lparr>sv_world := snd (tl_handler tool input ctx (sv_world sv))\<rparr>"
  obtain l where l: "sv_log sv' = sv_log ?sv @ PolicyAsked PostPhase # l"
    "\<forall>e \<in> set l. (\<exists>r t. e = EventRecorded r t s key input d) \<or> (\<exists>p. e = PullRecorded p)"
    using after_answer_log [of env "resolveName ry rawName" s "co_agentType opts" key input d ?sv] answered(6) by auto
  from l(2) have "\<not> list_ex is_handler_run (PolicyAsked PostPhase # l)"
    by (auto simp: is_handler_run_def list_ex_iff)
  with l(1) answered show ?thesis
    by (intro exI [of _ "PolicyAsked PrePhase # HandlerRun ctx input # PolicyAsked PostPhase # l"])
      (simp add: is_handler_run_def)
qed

definition sample_tool :: "string \<Rightarrow> js \<Rightarrow> nat tool" where
  "sample_tool n v = \<lparr> tl_name = n, tl_title = None, tl_description = replicate 200 CHR ''d'', tl_input = Inr, tl_output = Inr,
     tl_jsonSchema = JNull, tl_idempotencyKey = (\<lambda>_ _ _. Inr \<lparr> ik_kind = ReadonlyKey, ik_key = ''k'' \<rparr>),
     tl_handler = (\<lambda>_ _ w. (Inr v, Suc w)) \<rparr>"

definition sample_registration :: "string \<Rightarrow> js \<Rightarrow> nat registration" where
  "sample_registration n v = \<lparr> rg_tool = sample_tool n v, rg_inputIsObject = True, rg_outputGiven = True,
     rg_handlerArity = 2, rg_builderArity = 2, rg_manifest = Inr JNull \<rparr>"

definition sample_registry :: "nat registry" where
  "sample_registry = \<lparr> ry_tools = [(''list_skills'', sample_tool ''list_skills'' JNull)], ry_aliases = [] \<rparr>"

definition sample_call_env :: "policy_decision \<Rightarrow> call_env" where
  "sample_call_env v = \<lparr> cv_receivedAt = 0, cv_requestId = ''q'',
     cv_policy = (\<lambda>_ _ _ _ _. Inr \<lparr> gt_decision = v, gt_reason = [], gt_matchedRuleId = None \<rparr>),
     cv_latencyMs = 0, cv_recordsPulls = False \<rparr>"

definition sample_call :: "policy_decision \<Rightarrow> nat registry \<Rightarrow> string \<Rightarrow> call_reply \<times> nat server" where
  "sample_call v ry n = handleCall (sample_call_env v) ry n JNull ''s''
     \<lparr> co_requestId = None, co_agentType = [], co_identity = None \<rparr> \<lparr> sv_world = 0, sv_bindings = [], sv_log = [] \<rparr>"

lemma sample_description: "\<not> length (replicate 200 CHR ''d'') < MIN_DESCRIPTION_LENGTH"
  by (simp add: MIN_DESCRIPTION_LENGTH_def)

lemma handler_behind_gate_witness:
  "\<not> list_ex is_handler_run (sv_log (snd (sample_call Deny sample_registry ''list_skills''))) \<and>
   sv_world (snd (sample_call Deny sample_registry ''list_skills'')) = 0"
proof -
  have "handleCall (sample_call_env Deny) sample_registry ''list_skills'' JNull ''s''
     \<lparr> co_requestId = None, co_agentType = [], co_identity = None \<rparr> \<lparr> sv_world = 0, sv_bindings = [], sv_log = [] \<rparr> =
     (fst (sample_call Deny sample_registry ''list_skills''), snd (sample_call Deny sample_registry ''list_skills''))"
    by (simp add: sample_call_def)
  from handler_behind_gate [OF this] show ?thesis
    by (auto simp: sample_call_env_def gate_of_def split: if_splits)
qed

text \<open>Only an answered call leaves a trace beyond itself: a refused one, whichever stage refused it, teaches
  the run binding nothing, records no event and no pull, and is never put to the audit-side policy check;
  an answered one is put to it exactly once.\<close>

theorem refused_call_leaves_no_record:
  assumes "handleCall env ry rawName rawInput s opts sv = (reply, sv')"
  shows "\<exists>l. sv_log sv' = sv_log sv @ l \<and>
    (case reply of
       Refused e \<Rightarrow> sv_bindings sv' = sv_bindings sv \<and> (\<forall>x \<in> set l. x = PolicyAsked PrePhase \<or> is_handler_run x)
     | Answered t d \<Rightarrow> filter (\<lambda>x. x = PolicyAsked PostPhase) l = [PolicyAsked PostPhase] \<and>
         (\<exists>input. sv_bindings sv' = observe s (resolveName ry rawName) input d (sv_bindings sv)))"
  using assms
proof (cases rule: call_cases)
  case early
  then show ?thesis by (intro exI [of _ "[]"]) simp
next
  case denied
  then show ?thesis by (intro exI [of _ "[PolicyAsked PrePhase]"]) simp
next
  case (failed e tool input key ctx)
  then show ?thesis
    by (intro exI [of _ "[PolicyAsked PrePhase, HandlerRun ctx input]"]) (simp add: is_handler_run_def)
next
  case (answered tool input key ctx d)
  let ?sv = "(log_effect (HandlerRun ctx input) (log_effect (PolicyAsked PrePhase) sv))
     \<lparr>sv_world := snd (tl_handler tool input ctx (sv_world sv))\<rparr>"
  obtain l where l: "sv_log sv' = sv_log ?sv @ PolicyAsked PostPhase # l"
    "\<forall>e \<in> set l. (\<exists>r t. e = EventRecorded r t s key input d) \<or> (\<exists>p. e = PullRecorded p)"
    using after_answer_log [of env "resolveName ry rawName" s "co_agentType opts" key input d ?sv] answered(6) by auto
  from l(2) have "filter (\<lambda>x. x = PolicyAsked PostPhase) l = []" by (auto simp: filter_empty_conv)
  with l(1) answered show ?thesis
    by (intro exI [of _ "PolicyAsked PrePhase # HandlerRun ctx input # PolicyAsked PostPhase # l"]) auto
qed

text \<open>A tool registered under a name that is already an alias cannot be called by its own name: the name
  still leads to the alias's tool, although \<open>tools/list\<close> now advertises the new one.\<close>

theorem alias_shadows_later_tool:
  assumes "registerAlias a c ry = Inr ry1" and "register reg ry1 = Inr ry2" and "tl_name (rg_tool reg) = a"
  shows "handleCall env ry2 a rawInput s opts sv = handleCall env ry1 a rawInput s opts sv \<and>
    resolveName ry2 a = c \<and> a \<in> fst ` set (list_tools ry2)"
proof -
  from assms(1) have ry1: "ry1 = ry\<lparr>ry_aliases := AList.update a c (ry_aliases ry)\<rparr>"
    and c: "map_of (ry_tools ry) c \<noteq> None" "map_of (ry_tools ry) a = None"
    by (auto simp: registerAlias_def split: if_splits)
  obtain schema where ry2: "ry2 = ry1\<lparr>ry_tools := ry_tools ry1 @ [(a, (rg_tool reg)\<lparr>tl_jsonSchema := schema\<rparr>)]\<rparr>"
    using register_Inr [OF assms(2)] assms(3) by auto
  have r: "resolveName ry2 a = c" "resolveName ry1 a = c"
    by (simp_all add: ry1 ry2 resolveName_def update_conv')
  have m: "map_of (ry_tools ry2) c = map_of (ry_tools ry1) c"
    using c by (auto simp: ry1 ry2 map_add_def)
  have "handleCall env ry2 a rawInput s opts sv = handleCall env ry1 a rawInput s opts sv"
    unfolding handleCall_def run_handler_def Let_def r m ..
  then show ?thesis using r assms(3) by (force simp: list_tools_def ry2)
qed

end
