(* ===== verification/Memory_Rollup.thy ===== *)
theory Memory_Rollup
  imports Memory_Access "HOL-Library.List_Lexorder" "HOL-Library.Char_ord"
begin

text \<open>
  The hourly pass over the access log, \<open>packages/lifecycle/src/memory-rollup-worker.ts\<close>: the daily volume
  table, the cohort table that says which item shown to a run was then asked for, pruning, and the sync
  jobs in team mode.

  A logged access is a row of \<open>memory_access_events\<close> with its \<open>created_at\<close> in seconds.  A day is the
  number of days since the epoch; the code compares their \<open>YYYY-MM-DD\<close> forms, which order alike for
  years of four digits, and \<open>iso_day\<close> renders one.  Random ids and the rollups' own time stamps are left out.
\<close>

section \<open>Aggregates\<close>

type_synonym logged = "int \<times> memory_access"

definition day_of :: "logged \<Rightarrow> int" where
  "day_of e = fst e div 86400"

definition sql_max :: "'a::linorder option list \<Rightarrow> 'a option" where
  "sql_max xs = (case List.map_filter id xs of [] \<Rightarrow> None | y # ys \<Rightarrow> Some (foldl max y ys))"

definition sql_min :: "'a::linorder option list \<Rightarrow> 'a option" where
  "sql_min xs = (case List.map_filter id xs of [] \<Rightarrow> None | y # ys \<Rightarrow> Some (foldl min y ys))"

definition count_distinct :: "'a option list \<Rightarrow> nat" where
  "count_distinct xs = length (remdups (List.map_filter id xs))"

definition sum_ints :: "int option list \<Rightarrow> int" where
  "sum_ints xs = sum_list (List.map_filter id xs)"

definition stale_access :: "memory_access \<Rightarrow> bool" where
  "stale_access m = (case ma_freshnessStatusAtAccess m of None \<Rightarrow> False | Some s \<Rightarrow> s \<noteq> ''fresh'')"

text \<open>\<open>GROUP BY\<close>: the groups of a key, each with its rows.\<close>

definition group_by :: "('r \<Rightarrow> 'k) \<Rightarrow> 'r list \<Rightarrow> ('k \<times> 'r list) list" where
  "group_by key rows = map (\<lambda>k. (k, filter (\<lambda>r. key r = k) rows)) (remdups (map key rows))"

section \<open>The tables\<close>

type_synonym daily_grain = "string option \<times> int \<times> string \<times> string \<times> string \<times> string"

record daily_row =
  dy_orgId :: "string option"
  dy_grain :: daily_grain
  dy_accessCount :: nat
  dy_distinctItems :: nat
  dy_distinctRuns :: nat
  dy_totalBytes :: int
  dy_totalLatencyMs :: int
  dy_maxLatencyMs :: int
  dy_staleAtAccessCount :: nat

definition dy_projectId :: "daily_row \<Rightarrow> string option" where
  "dy_projectId r = fst (dy_grain r)"

definition dy_day :: "daily_row \<Rightarrow> int" where
  "dy_day r = fst (snd (dy_grain r))"

type_synonym cohort_grain = "string \<times> int \<times> string \<times> string"

record cohort_row =
  ch_orgId :: "string option"
  ch_projectId :: "string option"
  ch_grain :: cohort_grain
  ch_surfacedCount :: nat
  ch_pulledCount :: nat
  ch_surfacedSite :: "string option"
  ch_pulledSite :: "string option"
  ch_firstSurfacedAt :: "int option"
  ch_firstPulledAt :: "int option"
  ch_timeToFirstPullMs :: "int option"
  ch_staleAtAccess :: bool

record rollup_db =
  rd_events :: "logged list"
  rd_daily :: "daily_row list"
  rd_cohorts :: "cohort_row list"

section \<open>The daily table\<close>

definition daily_key :: "logged \<Rightarrow> daily_grain" where
  "daily_key e = (let m = snd e in
     (ma_projectId m, day_of e, ma_channel m, ma_site m, ma_memoryType m, nullish (ma_actorUserId m) ''local''))"

definition daily_of :: "daily_grain \<times> logged list \<Rightarrow> daily_row" where
  "daily_of g = (let ms = map snd (snd g) in
     \<lparr> dy_orgId = sql_max (map ma_orgId ms), dy_grain = fst g, dy_accessCount = length ms,
       dy_distinctItems = count_distinct (map ma_memoryId ms), dy_distinctRuns = count_distinct (map ma_runId ms),
       dy_totalBytes = sum_ints (map ma_bytes ms), dy_totalLatencyMs = sum_ints (map ma_latencyMs ms),
       dy_maxLatencyMs = nullish (sql_max (map ma_latencyMs ms)) 0,
       dy_staleAtAccessCount = length (filter stale_access ms) \<rparr>)"

definition completed :: "int \<Rightarrow> logged list \<Rightarrow> logged list" where
  "completed today events = filter (\<lambda>e. day_of e < today) events"

definition rollup_daily :: "int \<Rightarrow> rollup_db \<Rightarrow> rollup_db" where
  "rollup_daily today db =
     (let done = completed today (rd_events db) in
      db\<lparr>rd_daily := filter (\<lambda>r. dy_day r \<notin> day_of ` set done) (rd_daily db) @ map daily_of (group_by daily_key done)\<rparr>)"

section \<open>Cohorts\<close>

definition cohort_key :: "logged \<Rightarrow> cohort_grain option" where
  "cohort_key e = (let m = snd e in
     case (ma_runId m, ma_memoryId m) of
       (Some r, Some i) \<Rightarrow> Some (r, ma_baselineGeneration m, ma_memoryType m, i)
     | _ \<Rightarrow> None)"

definition on_channel :: "string \<Rightarrow> logged list \<Rightarrow> logged list" where
  "on_channel c es = filter (\<lambda>e. ma_channel (snd e) = c) es"

definition first_site :: "string \<Rightarrow> logged list \<Rightarrow> string option" where
  "first_site c es = map_option (\<lambda>e. ma_site (snd e)) (first_row (order_by fst (on_channel c es)))"

definition cohort_of :: "cohort_grain \<times> logged list \<Rightarrow> cohort_row" where
  "cohort_of g =
     (let es = snd g; ms = map snd es;
          firstSurfaced = sql_min (map (\<lambda>e. Some (fst e)) (on_channel ''push'' es));
          firstPulled = sql_min (map (\<lambda>e. Some (fst e)) (on_channel ''pull'' es)) in
      \<lparr> ch_orgId = sql_max (map ma_orgId ms), ch_projectId = sql_max (map ma_projectId ms), ch_grain = fst g,
        ch_surfacedCount = length (on_channel ''push'' es), ch_pulledCount = length (on_channel ''pull'' es),
        ch_surfacedSite = first_site ''push'' es, ch_pulledSite = first_site ''pull'' es,
        ch_firstSurfacedAt = firstSurfaced, ch_firstPulledAt = firstPulled,
        ch_timeToFirstPullMs =
          (case (firstSurfaced, firstPulled) of (Some s, Some p) \<Rightarrow> Some ((p - s) * 1000) | _ \<Rightarrow> None),
        ch_staleAtAccess = list_ex stale_access ms \<rparr>)"

definition rollup_cohorts :: "rollup_db \<Rightarrow> rollup_db" where
  "rollup_cohorts db =
     (let keyed = filter (\<lambda>e. cohort_key e \<noteq> None) (rd_events db) in
      db\<lparr>rd_cohorts := filter (\<lambda>r. Some (ch_grain r) \<notin> cohort_key ` set keyed) (rd_cohorts db) @
           map cohort_of (group_by (\<lambda>e. the (cohort_key e)) keyed)\<rparr>)"

section \<open>Pruning and the pass\<close>

definition prune :: "int \<Rightarrow> rollup_db \<Rightarrow> rollup_db" where
  "prune cutoff db =
     db\<lparr>rd_events := filter (\<lambda>e. \<not> (day_of e < cutoff \<and>
          list_ex (\<lambda>r. dy_day r = day_of e \<and> dy_projectId r = ma_projectId (snd e)) (rd_daily db))) (rd_events db)\<rparr>"

definition DAY_MS :: int where
  "DAY_MS = 86400000"

text \<open>Each statement is one step; the clock is read for the day and again for the cutoff.\<close>

definition rollup_pass :: "int \<Rightarrow> int \<Rightarrow> int \<Rightarrow> rollup_db \<Rightarrow> rollup_db" where
  "rollup_pass retentionDays now1 now2 db =
     prune ((now2 - retentionDays * DAY_MS) div DAY_MS) (rollup_cohorts (rollup_daily (now1 div DAY_MS) db))"

definition daily_lookup :: "(int \<Rightarrow> string) \<Rightarrow> daily_row \<Rightarrow> sync_lookup option" where
  "daily_lookup iso_day r =
     (case dy_grain r of
        (Some p, d, c, s, m, a) \<Rightarrow> Some (ByDailyGrain p (iso_day d) c s m a)
      | _ \<Rightarrow> None)"

definition cohort_lookup :: "cohort_row \<Rightarrow> sync_lookup" where
  "cohort_lookup r = (case ch_grain r of (run, g, m, i) \<Rightarrow> ByCohortGrain run g m i)"

definition rollup_sync_payloads :: "(int \<Rightarrow> string) \<Rightarrow> bool \<Rightarrow> rollup_db \<Rightarrow> js list" where
  "rollup_sync_payloads iso_day team db =
     (if \<not> team then []
      else
        (let payload = (\<lambda>table l. JObj [(''v'', JNum 1), (''table'', JStr table), (''lookup'', sync_lookup_json l)]) in
         map (payload ''memory_access_daily'') (List.map_filter (daily_lookup iso_day) (rd_daily db)) @
         map (\<lambda>r. payload ''memory_cohorts'' (cohort_lookup r)) (rd_cohorts db)))"

section \<open>Groups\<close>

lemma group_by_filter:
  "filter (\<lambda>g. P (fst g)) (group_by key rows) = group_by key (filter (\<lambda>r. P (key r)) rows)"
proof -
  have k: "remdups (map key (filter (\<lambda>r. P (key r)) rows)) = filter P (remdups (map key rows))"
    by (induction rows) auto
  have "filter (\<lambda>r. key r = k) (filter (\<lambda>r. P (key r)) rows) = filter (\<lambda>r. key r = k) rows" if "P k" for k
    using that by (auto intro: filter_cong)
  then show ?thesis unfolding group_by_def k by (auto simp: filter_map o_def)
qed

lemma group_by_lengths: "sum_list (map (\<lambda>g. length (snd g)) (group_by key rows)) = length rows"
proof -
  have c: "length (filter (\<lambda>r. key r = k) rows) = count_list (map key rows) k" for k
    by (induction rows) auto
  have "sum_list (map (\<lambda>g. length (snd g)) (group_by key rows)) = (\<Sum>k\<leftarrow>remdups (map key rows). count_list (map key rows) k)"
    by (simp add: group_by_def o_def c)
  also have "\<dots> = (\<Sum>k \<in> set (map key rows). count_list (map key rows) k)"
    by (subst sum_list_distinct_conv_sum_set) simp_all
  also have "\<dots> = length (map key rows)" by (rule sum_count_set) auto
  finally show ?thesis by simp
qed

lemma group_by_key: "g \<in> set (group_by key rows) \<Longrightarrow> fst g \<in> key ` set rows \<and> (\<forall>r \<in> set (snd g). r \<in> set rows \<and> key r = fst g)"
  by (auto simp: group_by_def)

lemma group_by_covers: "r \<in> set rows \<Longrightarrow> \<exists>g \<in> set (group_by key rows). fst g = key r \<and> r \<in> set (snd g)"
  by (force simp: group_by_def)

section \<open>The daily history\<close>

lemma daily_key_day [simp]: "fst (snd (daily_key e)) = day_of e" "fst (daily_key e) = ma_projectId (snd e)"
  by (simp_all add: daily_key_def Let_def)

lemma daily_of_day [simp]: "dy_day (daily_of g) = fst (snd (fst g))" "dy_projectId (daily_of g) = fst (fst g)"
  "dy_accessCount (daily_of g) = length (snd g)"
  by (simp_all add: dy_day_def dy_projectId_def daily_of_def Let_def)

definition on_day :: "int \<Rightarrow> logged list \<Rightarrow> logged list" where
  "on_day d es = filter (\<lambda>e. day_of e = d) es"

definition rows_of_day :: "int \<Rightarrow> daily_row list \<Rightarrow> daily_row list" where
  "rows_of_day d rows = filter (\<lambda>r. dy_day r = d) rows"

definition summary :: "logged list \<Rightarrow> daily_row list" where
  "summary es = map daily_of (group_by daily_key es)"

lemma summary_day: "rows_of_day d (summary es) = summary (on_day d es)"
proof -
  have "rows_of_day d (summary es) = map daily_of (filter (\<lambda>g. fst (snd (fst g)) = d) (group_by daily_key es))"
    by (simp add: rows_of_day_def summary_def filter_map o_def)
  then show ?thesis
    using group_by_filter [of "\<lambda>k. fst (snd k) = d" daily_key es] by (simp add: summary_def on_day_def)
qed

lemma completed_day: "on_day d (completed today es) = (if d < today then on_day d es else [])"
  by (auto simp: on_day_def completed_def filter_empty_conv intro: filter_cong)

lemma rollup_daily_day:
  "rows_of_day d (rd_daily (rollup_daily today db)) =
     (if d < today \<and> on_day d (rd_events db) \<noteq> [] then summary (on_day d (rd_events db))
      else rows_of_day d (rd_daily db))"
proof -
  let ?done = "completed today (rd_events db)"
  have in_days: "d \<in> day_of ` set ?done \<longleftrightarrow> d < today \<and> on_day d (rd_events db) \<noteq> []"
    by (auto simp: completed_def on_day_def filter_empty_conv)
  have "rows_of_day d (rd_daily (rollup_daily today db)) =
      (if d \<in> day_of ` set ?done then [] else rows_of_day d (rd_daily db)) @ summary (on_day d ?done)"
    unfolding summary_day [symmetric]
    by (auto simp: rollup_daily_def Let_def summary_def rows_of_day_def filter_empty_conv intro!: filter_cong)
  then show ?thesis unfolding in_days completed_day by (simp add: summary_def group_by_def on_day_def)
qed

lemma rollup_simps [simp]:
  "rd_events (rollup_daily t db) = rd_events db" "rd_events (rollup_cohorts db) = rd_events db"
  "rd_cohorts (rollup_daily t db) = rd_cohorts db" "rd_daily (rollup_cohorts db) = rd_daily db" "rd_daily (prune c db) = rd_daily db" "rd_cohorts (prune c db) = rd_cohorts db"
  by (simp_all add: rollup_daily_def rollup_cohorts_def prune_def Let_def)

text \<open>The accesses of a day and its rows fit: the rows summarise what is left of the day, if anything is.\<close>

definition day_settled :: "int \<Rightarrow> daily_row list \<Rightarrow> rollup_db \<Rightarrow> bool" where
  "day_settled d rows db \<longleftrightarrow> rows_of_day d (rd_daily db) = rows \<and>
     (on_day d (rd_events db) = [] \<or> summary (on_day d (rd_events db)) = rows)"

lemma summary_has_row:
  assumes "e \<in> set es"
  shows "\<exists>r \<in> set (summary es). dy_day r = day_of e \<and> dy_projectId r = ma_projectId (snd e)"
proof -
  obtain g where "g \<in> set (group_by daily_key es)" "fst g = daily_key e"
    using group_by_covers [OF assms, of daily_key] by blast
  then show ?thesis by (force simp: summary_def)
qed

lemma prune_day:
  assumes "day_settled d rows db"
  shows "day_settled d rows (prune cutoff db)"
proof -
  let ?counted = "\<lambda>e. list_ex (\<lambda>r. dy_day r = day_of e \<and> dy_projectId r = ma_projectId (snd e)) (rd_daily db)"
  have c: "?counted e" if "e \<in> set (on_day d (rd_events db))" for e
  proof -
    from that assms have "summary (on_day d (rd_events db)) = rows_of_day d (rd_daily db)"
      by (auto simp: day_settled_def)
    with summary_has_row [OF that] show ?thesis by (auto simp: rows_of_day_def list_ex_iff)
  qed
  have "on_day d (rd_events (prune cutoff db)) =
      filter (\<lambda>e. \<not> (day_of e < cutoff \<and> ?counted e)) (on_day d (rd_events db))"
    by (auto simp: on_day_def prune_def conj_commute intro: filter_cong)
  also have "\<dots> = (if d < cutoff then [] else on_day d (rd_events db))"
    using c by (auto simp: filter_empty_conv filter_id_conv) (auto simp: on_day_def)
  finally show ?thesis using assms by (auto simp: day_settled_def)
qed

lemma rollup_daily_settled: "day_settled d rows db \<Longrightarrow> day_settled d rows (rollup_daily today db)"
  by (auto simp: day_settled_def rollup_daily_day)

lemma pass_settled: "day_settled d rows db \<Longrightarrow> day_settled d rows (rollup_pass ret a b db)"
  unfolding rollup_pass_def
  by (rule prune_day) (use rollup_daily_settled [of d rows db] in \<open>simp add: day_settled_def\<close>)

lemma first_pass_settles:
  assumes "d < a div DAY_MS"
  shows "\<exists>rows. day_settled d rows (rollup_pass ret a b db)"
proof -
  have "day_settled d (rows_of_day d (rd_daily (rollup_daily (a div DAY_MS) db))) (rollup_daily (a div DAY_MS) db)"
    using assms by (auto simp: day_settled_def rollup_daily_day)
  then show ?thesis
    unfolding rollup_pass_def by (intro exI prune_day) (simp add: day_settled_def)
qed

text \<open>Later life of the log: accesses logged from day \<open>since\<close> on, and passes at any times.\<close>

inductive later :: "int \<Rightarrow> rollup_db \<Rightarrow> rollup_db \<Rightarrow> bool" for since where
  same: "later since db db"
| logging: "later since db db' \<Longrightarrow> \<forall>e \<in> set es. since \<le> day_of e \<Longrightarrow>
     later since db (db'\<lparr>rd_events := rd_events db' @ es\<rparr>)"
| pass: "later since db db' \<Longrightarrow> later since db (rollup_pass ret a b db')"

lemma later_settled:
  assumes "later since db db'" and "d < since" and "day_settled d rows db"
  shows "day_settled d rows db'"
  using assms
proof (induction rule: later.induct)
  case (logging db db' es)
  then have "on_day d es = []" by (auto simp: on_day_def filter_empty_conv)
  with logging show ?case by (simp add: day_settled_def on_day_def)
qed (simp_all add: pass_settled)

text \<open>What a pass has written of a completed day is final: however the log grows and however often the
  pass runs later, with whatever retention, the rows of that day stay the same, also after its accesses
  have been pruned.\<close>

theorem daily_history_final:
  assumes "later (a div DAY_MS) (rollup_pass ret a b db) db'" and "d < a div DAY_MS"
  shows "rows_of_day d (rd_daily db') = rows_of_day d (rd_daily (rollup_pass ret a b db))"
proof -
  obtain rows where "day_settled d rows (rollup_pass ret a b db)" using first_pass_settles [OF assms(2)] by blast
  with later_settled [OF assms(1,2)] show ?thesis by (simp add: day_settled_def)
qed

text \<open>Pruning loses no access uncounted: an access a pass deletes is older than the retention, and the
  rows of its day count every access the day had.\<close>

theorem nothing_pruned_uncounted:
  assumes "e \<in> set (rd_events db)" and "e \<notin> set (rd_events (rollup_pass ret a b db))" and "b \<le> a + ret * DAY_MS"
  shows "day_of e < (b - ret * DAY_MS) div DAY_MS \<and>
    sum_list (map dy_accessCount (rows_of_day (day_of e) (rd_daily (rollup_pass ret a b db)))) =
      length (on_day (day_of e) (rd_events db))"
proof -
  have cut: "day_of e < (b - ret * DAY_MS) div DAY_MS"
    using assms(1,2) by (auto simp: rollup_pass_def prune_def)
  also have "\<dots> \<le> a div DAY_MS" using assms(3) by (intro zdiv_mono1) (simp_all add: DAY_MS_def)
  finally have past: "day_of e < a div DAY_MS" .
  have "on_day (day_of e) (rd_events db) \<noteq> []" using assms(1) by (auto simp: on_day_def filter_empty_conv)
  with past have "rows_of_day (day_of e) (rd_daily (rollup_pass ret a b db)) = summary (on_day (day_of e) (rd_events db))"
    by (simp add: rollup_pass_def rollup_daily_day)
  moreover have "sum_list (map dy_accessCount (summary es)) = length es" for es
    using group_by_lengths [of daily_key es] by (simp add: summary_def o_def)
  ultimately show ?thesis using cut by simp
qed

definition sample_access :: "string \<Rightarrow> int \<Rightarrow> memory_access" where
  "sample_access c g = \<lparr> ma_id = [], ma_orgId = None, ma_projectId = Some ''p'', ma_runId = Some ''r'', ma_sessionId = None,
     ma_actorUserId = None, ma_agentType = None, ma_runEventId = None, ma_channel = c, ma_site = ''site'',
     ma_memoryType = ''decision'', ma_memoryId = Some ''d'', ma_position = None, ma_bytes = None, ma_latencyMs = None,
     ma_triggerType = [], ma_queryHash = None, ma_triggerTextHash = None, ma_resultCount = None,
     ma_freshnessStatusAtAccess = None, ma_baselineGeneration = g \<rparr>"

definition sample_log :: rollup_db where
  "sample_log = \<lparr> rd_events = [(0, sample_access ''push'' 0), (40 * 86400, sample_access ''push'' 0)],
     rd_daily = [], rd_cohorts = [] \<rparr>"

definition day_41 :: int where
  "day_41 = 41 * 86400000"

lemma pruned_sample: "rd_events (rollup_pass 30 day_41 day_41 sample_log) = [(40 * 86400, sample_access ''push'' 0)]"
  by (simp add: rollup_pass_def prune_def rollup_daily_def Let_def sample_log_def day_41_def DAY_MS_def completed_def
      day_of_def group_by_def daily_key_def sample_access_def)

section \<open>Cohorts and compaction\<close>

text \<open>An access logged by the recorder's pull path.\<close>

definition logged_pull :: "memory_access \<Rightarrow> bool" where
  "logged_pull m \<longleftrightarrow> (\<exists>sha256 env db a x i item. m = pull_row sha256 env db a x i item)"

lemma logged_pull_row [simp]: "logged_pull (pull_row sha256 env db a x i item)"
  unfolding logged_pull_def by blast

text \<open>After a compaction nothing that is pulled is credited: if the log holds pushes and rows of recorded pulls,
  every cohort of a generation other than 0 has a pull count of zero and no time to a first pull, however
  often the items shown in that generation were asked for.\<close>

theorem later_generations_never_pulled:
  assumes "\<forall>e \<in> set (rd_events db). ma_channel (snd e) = ''push'' \<or> logged_pull (snd e)"
    and "rd_cohorts db = []" and "c \<in> set (rd_cohorts (rollup_pass ret a b db))" and "fst (snd (ch_grain c)) \<noteq> 0"
  shows "ch_pulledCount c = 0 \<and> ch_pulledSite c = None \<and> ch_timeToFirstPullMs c = None"
proof -
  let ?keyed = "filter (\<lambda>e. cohort_key e \<noteq> None) (rd_events db)"
  from assms(2,3) obtain g where g: "g \<in> set (group_by (\<lambda>e. the (cohort_key e)) ?keyed)" "c = cohort_of g"
    by (auto simp: rollup_pass_def rollup_cohorts_def rollup_daily_def Let_def)
  have "fst g = ch_grain c" by (simp add: g(2) cohort_of_def Let_def)
  have "ma_channel (snd e) \<noteq> ''pull''" if e: "e \<in> set (snd g)" for e
  proof
    assume pull: "ma_channel (snd e) = ''pull''"
    from group_by_key [OF g(1)] e have k: "e \<in> set (rd_events db)" "cohort_key e \<noteq> None" "the (cohort_key e) = fst g"
      by auto
    with assms(1) pull have "logged_pull (snd e)" by auto
    then have "ma_baselineGeneration (snd e) = 0" by (auto simp: logged_pull_def pull_row_def Let_def)
    with k(2,3) have "fst (snd (fst g)) = 0" by (cases "fst g") (auto simp: cohort_key_def Let_def split: option.splits)
    with assms(4) \<open>fst g = ch_grain c\<close> show False by simp
  qed
  then have "on_channel ''pull'' (snd g) = []" by (auto simp: on_channel_def filter_empty_conv)
  then show ?thesis
    by (simp add: g(2) cohort_of_def Let_def first_site_def sql_min_def first_row_def order_by_def map_filter_def
        split: option.split)
qed

definition compacted_log :: rollup_db where
  "compacted_log = \<lparr> rd_events = [(100, sample_access ''push'' 1),
     (200, (pull_row id sample_recorder_env empty_memory sample_pull
        \<lparr> ex_memoryType = ''decision'', ex_ids = [''d''], ex_bytes = [0], ex_resultCount = 1 \<rparr> 0
        \<lparr> pi_memoryId = Some ''d'', pi_position = Some 0, pi_bytes = Some 0 \<rparr>))],
     rd_daily = [], rd_cohorts = [] \<rparr>"

text \<open>A cohort that outlives the retention of its first accesses is recomputed without them.\<close>

lemma cohort_forgets_pruned:
  "map ch_surfacedCount (rd_cohorts (rollup_pass 30 day_41 day_41 sample_log)) = [2] \<and>
   map ch_surfacedCount (rd_cohorts (rollup_pass 30 day_41 day_41 (rollup_pass 30 day_41 day_41 sample_log))) = [1]"
proof
  show 1: "map ch_surfacedCount (rd_cohorts (rollup_pass 30 day_41 day_41 sample_log)) = [2]"
    by (simp add: rollup_pass_def rollup_cohorts_def rollup_daily_def Let_def sample_log_def group_by_def cohort_key_def
        sample_access_def cohort_of_def on_channel_def)
  let ?db = "rollup_pass 30 day_41 day_41 sample_log"
  have "map ch_grain (rd_cohorts ?db) = [(''r'', 0, ''decision'', ''d'')]"
    by (simp add: rollup_pass_def rollup_cohorts_def rollup_daily_def Let_def sample_log_def group_by_def cohort_key_def
        sample_access_def cohort_of_def)
  then have "\<forall>r \<in> set (rd_cohorts ?db). ch_grain r = (''r'', 0, ''decision'', ''d'')" by (auto simp: map_eq_Cons_conv)
  then show "map ch_surfacedCount (rd_cohorts (rollup_pass 30 day_41 day_41 ?db)) = [1]"
    using pruned_sample
    by (simp add: rollup_pass_def [of _ _ _ ?db] rollup_cohorts_def Let_def group_by_def cohort_key_def
        sample_access_def cohort_of_def on_channel_def filter_empty_conv)
qed

end
