(* ===== verification/Hook_Event.thy ===== *)
theory Hook_Event
  imports Policy_Engine
begin

text \<open>
  Hook payloads of the five supported agents and the event they are adapted to:
  \<open>packages/shared/src/hooks\<close> (schemas, adapters, session ids) and \<open>parseAndAdapt\<close> of
  \<open>apps/mcp-server/src/tools/lifecycle-event/handler.ts\<close>.

  A payload is a JavaScript object; a schema of the third-party package \<open>zod\<close> is the predicate it
  checks.  \<open>rawAt\<close> is \<open>now().toISOString()\<close>, and \<open>num_str\<close> is \<open>String\<close> of a number.
\<close>

section \<open>The event\<close>

text \<open>No adapter sets the agent type \<open>unknown\<close> or the field \<open>projectSlug\<close>; they are left out.\<close>

datatype agent_type = ClaudeCode | Codex | Cursor | Devin | Antigravity

fun agent_text :: "agent_type \<Rightarrow> string" where
  "agent_text ClaudeCode = ''claude_code''"
| "agent_text Codex = ''codex''"
| "agent_text Cursor = ''cursor''"
| "agent_text Devin = ''devin''"
| "agent_text Antigravity = ''antigravity''"

datatype event_phase =
    PhPre | PhPost | PhSessionStart | PhSessionEnd | PhTurnEnd | PhUserPrompt | PhConfigChange
  | PhPermissionRequest | PhPermissionDenied | PhSubagentStart | PhSubagentStop | PhPreCompact
  | PhPostCompact | PhPostToolUseFailure | PhStopFailure | PhPreInvocation | PhPostInvocation

record hook_event =
  he_agentType :: agent_type
  he_eventPhase :: event_phase
  he_sessionId :: string
  he_turnId :: "string option"
  he_toolName :: string
  he_filePath :: "string option"
  he_toolInput :: "js option"
  he_permissionMode :: "string option"
  he_cwd :: "string option"
  he_rawAt :: string
  he_subagentType :: "string option"
  he_subagentId :: "string option"
  he_lastAssistantMessage :: "string option"
  he_compactTrigger :: "string option"
  he_toolError :: "string option"
  he_errorType :: "string option"
  he_errorMessage :: "string option"
  he_denialReason :: "string option"

section \<open>Session ids\<close>

text \<open>Each run of characters in the class becomes one dash.\<close>

fun dash_runs :: "(char \<Rightarrow> bool) \<Rightarrow> bool \<Rightarrow> string \<Rightarrow> string" where
  "dash_runs P inside [] = []"
| "dash_runs P inside (c # cs) =
     (if P c then (if inside then dash_runs P True cs else CHR ''-'' # dash_runs P True cs)
      else c # dash_runs P False cs)"

definition unsafe_char :: "char \<Rightarrow> bool" where
  "unsafe_char c \<longleftrightarrow> c \<in> set ''<>:/|?*'' \<or> c = CHR 0x22 \<or> c = CHR 0x5C \<or> js_space c"

definition strip_dashes :: "string \<Rightarrow> string" where
  "strip_dashes s = rev (dropWhile ((=) CHR ''-'') (rev (dropWhile ((=) CHR ''-'') s)))"

text \<open>The last step is \<open>runKeySegmentSchema.parse\<close>, which throws.\<close>

definition normalizeSessionId :: "string \<Rightarrow> key_error + string" where
  "normalizeSessionId raw =
     (let cleaned = strip_dashes (dash_runs ((=) CHR ''-'') False (dash_runs unsafe_char False raw)) in
      case assertRunKeySegment cleaned ''sessionId'' of Inl e \<Rightarrow> Inl e | Inr _ \<Rightarrow> Inr cleaned)"

section \<open>Payload schemas\<close>

definition optional_strings :: "js \<Rightarrow> string list \<Rightarrow> bool" where
  "optional_strings v ks \<longleftrightarrow> list_all (\<lambda>k. js_get v k = None \<or> as_string (js_get v k) \<noteq> None) ks"

definition optional_numbers :: "js \<Rightarrow> string list \<Rightarrow> bool" where
  "optional_numbers v ks \<longleftrightarrow> list_all (\<lambda>k. case js_get v k of None \<Rightarrow> True | Some (JNum _) \<Rightarrow> True | _ \<Rightarrow> False) ks"

definition optional_bools :: "js \<Rightarrow> string list \<Rightarrow> bool" where
  "optional_bools v ks \<longleftrightarrow> list_all (\<lambda>k. case js_get v k of None \<Rightarrow> True | Some (JBool _) \<Rightarrow> True | _ \<Rightarrow> False) ks"

definition one_of :: "js \<Rightarrow> string \<Rightarrow> string list \<Rightarrow> bool" where
  "one_of v k names \<longleftrightarrow> (case as_string (js_get v k) of None \<Rightarrow> False | Some s \<Rightarrow> s \<in> set names)"

definition ClaudeCodeHookPayloadSchema :: "js \<Rightarrow> bool" where
  "ClaudeCodeHookPayloadSchema v \<longleftrightarrow>
     js_is_record v \<and>
     one_of v ''hook_event_name''
       [''PreToolUse'', ''PostToolUse'', ''SessionStart'', ''SessionEnd'', ''Stop'', ''UserPromptSubmit'',
        ''ConfigChange'', ''PermissionRequest'', ''PermissionDenied'', ''SubagentStart'', ''SubagentStop'',
        ''PreCompact'', ''PostCompact'', ''PostToolUseFailure'', ''StopFailure''] \<and>
     as_nonempty (js_get v ''session_id'') \<noteq> None \<and>
     optional_strings v
       [''tool_name'', ''tool_use_id'', ''permission_mode'', ''cwd'', ''prompt'', ''prompt_id'', ''denial_reason'',
        ''agent_type'', ''agent_id'', ''last_assistant_message'', ''trigger'', ''tool_error'', ''error_type'', ''error_message'']"

definition CodexHookPayloadSchema :: "js \<Rightarrow> bool" where
  "CodexHookPayloadSchema v \<longleftrightarrow>
     js_is_record v \<and>
     one_of v ''hook_event_name''
       [''PreToolUse'', ''PostToolUse'', ''SessionStart'', ''SessionEnd'', ''Stop'', ''UserPromptSubmit'',
        ''ConfigChange'', ''PermissionRequest'', ''PreCompact'', ''PostCompact'', ''SubagentStart'', ''SubagentStop''] \<and>
     as_nonempty (js_get v ''session_id'') \<noteq> None \<and>
     optional_strings v
       [''turn_id'', ''tool_name'', ''tool_use_id'', ''tool_call_id'', ''cwd'', ''prompt'', ''source'', ''reason'',
        ''model'', ''agent_type'', ''agent_id'', ''trigger'']"

definition CursorHookPayloadSchema :: "js \<Rightarrow> bool" where
  "CursorHookPayloadSchema v \<longleftrightarrow>
     js_is_record v \<and>
     one_of v ''hook_event_name''
       [''sessionStart'', ''beforeSubmitPrompt'', ''preToolUse'', ''postToolUse'', ''stop'', ''sessionEnd'',
        ''postToolUseFailure'', ''subagentStart'', ''subagentStop'', ''preCompact''] \<and>
     optional_strings v
       [''conversation_id'', ''session_id'', ''tool_name'', ''tool_use_id'', ''cwd'', ''prompt'', ''reason'',
        ''agent_message'', ''error_message'', ''failure_type'', ''subagent_id'', ''subagent_type'', ''summary'', ''trigger'']"

definition DevinHookPayloadSchema :: "js \<Rightarrow> bool" where
  "DevinHookPayloadSchema v \<longleftrightarrow>
     js_is_record v \<and>
     one_of v ''hook_event_name''
       [''PreToolUse'', ''PostToolUse'', ''PermissionRequest'', ''UserPromptSubmit'', ''Stop'', ''PostCompaction'',
        ''SessionStart'', ''SessionEnd''] \<and>
     optional_strings v [''session_id'', ''prompt_id'', ''tool_name'', ''prompt'', ''source'', ''reason'', ''cwd''] \<and>
     (case js_get v ''tool_response'' of
        None \<Rightarrow> True
      | Some r \<Rightarrow> js_is_record r \<and> optional_bools r [''success''] \<and> optional_strings r [''output''] \<and>
          (js_get r ''error'' = Some JNull \<or> optional_strings r [''error''])) \<and>
     optional_bools v [''stop_hook_active''] \<and>
     (js_get v ''summary'' = Some JNull \<or> optional_strings v [''summary''])"

definition AntigravityHookPayloadSchema :: "js \<Rightarrow> bool" where
  "AntigravityHookPayloadSchema v \<longleftrightarrow>
     js_is_record v \<and>
     one_of v ''hookEventName'' [''PreToolUse'', ''PostToolUse'', ''PreInvocation'', ''PostInvocation'', ''Stop''] \<and>
     optional_strings v
       [''conversationId'', ''transcriptPath'', ''artifactDirectoryPath'', ''modelName'', ''error'', ''terminationReason''] \<and>
     (case js_get v ''workspacePaths'' of
        None \<Rightarrow> True
      | Some (JArr xs) \<Rightarrow> list_all (\<lambda>x. as_string (Some x) \<noteq> None) xs
      | _ \<Rightarrow> False) \<and>
     (case js_get v ''toolCall'' of
        None \<Rightarrow> True
      | Some t \<Rightarrow> js_is_record t \<and> as_string (js_get t ''name'') \<noteq> None) \<and>
     optional_numbers v [''stepIdx'', ''invocationNum'', ''initialNumSteps'', ''executionNum''] \<and>
     optional_bools v [''fullyIdle'']"

section \<open>Adapters\<close>

definition js_str :: "js \<Rightarrow> string \<Rightarrow> string option" where
  "js_str v k = as_string (js_get v k)"

definition extractFilePath :: "string list \<Rightarrow> js option \<Rightarrow> string option" where
  "extractFilePath keys input =
     (case input of
        None \<Rightarrow> None
      | Some v \<Rightarrow> (let p = first_field v keys in if p = [] then None else Some p))"

definition FILE_PATH_KEYS :: "string list" where
  "FILE_PATH_KEYS = [''file_path'', ''filePath'', ''path'']"

definition CLAUDE_PHASE_MAP :: "(string \<times> event_phase) list" where
  "CLAUDE_PHASE_MAP =
     [(''PreToolUse'', PhPre), (''PostToolUse'', PhPost), (''SessionStart'', PhSessionStart), (''SessionEnd'', PhSessionEnd),
      (''Stop'', PhTurnEnd), (''UserPromptSubmit'', PhUserPrompt), (''ConfigChange'', PhConfigChange),
      (''PermissionRequest'', PhPermissionRequest), (''PermissionDenied'', PhPermissionDenied),
      (''SubagentStart'', PhSubagentStart), (''SubagentStop'', PhSubagentStop), (''PreCompact'', PhPreCompact),
      (''PostCompact'', PhPostCompact), (''PostToolUseFailure'', PhPostToolUseFailure), (''StopFailure'', PhStopFailure)]"

definition CODEX_PHASE_MAP :: "(string \<times> event_phase) list" where
  "CODEX_PHASE_MAP =
     [(''PreToolUse'', PhPre), (''PostToolUse'', PhPost), (''SessionStart'', PhSessionStart), (''SessionEnd'', PhSessionEnd),
      (''Stop'', PhTurnEnd), (''UserPromptSubmit'', PhUserPrompt), (''ConfigChange'', PhConfigChange),
      (''PermissionRequest'', PhPermissionRequest), (''PreCompact'', PhPreCompact), (''PostCompact'', PhPostCompact),
      (''SubagentStart'', PhSubagentStart), (''SubagentStop'', PhSubagentStop)]"

definition CURSOR_PHASE_MAP :: "(string \<times> event_phase) list" where
  "CURSOR_PHASE_MAP =
     [(''sessionStart'', PhSessionStart), (''beforeSubmitPrompt'', PhUserPrompt), (''preToolUse'', PhPre),
      (''postToolUse'', PhPost), (''stop'', PhTurnEnd), (''sessionEnd'', PhSessionEnd),
      (''postToolUseFailure'', PhPostToolUseFailure), (''subagentStart'', PhSubagentStart),
      (''subagentStop'', PhSubagentStop), (''preCompact'', PhPreCompact)]"

definition DEVIN_PHASE_MAP :: "(string \<times> event_phase) list" where
  "DEVIN_PHASE_MAP =
     [(''PreToolUse'', PhPre), (''PostToolUse'', PhPost), (''PermissionRequest'', PhPermissionRequest),
      (''UserPromptSubmit'', PhUserPrompt), (''Stop'', PhTurnEnd), (''PostCompaction'', PhPostCompact),
      (''SessionStart'', PhSessionStart), (''SessionEnd'', PhSessionEnd)]"

definition ANTIGRAVITY_PHASE_MAP :: "(string \<times> event_phase) list" where
  "ANTIGRAVITY_PHASE_MAP =
     [(''PreToolUse'', PhPre), (''PostToolUse'', PhPost), (''SessionStart'', PhSessionStart),
      (''PreInvocation'', PhPreInvocation), (''PostInvocation'', PhPostInvocation), (''Stop'', PhTurnEnd)]"

text \<open>A name outside the table is \<open>undefined\<close>; the schemas exclude it.\<close>

definition phase_of :: "(string \<times> event_phase) list \<Rightarrow> string \<Rightarrow> event_phase" where
  "phase_of t name = nullish (map_of t name) PhPreInvocation"

definition event_name :: "js \<Rightarrow> string" where
  "event_name v = nullish (js_str v ''hook_event_name'') []"

text \<open>The event with its five required fields; the adapters set what else the payload carries.\<close>

definition bare_event :: "agent_type \<Rightarrow> event_phase \<Rightarrow> string \<Rightarrow> string \<Rightarrow> js option \<Rightarrow> string \<Rightarrow> hook_event" where
  "bare_event agent phase sessionId toolName toolInput rawAt =
     \<lparr> he_agentType = agent, he_eventPhase = phase, he_sessionId = sessionId, he_turnId = None, he_toolName = toolName,
       he_filePath = None, he_toolInput = toolInput, he_permissionMode = None, he_cwd = None, he_rawAt = rawAt,
       he_subagentType = None, he_subagentId = None, he_lastAssistantMessage = None, he_compactTrigger = None,
       he_toolError = None, he_errorType = None, he_errorMessage = None, he_denialReason = None \<rparr>"

definition adaptClaudeCode :: "string \<Rightarrow> js \<Rightarrow> key_error + hook_event" where
  "adaptClaudeCode rawAt v =
     (let isUserPrompt = event_name v = ''UserPromptSubmit'' in
      case normalizeSessionId (nullish (js_str v ''session_id'') []) of
        Inl e \<Rightarrow> Inl e
      | Inr sid \<Rightarrow> Inr
          ((bare_event ClaudeCode (phase_of CLAUDE_PHASE_MAP (event_name v)) sid
             (if isUserPrompt then ''user_prompt'' else nullish (js_str v ''tool_name'') [])
             (if isUserPrompt
              then Some (JObj ((''prompt'', JStr (nullish (js_str v ''prompt'') [])) #
                     (case js_str v ''prompt_id'' of None \<Rightarrow> [] | Some p \<Rightarrow> [(''promptId'', JStr p)])))
              else js_get v ''tool_input'') rawAt)
           \<lparr>he_turnId := js_str v ''tool_use_id'', he_permissionMode := js_str v ''permission_mode'',
            he_filePath := extractFilePath FILE_PATH_KEYS (js_get v ''tool_input''), he_cwd := js_str v ''cwd'',
            he_subagentType := js_str v ''agent_type'', he_subagentId := js_str v ''agent_id'',
            he_lastAssistantMessage := js_str v ''last_assistant_message'', he_compactTrigger := js_str v ''trigger'',
            he_toolError := js_str v ''tool_error'', he_errorType := js_str v ''error_type'',
            he_errorMessage := js_str v ''error_message'', he_denialReason := js_str v ''denial_reason''\<rparr>))"

definition adaptCodex :: "string \<Rightarrow> js \<Rightarrow> key_error + hook_event" where
  "adaptCodex rawAt v =
     (let isUserPrompt = event_name v = ''UserPromptSubmit'' in
      case normalizeSessionId (nullish (js_str v ''session_id'') []) of
        Inl e \<Rightarrow> Inl e
      | Inr sid \<Rightarrow> Inr
          ((bare_event Codex (phase_of CODEX_PHASE_MAP (event_name v)) sid
             (if isUserPrompt then ''user_prompt'' else nullish (js_str v ''tool_name'') [])
             (if isUserPrompt then Some (JObj [(''prompt'', JStr (nullish (js_str v ''prompt'') []))])
              else js_get v ''tool_input'') rawAt)
           \<lparr>he_turnId := nullish_opt (js_str v ''tool_use_id'') (nullish_opt (js_str v ''tool_call_id'') (js_str v ''turn_id'')),
            he_filePath := extractFilePath FILE_PATH_KEYS (js_get v ''tool_input''), he_cwd := js_str v ''cwd'',
            he_subagentType := js_str v ''agent_type'', he_subagentId := js_str v ''agent_id'',
            he_compactTrigger := js_str v ''trigger''\<rparr>))"

definition adaptCursor :: "string \<Rightarrow> js \<Rightarrow> key_error + hook_event" where
  "adaptCursor rawAt v =
     (let isUserPrompt = event_name v = ''beforeSubmitPrompt'' in
      case normalizeSessionId (nullish (js_str v ''conversation_id'') (nullish (js_str v ''session_id'') ''unknown'')) of
        Inl e \<Rightarrow> Inl e
      | Inr sid \<Rightarrow> Inr
          ((bare_event Cursor (phase_of CURSOR_PHASE_MAP (event_name v)) sid
             (if isUserPrompt then ''user_prompt'' else nullish (js_str v ''tool_name'') [])
             (if isUserPrompt then Some (JObj [(''prompt'', JStr (nullish (js_str v ''prompt'') []))])
              else js_get v ''tool_input'') rawAt)
           \<lparr>he_turnId := js_str v ''tool_use_id'',
            he_filePath := extractFilePath FILE_PATH_KEYS (js_get v ''tool_input''), he_cwd := js_str v ''cwd'',
            he_subagentType := js_str v ''subagent_type'', he_subagentId := js_str v ''subagent_id'',
            he_lastAssistantMessage := js_str v ''summary'', he_compactTrigger := js_str v ''trigger'',
            he_toolError := map_option (\<lambda>m. case js_str v ''failure_type'' of None \<Rightarrow> m | Some t \<Rightarrow> t @ '': '' @ m)
              (js_str v ''error_message'')\<rparr>))"

definition adaptDevin :: "string \<Rightarrow> js \<Rightarrow> key_error + hook_event" where
  "adaptDevin rawAt v =
     (let isUserPrompt = event_name v = ''UserPromptSubmit'' in
      case normalizeSessionId (nullish (js_str v ''session_id'') ''unknown'') of
        Inl e \<Rightarrow> Inl e
      | Inr sid \<Rightarrow> Inr
          ((bare_event Devin (phase_of DEVIN_PHASE_MAP (event_name v)) sid
             (if isUserPrompt then ''user_prompt'' else nullish (js_str v ''tool_name'') [])
             (if isUserPrompt then Some (JObj [(''prompt'', JStr (nullish (js_str v ''prompt'') []))])
              else js_get v ''tool_input'') rawAt)
           \<lparr>he_turnId := js_str v ''prompt_id'',
            he_filePath := extractFilePath FILE_PATH_KEYS (js_get v ''tool_input''), he_cwd := js_str v ''cwd'',
            he_toolError := (case js_get v ''tool_response'' of None \<Rightarrow> None | Some r \<Rightarrow> js_str r ''error'')\<rparr>))"

definition canonicalizeAntigravityEventName :: "js \<Rightarrow> string" where
  "canonicalizeAntigravityEventName v =
     (let name = nullish (js_str v ''hookEventName'') [] in
      if name = ''PreInvocation'' \<and> (case js_get v ''invocationNum'' of Some (JNum n) \<Rightarrow> n \<le> 1 | _ \<Rightarrow> True)
      then ''SessionStart'' else name)"

definition adaptAntigravity :: "(rat \<Rightarrow> string) \<Rightarrow> string \<Rightarrow> js \<Rightarrow> string \<Rightarrow> key_error + hook_event" where
  "adaptAntigravity num_str rawAt v canonicalName =
     (let args = (case js_get v ''toolCall'' of None \<Rightarrow> None | Some t \<Rightarrow> js_get t ''args'') in
      case normalizeSessionId (nullish (js_str v ''conversationId'') ''unknown'') of
        Inl e \<Rightarrow> Inl e
      | Inr sid \<Rightarrow> Inr
          ((bare_event Antigravity (phase_of ANTIGRAVITY_PHASE_MAP canonicalName) sid
             (case js_get v ''toolCall'' of None \<Rightarrow> [] | Some t \<Rightarrow> nullish (js_str t ''name'') []) args rawAt)
           \<lparr>he_turnId := (case js_get v ''stepIdx'' of Some (JNum n) \<Rightarrow> Some (num_str n) | _ \<Rightarrow> None),
            he_filePath := extractFilePath (FILE_PATH_KEYS @ [''FilePath'']) args,
            he_cwd := (case js_get v ''workspacePaths'' of Some (JArr (x # _)) \<Rightarrow> as_string (Some x) | _ \<Rightarrow> None),
            he_toolError := as_nonempty (js_get v ''error'')\<rparr>))"

section \<open>Parsing\<close>

text \<open>\<open>null\<close>, the empty string and objects that compact to nothing are left out, at every depth of objects.\<close>

fun compact_entries :: "(string \<times> js) list \<Rightarrow> (string \<times> js) list" where
  "compact_entries [] = []"
| "compact_entries ((k, JNull) # rest) = compact_entries rest"
| "compact_entries ((k, JStr s) # rest) = (if s = [] then compact_entries rest else (k, JStr s) # compact_entries rest)"
| "compact_entries ((k, JObj m) # rest) =
     (let nested = compact_entries m in
      if nested = [] then compact_entries rest else (k, JObj nested) # compact_entries rest)"
| "compact_entries (e # rest) = e # compact_entries rest"

definition compactHookPayload :: "(string \<times> js) list \<Rightarrow> js" where
  "compactHookPayload rawPayload = JObj (compact_entries rawPayload)"

definition CURSOR_EVENT_NAME_MAP :: "(string \<times> string) list" where
  "CURSOR_EVENT_NAME_MAP =
     [(''sessionStart'', ''SessionStart''), (''beforeSubmitPrompt'', ''UserPromptSubmit''), (''preToolUse'', ''PreToolUse''),
      (''postToolUse'', ''PostToolUse''), (''stop'', ''Stop''), (''sessionEnd'', ''SessionEnd''),
      (''postToolUseFailure'', ''PostToolUseFailure''), (''subagentStart'', ''SubagentStart''),
      (''subagentStop'', ''SubagentStop''), (''preCompact'', ''PreCompact'')]"

definition canonicalHookEventName :: "agent_type \<Rightarrow> string \<Rightarrow> string" where
  "canonicalHookEventName agent raw = (if agent = Cursor then nullish (map_of CURSOR_EVENT_NAME_MAP raw) raw else raw)"

definition payload_ok :: "agent_type \<Rightarrow> js \<Rightarrow> bool" where
  "payload_ok agent v =
     (case agent of
        ClaudeCode \<Rightarrow> ClaudeCodeHookPayloadSchema v
      | Codex \<Rightarrow> CodexHookPayloadSchema v
      | Cursor \<Rightarrow> CursorHookPayloadSchema v
      | Devin \<Rightarrow> DevinHookPayloadSchema v
      | Antigravity \<Rightarrow> AntigravityHookPayloadSchema v)"

text \<open>The event and its name, nothing for a payload the schema rejects; \<open>Inl\<close> is a thrown error.\<close>

definition parseAndAdapt :: "(rat \<Rightarrow> string) \<Rightarrow> string \<Rightarrow> agent_type \<Rightarrow> js \<Rightarrow> key_error + (hook_event \<times> string) option" where
  "parseAndAdapt num_str rawAt agent v =
     (if \<not> payload_ok agent v then Inr None
      else
        (let name = (case agent of
               Cursor \<Rightarrow> canonicalHookEventName Cursor (event_name v)
             | Antigravity \<Rightarrow> canonicalizeAntigravityEventName v
             | _ \<Rightarrow> event_name v) in
         case (case agent of
                 ClaudeCode \<Rightarrow> adaptClaudeCode rawAt v
               | Codex \<Rightarrow> adaptCodex rawAt v
               | Cursor \<Rightarrow> adaptCursor rawAt v
               | Devin \<Rightarrow> adaptDevin rawAt v
               | Antigravity \<Rightarrow> adaptAntigravity num_str rawAt v name) of
           Inl e \<Rightarrow> Inl e
         | Inr ev \<Rightarrow> Inr (Some (ev, name))))"

section \<open>Session ids are safe\<close>

fun no_double :: "string \<Rightarrow> bool" where
  "no_double (a # b # cs) \<longleftrightarrow> \<not> (a = CHR ''-'' \<and> b = CHR ''-'') \<and> no_double (b # cs)"
| "no_double _ \<longleftrightarrow> True"

lemma dash_runs_set: "c \<in> set (dash_runs P b s) \<Longrightarrow> c = CHR ''-'' \<or> c \<in> set s \<and> \<not> P c"
  by (induction P b s rule: dash_runs.induct) (auto split: if_splits)

lemma dash_runs_keeps: "c \<in> set s \<Longrightarrow> \<not> P c \<Longrightarrow> c \<in> set (dash_runs P b s)"
  by (induction P b s rule: dash_runs.induct) auto

lemma dash_runs_id: "\<forall>c \<in> set s. \<not> P c \<Longrightarrow> dash_runs P b s = s"
  by (induction P b s rule: dash_runs.induct) auto

lemma collapsed:
  "no_double (dash_runs ((=) CHR ''-'') b s) \<and> (b \<longrightarrow> dash_runs ((=) CHR ''-'') b s = [] \<or> hd (dash_runs ((=) CHR ''-'') b s) \<noteq> CHR ''-'')"
proof (induction s arbitrary: b)
  case (Cons c s)
  from Cons [of True] Cons [of False] show ?case
    by (cases "dash_runs ((=) CHR ''-'') True s"; cases "dash_runs ((=) CHR ''-'') False s") auto
qed simp

lemma collapse_id: "no_double s \<Longrightarrow> (b \<longrightarrow> s = [] \<or> hd s \<noteq> CHR ''-'') \<Longrightarrow> dash_runs ((=) CHR ''-'') b s = s"
proof (induction s arbitrary: b)
  case (Cons c s)
  then show ?case by (cases s) auto
qed simp

lemma no_double_append: "no_double (xs @ ys) \<Longrightarrow> no_double xs \<and> no_double ys"
proof (induction xs)
  case (Cons x xs)
  then show ?case by (cases xs; cases ys) auto
qed simp

lemma dropWhile_suffix: "\<exists>us. s = us @ dropWhile P s \<and> (\<forall>u \<in> set us. P u)"
  by (rule exI [of _ "takeWhile P s"]) (auto dest: set_takeWhileD)

text \<open>Stripping takes dashes off both ends.\<close>

lemma strip_split:
  "\<exists>us vs. s = us @ strip_dashes s @ vs \<and> (\<forall>u \<in> set us \<union> set vs. u = CHR ''-'') \<and>
     (strip_dashes s \<noteq> [] \<longrightarrow> hd (strip_dashes s) \<noteq> CHR ''-'' \<and> last (strip_dashes s) \<noteq> CHR ''-'')"
proof -
  let ?d = "dropWhile ((=) CHR ''-'')"
  obtain us where us: "s = us @ ?d s" "\<forall>u \<in> set us. CHR ''-'' = u" using dropWhile_suffix by metis
  obtain ws where ws: "rev (?d s) = ws @ ?d (rev (?d s))" "\<forall>u \<in> set ws. CHR ''-'' = u" using dropWhile_suffix by metis
  have mid: "?d s = strip_dashes s @ rev ws"
    unfolding strip_dashes_def using arg_cong [OF ws(1), of rev] by simp
  show ?thesis
  proof (intro exI conjI impI)
    show "s = us @ strip_dashes s @ rev ws" using us(1) unfolding mid .
    show "\<forall>u \<in> set us \<union> set (rev ws). u = CHR ''-''"
    proof
      fix u assume "u \<in> set us \<union> set (rev ws)"
      then have "CHR ''-'' = u" using us(2) ws(2) by (metis Un_iff set_rev)
      then show "u = CHR ''-''" by (rule sym)
    qed
    assume ne: "strip_dashes s \<noteq> []"
    then have "?d s \<noteq> []" by (simp add: mid)
    from hd_dropWhile [OF this] have "hd (?d s) \<noteq> CHR ''-''" by metis
    then show "hd (strip_dashes s) \<noteq> CHR ''-''" using ne by (simp add: mid)
    have "?d (rev (?d s)) \<noteq> []" using ne by (simp add: strip_dashes_def)
    from hd_dropWhile [OF this] show "last (strip_dashes s) \<noteq> CHR ''-''" unfolding strip_dashes_def last_rev by metis
  qed
qed

lemma dropWhile_id_hd: "s \<noteq> [] \<Longrightarrow> \<not> P (hd s) \<Longrightarrow> dropWhile P s = s"
  by (cases s) simp_all

lemma strip_id: "s \<noteq> [] \<Longrightarrow> hd s \<noteq> CHR ''-'' \<Longrightarrow> last s \<noteq> CHR ''-'' \<Longrightarrow> strip_dashes s = s"
  using dropWhile_id_hd [of s "(=) CHR ''-''"] dropWhile_id_hd [of "rev s" "(=) CHR ''-''"]
  by (simp add: strip_dashes_def hd_rev)

lemma dash_safe: "\<not> unsafe_char (CHR ''-'')"
  by (simp add: unsafe_char_def js_space_def)

lemma colon_unsafe: "unsafe_char (CHR '':'')"
  by (simp add: unsafe_char_def)

lemma normalized_id:
  "case normalizeSessionId raw of
     Inl _ \<Rightarrow> (\<forall>c \<in> set raw. unsafe_char c \<or> c = CHR ''-'')
   | Inr s \<Rightarrow> s \<noteq> [] \<and> (\<forall>c \<in> set s. \<not> unsafe_char c) \<and> normalizeSessionId s = Inr s"
proof -
  define t where "t = dash_runs ((=) CHR ''-'') False (dash_runs unsafe_char False raw)"
  define s where "s = strip_dashes t"
  obtain us vs where split: "t = us @ s @ vs" "\<forall>u \<in> set us \<union> set vs. u = CHR ''-''"
    and ends: "s \<noteq> [] \<longrightarrow> hd s \<noteq> CHR ''-'' \<and> last s \<noteq> CHR ''-''"
    using strip_split [of t] unfolding s_def [symmetric] by blast
  have safe: "\<not> unsafe_char c" if "c \<in> set s" for c
  proof -
    have "c \<in> set t" using that split(1) by simp
    then have "c = CHR ''-'' \<or> c \<in> set (dash_runs unsafe_char False raw)" unfolding t_def using dash_runs_set by blast
    then show ?thesis using dash_runs_set dash_safe by blast
  qed
  then have no_colon: "CHR '':'' \<notin> set s" using colon_unsafe by blast
  have result: "normalizeSessionId raw = (if s = [] then Inl (SegmentEmpty ''sessionId'') else Inr s)"
    using no_colon by (simp add: normalizeSessionId_def t_def [symmetric] s_def [symmetric] assertRunKeySegment_def)
  show ?thesis
  proof (cases "s = []")
    case True
    have "unsafe_char c \<or> c = CHR ''-''" if "c \<in> set raw" for c
    proof (rule ccontr)
      assume "\<not> (unsafe_char c \<or> c = CHR ''-'')"
      then have "c \<in> set t" unfolding t_def using that by (intro dash_runs_keeps) auto
      with split True \<open>\<not> (unsafe_char c \<or> c = CHR ''-'')\<close> show False by auto
    qed
    with True result show ?thesis by simp
  next
    case False
    have "no_double t" unfolding t_def using collapsed by blast
    then have "no_double s" using split(1) no_double_append by metis
    then have "dash_runs ((=) CHR ''-'') False (dash_runs unsafe_char False s) = s"
      using safe by (simp add: dash_runs_id collapse_id)
    with False ends no_colon have "normalizeSessionId s = Inr s"
      by (simp add: normalizeSessionId_def strip_id assertRunKeySegment_def)
    with False result safe show ?thesis by simp
  qed
qed

text \<open>A session id that normalisation accepts is a non-empty run-key segment without any of the
  unsafe characters, and normalising it again leaves it as it is.  It throws only where the agent's id
  consists of unsafe characters and dashes alone.\<close>

theorem session_id_safe:
  "case normalizeSessionId raw of
     Inl _ \<Rightarrow> list_all (\<lambda>c. unsafe_char c \<or> c = CHR ''-'') raw
   | Inr s \<Rightarrow> s \<noteq> [] \<and> list_all (\<lambda>c. \<not> unsafe_char c) s \<and> normalizeSessionId s = Inr s"
  using normalized_id [of raw] by (auto simp: list_all_iff split: sum.splits)

section \<open>What adaptation keeps\<close>

lemma compact_idempotent: "compact_entries (compact_entries m) = compact_entries m"
  by (induction m rule: compact_entries.induct) (auto simp: Let_def)

text \<open>The phase of an event by its canonical name.\<close>

definition canonical_phase :: "string \<Rightarrow> event_phase option" where
  "canonical_phase name = map_of (CLAUDE_PHASE_MAP @ [(''PreInvocation'', PhPreInvocation), (''PostInvocation'', PhPostInvocation)]) name"

lemmas phase_maps = CLAUDE_PHASE_MAP_def CODEX_PHASE_MAP_def CURSOR_PHASE_MAP_def DEVIN_PHASE_MAP_def ANTIGRAVITY_PHASE_MAP_def

lemmas schemas = ClaudeCodeHookPayloadSchema_def CodexHookPayloadSchema_def CursorHookPayloadSchema_def
  DevinHookPayloadSchema_def AntigravityHookPayloadSchema_def

lemma one_of_name: "one_of v k names \<Longrightarrow> \<exists>s. js_str v k = Some s \<and> s \<in> set names"
  by (auto simp: one_of_def js_str_def split: option.splits)

lemma named_phase:
  assumes "list_all (\<lambda>(n, p). canonical_phase (f n) = Some p \<and> map_of t n = Some p) t" and "n \<in> fst ` set t"
  shows "canonical_phase (f n) = Some (phase_of t n)"
  using assms by (auto simp: list_all_iff phase_of_def)

lemma claude_phases: "list_all (\<lambda>(n, p). canonical_phase n = Some p \<and> map_of CLAUDE_PHASE_MAP n = Some p) CLAUDE_PHASE_MAP"
  by code_simp

lemma codex_phases: "list_all (\<lambda>(n, p). canonical_phase n = Some p \<and> map_of CODEX_PHASE_MAP n = Some p) CODEX_PHASE_MAP"
  by code_simp

lemma cursor_phases:
  "list_all (\<lambda>(n, p). canonical_phase (canonicalHookEventName Cursor n) = Some p \<and> map_of CURSOR_PHASE_MAP n = Some p)
     CURSOR_PHASE_MAP"
  by code_simp

lemma devin_phases:
  "list_all (\<lambda>(n, p). (canonical_phase n = Some p \<or> n = ''PostCompaction'' \<and> p = PhPostCompact) \<and> map_of DEVIN_PHASE_MAP n = Some p)
     DEVIN_PHASE_MAP"
  by code_simp

lemma antigravity_phases:
  "list_all (\<lambda>(n, p). canonical_phase n = Some p \<and> map_of ANTIGRAVITY_PHASE_MAP n = Some p) ANTIGRAVITY_PHASE_MAP"
  by code_simp

lemma schema_names:
  "ClaudeCodeHookPayloadSchema v \<Longrightarrow> event_name v \<in> fst ` set CLAUDE_PHASE_MAP"
  "CodexHookPayloadSchema v \<Longrightarrow> event_name v \<in> fst ` set CODEX_PHASE_MAP"
  "CursorHookPayloadSchema v \<Longrightarrow> event_name v \<in> fst ` set CURSOR_PHASE_MAP"
  "DevinHookPayloadSchema v \<Longrightarrow> event_name v \<in> fst ` set DEVIN_PHASE_MAP"
  "AntigravityHookPayloadSchema v \<Longrightarrow> canonicalizeAntigravityEventName v \<in> fst ` set ANTIGRAVITY_PHASE_MAP"
proof -
  have name: "event_name v = s" if "js_str v ''hook_event_name'' = Some s" for s using that by (simp add: event_name_def)
  show "ClaudeCodeHookPayloadSchema v \<Longrightarrow> event_name v \<in> fst ` set CLAUDE_PHASE_MAP"
    "CodexHookPayloadSchema v \<Longrightarrow> event_name v \<in> fst ` set CODEX_PHASE_MAP"
    "CursorHookPayloadSchema v \<Longrightarrow> event_name v \<in> fst ` set CURSOR_PHASE_MAP"
    "DevinHookPayloadSchema v \<Longrightarrow> event_name v \<in> fst ` set DEVIN_PHASE_MAP"
    unfolding ClaudeCodeHookPayloadSchema_def CodexHookPayloadSchema_def CursorHookPayloadSchema_def DevinHookPayloadSchema_def phase_maps
    by (elim conjE, drule one_of_name, elim exE conjE, simp only: name list.set image_insert fst_conv image_empty)+
  assume "AntigravityHookPayloadSchema v"
  then have "one_of v ''hookEventName'' [''PreToolUse'', ''PostToolUse'', ''PreInvocation'', ''PostInvocation'', ''Stop'']"
    unfolding AntigravityHookPayloadSchema_def by (elim conjE)
  from one_of_name [OF this] obtain s where "js_str v ''hookEventName'' = Some s"
    "s \<in> set [''PreToolUse'', ''PostToolUse'', ''PreInvocation'', ''PostInvocation'', ''Stop'']" by blast
  then show "canonicalizeAntigravityEventName v \<in> fst ` set ANTIGRAVITY_PHASE_MAP"
    by (auto simp: canonicalizeAntigravityEventName_def ANTIGRAVITY_PHASE_MAP_def)
qed

text \<open>The fields every adapter sets.\<close>

lemma bare_event_fields [simp]:
  "he_agentType (bare_event a p s t i r) = a" "he_eventPhase (bare_event a p s t i r) = p"
  "he_sessionId (bare_event a p s t i r) = s" "he_toolName (bare_event a p s t i r) = t"
  "he_toolInput (bare_event a p s t i r) = i"
  by (simp_all add: bare_event_def)

definition safe_segment :: "string \<Rightarrow> bool" where
  "safe_segment s \<longleftrightarrow> s \<noteq> [] \<and> (\<forall>c \<in> set s. \<not> unsafe_char c)"

lemma normalized_segment: "normalizeSessionId raw = Inr s \<Longrightarrow> safe_segment s"
  using normalized_id [of raw] by (simp add: safe_segment_def)

lemma adapted:
  "adaptClaudeCode r v = Inr e \<Longrightarrow> he_agentType e = ClaudeCode \<and> he_eventPhase e = phase_of CLAUDE_PHASE_MAP (event_name v) \<and>
     safe_segment (he_sessionId e)"
  "adaptCodex r v = Inr e \<Longrightarrow> he_agentType e = Codex \<and> he_eventPhase e = phase_of CODEX_PHASE_MAP (event_name v) \<and>
     safe_segment (he_sessionId e)"
  "adaptCursor r v = Inr e \<Longrightarrow> he_agentType e = Cursor \<and> he_eventPhase e = phase_of CURSOR_PHASE_MAP (event_name v) \<and>
     safe_segment (he_sessionId e)"
  "adaptDevin r v = Inr e \<Longrightarrow> he_agentType e = Devin \<and> he_eventPhase e = phase_of DEVIN_PHASE_MAP (event_name v) \<and>
     safe_segment (he_sessionId e)"
  "adaptAntigravity f r v n = Inr e \<Longrightarrow> he_agentType e = Antigravity \<and> he_eventPhase e = phase_of ANTIGRAVITY_PHASE_MAP n \<and>
     safe_segment (he_sessionId e)"
  unfolding adaptClaudeCode_def adaptCodex_def adaptCursor_def adaptDevin_def adaptAntigravity_def Let_def
  by (split sum.splits; force dest: normalized_segment)+

text \<open>C21: Whatever an agent sends, an accepted payload becomes an event of that agent with a session id that
  is a safe key segment and the phase of its canonical name.  The one exception is Devin's
  \<open>PostCompaction\<close>, whose phase is \<open>post_compact\<close> but whose name stays outside the shared vocabulary.\<close>

theorem adapted_event_valid:
  assumes "parseAndAdapt num_str rawAt agent v = Inr (Some (e, name))"
  shows "he_agentType e = agent \<and> he_sessionId e \<noteq> [] \<and> (\<forall>c \<in> set (he_sessionId e). \<not> unsafe_char c) \<and>
    (canonical_phase name = Some (he_eventPhase e) \<or>
     agent = Devin \<and> name = ''PostCompaction'' \<and> he_eventPhase e = PhPostCompact)"
proof -
  have ok: "payload_ok agent v" using assms by (auto simp: parseAndAdapt_def split: if_splits)
  show ?thesis
  proof (cases agent)
    case ClaudeCode
    with assms ok have a: "adaptClaudeCode rawAt v = Inr e" "name = event_name v"
      by (auto simp: parseAndAdapt_def Let_def split: sum.splits)
    from named_phase [of id, simplified, OF claude_phases schema_names(1)] ok ClaudeCode a adapted(1) [OF a(1)]
    show ?thesis by (simp add: payload_ok_def safe_segment_def)
  next
    case Codex
    with assms ok have a: "adaptCodex rawAt v = Inr e" "name = event_name v"
      by (auto simp: parseAndAdapt_def Let_def split: sum.splits)
    from named_phase [of id, simplified, OF codex_phases schema_names(2)] ok Codex a adapted(2) [OF a(1)]
    show ?thesis by (simp add: payload_ok_def safe_segment_def)
  next
    case Cursor
    with assms ok have a: "adaptCursor rawAt v = Inr e" "name = canonicalHookEventName Cursor (event_name v)"
      by (auto simp: parseAndAdapt_def Let_def split: sum.splits)
    from named_phase [OF cursor_phases schema_names(3)] ok Cursor a adapted(3) [OF a(1)]
    show ?thesis by (simp add: payload_ok_def safe_segment_def)
  next
    case Devin
    with assms ok have a: "adaptDevin rawAt v = Inr e" "name = event_name v"
      by (auto simp: parseAndAdapt_def Let_def split: sum.splits)
    from schema_names(4) ok Devin have "event_name v \<in> fst ` set DEVIN_PHASE_MAP" by (simp add: payload_ok_def)
    with devin_phases have "canonical_phase (event_name v) = Some (phase_of DEVIN_PHASE_MAP (event_name v)) \<or>
        event_name v = ''PostCompaction'' \<and> phase_of DEVIN_PHASE_MAP (event_name v) = PhPostCompact"
      by (auto simp: list_all_iff phase_of_def)
    with Devin a adapted(4) [OF a(1)] show ?thesis by (auto simp: safe_segment_def)
  next
    case Antigravity
    with assms ok have a: "adaptAntigravity num_str rawAt v (canonicalizeAntigravityEventName v) = Inr e"
      "name = canonicalizeAntigravityEventName v"
      by (auto simp: parseAndAdapt_def Let_def split: sum.splits)
    from named_phase [of id, simplified, OF antigravity_phases schema_names(5)] ok Antigravity a adapted(5) [OF a(1)]
    show ?thesis by (simp add: payload_ok_def safe_segment_def)
  qed
qed

lemma adapted_event_valid_witness:
  "\<exists>e. parseAndAdapt (\<lambda>_. []) ''now'' Cursor
      (JObj [(''hook_event_name'', JStr ''preToolUse''), (''conversation_id'', JStr ''c:1''), (''tool_name'', JStr ''Shell'')])
      = Inr (Some (e, ''PreToolUse'')) \<and> he_agentType e = Cursor \<and> he_sessionId e = ''c-1'' \<and>
    canonical_phase ''PreToolUse'' = Some (he_eventPhase e)"
proof -
  let ?v = "JObj [(''hook_event_name'', JStr ''preToolUse''), (''conversation_id'', JStr ''c:1''), (''tool_name'', JStr ''Shell'')]"
  let ?e = "(bare_event Cursor PhPre ''c-1'' ''Shell'' None ''now'') \<lparr>he_turnId := None\<rparr>"
  have run: "parseAndAdapt (\<lambda>_. []) ''now'' Cursor ?v = Inr (Some (?e, ''PreToolUse''))" by code_simp
  from adapted_event_valid [OF run] have "canonical_phase ''PreToolUse'' = Some (he_eventPhase ?e)" by simp
  with run show ?thesis by (intro exI [of _ ?e]) simp
qed

end
