(* ===== verification/Hook_Output.thy ===== *)
theory Hook_Output
  imports Hook_Event
begin

text \<open>
  \<open>shapeHookOutput\<close> of \<open>apps/mcp-server/src/tools/lifecycle-event/handler.ts\<close>: the answer to a hook in
  each agent's own vocabulary, and what the agent makes of it.  A property that is \<open>undefined\<close> is
  absent, as in the JSON that is sent.
\<close>

section \<open>Shaping\<close>

record shape_result =
  sh_permissionDecision :: policy_decision
  sh_reason :: "string option"
  sh_additionalContext :: "string option"
  sh_autoApprovePermissionRequest :: bool
  sh_deferToNativePermissions :: bool

fun permission_text :: "policy_decision \<Rightarrow> string" where
  "permission_text Allow = ''allow''"
| "permission_text Deny = ''deny''"
| "permission_text Ask = ''ask''"

definition str_field :: "string \<Rightarrow> string option \<Rightarrow> (string \<times> js) list" where
  "str_field k v = (case v of None \<Rightarrow> [] | Some s \<Rightarrow> [(k, JStr s)])"

definition specific :: "string \<Rightarrow> (string \<times> js) list \<Rightarrow> string \<times> js" where
  "specific name fs = (''hookSpecificOutput'', JObj ((''hookEventName'', JStr name) # fs))"

text \<open>The permission a \<open>PreToolUse\<close> hook asserts, left out where Coodra has no opinion.\<close>

definition asserted :: "shape_result \<Rightarrow> (string \<times> js) list" where
  "asserted r =
     (if sh_deferToNativePermissions r then []
      else (''permissionDecision'', JStr (permission_text (sh_permissionDecision r))) #
             str_field ''permissionDecisionReason'' (sh_reason r))"

definition block_fields :: "shape_result \<Rightarrow> (string \<times> js) list" where
  "block_fields r =
     (if sh_permissionDecision r = Deny then (''decision'', JStr ''block'') # str_field ''reason'' (sh_reason r) else [])"

text \<open>The same, only where there is a reason to give.\<close>

definition reasoned :: "string \<Rightarrow> shape_result \<Rightarrow> (string \<times> js) list" where
  "reasoned decision r =
     (case sh_reason r of None \<Rightarrow> [] | Some s \<Rightarrow> [(''decision'', JStr decision), (''reason'', JStr s)])"

definition shape_claude_code :: "string \<Rightarrow> shape_result \<Rightarrow> js" where
  "shape_claude_code name r =
     (let ok = (''ok'', JBool True); ctx = str_field ''additionalContext'' (sh_additionalContext r) in
      if name = ''PreToolUse'' then JObj [ok, specific name (asserted r @ ctx)]
      else if name = ''SessionStart'' then JObj [ok, specific name ctx]
      else if name = ''UserPromptSubmit'' then JObj (ok # block_fields r @ [specific name ctx])
      else if name \<in> {''PostToolUse'', ''Stop'', ''PreCompact''} then JObj (ok # block_fields r)
      else if name = ''SessionEnd'' then JObj [ok]
      else if name = ''ConfigChange'' then JObj [ok, specific name ctx]
      else if name = ''PermissionRequest'' then
        (if sh_permissionDecision r = Deny then
           JObj [ok, specific name [(''decision'', JObj ((''behavior'', JStr ''deny'') # str_field ''message'' (sh_reason r)))]]
         else if sh_autoApprovePermissionRequest r then
           JObj [ok, specific name [(''decision'', JObj [(''behavior'', JStr ''allow'')])]]
         else JObj [ok])
      else JObj [ok])"

definition shape_cursor :: "string \<Rightarrow> shape_result \<Rightarrow> js" where
  "shape_cursor name r =
     (if name = ''PreToolUse'' then
        (if sh_deferToNativePermissions r then JObj []
         else JObj ((''permission'', JStr (if sh_permissionDecision r = Deny then ''deny'' else ''allow'')) #
           (if sh_permissionDecision r = Deny
            then str_field ''user_message'' (sh_reason r) @ str_field ''agent_message'' (sh_reason r) else [])))
      else if name \<in> {''SessionStart'', ''PostToolUse''} then JObj (str_field ''additional_context'' (sh_additionalContext r))
      else if name = ''UserPromptSubmit'' then
        JObj ((''continue'', JBool (sh_permissionDecision r \<noteq> Deny)) #
          (if sh_permissionDecision r = Deny then str_field ''user_message'' (sh_reason r) else []))
      else if name = ''PreCompact'' then
        JObj (if sh_permissionDecision r = Deny then str_field ''user_message'' (sh_reason r) else [])
      else JObj [])"

definition shape_devin :: "string \<Rightarrow> shape_result \<Rightarrow> js" where
  "shape_devin name r =
     (let veto = (if sh_permissionDecision r = Deny then reasoned ''block'' r else []);
          ctx = str_field ''additionalContext'' (sh_additionalContext r) in
      if name \<in> {''PreToolUse'', ''PermissionRequest''} then JObj veto
      else if name \<in> {''SessionStart'', ''PostToolUse''} then JObj (if ctx = [] then [] else [specific name ctx])
      else if name = ''UserPromptSubmit'' then JObj (veto @ [specific name ctx])
      else if name = ''Stop'' then JObj veto
      else JObj [])"

definition shape_antigravity :: "string \<Rightarrow> shape_result \<Rightarrow> js" where
  "shape_antigravity name r =
     (if name = ''PreToolUse'' then
        JObj (if sh_permissionDecision r = Deny then reasoned ''deny'' r
              else if sh_permissionDecision r = Ask then reasoned ''ask'' r else [])
      else if name \<in> {''SessionStart'', ''PreInvocation''} then
        JObj (case sh_additionalContext r of
                None \<Rightarrow> [] | Some c \<Rightarrow> [(''injectSteps'', JArr [JObj [(''ephemeralMessage'', JStr c)]])])
      else if name = ''Stop'' then JObj (if sh_permissionDecision r = Deny then reasoned ''continue'' r else [])
      else JObj [])"

definition shape_codex :: "string \<Rightarrow> shape_result \<Rightarrow> js" where
  "shape_codex name r =
     (let ctx = str_field ''additionalContext'' (sh_additionalContext r) in
      if name = ''PreToolUse'' then JObj [specific name (asserted r @ ctx)]
      else if name \<in> {''SessionStart'', ''UserPromptSubmit''} then JObj (block_fields r @ [specific name ctx])
      else if name = ''PostToolUse'' then JObj (block_fields r @ (if ctx = [] then [] else [specific name ctx]))
      else if name = ''PermissionRequest'' then
        (if sh_permissionDecision r \<noteq> Deny \<and> \<not> sh_autoApprovePermissionRequest r then JObj []
         else JObj [specific name
           [(''decision'',
             if sh_permissionDecision r = Deny then JObj ((''behavior'', JStr ''deny'') # str_field ''message'' (sh_reason r))
             else JObj [(''behavior'', JStr ''allow'')])]])
      else if name = ''PreCompact'' then
        JObj ((if sh_permissionDecision r = Deny then (''continue'', JBool False) # str_field ''reason'' (sh_reason r) else []) @
          (if ctx = [] then [] else [specific name ctx]))
      else JObj [])"

definition shapeHookOutput :: "agent_type \<Rightarrow> string \<Rightarrow> shape_result \<Rightarrow> js" where
  "shapeHookOutput agent name r =
     (case agent of
        ClaudeCode \<Rightarrow> shape_claude_code name r
      | Cursor \<Rightarrow> shape_cursor name r
      | Devin \<Rightarrow> shape_devin name r
      | Antigravity \<Rightarrow> shape_antigravity name r
      | Codex \<Rightarrow> shape_codex name r)"

section \<open>What the agent makes of it\<close>

text \<open>The field by which each agent is stopped, as its hook documentation is quoted in the comments.\<close>

definition nested :: "js \<Rightarrow> string list \<Rightarrow> js option" where
  "nested v ks = fold (\<lambda>k w. case w of None \<Rightarrow> None | Some x \<Rightarrow> js_get x k) ks (Some v)"

definition vetoes :: "agent_type \<Rightarrow> string \<Rightarrow> js \<Rightarrow> bool" where
  "vetoes agent name v =
     (case agent of
        Cursor \<Rightarrow>
          if name = ''PreToolUse'' then js_get v ''permission'' = Some (JStr ''deny'')
          else name = ''UserPromptSubmit'' \<and> js_get v ''continue'' = Some (JBool False)
      | Devin \<Rightarrow> js_get v ''decision'' = Some (JStr ''block'')
      | Antigravity \<Rightarrow>
          if name = ''Stop'' then js_get v ''decision'' = Some (JStr ''continue'')
          else name = ''PreToolUse'' \<and> js_get v ''decision'' = Some (JStr ''deny'')
      | _ \<Rightarrow>
          if name = ''PreToolUse'' then nested v [''hookSpecificOutput'', ''permissionDecision''] = Some (JStr ''deny'')
          else if name = ''PermissionRequest'' then
            nested v [''hookSpecificOutput'', ''decision'', ''behavior''] = Some (JStr ''deny'')
          else if agent = Codex \<and> name = ''PreCompact'' then js_get v ''continue'' = Some (JBool False)
          else js_get v ''decision'' = Some (JStr ''block''))"

text \<open>The field that answers the agent's own permission prompt for it.\<close>

definition approves :: "agent_type \<Rightarrow> string \<Rightarrow> js \<Rightarrow> bool" where
  "approves agent name v =
     (case agent of
        Cursor \<Rightarrow> name = ''PreToolUse'' \<and> js_get v ''permission'' = Some (JStr ''allow'')
      | Devin \<Rightarrow> js_get v ''decision'' = Some (JStr ''approve'')
      | Antigravity \<Rightarrow> name = ''PreToolUse'' \<and> js_get v ''decision'' = Some (JStr ''allow'')
      | _ \<Rightarrow>
          if name = ''PreToolUse'' then nested v [''hookSpecificOutput'', ''permissionDecision''] = Some (JStr ''allow'')
          else name = ''PermissionRequest'' \<and>
            nested v [''hookSpecificOutput'', ''decision'', ''behavior''] = Some (JStr ''allow''))"

definition veto_events :: "agent_type \<Rightarrow> string list" where
  "veto_events agent =
     (case agent of
        ClaudeCode \<Rightarrow> [''PreToolUse'', ''UserPromptSubmit'', ''PostToolUse'', ''Stop'', ''PreCompact'', ''PermissionRequest'']
      | Codex \<Rightarrow> [''PreToolUse'', ''SessionStart'', ''UserPromptSubmit'', ''PostToolUse'', ''PreCompact'', ''PermissionRequest'']
      | Cursor \<Rightarrow> [''PreToolUse'', ''UserPromptSubmit'']
      | Devin \<Rightarrow> [''PreToolUse'', ''PermissionRequest'', ''UserPromptSubmit'', ''Stop'']
      | Antigravity \<Rightarrow> [''PreToolUse'', ''Stop''])"

text \<open>The agents whose \<open>PreToolUse\<close> answer leaves the permission out when Coodra defers.\<close>

definition defers :: "agent_type \<Rightarrow> string \<Rightarrow> shape_result \<Rightarrow> bool" where
  "defers agent name r \<longleftrightarrow> name = ''PreToolUse'' \<and> agent \<in> {ClaudeCode, Codex, Cursor} \<and> sh_deferToNativePermissions r"

lemma js_get_JObj [simp]: "js_get (JObj kvs) k = map_of kvs k"
  by simp

lemma shaped_fields [simp]:
  "map_of (str_field k v) k' = (if k = k' then map_option JStr v else None)"
  "map_of (block_fields r) ''decision'' = (if sh_permissionDecision r = Deny then Some (JStr ''block'') else None)"
  "map_of (asserted r) ''permissionDecision'' =
     (if sh_deferToNativePermissions r then None else Some (JStr (permission_text (sh_permissionDecision r))))"
  "map_of (reasoned d r) ''decision'' = (if sh_reason r = None then None else Some (JStr d))"
  by (auto simp: str_field_def block_fields_def asserted_def reasoned_def split: option.splits)

lemma specific_field [simp]: "fst (specific name fs) = ''hookSpecificOutput''"
  "snd (specific name fs) = JObj ((''hookEventName'', JStr name) # fs)"
  by (simp_all add: specific_def)

lemma specific_eq [simp]:
  "(k, v) = specific name fs \<longleftrightarrow> k = ''hookSpecificOutput'' \<and> v = JObj ((''hookEventName'', JStr name) # fs)"
  by (simp add: specific_def)

lemma map_of_specific [simp]:
  "map_of (specific name fs # rest) k =
     (if k = ''hookSpecificOutput'' then Some (JObj ((''hookEventName'', JStr name) # fs)) else map_of rest k)"
  by (simp add: specific_def)

lemmas shapes = shape_claude_code_def shape_cursor_def shape_devin_def shape_antigravity_def shape_codex_def

lemma permission_deny [simp]: "permission_text d = ''deny'' \<longleftrightarrow> d = Deny" "permission_text d = ''allow'' \<longleftrightarrow> d = Allow"
  by (cases d; simp)+

lemma nested_simps [simp]: "nested v [] = Some v" "nested v (k # ks) = (case js_get v k of None \<Rightarrow> None | Some w \<Rightarrow> nested w ks)"
proof -
  have "fold (\<lambda>k w. case w of None \<Rightarrow> None | Some x \<Rightarrow> js_get x k) ks None = None" for ks by (induction ks) simp_all
  then show "nested v (k # ks) = (case js_get v k of None \<Rightarrow> None | Some w \<Rightarrow> nested w ks)"
    by (simp add: nested_def split: option.split)
qed (simp add: nested_def)

text \<open>C20: The answer to a hook stops the agent exactly when the decision is a denial, the event is one
  that agent lets a hook stop, Coodra does not leave the call to the agent's own permissions, and (for
  Devin and Antigravity) there is a reason to give.  So nothing but a denial ever stops an agent.\<close>

theorem veto_iff_denied:
  "vetoes agent name (shapeHookOutput agent name r) \<longleftrightarrow>
     sh_permissionDecision r = Deny \<and> name \<in> set (veto_events agent) \<and> \<not> defers agent name r \<and>
     (if agent \<in> {Devin, Antigravity} then sh_reason r \<noteq> None else True)"
proof (cases agent)
  case ClaudeCode
  consider "name = ''PreToolUse''" | "name = ''SessionStart''" | "name = ''UserPromptSubmit''" | "name = ''PostToolUse''" | "name = ''Stop''" | "name = ''PreCompact''" | "name = ''SessionEnd''" | "name = ''ConfigChange''" | "name = ''PermissionRequest''" | (other) "name \<notin> set [''PreToolUse'', ''SessionStart'', ''UserPromptSubmit'', ''PostToolUse'', ''Stop'', ''PreCompact'', ''SessionEnd'', ''ConfigChange'', ''PermissionRequest'']" by auto
  then show ?thesis
    by cases (simp_all add: ClaudeCode vetoes_def shapeHookOutput_def shape_claude_code_def veto_events_def defers_def Let_def map_add_def split: option.split)
next
  case Codex
  consider "name = ''PreToolUse''" | "name = ''SessionStart''" | "name = ''UserPromptSubmit''" | "name = ''PostToolUse''" | "name = ''PermissionRequest''" | "name = ''PreCompact''" | (other) "name \<notin> set [''PreToolUse'', ''SessionStart'', ''UserPromptSubmit'', ''PostToolUse'', ''PermissionRequest'', ''PreCompact'']" by auto
  then show ?thesis
    by cases (simp_all add: Codex vetoes_def shapeHookOutput_def shape_codex_def veto_events_def defers_def Let_def map_add_def split: option.split)
next
  case Cursor
  then show ?thesis
    by (auto simp: vetoes_def shapeHookOutput_def shape_cursor_def veto_events_def defers_def Let_def map_add_def split: option.split)
next
  case Devin
  then show ?thesis
    by (auto simp: vetoes_def shapeHookOutput_def shape_devin_def veto_events_def defers_def Let_def map_add_def split: option.split)
next
  case Antigravity
  then show ?thesis
    by (auto simp: vetoes_def shapeHookOutput_def shape_antigravity_def veto_events_def defers_def Let_def map_add_def split: option.split)
qed

text \<open>Coodra answers a permission prompt for the agent only where it decided: on \<open>PreToolUse\<close> with a
  decision of its own (for Cursor, whose hooks know no question, an \<open>ask\<close> is answered with \<open>allow\<close>), and on
  \<open>PermissionRequest\<close> of Claude Code and Codex for a call some approval artifact covers.\<close>

theorem approval_needs_opinion:
  "approves agent name (shapeHookOutput agent name r) \<longleftrightarrow>
     (case agent of
        ClaudeCode \<Rightarrow> name = ''PreToolUse'' \<and> sh_permissionDecision r = Allow \<and> \<not> sh_deferToNativePermissions r \<or>
          name = ''PermissionRequest'' \<and> sh_permissionDecision r \<noteq> Deny \<and> sh_autoApprovePermissionRequest r
      | Codex \<Rightarrow> name = ''PreToolUse'' \<and> sh_permissionDecision r = Allow \<and> \<not> sh_deferToNativePermissions r \<or>
          name = ''PermissionRequest'' \<and> sh_permissionDecision r \<noteq> Deny \<and> sh_autoApprovePermissionRequest r
      | Cursor \<Rightarrow> name = ''PreToolUse'' \<and> sh_permissionDecision r \<noteq> Deny \<and> \<not> sh_deferToNativePermissions r
      | _ \<Rightarrow> False)"
proof (cases agent)
  case ClaudeCode
  consider "name = ''PreToolUse''" | "name = ''PermissionRequest''" | "name \<notin> {''PreToolUse'', ''PermissionRequest''}" by auto
  then show ?thesis
    by cases (simp_all add: ClaudeCode approves_def shapeHookOutput_def shape_claude_code_def Let_def map_add_def split: option.split)
next
  case Codex
  consider "name = ''PreToolUse''" | "name = ''PermissionRequest''" | "name \<notin> {''PreToolUse'', ''PermissionRequest''}" by auto
  then show ?thesis
    by cases (simp_all add: Codex approves_def shapeHookOutput_def shape_codex_def Let_def map_add_def split: option.split)
next
  case Cursor
  then show ?thesis
    by (cases "name = ''PreToolUse''") (simp_all add: approves_def shapeHookOutput_def shape_cursor_def)
next
  case Devin
  consider "name \<in> {''PreToolUse'', ''PermissionRequest''}" | "name \<in> {''SessionStart'', ''PostToolUse''}"
    | "name = ''UserPromptSubmit''" | "name = ''Stop''"
    | "name \<notin> {''PreToolUse'', ''PermissionRequest'', ''SessionStart'', ''PostToolUse'', ''UserPromptSubmit'', ''Stop''}" by auto
  then show ?thesis
    by cases (auto simp: Devin approves_def shapeHookOutput_def shape_devin_def Let_def map_add_def split: option.split)
next
  case Antigravity
  then show ?thesis
    by (cases "name = ''PreToolUse''") (simp_all add: approves_def shapeHookOutput_def shape_antigravity_def)
qed

end
