(* ===== verification/Audit_Chain.thy ===== *)
theory Audit_Chain
  imports Coodra_Keys
begin

text \<open>
  The governance audit log, \<open>packages/db/src/audit-events.ts\<close>: every event carries the hash of its
  content and the hash of the newest event of its organisation before it.

  Parameters of a call: the minted id, SQLite's \<open>unixepoch()\<close>, the decimal rendering \<open>av_numStr\<close> of a number,
  the hexadecimal \<open>av_sha256\<close>, and \<open>av_pick\<close>, the row that \<open>ORDER BY created_at DESC LIMIT 1\<close> returns when
  several share the newest second: SQL leaves that open, so \<open>av_pick\<close> may be any function that
  returns one of them.  The ids of project and run that an event names are those of rows the caller
  holds, so the foreign keys of the table never fail here.
\<close>

section \<open>JSON\<close>

text \<open>The file's own copy of the key-sorted rendering.\<close>

definition stableStringify :: "(rat \<Rightarrow> string) \<Rightarrow> js \<Rightarrow> string" where
  "stableStringify num_str v = stableJson num_str v"

text \<open>\<open>JSON.stringify\<close>: the members of an object in the order they were written.\<close>

fun json_text :: "(rat \<Rightarrow> string) \<Rightarrow> js \<Rightarrow> string" where
  "json_text num_str JNull = ''null''"
| "json_text num_str (JBool b) = (if b then ''true'' else ''false'')"
| "json_text num_str (JNum n) = num_str n"
| "json_text num_str (JInf _) = ''null''"
| "json_text num_str (JStr s) = json_quote s"
| "json_text num_str (JArr vs) = ''['' @ join '','' (map (json_text num_str) vs) @ '']''"
| "json_text num_str (JObj kvs) =
     [CHR 0x7B] @ join '','' (map (\<lambda>(k, v). json_quote k @ '':'' @ json_text num_str v) kvs) @ [CHR 0x7D]"

definition opt_js :: "string option \<Rightarrow> js" where
  "opt_js v = (case v of None \<Rightarrow> JNull | Some s \<Rightarrow> JStr s)"

section \<open>The log\<close>

record audit_event =
  au_id :: string
  au_orgId :: string
  au_projectId :: "string option"
  au_runId :: "string option"
  au_actorUserId :: "string option"
  au_actorRunId :: "string option"
  au_eventType :: string
  au_subjectTable :: string
  au_subjectId :: string
  au_action :: string
  au_result :: string
  au_reason :: "string option"
  au_metadataJson :: string
  au_beforeHash :: "string option"
  au_afterHash :: "string option"
  au_prevHash :: "string option"
  au_hash :: "string option"
  au_createdAt :: int

record audit_args =
  aa_orgId :: "string option"
  aa_projectId :: "string option"
  aa_runId :: "string option"
  aa_actorUserId :: "string option"
  aa_actorRunId :: "string option"
  aa_eventType :: string
  aa_subjectTable :: string
  aa_subjectId :: string
  aa_action :: string
  aa_result :: "string option"
  aa_reason :: "string option"
  aa_metadata :: "js option"
  aa_beforeHash :: "string option"
  aa_afterHash :: "string option"

record audit_env =
  av_id :: string
  av_epoch :: int
  av_numStr :: "rat \<Rightarrow> string"
  av_sha256 :: "string \<Rightarrow> string"
  av_pick :: "audit_event list \<Rightarrow> audit_event"

definition SOLO_ORG_ID :: string where
  "SOLO_ORG_ID = ''__solo__''"

definition audit_sha256 :: "(string \<Rightarrow> string) \<Rightarrow> string \<Rightarrow> string" where
  "audit_sha256 sha s = ''sha256:'' @ sha s"

definition newest :: "audit_event list \<Rightarrow> audit_event list" where
  "newest rows = filter (\<lambda>e. \<forall>e' \<in> set rows. au_createdAt e' \<le> au_createdAt e) rows"

definition latestAuditHash ::
  "(audit_event list \<Rightarrow> audit_event) \<Rightarrow> audit_event list \<Rightarrow> string \<Rightarrow> string option"
where
  "latestAuditHash pick t orgId =
     (let rows = filter (\<lambda>e. au_orgId e = orgId) t
      in if rows = [] then None else au_hash (pick (newest rows)))"

text \<open>The object that is hashed: everything but the hash itself and the creation time.\<close>

definition hashed_content :: "audit_event \<Rightarrow> js" where
  "hashed_content e =
     JObj [(''id'', JStr (au_id e)), (''orgId'', JStr (au_orgId e)), (''projectId'', opt_js (au_projectId e)),
           (''runId'', opt_js (au_runId e)), (''actorUserId'', opt_js (au_actorUserId e)),
           (''actorRunId'', opt_js (au_actorRunId e)), (''eventType'', JStr (au_eventType e)),
           (''subjectTable'', JStr (au_subjectTable e)), (''subjectId'', JStr (au_subjectId e)),
           (''action'', JStr (au_action e)), (''result'', JStr (au_result e)), (''reason'', opt_js (au_reason e)),
           (''metadataJson'', JStr (au_metadataJson e)), (''beforeHash'', opt_js (au_beforeHash e)),
           (''afterHash'', opt_js (au_afterHash e)), (''prevHash'', opt_js (au_prevHash e))]"

definition event_text :: "(rat \<Rightarrow> string) \<Rightarrow> audit_event \<Rightarrow> string" where
  "event_text num_str e = stableStringify num_str (hashed_content e)"

definition insertAuditEvent :: "audit_env \<Rightarrow> audit_args \<Rightarrow> audit_event list \<Rightarrow> audit_event list" where
  "insertAuditEvent env a t =
     (let orgId = nullish (aa_orgId a) SOLO_ORG_ID;
          row = \<lparr> au_id = av_id env, au_orgId = orgId, au_projectId = aa_projectId a, au_runId = aa_runId a,
                  au_actorUserId = aa_actorUserId a, au_actorRunId = aa_actorRunId a,
                  au_eventType = aa_eventType a, au_subjectTable = aa_subjectTable a,
                  au_subjectId = aa_subjectId a, au_action = aa_action a,
                  au_result = nullish (aa_result a) ''success'', au_reason = aa_reason a,
                  au_metadataJson = json_text (av_numStr env) (nullish (aa_metadata a) (JObj [])),
                  au_beforeHash = aa_beforeHash a, au_afterHash = aa_afterHash a,
                  au_prevHash = latestAuditHash (av_pick env) t orgId, au_hash = Some [],
                  au_createdAt = av_epoch env \<rparr>
      in t @ [row\<lparr>au_hash := Some (audit_sha256 (av_sha256 env) (event_text (av_numStr env) row))\<rparr>])"

section \<open>The chain\<close>

definition picks_member :: "audit_env \<Rightarrow> bool" where
  "picks_member env \<longleftrightarrow> (\<forall>rows. rows \<noteq> [] \<longrightarrow> av_pick env rows \<in> set rows)"

definition org_log :: "string \<Rightarrow> audit_event list \<Rightarrow> audit_event list" where
  "org_log orgId t = filter (\<lambda>e. au_orgId e = orgId) t"

definition link_at :: "audit_event list \<Rightarrow> nat \<Rightarrow> bool" where
  "link_at l i \<longleftrightarrow>
     (if i = 0 then au_prevHash (l ! i) = None
      else \<exists>j < i. au_prevHash (l ! i) = au_hash (l ! j) \<and> au_createdAt (l ! j) = au_createdAt (l ! (i - 1)))"

definition linked :: "audit_event list \<Rightarrow> bool" where
  "linked l \<longleftrightarrow> (\<forall>i < length l. link_at l i)"

fun record_events :: "(audit_env \<times> audit_args) list \<Rightarrow> audit_event list \<Rightarrow> audit_event list" where
  "record_events [] t = t"
| "record_events ((env, a) # cs) t = record_events cs (insertAuditEvent env a t)"

lemma newest_last:
  assumes "sorted (map au_createdAt l)" and "l \<noteq> []"
  shows "e \<in> set (newest l) \<longleftrightarrow> e \<in> set l \<and> au_createdAt e = au_createdAt (last l)"
proof -
  have top: "\<forall>e' \<in> set l. au_createdAt e' \<le> au_createdAt (last l)"
    using assms by (cases l rule: rev_cases) (auto simp: sorted_append)
  then show ?thesis using assms(2) by (auto simp: newest_def intro: antisym)
qed

lemma link_at_prefix: "i < length l \<Longrightarrow> link_at (l @ [e]) i \<longleftrightarrow> link_at l i"
proof -
  assume i: "i < length l"
  then have n: "(l @ [e]) ! j = l ! j" if "j \<le> i" for j using that by (simp add: nth_append)
  have "(\<exists>j < i. Q ((l @ [e]) ! j)) \<longleftrightarrow> (\<exists>j < i. Q (l ! j))" for Q using n by (metis less_imp_le)
  from this [of "\<lambda>x. au_prevHash (l ! i) = au_hash x \<and> au_createdAt x = au_createdAt (l ! (i - 1))"]
  show ?thesis unfolding link_at_def using n [of i] n [of "i - 1"] by (cases i) simp_all
qed

lemma linked_snoc:
  assumes "linked l" and "sorted (map au_createdAt l)" and "picks_member env"
    and "au_prevHash e = (if l = [] then None else au_hash (av_pick env (newest l)))"
  shows "linked (l @ [e])"
proof -
  have "link_at (l @ [e]) (length l)"
  proof (cases "l = []")
    case True
    with assms(4) show ?thesis by (simp add: link_at_def)
  next
    case False
    have "last l \<in> set (newest l)" using newest_last [OF assms(2) False] False by simp
    then have "newest l \<noteq> []" by auto
    then have "av_pick env (newest l) \<in> set (newest l)" using assms(3) by (simp add: picks_member_def)
    with newest_last [OF assms(2) False] obtain j where j: "j < length l" "l ! j = av_pick env (newest l)"
      "au_createdAt (l ! j) = au_createdAt (last l)" by (metis in_set_conv_nth)
    have "au_prevHash ((l @ [e]) ! length l) = au_hash ((l @ [e]) ! j)"
      using j(1,2) assms(4) False by (simp add: nth_append)
    moreover have "au_createdAt ((l @ [e]) ! j) = au_createdAt ((l @ [e]) ! (length l - 1))"
      using j(1,3) False by (simp add: nth_append last_conv_nth)
    ultimately show ?thesis using j(1) False by (auto simp: link_at_def)
  qed
  with assms(1) link_at_prefix [of _ l e] show ?thesis by (auto simp: linked_def less_Suc_eq)
qed

lemma org_log_insert:
  "org_log o1 (insertAuditEvent env a t) =
     (if o1 = nullish (aa_orgId a) SOLO_ORG_ID then org_log o1 t @ [last (insertAuditEvent env a t)] else org_log o1 t)"
  by (simp add: org_log_def insertAuditEvent_def Let_def)

lemma inserted_event:
  "au_createdAt (last (insertAuditEvent env a t)) = av_epoch env"
  "au_prevHash (last (insertAuditEvent env a t)) =
     (let l = org_log (nullish (aa_orgId a) SOLO_ORG_ID) t in if l = [] then None else au_hash (av_pick env (newest l)))"
  by (simp_all add: insertAuditEvent_def latestAuditHash_def org_log_def Let_def)

lemma insert_keeps:
  assumes "linked (org_log o1 t)" and "sorted (map au_createdAt t)" and "picks_member env"
    and "\<forall>e \<in> set t. au_createdAt e \<le> av_epoch env"
  shows "linked (org_log o1 (insertAuditEvent env a t)) \<and> sorted (map au_createdAt (insertAuditEvent env a t))"
proof
  have "sorted (map au_createdAt (org_log o1 t))"
    using assms(2) unfolding org_log_def by (rule sorted_filter)
  from linked_snoc [OF assms(1) this assms(3)] inserted_event(2) [of env a t]
  show "linked (org_log o1 (insertAuditEvent env a t))"
    using assms(1) by (auto simp: org_log_insert Let_def)
  show "sorted (map au_createdAt (insertAuditEvent env a t))"
    using assms(2,4) by (simp add: insertAuditEvent_def Let_def sorted_append)
qed

lemma record_events_linked:
  assumes "\<forall>c \<in> set cs. picks_member (fst c)"
    and "sorted (map (av_epoch \<circ> fst) cs)" and "\<forall>e \<in> set t. \<forall>c \<in> set cs. au_createdAt e \<le> av_epoch (fst c)"
    and "linked (org_log o1 t)" and "sorted (map au_createdAt t)"
  shows "linked (org_log o1 (record_events cs t))"
  using assms
proof (induction cs arbitrary: t)
  case (Cons c cs)
  obtain env a where c: "c = (env, a)" by fastforce
  let ?t = "insertAuditEvent env a t"
  have "linked (org_log o1 ?t) \<and> sorted (map au_createdAt ?t)"
    using Cons.prems c by (intro insert_keeps) auto
  moreover have "\<forall>e \<in> set ?t. \<forall>c \<in> set cs. au_createdAt e \<le> av_epoch (fst c)"
    using Cons.prems c by (auto simp: insertAuditEvent_def Let_def)
  ultimately show ?case using Cons c by simp
qed simp

text \<open>The log of an organisation is chained: its first event names no predecessor, and every
  later one carries the hash of an earlier event of the same organisation, written in the second of
  the event just before it.  So the chain is a line exactly as far as no two events share a second;
  where they do, it may branch.\<close>

theorem audit_log_chained:
  assumes "\<forall>c \<in> set cs. picks_member (fst c)" and "sorted (map (av_epoch \<circ> fst) cs)"
    and "0 < i" and "i < length (org_log orgId (record_events cs []))"
  shows "\<exists>j < i. au_prevHash (org_log orgId (record_events cs []) ! i) = au_hash (org_log orgId (record_events cs []) ! j) \<and>
     au_createdAt (org_log orgId (record_events cs []) ! j) = au_createdAt (org_log orgId (record_events cs []) ! (i - 1))"
  using record_events_linked [OF assms(1,2), of "[]" orgId] assms(3,4) by (auto simp: org_log_def linked_def link_at_def)

section \<open>The rendered content can be read back\<close>

text \<open>A quoted string ends where it ends: no quoted string followed by anything is another one followed by
  something else.\<close>

definition escape_length :: "string \<Rightarrow> nat" where
  "escape_length w = (if hd w \<noteq> CHR 0x5C then 1 else if w ! 1 = CHR ''u'' then 6 else 2)"

definition hex_value :: "char \<Rightarrow> nat" where
  "hex_value c = (let n = of_char c :: nat in if n < 58 then n - 48 else n - 87)"

definition unescape :: "string \<Rightarrow> char" where
  "unescape w =
     (if hd w \<noteq> CHR 0x5C then hd w
      else if w ! 1 = CHR ''u'' then char_of (16 * hex_value (w ! 4) + hex_value (w ! 5))
      else if w ! 1 = CHR ''b'' then CHR 0x08
      else if w ! 1 = CHR ''t'' then CHR 0x09
      else if w ! 1 = CHR ''n'' then CHR 0x0A
      else if w ! 1 = CHR ''f'' then CHR 0x0C
      else if w ! 1 = CHR ''r'' then CHR 0x0D
      else w ! 1)"

lemma hex_value_digit: "d < 16 \<Longrightarrow> hex_value (hex_digit d) = d"
  by (simp add: hex_value_def hex_digit_def Let_def)

lemma some_chars:
  "char_of (8::nat) = CHR 0x08" "char_of (9::nat) = CHR 0x09" "char_of (10::nat) = CHR 0x0A"
  "char_of (12::nat) = CHR 0x0C" "char_of (13::nat) = CHR 0x0D" "char_of (34::nat) = CHR 0x22"
  "char_of (92::nat) = CHR 0x5C" "char_of (48::nat) = CHR ''0''"
  by (simp_all add: char_of_def bit_Suc_0_iff)

lemma four_hex_digits:
  assumes "n < 32"
  shows "pad_start 4 (CHR ''0'') (radix16 n) = ''00'' @ [hex_digit (n div 16), hex_digit (n mod 16)]"
proof (cases "n < 16")
  case True
  then show ?thesis
    by (simp add: radix16.simps [of n] pad_start_def numeral_3_eq_3 hex_digit_def [of 0] some_chars)
next
  case False
  with assms have "n div 16 = 1" by simp
  with False show ?thesis
    by (simp add: radix16.simps [of n] radix16.simps [of "Suc 0"] pad_start_def numeral_2_eq_2)
qed

lemma quote_char_code:
  "quote_char c \<noteq> [] \<and> (hd (quote_char c) = CHR 0x5C \<longrightarrow> 2 \<le> length (quote_char c)) \<and>
   length (quote_char c) = escape_length (quote_char c) \<and> unescape (quote_char c) = c"
proof -
  define n where "n = (of_char c :: nat)"
  have c: "c = char_of n" "n < 256" by (simp_all add: n_def)
  show ?thesis
  proof (cases "n < 32 \<or> n = 34 \<or> n = 92")
    case True
    then show ?thesis
      using c hex_value_digit [of "n div 16"] hex_value_digit [of "n mod 16"]
      by (auto simp: quote_char_def four_hex_digits escape_length_def unescape_def Let_def some_chars)
  next
    case False
    then have "c \<noteq> CHR 0x5C" using n_def by auto
    with False show ?thesis by (auto simp: quote_char_def escape_length_def unescape_def Let_def simp flip: n_def)
  qed
qed

lemma quote_char_prefix_free:
  assumes "quote_char c @ x = quote_char d @ y"
  shows "c = d \<and> x = y"
proof -
  let ?c = "quote_char c" and ?d = "quote_char d"
  have h: "hd ?c = hd ?d" using assms quote_char_code by (metis hd_append2)
  have "?c ! 1 = ?d ! 1" if "hd ?c = CHR 0x5C"
    using that h assms quote_char_code [of c] quote_char_code [of d]
    by (metis Suc_1 Suc_le_eq less_Suc_eq nth_append One_nat_def)
  then have "length ?c = length ?d"
    using h quote_char_code [of c] quote_char_code [of d] by (auto simp: escape_length_def)
  with assms have "?c = ?d \<and> x = y" by simp
  then show ?thesis using quote_char_code by metis
qed

lemma quote_not_terminator: "hd (quote_char c) \<noteq> CHR 0x22"
proof
  assume h: "hd (quote_char c) = CHR 0x22"
  then have "unescape (quote_char c) = CHR 0x22" by (simp add: unescape_def)
  then have "c = CHR 0x22" using quote_char_code by metis
  with h show False by (simp add: quote_char_def)
qed

lemma quote_not_end: "quote_char d @ r \<noteq> CHR 0x22 # x"
  using quote_not_terminator [of d] quote_char_code [of d] by (cases "quote_char d") auto

lemma quoted_prefix_free:
  "concat (map quote_char s) @ CHR 0x22 # x = concat (map quote_char t) @ CHR 0x22 # y \<Longrightarrow> s = t \<and> x = y"
proof (induction s arbitrary: t)
  case Nil
  then show ?case
  proof (cases t)
    case (Cons d t')
    from Nil Cons have "quote_char d @ concat (map quote_char t') @ CHR 0x22 # y = CHR 0x22 # x" by simp
    with quote_not_end show ?thesis by blast
  qed simp
next
  case (Cons c s)
  show ?case
  proof (cases t)
    case Nil
    with Cons.prems quote_not_end [of c] show ?thesis by simp
  next
    case (Cons d t')
    with Cons.prems have "c = d \<and> concat (map quote_char s) @ CHR 0x22 # x = concat (map quote_char t') @ CHR 0x22 # y"
      by (intro quote_char_prefix_free) simp
    with Cons.IH [of t'] Cons show ?thesis by simp
  qed
qed

lemma json_quote_prefix_free: "json_quote s @ x = json_quote t @ y \<Longrightarrow> s = t \<and> x = y"
  using quoted_prefix_free [of s x t y] by (simp add: json_quote_def)

lemma opt_js_prefix_free:
  "stableJson num_str (opt_js v) @ x = stableJson num_str (opt_js w) @ y \<Longrightarrow> v = w \<and> x = y"
  by (cases v; cases w) (auto simp: opt_js_def json_quote_def dest: quoted_prefix_free)


lemma members_sorted:
  "sort_key fst [(''id'', a), (''orgId'', b), (''projectId'', c), (''runId'', d), (''actorUserId'', e),
       (''actorRunId'', f), (''eventType'', g), (''subjectTable'', h), (''subjectId'', i), (''action'', j),
       (''result'', k), (''reason'', l), (''metadataJson'', m), (''beforeHash'', n), (''afterHash'', p), (''prevHash'', q :: string)] =
   [(''action'', j), (''actorRunId'', f), (''actorUserId'', e), (''afterHash'', p), (''beforeHash'', n),
    (''eventType'', g), (''id'', a), (''metadataJson'', m), (''orgId'', b), (''prevHash'', q), (''projectId'', c),
    (''reason'', l), (''result'', k), (''runId'', d), (''subjectId'', i), (''subjectTable'', h)]"
  by (simp add: sort_key_def less_eq_char_def)

lemma rendered_fields:
  "json_quote s @ x = json_quote t @ y \<longleftrightarrow> s = t \<and> x = y"
  "json_quote s = json_quote t \<longleftrightarrow> s = t"
  "stableJson num_str (opt_js v) @ x = stableJson num_str (opt_js w) @ y \<longleftrightarrow> v = w \<and> x = y"
  using json_quote_prefix_free [of s "[]" t "[]"]
  by (auto dest: json_quote_prefix_free opt_js_prefix_free)

lemma same_text_same_content: "event_text num_str e = event_text num_str e' \<Longrightarrow> hashed_content e = hashed_content e'"
  by (simp add: event_text_def stableStringify_def hashed_content_def members_sorted rendered_fields)

section \<open>The history is bound by its last hash\<close>

text \<open>A line: every event carries the hash of its own content and of its predecessor.\<close>

definition entry_valid :: "(string \<Rightarrow> string) \<Rightarrow> (rat \<Rightarrow> string) \<Rightarrow> audit_event list \<Rightarrow> nat \<Rightarrow> bool" where
  "entry_valid sha num_str l i \<longleftrightarrow>
     au_hash (l ! i) = Some (audit_sha256 sha (event_text num_str (l ! i))) \<and>
     au_prevHash (l ! i) = (if i = 0 then None else au_hash (l ! (i - 1)))"

definition valid_line :: "(string \<Rightarrow> string) \<Rightarrow> (rat \<Rightarrow> string) \<Rightarrow> audit_event list \<Rightarrow> bool" where
  "valid_line sha num_str l \<longleftrightarrow> (\<forall>i < length l. entry_valid sha num_str l i)"

lemma entry_valid_prefix: "i < length l \<Longrightarrow> entry_valid sha num_str (l @ [e]) i \<longleftrightarrow> entry_valid sha num_str l i"
  by (cases i) (simp_all add: entry_valid_def nth_append)

lemma entry_valid_last:
  "entry_valid sha num_str (l @ [e]) (length l) \<longleftrightarrow>
     au_hash e = Some (audit_sha256 sha (event_text num_str e)) \<and>
     au_prevHash e = (if l = [] then None else au_hash (last l))"
  by (cases "l = []") (simp_all add: entry_valid_def nth_append last_conv_nth)

lemma valid_line_snoc:
  "valid_line sha num_str (l @ [e]) \<longleftrightarrow>
     valid_line sha num_str l \<and> au_hash e = Some (audit_sha256 sha (event_text num_str e)) \<and>
     au_prevHash e = (if l = [] then None else au_hash (last l))"
proof -
  have "valid_line sha num_str (l @ [e]) \<longleftrightarrow>
      (\<forall>i < length l. entry_valid sha num_str (l @ [e]) i) \<and> entry_valid sha num_str (l @ [e]) (length l)"
    unfolding valid_line_def by (simp only: length_append_singleton All_less_Suc conj_commute)
  moreover have "(\<forall>i < length l. entry_valid sha num_str (l @ [e]) i) \<longleftrightarrow> valid_line sha num_str l"
    unfolding valid_line_def by (simp add: entry_valid_prefix)
  ultimately show ?thesis by (simp only: entry_valid_last)
qed

definition collision_free :: "(string \<Rightarrow> string) \<Rightarrow> string set \<Rightarrow> bool" where
  "collision_free sha texts \<longleftrightarrow> inj_on sha texts"

lemma line_determined:
  assumes "valid_line sha num_str l" and "valid_line sha num_str l'"
    and "collision_free sha (event_text num_str ` (set l \<union> set l'))"
    and "l \<noteq> []" and "l' \<noteq> []" and "au_hash (last l) = au_hash (last l')"
  shows "map hashed_content l = map hashed_content l'"
  using assms
proof (induction l arbitrary: l' rule: rev_induct)
  case (snoc e l)
  obtain m e' where l': "l' = m @ [e']" using snoc.prems(5) by (cases l' rule: rev_cases) auto
  have "sha (event_text num_str e) = sha (event_text num_str e')"
    using snoc.prems(1,2,6) by (simp add: l' valid_line_snoc audit_sha256_def)
  with snoc.prems(3) have "event_text num_str e = event_text num_str e'"
    unfolding collision_free_def by (rule inj_onD) (simp_all add: l')
  then have same: "hashed_content e = hashed_content e'" by (rule same_text_same_content)
  then have "au_prevHash e = au_prevHash e'" by (auto simp: hashed_content_def opt_js_def split: option.splits)
  with snoc.prems(1,2) l' have prev: "(if l = [] then None else au_hash (last l)) = (if m = [] then None else au_hash (last m))"
    by (simp add: valid_line_snoc)
  have hashed: "au_hash (last k) \<noteq> None" if "valid_line sha num_str k" "k \<noteq> []" for k
    using that by (cases k rule: rev_cases) (auto simp: valid_line_snoc)
  have valid: "valid_line sha num_str l" "valid_line sha num_str m"
    using snoc.prems(1,2) l' by (simp_all add: valid_line_snoc)
  show ?case
  proof (cases "l = []")
    case True
    with prev hashed [OF valid(2)] have "m = []" by (auto split: if_splits)
    with True same l' show ?thesis by simp
  next
    case False
    with prev hashed [OF valid(1)] have m: "m \<noteq> []" "au_hash (last l) = au_hash (last m)" by (auto split: if_splits)
    have "collision_free sha (event_text num_str ` (set l \<union> set m))"
      using snoc.prems(3) l' by (auto simp: collision_free_def intro: inj_on_subset)
    from snoc.IH [OF valid this False m] same l' show ?thesis by simp
  qed
qed simp

definition same_digest :: "(string \<Rightarrow> string) \<Rightarrow> (rat \<Rightarrow> string) \<Rightarrow> audit_env \<Rightarrow> bool" where
  "same_digest sha num_str env \<longleftrightarrow> av_sha256 env = sha \<and> av_numStr env = num_str"

lemma latest_of_alone:
  assumes "l \<noteq> []" and "sorted_wrt (<) (map au_createdAt l)" and "picks_member env"
  shows "av_pick env (newest l) = last l"
proof -
  have "sorted (map au_createdAt l)" using assms(2) by (simp add: strict_sorted_iff)
  note new = newest_last [OF this assms(1)]
  have "last l \<in> set (newest l)" using new [of "last l"] assms(1) by simp
  then have "newest l \<noteq> []" by (cases "newest l") simp_all
  then have "av_pick env (newest l) \<in> set (newest l)" using assms(3) by (simp add: picks_member_def)
  then have p: "av_pick env (newest l) \<in> set l" "au_createdAt (av_pick env (newest l)) = au_createdAt (last l)"
    using new [of "av_pick env (newest l)"] by simp_all
  have "inj_on au_createdAt (set l)" using assms(2) by (simp add: strict_sorted_iff distinct_map)
  then show ?thesis using p(2,1) last_in_set [OF assms(1)] by (rule inj_onD)
qed

lemma record_events_line:
  assumes "\<forall>c \<in> set cs. picks_member (fst c) \<and> same_digest sha num_str (fst c)"
    and "sorted_wrt (<) (map (av_epoch \<circ> fst) cs)" and "\<forall>e \<in> set t. \<forall>c \<in> set cs. au_createdAt e < av_epoch (fst c)"
    and "valid_line sha num_str (org_log o1 t)" and "sorted_wrt (<) (map au_createdAt (org_log o1 t))"
  shows "valid_line sha num_str (org_log o1 (record_events cs t))"
  using assms
proof (induction cs arbitrary: t)
  case (Cons c cs)
  obtain env a where c: "c = (env, a)" by fastforce
  let ?t = "insertAuditEvent env a t" and ?e = "last (insertAuditEvent env a t)"
  have hash: "au_hash ?e = Some (audit_sha256 sha (event_text num_str ?e))"
    using Cons.prems(1) c
    by (simp add: insertAuditEvent_def Let_def same_digest_def event_text_def hashed_content_def)
  have earlier: "\<forall>x \<in> set (org_log o1 t). au_createdAt x < av_epoch env"
    using Cons.prems(3) c by (simp add: org_log_def)
  have "valid_line sha num_str (org_log o1 ?t)"
    using Cons.prems(1,4,5) c hash inserted_event(2) [of env a t] latest_of_alone [of "org_log o1 t" env]
    by (auto simp: org_log_insert valid_line_snoc Let_def)
  moreover have "sorted_wrt (<) (map au_createdAt (org_log o1 ?t))"
    using Cons.prems(5) earlier inserted_event(1) [of env a t] by (auto simp: org_log_insert sorted_wrt_append)
  moreover have "\<forall>e \<in> set ?t. \<forall>c \<in> set cs. au_createdAt e < av_epoch (fst c)"
    using Cons.prems(2,3) c by (auto simp: insertAuditEvent_def Let_def)
  ultimately show ?case using Cons c by simp
qed simp

text \<open>C19: The newest hash of an organisation fixes its whole history: as long as no two of its events
  were written in one second, any other log whose every event carries the hash of its content and
  of its predecessor, and which ends in that same hash, tells the same events field by field (the
  creation times apart), unless SHA-256 collides on one of the texts hashed.\<close>

theorem history_bound_by_last_hash:
  assumes "\<forall>c \<in> set cs. picks_member (fst c) \<and> same_digest sha num_str (fst c)"
    and "sorted_wrt (<) (map (av_epoch \<circ> fst) cs)"
    and "valid_line sha num_str claimed" and "claimed \<noteq> []" and "org_log orgId (record_events cs []) \<noteq> []"
    and "au_hash (last claimed) = au_hash (last (org_log orgId (record_events cs [])))"
    and "collision_free sha (event_text num_str ` (set claimed \<union> set (org_log orgId (record_events cs []))))"
  shows "map hashed_content claimed = map hashed_content (org_log orgId (record_events cs []))"
proof -
  have "valid_line sha num_str (org_log orgId (record_events cs []))"
    using record_events_line [OF assms(1,2), of "[]" orgId] by (simp add: org_log_def valid_line_def)
  from line_determined [OF assms(3) this assms(7,4,5,6)] show ?thesis .
qed

section \<open>Witnesses\<close>

definition sample_audit_env :: "string \<Rightarrow> int \<Rightarrow> audit_env" where
  "sample_audit_env i now = \<lparr> av_id = i, av_epoch = now, av_numStr = (\<lambda>_. ''0''), av_sha256 = id, av_pick = hd \<rparr>"

definition sample_audit_args :: audit_args where
  "sample_audit_args = \<lparr> aa_orgId = None, aa_projectId = Some ''p'', aa_runId = None, aa_actorUserId = None,
     aa_actorRunId = None, aa_eventType = ''policy.grant.created'', aa_subjectTable = ''policy_grants'',
     aa_subjectId = ''g'', aa_action = ''create'', aa_result = None, aa_reason = None, aa_metadata = None,
     aa_beforeHash = None, aa_afterHash = None \<rparr>"

definition sample_events :: "(audit_env \<times> audit_args) list" where
  "sample_events = [(sample_audit_env ''e1'' 10, sample_audit_args), (sample_audit_env ''e2'' 11, sample_audit_args)]"

lemma sample_events_ok:
  "\<forall>c \<in> set sample_events. picks_member (fst c) \<and> same_digest id (\<lambda>_. ''0'') (fst c)"
  "sorted_wrt (<) (map (av_epoch \<circ> fst) sample_events)"
  by (simp_all add: sample_events_def sample_audit_env_def picks_member_def same_digest_def)

lemma sample_log_length: "length (org_log ''__solo__'' (record_events sample_events [])) = 2"
  by (simp add: sample_events_def insertAuditEvent_def Let_def org_log_def sample_audit_args_def SOLO_ORG_ID_def)

lemma backdated_line:
  assumes "valid_line sha num_str l"
  shows "valid_line sha num_str (map (\<lambda>e. e\<lparr>au_createdAt := 0\<rparr>) l)"
proof -
  have t: "event_text num_str (e\<lparr>au_createdAt := 0\<rparr>) = event_text num_str e" for e
    by (simp add: event_text_def hashed_content_def)
  have "entry_valid sha num_str (map (\<lambda>e. e\<lparr>au_createdAt := 0\<rparr>) l) i" if "i < length l" for i
    using assms that by (cases i) (auto simp: valid_line_def entry_valid_def t)
  then show ?thesis by (simp add: valid_line_def)
qed

lemma history_bound_by_last_hash_witness:
  "map hashed_content (map (\<lambda>e. e\<lparr>au_createdAt := 0\<rparr>) (org_log ''__solo__'' (record_events sample_events []))) =
     map hashed_content (org_log ''__solo__'' (record_events sample_events []))"
proof -
  let ?l = "org_log ''__solo__'' (record_events sample_events [])"
  have "?l \<noteq> []" using sample_log_length by auto
  moreover have "valid_line id (\<lambda>_. ''0'') ?l"
    using record_events_line [OF sample_events_ok, of "[]" "''__solo__''"] by (simp add: org_log_def valid_line_def)
  moreover have "event_text num_str (e\<lparr>au_createdAt := 0\<rparr>) = event_text num_str e" for num_str e
    by (simp add: event_text_def hashed_content_def)
  ultimately show ?thesis
    by (intro history_bound_by_last_hash [OF sample_events_ok backdated_line])
      (simp_all add: collision_free_def last_map)
qed

end
