(* ===== verification/Policy_Admin.thy ===== *)
theory Policy_Admin
  imports Policy_Client Audit_Chain Outbox
begin

text \<open>
  The administration of policies, \<open>packages/db/src/policies.ts\<close>: the rows of the policy tables in full,
  the operations that edit them (their SQLite branch), the versions they publish and the audit events
  they leave.  The policy client reads the same tables: \<open>client_db\<close> is what it sees of them, and the
  last section shows that it never serves a policy from before an edit.

  Nothing here runs in a transaction, so every operation returns the database next to its result and
  an error leaves what was written before it.  \<open>foreign_keys\<close> is on: an insert with a dangling reference
  and a delete of a referenced row fail.  The rows that refer to a rule from \<open>policy_decisions\<close> are
  \<open>ad_matchedRules\<close>; \<open>projects\<close> and \<open>runs\<close> are their ids.  A call's environment holds the ids it mints,
  \<open>new Date()\<close> in milliseconds and SQLite's \<open>unixepoch()\<close> in seconds.
\<close>

section \<open>Rows\<close>

record full_policy = policy_row +
  fp_orgId :: "string option"
  fp_name :: string
  fp_description :: "string option"
  fp_groupKey :: string
  fp_profile :: string

record full_rule = stored_rule +
  fu_controlKey :: "string option"
  fu_ruleType :: string
  fu_severity :: string
  fu_details :: "string option"

record full_version = version_row +
  fv_orgId :: "string option"
  fv_versionNumber :: int
  fv_snapshotJson :: string
  fv_snapshotHash :: string
  fv_createdByUserId :: "string option"
  fv_activatedByUserId :: "string option"
  fv_changeSummary :: "string option"
  fv_activatedAt :: "int option"

record full_exception = exception_row +
  fx_orgId :: "string option"
  fx_justification :: string
  fx_requestedByUserId :: "string option"
  fx_approvedByUserId :: "string option"
  fx_updatedByUserId :: "string option"
  fx_revokedByUserId :: "string option"

record full_grant = grant_row +
  fg_orgId :: "string option"
  fg_sourcePolicyDecisionId :: "string option"
  fg_createdByUserId :: "string option"
  fg_approvedByUserId :: "string option"

record admin_db =
  ad_projects :: "string list"
  ad_runs :: "string list"
  ad_policies :: "full_policy list"
  ad_rules :: "full_rule list"
  ad_versions :: "full_version list"
  ad_exceptions :: "full_exception list"
  ad_grants :: "full_grant list"
  ad_matchedRules :: "string list"
  ad_audit :: "audit_event list"

text \<open>The tables as the policy client selects from them.\<close>

definition client_db :: "admin_db \<Rightarrow> policy_db" where
  "client_db db =
     \<lparr> db_policies = map policy_row.truncate (ad_policies db), db_rules = map stored_rule.truncate (ad_rules db),
       db_versions = map version_row.truncate (ad_versions db),
       db_exceptions = map exception_row.truncate (ad_exceptions db),
       db_grants = map grant_row.truncate (ad_grants db) \<rparr>"

record admin_env =
  ae_now :: int
  ae_epoch :: int
  ae_policyId :: string
  ae_ruleId :: string
  ae_versionId :: string
  ae_rowId :: string
  ae_eventId :: string
  ae_numStr :: "rat \<Rightarrow> string"
  ae_sha256 :: "string \<Rightarrow> string"
  ae_pick :: "audit_event list \<Rightarrow> audit_event"

datatype admin_error =
    ReasonEmpty | ToolNameEmpty | RuleIdEmpty | PriorityNotFinite
  | PolicyNotFound | ForeignKeyFailed | UniqueFailed

fun kind_text :: "policy_decision \<Rightarrow> string" where
  "kind_text Allow = ''allow''"
| "kind_text Deny = ''deny''"
| "kind_text Ask = ''ask''"

fun verdict_text :: "governance_verdict \<Rightarrow> string" where
  "verdict_text Pass = ''pass''"
| "verdict_text RecordV = ''record''"
| "verdict_text Advise = ''advise''"
| "verdict_text Warn = ''warn''"
| "verdict_text Confirm = ''confirm''"
| "verdict_text Escalate = ''escalate''"
| "verdict_text Block = ''block''"

fun mode_text :: "enforcement_mode \<Rightarrow> string" where
  "mode_text Detective = ''detective''"
| "mode_text Advisory = ''advisory''"
| "mode_text Approval = ''approval''"
| "mode_text Preventive = ''preventive''"
| "mode_text Disabled = ''disabled''"

definition defaultGovernanceVerdict :: "policy_decision \<Rightarrow> governance_verdict" where
  "defaultGovernanceVerdict d = (if d = Deny then Block else if d = Ask then Confirm else Pass)"

definition defaultRuleEnforcementMode :: "policy_decision \<Rightarrow> enforcement_mode" where
  "defaultRuleEnforcementMode d = (if d = Deny then Preventive else if d = Ask then Approval else Detective)"

section \<open>Reading\<close>

definition rule_id :: "full_rule \<Rightarrow> string" where
  "rule_id s = rr_id (sr_row s)"

definition rule_policy :: "full_rule \<Rightarrow> string" where
  "rule_policy s = rr_policyId (sr_row s)"

definition rules_of :: "admin_db \<Rightarrow> string \<Rightarrow> full_rule list" where
  "rules_of db pid =
     order_by (\<lambda>s. rr_priority (sr_row s)) (order_by sr_createdAt (filter (\<lambda>s. rule_policy s = pid) (ad_rules db)))"

definition listPolicies :: "admin_db \<Rightarrow> string option \<Rightarrow> (full_policy \<times> full_rule list) list" where
  "listPolicies db projectId =
     map (\<lambda>p. (p, rules_of db (po_id p)))
       (case projectId of
          None \<Rightarrow> sort_key po_projectId (sort_key fp_name (ad_policies db))
        | Some q \<Rightarrow> sort_key fp_name (filter (\<lambda>p. po_projectId p = q) (ad_policies db)))"

definition find_policy :: "admin_db \<Rightarrow> string \<Rightarrow> string option \<Rightarrow> full_policy option" where
  "find_policy db identifier projectId =
     first_row (filter (\<lambda>p. (po_id p = identifier \<or> fp_name p = identifier) \<and>
       (projectId = None \<or> projectId = Some (po_projectId p))) (ad_policies db))"

definition getPolicy :: "admin_db \<Rightarrow> string \<Rightarrow> string option \<Rightarrow> (full_policy \<times> full_rule list) option" where
  "getPolicy db identifier projectId =
     (if identifier = [] then None
      else map_option (\<lambda>p. (p, rules_of db (po_id p))) (find_policy db identifier projectId))"

definition listPolicyVersions :: "admin_db \<Rightarrow> string \<Rightarrow> full_version list" where
  "listPolicyVersions db pid = order_by_desc fv_versionNumber (filter (\<lambda>v. pv_policyId v = pid) (ad_versions db))"

definition getActivePolicyVersion :: "admin_db \<Rightarrow> string \<Rightarrow> full_version option" where
  "getActivePolicyVersion db pid =
     (let vs = listPolicyVersions db pid
      in nullish_opt (List.find (\<lambda>v. pv_status v = ''active'') vs) (first_row vs))"

definition listPolicyExceptions :: "admin_db \<Rightarrow> string option \<Rightarrow> full_exception list" where
  "listPolicyExceptions db projectId =
     order_by_desc xr_createdAt
       (case projectId of None \<Rightarrow> ad_exceptions db
        | Some q \<Rightarrow> filter (\<lambda>x. xr_projectId x = Some q) (ad_exceptions db))"

definition listPolicyGrants :: "admin_db \<Rightarrow> string option \<Rightarrow> full_grant list" where
  "listPolicyGrants db projectId =
     order_by_desc gr_createdAt
       (case projectId of None \<Rightarrow> ad_grants db
        | Some q \<Rightarrow> filter (\<lambda>g. gr_projectId g = Some q) (ad_grants db))"

section \<open>Publishing a version\<close>

definition rule_snapshot :: "full_rule \<Rightarrow> js" where
  "rule_snapshot s =
     (let r = sr_row s in
      JObj [(''id'', JStr (rr_id r)), (''priority'', JNum (of_int (rr_priority r))),
            (''matchEventType'', JStr (rr_matchEventType r)), (''matchToolName'', JStr (rr_matchToolName r)),
            (''matchPathGlob'', opt_js (rr_matchPathGlob r)), (''matchCommandPattern'', opt_js (rr_matchCommandPattern r)),
            (''matchAgentType'', opt_js (rr_matchAgentType r)), (''decision'', JStr (rr_decision r)),
            (''enforcementDecision'', opt_js (rr_enforcementDecision r)),
            (''governanceVerdict'', opt_js (rr_governanceVerdict r)),
            (''enforcementMode'', opt_js (rr_ruleEnforcementMode r)),
            (''requiredCapability'', opt_js (rr_requiredCapability r)),
            (''excludedCapability'', opt_js (rr_excludedCapability r)), (''reason'', JStr (rr_reason r)),
            (''controlKey'', opt_js (fu_controlKey s)), (''ruleType'', JStr (fu_ruleType s)),
            (''severity'', JStr (fu_severity s)), (''details'', opt_js (fu_details s))])"

definition policy_snapshot :: "full_policy \<Rightarrow> full_rule list \<Rightarrow> js" where
  "policy_snapshot p rules =
     JObj [(''policy'', JObj [(''id'', JStr (po_id p)), (''orgId'', opt_js (fp_orgId p)),
              (''projectId'', JStr (po_projectId p)), (''name'', JStr (fp_name p)),
              (''description'', opt_js (fp_description p)), (''groupKey'', JStr (fp_groupKey p)),
              (''profile'', JStr (fp_profile p)), (''enforcementMode'', JStr (po_enforcementMode p)),
              (''denyOnPolicyError'', JBool (po_denyOnPolicyError p)), (''isActive'', JBool (po_isActive p))]),
           (''rules'', JArr (map rule_snapshot rules))]"

definition snapshot_hash :: "admin_env \<Rightarrow> js \<Rightarrow> string" where
  "snapshot_hash env v = ''sha256:'' @ ae_sha256 env (json_text (ae_numStr env) v)"

definition event_env :: "admin_env \<Rightarrow> audit_env" where
  "event_env env = \<lparr> av_id = ae_eventId env, av_epoch = ae_epoch env, av_numStr = ae_numStr env,
     av_sha256 = ae_sha256 env, av_pick = ae_pick env \<rparr>"

definition audited :: "admin_env \<Rightarrow> audit_args \<Rightarrow> admin_db \<Rightarrow> admin_db" where
  "audited env a db = db\<lparr>ad_audit := insertAuditEvent (event_env env) a (ad_audit db)\<rparr>"

definition publishPolicyVersion ::
  "admin_env \<Rightarrow> string \<Rightarrow> string option \<Rightarrow> string option \<Rightarrow> admin_db \<Rightarrow> (admin_error + full_version) \<times> admin_db"
where
  "publishPolicyVersion env policyId changeSummary actorUserId db =
     (case getPolicy db policyId None of
        None \<Rightarrow> (Inl PolicyNotFound, db)
      | Some (policy, rules) \<Rightarrow>
          (let snapshot = policy_snapshot policy rules;
               hash = snapshot_hash env snapshot;
               latest = first_row (listPolicyVersions db (po_id policy)) in
           if map_option fv_snapshotHash latest = Some hash then (Inr (the latest), db)
           else
             (let retired = map (\<lambda>v. if pv_policyId v = po_id policy
                                     then v\<lparr>pv_status := ''retired'', pv_retiredAt := Some (seconds (ae_now env))\<rparr>
                                     else v) (ad_versions db);
                  number = nullish (map_option fv_versionNumber latest) 0 + 1;
                  row = \<lparr> pv_id = ae_versionId env, pv_projectId = Some (po_projectId policy), pv_policyId = po_id policy,
                          pv_status = ''active'', pv_createdAt = ae_epoch env, pv_retiredAt = None,
                          fv_orgId = fp_orgId policy, fv_versionNumber = number,
                          fv_snapshotJson = json_text (ae_numStr env) snapshot, fv_snapshotHash = hash,
                          fv_createdByUserId = actorUserId, fv_activatedByUserId = actorUserId,
                          fv_changeSummary = changeSummary, fv_activatedAt = Some (seconds (ae_now env)) \<rparr>
              in (Inr row,
                  audited env
                    \<lparr> aa_orgId = fp_orgId policy, aa_projectId = Some (po_projectId policy), aa_runId = None,
                      aa_actorUserId = actorUserId, aa_actorRunId = None, aa_eventType = ''policy.version.activated'',
                      aa_subjectTable = ''policy_versions'', aa_subjectId = ae_versionId env, aa_action = ''activate'',
                      aa_result = None, aa_reason = changeSummary,
                      aa_metadata = Some (JObj [(''policyId'', JStr (po_id policy)), (''versionNumber'', JNum (of_int number)),
                                                (''ruleCount'', JNum (of_nat (length rules)))]),
                      aa_beforeHash = None, aa_afterHash = Some hash \<rparr>
                    (db\<lparr>ad_versions := retired @ [row]\<rparr>)))))"

section \<open>Rules and policies\<close>

record rule_values =
  rl_matchToolName :: string
  rl_matchPathGlob :: "string option"
  rl_matchCommandPattern :: "string option"
  rl_matchAgentType :: "string option"
  rl_decision :: policy_decision
  rl_enforcementDecision :: "policy_decision option"
  rl_governanceVerdict :: "governance_verdict option"
  rl_ruleEnforcementMode :: "enforcement_mode option"
  rl_requiredCapability :: "string option"
  rl_excludedCapability :: "string option"
  rl_reason :: string
  rl_controlKey :: "string option"
  rl_ruleType :: "string option"
  rl_severity :: "string option"
  rl_details :: "string option"

record add_rule_args =
  ar_projectId :: string
  ar_policyName :: "string option"
  ar_policyDescription :: "string option"
  ar_groupKey :: "string option"
  ar_profile :: "string option"
  ar_enforcementMode :: "string option"
  ar_denyOnPolicyError :: "bool option"
  ar_priority :: "int option"
  ar_matchEventType :: "string option"
  ar_values :: rule_values

text \<open>\<open>up_priority\<close> is \<open>None\<close> for a number that is not finite.\<close>

record update_rule_args =
  up_ruleId :: string
  up_priority :: "int option"
  up_matchEventType :: string
  up_values :: rule_values

text \<open>The columns both writers fill, each with the same defaults.\<close>

definition set_rule_values :: "int \<Rightarrow> string \<Rightarrow> rule_values \<Rightarrow> full_rule \<Rightarrow> full_rule" where
  "set_rule_values priority eventType v s =
     s\<lparr>sr_row := (sr_row s)\<lparr>
         rr_priority := priority, rr_matchEventType := eventType, rr_matchToolName := rl_matchToolName v,
         rr_matchPathGlob := rl_matchPathGlob v, rr_matchCommandPattern := rl_matchCommandPattern v,
         rr_matchAgentType := Some (nullish (rl_matchAgentType v) ''*''), rr_decision := kind_text (rl_decision v),
         rr_enforcementDecision := Some (kind_text (nullish (rl_enforcementDecision v) (rl_decision v))),
         rr_governanceVerdict :=
           Some (verdict_text (nullish (rl_governanceVerdict v) (defaultGovernanceVerdict (rl_decision v)))),
         rr_ruleEnforcementMode :=
           Some (mode_text (nullish (rl_ruleEnforcementMode v) (defaultRuleEnforcementMode (rl_decision v)))),
         rr_requiredCapability := rl_requiredCapability v, rr_excludedCapability := rl_excludedCapability v,
         rr_reason := rl_reason v\<rparr>,
       fu_controlKey := rl_controlKey v, fu_ruleType := nullish (rl_ruleType v) ''tool_call'',
       fu_severity := nullish (rl_severity v) ''medium'', fu_details := rl_details v\<rparr>"

text \<open>A row before its values; the policy's columns and version are the join's to fill.\<close>

definition bare_rule :: "string \<Rightarrow> string \<Rightarrow> int \<Rightarrow> full_rule" where
  "bare_rule i pid now =
     \<lparr> sr_row = \<lparr> rr_id = i, rr_policyId = pid, rr_policyVersionId = None, rr_priority = 0,
         rr_policyEnforcementMode = [], rr_policyDenyOnPolicyError = False, rr_matchEventType = [],
         rr_matchToolName = [], rr_matchPathGlob = None, rr_matchCommandPattern = None, rr_matchAgentType = None,
         rr_decision = [], rr_enforcementDecision = None, rr_governanceVerdict = None, rr_ruleEnforcementMode = None,
         rr_requiredCapability = None, rr_excludedCapability = None, rr_reason = [] \<rparr>,
       sr_createdAt = now, sr_updatedAt = None, fu_controlKey = None, fu_ruleType = [], fu_severity = [],
       fu_details = None \<rparr>"

text \<open>The unique index \<open>policy_rules_dedup_uk\<close>: null path globs are distinct from each other.\<close>

definition rule_clash :: "full_rule \<Rightarrow> full_rule \<Rightarrow> bool" where
  "rule_clash s t \<longleftrightarrow>
     (let a = sr_row s; b = sr_row t in
      rr_policyId a = rr_policyId b \<and> rr_priority a = rr_priority b \<and> rr_matchEventType a = rr_matchEventType b \<and>
      rr_matchToolName a = rr_matchToolName b \<and> rr_matchPathGlob a = rr_matchPathGlob b \<and> rr_matchPathGlob a \<noteq> None)"

definition next_priority :: "admin_db \<Rightarrow> string \<Rightarrow> int" where
  "next_priority db pid =
     (let ps = map (\<lambda>s. rr_priority (sr_row s)) (filter (\<lambda>s. rule_policy s = pid) (ad_rules db))
      in if ps = [] then 100 else Max (set ps) + 10)"

definition rule_label :: "string \<Rightarrow> string" where
  "rule_label i = take 8 i"

record add_rule_result =
  ad_policyId :: string
  ad_policyCreated :: bool
  ad_ruleId :: string
  ad_priority :: int

text \<open>The rule on the policy that was found or created.\<close>

definition add_to_policy ::
  "admin_env \<Rightarrow> add_rule_args \<Rightarrow> string \<Rightarrow> bool \<Rightarrow> admin_db \<Rightarrow> (admin_error + add_rule_result) \<times> admin_db"
where
  "add_to_policy env a pid created db =
     (let v = ar_values a;
          priority = nullish (ar_priority a) (next_priority db pid);
          row = set_rule_values priority (nullish (ar_matchEventType a) ''PreToolUse'') v
                  (bare_rule (ae_ruleId env) pid (ae_epoch env)) in
      if \<exists>s \<in> set (ad_rules db). rule_clash row s then (Inl UniqueFailed, db)
      else
        (case publishPolicyVersion env pid
                (Some (''Added '' @ kind_text (rl_decision v) @ '' rule for '' @ rl_matchToolName v)) None
                (db\<lparr>ad_rules := ad_rules db @ [row]\<rparr>) of
           (Inl e, db') \<Rightarrow> (Inl e, db')
         | (Inr _, db') \<Rightarrow> (Inr \<lparr> ad_policyId = pid, ad_policyCreated = created, ad_ruleId = ae_ruleId env,
                                 ad_priority = priority \<rparr>, db')))"

definition new_policy :: "admin_env \<Rightarrow> add_rule_args \<Rightarrow> string \<Rightarrow> full_policy" where
  "new_policy env a name =
     \<lparr> po_id = ae_policyId env, po_projectId = ar_projectId a,
       po_enforcementMode = nullish (ar_enforcementMode a) ''detective'',
       po_denyOnPolicyError = nullish (ar_denyOnPolicyError a) False, po_isActive = True,
       po_createdAt = ae_epoch env, po_updatedAt = ae_epoch env, fp_orgId = None, fp_name = name,
       fp_description = Some (nullish (ar_policyDescription a)
         (''Auto-created by addPolicyRule (no '' @ [CHR 0x27] @ name @ [CHR 0x27] @ '' policy existed for project)'')),
       fp_groupKey = nullish (ar_groupKey a) (if name = ''__default__'' then ''agent_guardrails'' else ''custom''),
       fp_profile = nullish (ar_profile a) ''default'' \<rparr>"

definition addPolicyRule ::
  "admin_env \<Rightarrow> add_rule_args \<Rightarrow> admin_db \<Rightarrow> (admin_error + add_rule_result) \<times> admin_db"
where
  "addPolicyRule env a db =
     (if trim (rl_reason (ar_values a)) = [] then (Inl ReasonEmpty, db)
      else if trim (rl_matchToolName (ar_values a)) = [] then (Inl ToolNameEmpty, db)
      else
        (let name = nullish (ar_policyName a) ''__default__'' in
         case first_row (filter (\<lambda>p. po_projectId p = ar_projectId a \<and> fp_name p = name) (ad_policies db)) of
           Some p \<Rightarrow> add_to_policy env a (po_id p) False db
         | None \<Rightarrow>
             if ar_projectId a \<notin> set (ad_projects db) then (Inl ForeignKeyFailed, db)
             else add_to_policy env a (ae_policyId env) True
                    (db\<lparr>ad_policies := ad_policies db @ [new_policy env a name]\<rparr>)))"

definition updatePolicyRule ::
  "admin_env \<Rightarrow> update_rule_args \<Rightarrow> admin_db \<Rightarrow> (admin_error + full_rule option) \<times> admin_db"
where
  "updatePolicyRule env a db =
     (if trim (up_ruleId a) = [] then (Inl RuleIdEmpty, db)
      else if trim (rl_reason (up_values a)) = [] then (Inl ReasonEmpty, db)
      else if trim (rl_matchToolName (up_values a)) = [] then (Inl ToolNameEmpty, db)
      else
        (case up_priority a of
           None \<Rightarrow> (Inl PriorityNotFinite, db)
         | Some priority \<Rightarrow>
             (case first_row (filter (\<lambda>s. rule_id s = up_ruleId a) (ad_rules db)) of
                None \<Rightarrow> (Inr None, db)
              | Some s \<Rightarrow>
                  (let s' = set_rule_values priority (up_matchEventType a) (up_values a) s;
                       rules = map (\<lambda>t. if rule_id t = up_ruleId a
                                        then set_rule_values priority (up_matchEventType a) (up_values a) t else t)
                                 (ad_rules db) in
                   if \<exists>t \<in> set (ad_rules db). rule_id t \<noteq> up_ruleId a \<and> rule_clash s' t then (Inl UniqueFailed, db)
                   else
                     (case publishPolicyVersion env (rule_policy s) (Some (''Updated rule '' @ rule_label (up_ruleId a)))
                             None (db\<lparr>ad_rules := rules\<rparr>) of
                        (Inl e, db') \<Rightarrow> (Inl e, db')
                      | (Inr _, db') \<Rightarrow>
                          (Inr (first_row (filter (\<lambda>s. rule_id s = up_ruleId a) (ad_rules db'))), db'))))))"

definition setPolicyActive ::
  "admin_env \<Rightarrow> string \<Rightarrow> bool \<Rightarrow> string option \<Rightarrow> admin_db \<Rightarrow> (admin_error + full_policy option) \<times> admin_db"
where
  "setPolicyActive env identifier active projectId db =
     (case find_policy db identifier projectId of
        None \<Rightarrow> (Inr None, db)
      | Some p \<Rightarrow>
          if po_isActive p = active then (Inr (Some p), db)
          else
            (case publishPolicyVersion env (po_id p) (Some (if active then ''Policy enabled'' else ''Policy disabled'')) None
                    (db\<lparr>ad_policies := map (\<lambda>q. if po_id q = po_id p
                       then q\<lparr>po_isActive := active, po_updatedAt := seconds (ae_now env)\<rparr> else q) (ad_policies db)\<rparr>) of
               (Inl e, db') \<Rightarrow> (Inl e, db')
             | (Inr _, db') \<Rightarrow> (Inr (first_row (filter (\<lambda>q. po_id q = po_id p) (ad_policies db'))), db')))"

definition rule_referenced :: "admin_db \<Rightarrow> string \<Rightarrow> bool" where
  "rule_referenced db i \<longleftrightarrow>
     (\<exists>x \<in> set (ad_exceptions db). xr_ruleId x = Some i) \<or> (\<exists>g \<in> set (ad_grants db). gr_targetRuleId g = Some i) \<or>
     i \<in> set (ad_matchedRules db)"

definition deletePolicyRule :: "admin_env \<Rightarrow> string \<Rightarrow> admin_db \<Rightarrow> (admin_error + bool) \<times> admin_db" where
  "deletePolicyRule env ruleId db =
     (if ruleId = [] then (Inr False, db)
      else
        (case first_row (filter (\<lambda>s. rule_id s = ruleId) (ad_rules db)) of
           None \<Rightarrow> (Inr False, db)
         | Some s \<Rightarrow>
             if rule_referenced db ruleId then (Inl ForeignKeyFailed, db)
             else
               (case publishPolicyVersion env (rule_policy s) (Some (''Deleted rule '' @ rule_label ruleId)) None
                       (db\<lparr>ad_rules := filter (\<lambda>t. rule_id t \<noteq> ruleId) (ad_rules db)\<rparr>) of
                  (Inl e, db') \<Rightarrow> (Inl e, db')
                | (Inr _, db') \<Rightarrow> (Inr True, db'))))"

section \<open>Exceptions\<close>

record exception_args =
  xa_projectId :: string
  xa_policyId :: string
  xa_policyVersionId :: "string option"
  xa_ruleId :: "string option"
  xa_scopeType :: string
  xa_scopeJson :: "string option"
  xa_decisionOverride :: policy_decision
  xa_reason :: string
  xa_justification :: string
  xa_requestedByUserId :: "string option"
  xa_startsAt :: "int option"
  xa_expiresAt :: "int option"
  xa_status :: "string option"

definition refers :: "string list \<Rightarrow> string option \<Rightarrow> bool" where
  "refers ids v = (case v of None \<Rightarrow> True | Some i \<Rightarrow> i \<in> set ids)"

text \<open>A \<open>Date\<close> column keeps whole seconds, and is read back in milliseconds.\<close>

definition stored_date :: "int option \<Rightarrow> int option" where
  "stored_date v = map_option (\<lambda>ms. seconds ms * 1000) v"

definition createPolicyException ::
  "admin_env \<Rightarrow> exception_args \<Rightarrow> admin_db \<Rightarrow> (admin_error + full_exception) \<times> admin_db"
where
  "createPolicyException env a db =
     (let row = \<lparr> xr_id = ae_rowId env, xr_projectId = Some (xa_projectId a), xr_policyId = xa_policyId a,
                  xr_policyVersionId = xa_policyVersionId a, xr_ruleId = xa_ruleId a, xr_scopeType = xa_scopeType a,
                  xr_scopeJson = nullish (xa_scopeJson a) ''{}'', xr_decisionOverride = kind_text (xa_decisionOverride a),
                  xr_reason = xa_reason a, xr_status = nullish (xa_status a) ''requested'',
                  xr_startsAt = stored_date (xa_startsAt a), xr_expiresAt = stored_date (xa_expiresAt a),
                  xr_createdAt = ae_epoch env, xr_updatedAt = Some (ae_epoch env), xr_revokedAt = None,
                  fx_orgId = None, fx_justification = xa_justification a,
                  fx_requestedByUserId = xa_requestedByUserId a, fx_approvedByUserId = None,
                  fx_updatedByUserId = None, fx_revokedByUserId = None \<rparr> in
      if xa_projectId a \<notin> set (ad_projects db) \<or> xa_policyId a \<notin> po_id ` set (ad_policies db) \<or>
         \<not> refers (map pv_id (ad_versions db)) (xa_policyVersionId a) \<or>
         \<not> refers (map rule_id (ad_rules db)) (xa_ruleId a)
      then (Inl ForeignKeyFailed, db)
      else
        (Inr row,
         audited env
           \<lparr> aa_orgId = None, aa_projectId = Some (xa_projectId a), aa_runId = None,
             aa_actorUserId = xa_requestedByUserId a, aa_actorRunId = None,
             aa_eventType = (if xa_status a = Some ''active'' then ''policy.exception.approved''
                             else ''policy.exception.requested''),
             aa_subjectTable = ''policy_exceptions'', aa_subjectId = ae_rowId env,
             aa_action = (if xa_status a = Some ''active'' then ''approve'' else ''request''), aa_result = None,
             aa_reason = Some (xa_reason a),
             aa_metadata = Some (JObj [(''policyId'', JStr (xa_policyId a)),
               (''policyVersionId'', opt_js (xa_policyVersionId a)), (''ruleId'', opt_js (xa_ruleId a)),
               (''scopeType'', JStr (xa_scopeType a)), (''decisionOverride'', JStr (kind_text (xa_decisionOverride a)))]),
             aa_beforeHash = None, aa_afterHash = None \<rparr>
           (db\<lparr>ad_exceptions := ad_exceptions db @ [row]\<rparr>)))"

datatype exception_action = Activate | Revoke | Reject

fun action_text :: "exception_action \<Rightarrow> string" where
  "action_text Activate = ''active''"
| "action_text Revoke = ''revoked''"
| "action_text Reject = ''rejected''"

fun action_event :: "exception_action \<Rightarrow> string" where
  "action_event Activate = ''policy.exception.approved''"
| "action_event Revoke = ''policy.exception.revoked''"
| "action_event Reject = ''policy.exception.rejected''"

definition patch_exception ::
  "int \<Rightarrow> exception_action \<Rightarrow> string option \<Rightarrow> full_exception \<Rightarrow> full_exception"
where
  "patch_exception now action actor x =
     (let y = x\<lparr>xr_status := action_text action, fx_updatedByUserId := actor, xr_updatedAt := Some (seconds now)\<rparr> in
      case action of
        Activate \<Rightarrow> y\<lparr>fx_approvedByUserId := actor\<rparr>
      | Revoke \<Rightarrow> y\<lparr>fx_revokedByUserId := actor, xr_revokedAt := Some (seconds now)\<rparr>
      | Reject \<Rightarrow> y)"

definition updatePolicyExceptionStatus ::
  "admin_env \<Rightarrow> string \<Rightarrow> exception_action \<Rightarrow> string option \<Rightarrow> admin_db \<Rightarrow>
   (admin_error + full_exception option) \<times> admin_db"
where
  "updatePolicyExceptionStatus env exceptionId action actor db =
     (let rows = map (\<lambda>x. if xr_id x = exceptionId then patch_exception (ae_now env) action actor x else x)
                   (ad_exceptions db);
          db' = db\<lparr>ad_exceptions := rows\<rparr> in
      case first_row (filter (\<lambda>x. xr_id x = exceptionId) rows) of
        None \<Rightarrow> (Inr None, db')
      | Some row \<Rightarrow>
          (Inr (Some row),
           audited env
             \<lparr> aa_orgId = fx_orgId row, aa_projectId = xr_projectId row, aa_runId = None, aa_actorUserId = actor,
               aa_actorRunId = None, aa_eventType = action_event action, aa_subjectTable = ''policy_exceptions'',
               aa_subjectId = xr_id row, aa_action = action_text action, aa_result = None,
               aa_reason = Some (xr_reason row),
               aa_metadata = Some (JObj [(''policyId'', JStr (xr_policyId row)),
                 (''policyVersionId'', opt_js (xr_policyVersionId row)), (''ruleId'', opt_js (xr_ruleId row))]),
               aa_beforeHash = None, aa_afterHash = None \<rparr> db'))"

section \<open>Grants\<close>

record grant_args =
  ga_projectId :: "string option"
  ga_runId :: "string option"
  ga_scopeType :: string
  ga_scopeJson :: "string option"
  ga_grantKind :: string
  ga_targetRuleId :: "string option"
  ga_targetCapability :: "string option"
  ga_grantFingerprint :: "string option"
  ga_decisionOverride :: "policy_decision option"
  ga_sourcePolicyDecisionId :: "string option"
  ga_reason :: string
  ga_createdByUserId :: "string option"
  ga_approvedByUserId :: "string option"
  ga_expiresAt :: "int option"

definition createPolicyGrant ::
  "admin_env \<Rightarrow> grant_args \<Rightarrow> admin_db \<Rightarrow> (admin_error + full_grant) \<times> admin_db"
where
  "createPolicyGrant env a db =
     (let row = \<lparr> gr_id = ae_rowId env, gr_projectId = ga_projectId a, gr_runId = ga_runId a,
                  gr_scopeType = ga_scopeType a, gr_scopeJson = nullish (ga_scopeJson a) ''{}'',
                  gr_grantKind = ga_grantKind a, gr_targetRuleId = ga_targetRuleId a,
                  gr_targetCapability = ga_targetCapability a, gr_grantFingerprint = ga_grantFingerprint a,
                  gr_decisionOverride = map_option kind_text (ga_decisionOverride a), gr_reason = ga_reason a,
                  gr_expiresAt = stored_date (ga_expiresAt a), gr_revokedAt = None, gr_createdAt = ae_epoch env,
                  fg_orgId = None, fg_sourcePolicyDecisionId = ga_sourcePolicyDecisionId a,
                  fg_createdByUserId = ga_createdByUserId a, fg_approvedByUserId = ga_approvedByUserId a \<rparr> in
      if \<not> refers (ad_projects db) (ga_projectId a) \<or> \<not> refers (ad_runs db) (ga_runId a) \<or>
         \<not> refers (map rule_id (ad_rules db)) (ga_targetRuleId a)
      then (Inl ForeignKeyFailed, db)
      else
        (Inr row,
         audited env
           \<lparr> aa_orgId = None, aa_projectId = ga_projectId a, aa_runId = ga_runId a,
             aa_actorUserId = nullish_opt (ga_approvedByUserId a) (ga_createdByUserId a), aa_actorRunId = None,
             aa_eventType = ''policy.grant.created'', aa_subjectTable = ''policy_grants'', aa_subjectId = ae_rowId env,
             aa_action = ''create'', aa_result = None, aa_reason = Some (ga_reason a),
             aa_metadata = Some (JObj [(''scopeType'', JStr (ga_scopeType a)), (''grantKind'', JStr (ga_grantKind a)),
               (''targetRuleId'', opt_js (ga_targetRuleId a)), (''targetCapability'', opt_js (ga_targetCapability a)),
               (''decisionOverride'', opt_js (map_option kind_text (ga_decisionOverride a)))]),
             aa_beforeHash = None, aa_afterHash = None \<rparr>
           (db\<lparr>ad_grants := ad_grants db @ [row]\<rparr>)))"

definition revokePolicyGrant ::
  "admin_env \<Rightarrow> string \<Rightarrow> string option \<Rightarrow> admin_db \<Rightarrow> (admin_error + full_grant option) \<times> admin_db"
where
  "revokePolicyGrant env grantId actor db =
     (let rows = map (\<lambda>g. if gr_id g = grantId then g\<lparr>gr_revokedAt := Some (seconds (ae_now env))\<rparr> else g)
                   (ad_grants db);
          db' = db\<lparr>ad_grants := rows\<rparr> in
      case first_row (filter (\<lambda>g. gr_id g = grantId) rows) of
        None \<Rightarrow> (Inr None, db')
      | Some row \<Rightarrow>
          (Inr (Some row),
           audited env
             \<lparr> aa_orgId = None, aa_projectId = gr_projectId row, aa_runId = gr_runId row, aa_actorUserId = actor,
               aa_actorRunId = None, aa_eventType = ''policy.grant.revoked'', aa_subjectTable = ''policy_grants'',
               aa_subjectId = gr_id row, aa_action = ''revoke'', aa_result = None, aa_reason = Some (gr_reason row),
               aa_metadata = Some (JObj [(''grantKind'', JStr (gr_grantKind row)),
                 (''scopeType'', JStr (gr_scopeType row))]),
               aa_beforeHash = None, aa_afterHash = None \<rparr> db'))"

section \<open>The operations together\<close>

datatype admin_op =
    AddRule add_rule_args
  | UpdateRule update_rule_args
  | SetActive string bool "string option"
  | DeleteRule string
  | PublishVersion string "string option" "string option"
  | CreateException exception_args
  | UpdateException string exception_action "string option"
  | CreateGrant grant_args
  | RevokeGrant string "string option"

fun admin_step :: "admin_env \<Rightarrow> admin_op \<Rightarrow> admin_db \<Rightarrow> admin_db" where
  "admin_step env (AddRule a) db = snd (addPolicyRule env a db)"
| "admin_step env (UpdateRule a) db = snd (updatePolicyRule env a db)"
| "admin_step env (SetActive i b p) db = snd (setPolicyActive env i b p db)"
| "admin_step env (DeleteRule i) db = snd (deletePolicyRule env i db)"
| "admin_step env (PublishVersion i c u) db = snd (publishPolicyVersion env i c u db)"
| "admin_step env (CreateException a) db = snd (createPolicyException env a db)"
| "admin_step env (UpdateException i x u) db = snd (updatePolicyExceptionStatus env i x u db)"
| "admin_step env (CreateGrant a) db = snd (createPolicyGrant env a db)"
| "admin_step env (RevokeGrant i u) db = snd (revokePolicyGrant env i u db)"

fun admin_run :: "(admin_env \<times> admin_op) list \<Rightarrow> admin_db \<Rightarrow> admin_db" where
  "admin_run [] db = db"
| "admin_run ((env, a) # xs) db = admin_run xs (admin_step env a db)"

section \<open>One active version\<close>

text \<open>The versions of a policy, oldest first: numbered from one, the newest active, the others retired.\<close>

definition versions_of :: "full_version list \<Rightarrow> string \<Rightarrow> full_version list" where
  "versions_of t pid = filter (\<lambda>v. pv_policyId v = pid) t"

definition version_history :: "full_version list \<Rightarrow> bool" where
  "version_history vs \<longleftrightarrow>
     (\<forall>i < length vs. fv_versionNumber (vs ! i) = int i + 1 \<and>
        pv_status (vs ! i) = (if Suc i = length vs then ''active'' else ''retired''))"

definition versions_ok :: "full_version list \<Rightarrow> bool" where
  "versions_ok t \<longleftrightarrow> (\<forall>pid. version_history (versions_of t pid))"

definition retire :: "string \<Rightarrow> int \<Rightarrow> full_version \<Rightarrow> full_version" where
  "retire pid now v = (if pv_policyId v = pid then v\<lparr>pv_status := ''retired'', pv_retiredAt := Some now\<rparr> else v)"

lemma last_is_first_desc:
  assumes "sorted_wrt (\<lambda>x y. k x < k y) l" and "l \<noteq> []"
  shows "first_row (order_by_desc k l) = Some (last l)"
proof -
  obtain x where x: "first_row (order_by_desc k l) = Some x" "x \<in> set l"
    using assms(2) by (cases "order_by_desc k l") (auto simp: first_row_def, metis set_empty set_order_by_desc, metis list.set_intros(1) set_order_by_desc)
  have "\<forall>y \<in> set l. k y \<le> k x"
    using first_row_order_by [of "\<lambda>r. - k r" l x] x(1) by (simp add: order_by_def order_by_desc_def)
  then have "k (last l) \<le> k x" using assms(2) by simp
  moreover have "y = last l \<or> k y < k (last l)" if "y \<in> set l" for y
    using assms that by (cases l rule: rev_cases) (auto simp: sorted_wrt_append)
  ultimately show ?thesis using x by fastforce
qed

lemma history_sorted: "version_history vs \<Longrightarrow> sorted_wrt (\<lambda>x y. fv_versionNumber x < fv_versionNumber y) vs"
  by (simp add: sorted_wrt_iff_nth_less version_history_def)

lemma latest_version:
  assumes "version_history (versions_of t pid)"
  shows "first_row (order_by_desc fv_versionNumber (versions_of t pid)) =
    (if versions_of t pid = [] then None else Some (last (versions_of t pid)))"
  using last_is_first_desc [OF history_sorted [OF assms]] by (simp add: order_by_desc_def first_row_def)

lemma history_snoc:
  assumes "version_history vs" and "fv_versionNumber v = int (length vs) + 1" and "pv_status v = ''active''"
  shows "version_history (map (\<lambda>w. w\<lparr>pv_status := ''retired'', pv_retiredAt := Some now\<rparr>) vs @ [v])"
  using assms by (auto simp: version_history_def nth_append less_Suc_eq)

lemma versions_of_retired:
  "versions_of (map (retire pid now) t @ [row]) q =
     (if q = pid then map (\<lambda>w. w\<lparr>pv_status := ''retired'', pv_retiredAt := Some now\<rparr>) (versions_of t pid) else versions_of t q) @
     (if pv_policyId row = q then [row] else [])"
  by (induction t) (auto simp: versions_of_def retire_def)

text \<open>What publishing does: nothing where the policy is not found or its newest version is already of this
  content, and a new active version otherwise.\<close>

definition new_version ::
  "admin_env \<Rightarrow> full_policy \<Rightarrow> full_rule list \<Rightarrow> full_version \<Rightarrow> admin_db \<Rightarrow> admin_db \<Rightarrow> bool"
where
  "new_version env p rules row db db' \<longleftrightarrow>
     (\<exists>log. db' = db\<lparr>ad_versions := map (retire (po_id p) (seconds (ae_now env))) (ad_versions db) @ [row], ad_audit := log\<rparr>) \<and>
     pv_policyId row = po_id p \<and> pv_projectId row = Some (po_projectId p) \<and> pv_status row = ''active'' \<and>
     fv_snapshotHash row = snapshot_hash env (policy_snapshot p rules) \<and>
     fv_versionNumber row =
       nullish (map_option fv_versionNumber (first_row (listPolicyVersions db (po_id p)))) 0 + 1"

lemma publish_missing: "getPolicy db pid None = None \<Longrightarrow> publishPolicyVersion env pid c u db = (Inl PolicyNotFound, db)"
  by (simp add: publishPolicyVersion_def)

lemma publish_same:
  assumes "getPolicy db pid None = Some (p, rules)"
    and "first_row (listPolicyVersions db (po_id p)) = Some v"
    and "fv_snapshotHash v = snapshot_hash env (policy_snapshot p rules)"
  shows "publishPolicyVersion env pid c u db = (Inr v, db)"
  using assms by (simp add: publishPolicyVersion_def Let_def)

lemma retire_fun:
  "(\<lambda>v. if pv_policyId v = pid then v\<lparr>pv_status := ''retired'', pv_retiredAt := Some now\<rparr> else v) = retire pid now"
  by (simp add: retire_def fun_eq_iff)

lemma publish_new:
  assumes "getPolicy db pid None = Some (p, rules)"
    and "map_option fv_snapshotHash (first_row (listPolicyVersions db (po_id p))) \<noteq>
      Some (snapshot_hash env (policy_snapshot p rules))"
  shows "\<exists>row db'. publishPolicyVersion env pid c u db = (Inr row, db') \<and> new_version env p rules row db db'"
  using assms
  by (auto simp: publishPolicyVersion_def new_version_def Let_def audited_def retire_fun
      simp del: map_option_eq_Some)

lemma publish_cases:
  obtains (missing) "getPolicy db pid None = None" "publishPolicyVersion env pid c u db = (Inl PolicyNotFound, db)"
  | (same) p rules v where "getPolicy db pid None = Some (p, rules)"
      "first_row (listPolicyVersions db (po_id p)) = Some v"
      "fv_snapshotHash v = snapshot_hash env (policy_snapshot p rules)"
      "publishPolicyVersion env pid c u db = (Inr v, db)"
  | (new) p rules row db' where "getPolicy db pid None = Some (p, rules)"
      "map_option fv_snapshotHash (first_row (listPolicyVersions db (po_id p))) \<noteq>
         Some (snapshot_hash env (policy_snapshot p rules))"
      "publishPolicyVersion env pid c u db = (Inr row, db')" "new_version env p rules row db db'"
proof (cases "getPolicy db pid None")
  case None
  with missing publish_missing show ?thesis by blast
next
  case (Some x)
  obtain p rules where x: "getPolicy db pid None = Some (p, rules)" using Some by (cases x) simp
  show ?thesis
  proof (cases "map_option fv_snapshotHash (first_row (listPolicyVersions db (po_id p))) =
      Some (snapshot_hash env (policy_snapshot p rules))")
    case True
    then obtain v where "first_row (listPolicyVersions db (po_id p)) = Some v"
      "fv_snapshotHash v = snapshot_hash env (policy_snapshot p rules)" by auto
    with x same publish_same show ?thesis by blast
  next
    case False
    with x new publish_new show ?thesis by blast
  qed
qed

lemma new_version_ok:
  assumes "new_version env p rules row db db'" and "versions_ok (ad_versions db)"
  shows "versions_ok (ad_versions db')"
proof -
  let ?vs = "versions_of (ad_versions db) (po_id p)"
  have h: "version_history ?vs" using assms(2) by (simp add: versions_ok_def)
  have n: "fv_versionNumber row = int (length ?vs) + 1"
  proof -
    have "fv_versionNumber (last ?vs) = int (length ?vs)" if "?vs \<noteq> []"
    proof -
      have "length ?vs - 1 < length ?vs" using that by simp
      with h have "fv_versionNumber (?vs ! (length ?vs - 1)) = int (length ?vs - 1) + 1"
        unfolding version_history_def by blast
      with that show ?thesis by (simp add: last_conv_nth of_nat_diff Suc_le_eq)
    qed
    then show ?thesis
      using assms(1) latest_version [OF h] by (simp add: new_version_def listPolicyVersions_def versions_of_def)
  qed
  have "version_history (versions_of (ad_versions db') q)" for q
  proof (cases "q = po_id p")
    case True
    with assms(1) history_snoc [OF h n, of "seconds (ae_now env)"] show ?thesis
      by (auto simp: new_version_def versions_of_retired)
  next
    case False
    with assms show ?thesis by (auto simp: new_version_def versions_of_retired versions_ok_def)
  qed
  then show ?thesis by (simp add: versions_ok_def)
qed

lemma publish_versions_ok:
  "versions_ok (ad_versions db) \<Longrightarrow> versions_ok (ad_versions (snd (publishPolicyVersion env pid c u db)))"
  by (rule publish_cases [of db pid env c u]) (auto dest: new_version_ok)

lemma snd_publish_result [simp]:
  "snd (case x of (Inl e, d) \<Rightarrow> (Inl e, d) | (Inr v, d) \<Rightarrow> (Inr (g v d), d)) = snd x"
  by (simp split: prod.splits sum.splits)

lemma add_versions_ok:
  "versions_ok (ad_versions db) \<Longrightarrow> versions_ok (ad_versions (snd (add_to_policy env a pid created db)))"
  by (auto simp: add_to_policy_def Let_def intro!: publish_versions_ok)

lemma admin_step_versions_ok: "versions_ok (ad_versions db) \<Longrightarrow> versions_ok (ad_versions (admin_step env a db))"
proof (cases a)
  case (AddRule x)
  assume "versions_ok (ad_versions db)"
  with AddRule show ?thesis
    by (auto simp: addPolicyRule_def Let_def intro!: add_versions_ok split: option.split)
next
  case (UpdateRule x)
  assume "versions_ok (ad_versions db)"
  with UpdateRule show ?thesis
    by (auto simp: updatePolicyRule_def Let_def intro!: publish_versions_ok split: option.split)
qed (auto simp: setPolicyActive_def deletePolicyRule_def createPolicyException_def updatePolicyExceptionStatus_def
    createPolicyGrant_def revokePolicyGrant_def audited_def Let_def intro!: publish_versions_ok split: option.split)

lemma admin_run_versions_ok: "versions_ok (ad_versions db) \<Longrightarrow> versions_ok (ad_versions (admin_run xs db))"
  by (induction xs db rule: admin_run.induct) (simp_all add: admin_step_versions_ok)

text \<open>Starting from tables without versions, whatever sequence of administrative operations is run,
  failures included, every policy that was ever published has exactly one active version and it is the newest: the versions are numbered one
  to \<open>n\<close> in the order they were published, \<open>n\<close> is active and all before it are retired.\<close>

theorem one_active_version:
  "version_history (versions_of (ad_versions (admin_run xs (db\<lparr>ad_versions := []\<rparr>))) pid)"
proof -
  have "versions_ok (ad_versions (db\<lparr>ad_versions := []\<rparr>))"
    by (simp add: versions_ok_def versions_of_def version_history_def)
  from admin_run_versions_ok [OF this] show ?thesis by (simp add: versions_ok_def)
qed

end
