(* ===== verification/Policy_Freshness.thy ===== *)
theory Policy_Freshness
  imports Policy_Admin
begin

text \<open>
  The administration of policies and the policy client together: the client keeps what it loaded as long
  as the revision of the tables reads the same, so every edit has to change the revision of every
  project for which it changes the policy.
\<close>

section \<open>The revision notices\<close>

lemma foldl_max_Max: "foldl max y ys = Max (set (y # ys))" for y :: int
proof (induction ys arbitrary: y)
  case (Cons z ys)
  then show ?case by (cases "ys = []") (simp_all add: max.assoc)
qed simp

lemma sql_max_Max:
  "sql_max xs = (if {y. Some y \<in> set xs} = {} then None else Some (Max {y. Some y \<in> set xs}))"
proof -
  have s: "{y. Some y \<in> set xs} = set (List.map_filter id xs)"
    by (force simp: List.map_filter_def)
  show ?thesis
    unfolding s by (cases "List.map_filter id xs") (simp_all add: sql_max_def foldl_max_Max del: Max_insert)
qed

lemma finite_some: "finite {y. Some y \<in> set xs}"
  by (rule finite_surj [of "set xs" _ the]) (auto intro: rev_image_eqI)

lemma sql_max_mem: "sql_max xs = Some m \<Longrightarrow> Some m \<in> set xs"
  using Max_in [OF finite_some [of xs]] by (auto simp: sql_max_Max split: if_splits)

lemma sql_max_upper: "Some y \<in> set xs \<Longrightarrow> \<exists>m. sql_max xs = Some m \<and> y \<le> m"
  using Max_ge [OF finite_some [of xs]] by (auto simp: sql_max_Max)

lemma sql_max_moves:
  assumes "\<forall>y. Some y \<in> set xs \<longrightarrow> y < t" and "Some t \<in> set ys"
  shows "sql_max xs \<noteq> sql_max ys"
proof
  assume e: "sql_max xs = sql_max ys"
  obtain m where m: "sql_max ys = Some m" "t \<le> m" using sql_max_upper [OF assms(2)] by blast
  with e have "Some m \<in> set xs" by (intro sql_max_mem) simp
  with assms(1) m(2) show False by force
qed

text \<open>Per table, the rows of the scope.\<close>

definition scoped_policies :: "policy_db \<Rightarrow> string option \<Rightarrow> policy_row list" where
  "scoped_policies d p = filter (\<lambda>q. rev_scope p (Some (po_projectId q))) (db_policies d)"

definition rule_count :: "policy_row list \<Rightarrow> stored_rule list \<Rightarrow> nat" where
  "rule_count ps rs = sum_list (map (\<lambda>s. length (filter (\<lambda>q. po_id q = rr_policyId (sr_row s)) ps)) rs)"

lemma length_concat_sum: "length (concat (map f xs)) = sum_list (map (length \<circ> f) xs)"
  by (induction xs) simp_all

lemma same_revision:
  assumes "revision_fields d' p = revision_fields d p"
  shows "length (scoped_policies d' p) = length (scoped_policies d p)"
    "sql_max (map (Some \<circ> po_updatedAt) (scoped_policies d' p)) = sql_max (map (Some \<circ> po_updatedAt) (scoped_policies d p))"
    "rule_count (scoped_policies d' p) (db_rules d') = rule_count (scoped_policies d p) (db_rules d)"
    "length (filter (\<lambda>v. rev_scope p (pv_projectId v)) (db_versions d')) =
       length (filter (\<lambda>v. rev_scope p (pv_projectId v)) (db_versions d))"
    "length (filter (\<lambda>x. rev_scope p (xr_projectId x)) (db_exceptions d')) =
       length (filter (\<lambda>x. rev_scope p (xr_projectId x)) (db_exceptions d))"
    "sql_max (map xr_updatedAt (filter (\<lambda>x. rev_scope p (xr_projectId x)) (db_exceptions d'))) =
       sql_max (map xr_updatedAt (filter (\<lambda>x. rev_scope p (xr_projectId x)) (db_exceptions d)))"
    "length (filter (\<lambda>g. rev_scope p (gr_projectId g)) (db_grants d')) =
       length (filter (\<lambda>g. rev_scope p (gr_projectId g)) (db_grants d))"
    "sql_max (map gr_revokedAt (filter (\<lambda>g. rev_scope p (gr_projectId g)) (db_grants d'))) =
       sql_max (map gr_revokedAt (filter (\<lambda>g. rev_scope p (gr_projectId g)) (db_grants d)))"
  using assms
  by (simp_all add: revision_fields_def scoped_policies_def rule_count_def length_concat_sum comp_def Let_def)

section \<open>What the client loads\<close>

definition relevant :: "policy_db \<Rightarrow> string option \<Rightarrow> policy_row list" where
  "relevant d p = filter (\<lambda>q. in_project p (Some (po_projectId q))) (db_policies d)"

lemma in_project_scope: "in_project p (Some q) \<longleftrightarrow> rev_scope p (Some q)"
  by (cases p) (auto simp: in_project_def rev_scope_def)

lemma relevant_scoped: "relevant d p = scoped_policies d p"
  by (simp add: relevant_def scoped_policies_def in_project_scope)

lemma concat_map_filter: "(\<And>x. x \<in> set xs \<Longrightarrow> \<not> P x \<Longrightarrow> f x = []) \<Longrightarrow> concat (map f (filter P xs)) = concat (map f xs)"
  by (induction xs) auto

definition joined_with :: "policy_db \<Rightarrow> policy_row list \<Rightarrow> stored_rule \<Rightarrow> rule_row list" where
  "joined_with d ps s = concat (map (\<lambda>q.
     map (\<lambda>v. (sr_row s)\<lparr>rr_policyVersionId := v, rr_policyEnforcementMode := po_enforcementMode q,
                rr_policyDenyOnPolicyError := po_denyOnPolicyError q\<rparr>) (active_versions d (po_id q)))
     (filter (\<lambda>q. po_id q = rr_policyId (sr_row s) \<and> po_isActive q) ps))"

lemma joined_rules_with: "joined_rules d p = concat (map (joined_with d (relevant d p)) (db_rules d))"
proof -
  have "joined_with d (relevant d p) = (\<lambda>s. concat (map (\<lambda>q.
      map (\<lambda>v. (sr_row s)\<lparr>rr_policyVersionId := v, rr_policyEnforcementMode := po_enforcementMode q,
                 rr_policyDenyOnPolicyError := po_denyOnPolicyError q\<rparr>) (active_versions d (po_id q)))
      (filter (\<lambda>q. po_id q = rr_policyId (sr_row s) \<and> po_isActive q \<and> in_project p (Some (po_projectId q))) (db_policies d))))"
    by (simp add: fun_eq_iff joined_with_def relevant_def conj_ac)
  then show ?thesis by (simp add: joined_rules_def)
qed

lemma joined_same:
  assumes "relevant d' p = relevant d p"
    and "filter (\<lambda>s. rr_policyId (sr_row s) \<in> po_id ` set (relevant d p)) (db_rules d') =
      filter (\<lambda>s. rr_policyId (sr_row s) \<in> po_id ` set (relevant d p)) (db_rules d)"
    and "\<forall>q \<in> set (relevant d p). active_versions d' (po_id q) = active_versions d (po_id q)"
  shows "joined_rules d' p = joined_rules d p"
proof -
  let ?H = "\<lambda>s. rr_policyId (sr_row s) \<in> po_id ` set (relevant d p)"
  have none: "joined_with e (relevant d p) s = []" if "\<not> ?H s" for e s
  proof -
    have "filter (\<lambda>q. po_id q = rr_policyId (sr_row s) \<and> po_isActive q) (relevant d p) = []"
      using that by (force simp: filter_empty_conv)
    then show ?thesis unfolding joined_with_def by simp
  qed
  have same: "joined_with d' (relevant d p) = joined_with d (relevant d p)"
    unfolding joined_with_def using assms(3) by (intro ext arg_cong [where f = concat] map_cong) auto
  have "joined_rules d' p = concat (map (joined_with d' (relevant d p)) (filter ?H (db_rules d')))"
    using none by (simp add: joined_rules_with assms(1) concat_map_filter)
  also have "\<dots> = concat (map (joined_with d (relevant d p)) (filter ?H (db_rules d)))"
    by (simp add: assms(2) same)
  also have "\<dots> = joined_rules d p" using none by (simp add: joined_rules_with concat_map_filter)
  finally show ?thesis .
qed

lemma load_same:
  assumes "joined_rules d' p = joined_rules d p" and "db_exceptions d' = db_exceptions d" and "db_grants d' = db_grants d"
  shows "loadPolicyState pm jp d' p = loadPolicyState pm jp d p"
  using assms by (simp add: loadPolicyState_def)

text \<open>The client cannot tell: either it sees the tables' new revision, or what it holds is still right.\<close>

definition noticed :: "policy_db \<Rightarrow> policy_db \<Rightarrow> string option \<Rightarrow> bool" where
  "noticed d d' p \<longleftrightarrow>
     revision_fields d' p \<noteq> revision_fields d p \<or> (\<forall>pm jp. loadPolicyState pm jp d' p = loadPolicyState pm jp d p)"

lemma noticed_refl: "noticed d d p"
  by (simp add: noticed_def)

text \<open>An edit of one policy, seen from a project that does not have it.\<close>

lemma unseen_policy_edit:
  assumes "relevant d' p = relevant d p" and "pid \<notin> po_id ` set (relevant d p)"
    and "filter (\<lambda>s. rr_policyId (sr_row s) \<noteq> pid) (db_rules d') = filter (\<lambda>s. rr_policyId (sr_row s) \<noteq> pid) (db_rules d)"
    and "\<forall>q. q \<noteq> pid \<longrightarrow> active_versions d' q = active_versions d q"
    and "db_exceptions d' = db_exceptions d" and "db_grants d' = db_grants d"
  shows "noticed d d' p"
proof -
  let ?H = "\<lambda>s. rr_policyId (sr_row s) \<in> po_id ` set (relevant d p)"
  have f: "filter ?H rs = filter ?H (filter (\<lambda>s. rr_policyId (sr_row s) \<noteq> pid) rs)" for rs
    using assms(2) by (auto intro!: filter_cong)
  have "filter ?H (db_rules d') = filter ?H (db_rules d)" by (subst f, subst (2) f) (simp only: assms(3))
  moreover have "\<forall>q \<in> set (relevant d p). active_versions d' (po_id q) = active_versions d (po_id q)"
    using assms(2,4) by auto
  ultimately show ?thesis using joined_same [OF assms(1)] load_same assms(5,6) unfolding noticed_def by blast
qed

section \<open>The tables the client sees\<close>

lemma truncated [simp]:
  "po_id (policy_row.truncate q) = po_id q" "po_projectId (policy_row.truncate q) = po_projectId q"
  "po_updatedAt (policy_row.truncate q) = po_updatedAt q"
  "sr_row (stored_rule.truncate s) = sr_row s"
  "pv_id (version_row.truncate v) = pv_id v" "pv_policyId (version_row.truncate v) = pv_policyId v"
  "pv_projectId (version_row.truncate v) = pv_projectId v" "pv_status (version_row.truncate v) = pv_status v"
  "xr_projectId (exception_row.truncate x) = xr_projectId x" "xr_updatedAt (exception_row.truncate x) = xr_updatedAt x"
  "gr_projectId (grant_row.truncate g) = gr_projectId g" "gr_revokedAt (grant_row.truncate g) = gr_revokedAt g"
  by (simp_all add: policy_row.defs stored_rule.defs version_row.defs exception_row.defs grant_row.defs)

lemma client_tables [simp]:
  "db_policies (client_db db) = map policy_row.truncate (ad_policies db)"
  "db_rules (client_db db) = map stored_rule.truncate (ad_rules db)"
  "db_versions (client_db db) = map version_row.truncate (ad_versions db)"
  "db_exceptions (client_db db) = map exception_row.truncate (ad_exceptions db)"
  "db_grants (client_db db) = map grant_row.truncate (ad_grants db)"
  by (simp_all add: client_db_def)

lemma client_active_versions:
  "active_versions (client_db db) pid =
     (case filter (\<lambda>v. pv_policyId v = pid \<and> pv_status v = ''active'') (ad_versions db) of
        [] \<Rightarrow> [None] | vs \<Rightarrow> map (\<lambda>v. Some (pv_id v)) vs)"
  by (simp add: active_versions_def filter_map comp_def split: list.split)

definition in_scope :: "string option \<Rightarrow> full_policy \<Rightarrow> bool" where
  "in_scope p q \<longleftrightarrow> rev_scope p (Some (po_projectId q))"

definition policies_in :: "string option \<Rightarrow> full_policy list \<Rightarrow> full_policy list" where
  "policies_in p t = filter (in_scope p) t"

lemma client_scoped: "scoped_policies (client_db db) p = map policy_row.truncate (policies_in p (ad_policies db))"
proof -
  have "in_scope p = (\<lambda>q. rev_scope p (Some (po_projectId q)))" by (simp add: fun_eq_iff in_scope_def)
  then show ?thesis by (simp add: scoped_policies_def policies_in_def filter_map comp_def)
qed

lemma client_rule_count:
  "rule_count (map policy_row.truncate ps) (map stored_rule.truncate rs) =
     sum_list (map (\<lambda>s. length (filter (\<lambda>q. po_id q = rule_policy s) ps)) rs)"
  by (simp add: rule_count_def rule_policy_def filter_map comp_def)

text \<open>Publishing touches the versions of the one policy only, and shows where it publishes.\<close>

lemma publish_tables:
  "ad_policies (snd (publishPolicyVersion env pid c u db)) = ad_policies db"
  "ad_rules (snd (publishPolicyVersion env pid c u db)) = ad_rules db"
  "ad_exceptions (snd (publishPolicyVersion env pid c u db)) = ad_exceptions db"
  "ad_grants (snd (publishPolicyVersion env pid c u db)) = ad_grants db"
  by (rule publish_cases [of db pid env c u]; auto simp: new_version_def)+

definition ids_ok :: "full_policy list \<Rightarrow> bool" where
  "ids_ok t \<longleftrightarrow> distinct (map po_id t) \<and>
     (\<forall>p \<in> set t. po_id p \<noteq> [] \<and> (\<forall>q \<in> set t. fp_name q = po_id p \<longrightarrow> q = p))"

lemma get_by_id:
  assumes "ids_ok (ad_policies db)" and "p \<in> set (ad_policies db)"
  shows "getPolicy db (po_id p) None = Some (p, rules_of db (po_id p))"
proof -
  have "filter (\<lambda>q. (po_id q = po_id p \<or> fp_name q = po_id p) \<and> True) (ad_policies db) =
      filter (\<lambda>q. po_id q = po_id p) (ad_policies db)"
    using assms by (intro filter_cong) (auto simp: ids_ok_def)
  also have "\<dots> = [p]" using assms by (intro filter_distinct_key) (simp_all add: ids_ok_def)
  finally show ?thesis
    using assms by (auto simp: getPolicy_def find_policy_def first_row_def ids_ok_def)
qed

lemma publish_by_id:
  assumes "ids_ok (ad_policies db)" and "p \<in> set (ad_policies db)"
  obtains (same) v where "publishPolicyVersion env (po_id p) c u db = (Inr v, db)"
      "first_row (listPolicyVersions db (po_id p)) = Some v"
      "fv_snapshotHash v = snapshot_hash env (policy_snapshot p (rules_of db (po_id p)))"
  | (new) row db' where "publishPolicyVersion env (po_id p) c u db = (Inr row, db')"
      "new_version env p (rules_of db (po_id p)) row db db'"
  by (rule publish_cases [of db "po_id p" env c u]) (use get_by_id [OF assms] same new in auto)

lemma new_version_seen:
  assumes "new_version env q rules row db1 db'" and "in_scope p q" and "ad_versions db1 = ad_versions db"
  shows "revision_fields (client_db db') p \<noteq> revision_fields (client_db db) p"
proof
  assume "revision_fields (client_db db') p = revision_fields (client_db db) p"
  from same_revision(4) [OF this]
  have "length (filter (\<lambda>v. rev_scope p (pv_projectId v)) (ad_versions db')) =
      length (filter (\<lambda>v. rev_scope p (pv_projectId v)) (ad_versions db))"
    by (simp add: filter_map comp_def)
  moreover have "filter (\<lambda>v. rev_scope p (pv_projectId v)) (map (retire i t) vs) =
      map (retire i t) (filter (\<lambda>v. rev_scope p (pv_projectId v)) vs)" for i t vs
    by (induction vs) (auto simp: retire_def)
  ultimately show False using assms by (auto simp: new_version_def in_scope_def)
qed

lemma publish_versions_elsewhere:
  assumes "ids_ok (ad_policies db)" and "p \<in> set (ad_policies db)" and "q \<noteq> po_id p"
  shows "active_versions (client_db (snd (publishPolicyVersion env (po_id p) c u db))) q = active_versions (client_db db) q"
proof (rule publish_by_id [OF assms(1,2), of env c u])
  fix row db' assume n: "publishPolicyVersion env (po_id p) c u db = (Inr row, db')"
    "new_version env p (rules_of db (po_id p)) row db db'"
  have "filter (\<lambda>v. pv_policyId v = q \<and> pv_status v = ''active'') (map (retire (po_id p) t) vs @ [row]) =
      filter (\<lambda>v. pv_policyId v = q \<and> pv_status v = ''active'') vs" for t vs
    using assms(3) n(2) by (induction vs) (auto simp: retire_def new_version_def)
  with n show ?thesis by (auto simp: client_active_versions new_version_def)
qed simp

section \<open>Each operation is noticed\<close>

definition published :: "admin_env \<Rightarrow> admin_db \<Rightarrow> bool" where
  "published env db \<longleftrightarrow>
     (\<forall>p \<in> set (ad_policies db). \<forall>v. first_row (listPolicyVersions db (po_id p)) = Some v \<longrightarrow>
        fv_snapshotHash v = snapshot_hash env (policy_snapshot p (rules_of db (po_id p))))"

definition well_kept :: "admin_env \<Rightarrow> admin_db \<Rightarrow> bool" where
  "well_kept env db \<longleftrightarrow>
     ids_ok (ad_policies db) \<and> distinct (map rule_id (ad_rules db)) \<and>
     (\<forall>s \<in> set (ad_rules db). rule_policy s \<in> po_id ` set (ad_policies db)) \<and>
     (\<forall>v \<in> set (ad_versions db). pv_policyId v \<in> po_id ` set (ad_policies db)) \<and>
     versions_ok (ad_versions db) \<and> published env db"

text \<open>The ids a call mints are new, and no policy is named like an id.\<close>

fun mints_fresh :: "admin_env \<Rightarrow> admin_op \<Rightarrow> admin_db \<Rightarrow> bool" where
  "mints_fresh env (AddRule a) db \<longleftrightarrow>
     ae_policyId env \<noteq> [] \<and> ae_policyId env \<notin> po_id ` set (ad_policies db) \<and> ae_policyId env \<notin> fp_name ` set (ad_policies db) \<and>
     nullish (ar_policyName a) ''__default__'' \<notin> insert (ae_policyId env) (po_id ` set (ad_policies db)) \<and>
     ae_ruleId env \<notin> rule_id ` set (ad_rules db)"
| "mints_fresh env _ db \<longleftrightarrow> True"

text \<open>The second of the edit is later than every second the tables record.\<close>

definition recorded_before :: "admin_db \<Rightarrow> int \<Rightarrow> bool" where
  "recorded_before db t \<longleftrightarrow>
     (\<forall>q \<in> set (ad_policies db). po_updatedAt q < t) \<and>
     (\<forall>x \<in> set (ad_exceptions db). \<forall>y. xr_updatedAt x = Some y \<longrightarrow> y < t) \<and>
     (\<forall>g \<in> set (ad_grants db). \<forall>y. gr_revokedAt g = Some y \<longrightarrow> y < t)"

definition snapshots :: "admin_db \<Rightarrow> js set" where
  "snapshots db = (\<lambda>p. policy_snapshot p (rules_of db (po_id p))) ` set (ad_policies db)"

text \<open>An edit of the rules of one policy followed by publishing it.\<close>

lemma edited_elsewhere:
  assumes "ids_ok (ad_policies db1)" and "q \<in> set (ad_policies db1)" and "\<not> in_scope p q"
    and "policies_in p (ad_policies db1) = policies_in p (ad_policies db)"
    and "filter (\<lambda>s. rule_policy s \<noteq> po_id q) (ad_rules db1) = filter (\<lambda>s. rule_policy s \<noteq> po_id q) (ad_rules db)"
    and "ad_versions db1 = ad_versions db" and "ad_exceptions db1 = ad_exceptions db" and "ad_grants db1 = ad_grants db"
  shows "noticed (client_db db) (client_db (snd (publishPolicyVersion env (po_id q) c u db1))) p"
proof (rule unseen_policy_edit [where pid = "po_id q"])
  let ?db' = "snd (publishPolicyVersion env (po_id q) c u db1)"
  show "relevant (client_db ?db') p = relevant (client_db db) p"
    by (simp add: relevant_scoped client_scoped publish_tables assms(4))
  have "po_id q \<notin> po_id ` set (policies_in p (ad_policies db1))"
  proof
    assume "po_id q \<in> po_id ` set (policies_in p (ad_policies db1))"
    then obtain r where r: "r \<in> set (ad_policies db1)" "in_scope p r" "po_id r = po_id q" by (auto simp: policies_in_def)
    with assms(1,2) have "r = q" by (auto simp: ids_ok_def distinct_map dest: inj_onD)
    with r(2) assms(3) show False by simp
  qed
  then show "po_id q \<notin> po_id ` set (relevant (client_db db) p)"
    by (simp add: relevant_scoped client_scoped assms(4) image_image)
  show "filter (\<lambda>s. rr_policyId (sr_row s) \<noteq> po_id q) (db_rules (client_db ?db')) =
      filter (\<lambda>s. rr_policyId (sr_row s) \<noteq> po_id q) (db_rules (client_db db))"
    using arg_cong [OF assms(5), of "map stored_rule.truncate"]
    by (simp add: publish_tables filter_map comp_def rule_policy_def)
  have "active_versions (client_db db1) r = active_versions (client_db db) r" for r
    by (simp add: client_active_versions assms(6))
  then show "\<forall>r. r \<noteq> po_id q \<longrightarrow> active_versions (client_db ?db') r = active_versions (client_db db) r"
    using publish_versions_elsewhere [OF assms(1,2)] by simp
qed (simp_all add: publish_tables assms(7,8))

lemma rule_count_moves:
  assumes "sum_list (map (\<lambda>s. length (filter (\<lambda>r. po_id r = rule_policy s) (policies_in p (ad_policies db')))) (ad_rules db')) \<noteq>
     sum_list (map (\<lambda>s. length (filter (\<lambda>r. po_id r = rule_policy s) (policies_in p (ad_policies db)))) (ad_rules db))"
  shows "noticed (client_db db) (client_db db') p"
  using same_revision(3) [of "client_db db'" p "client_db db"] assms
  by (auto simp: noticed_def client_scoped client_rule_count)

lemma rule_scoped:
  assumes "q \<in> set t" and "in_scope p q" and "rule_policy s = po_id q"
  shows "0 < length (filter (\<lambda>r. po_id r = rule_policy s) (policies_in p t))"
proof -
  have "q \<in> set (filter (\<lambda>r. po_id r = rule_policy s) (policies_in p t))" using assms by (simp add: policies_in_def)
  then show ?thesis by (metis length_pos_if_in_set)
qed

lemma rule_columns [simp]:
  "rule_policy (set_rule_values n e v s) = rule_policy s" "rule_id (set_rule_values n e v s) = rule_id s"
  "rule_policy (bare_rule i pid now) = pid" "rule_id (bare_rule i pid now) = i"
  by (simp_all add: rule_policy_def rule_id_def set_rule_values_def bare_rule_def)

lemma add_to_policy_result:
  "snd (add_to_policy env a pid created db) = db \<or>
   (\<exists>row c. rule_policy row = pid \<and> rule_id row = ae_ruleId env \<and>
      snd (add_to_policy env a pid created db) =
        snd (publishPolicyVersion env pid c None (db\<lparr>ad_rules := ad_rules db @ [row]\<rparr>)))"
proof -
  define row where "row = set_rule_values (nullish (ar_priority a) (next_priority db pid))
    (nullish (ar_matchEventType a) ''PreToolUse'') (ar_values a) (bare_rule (ae_ruleId env) pid (ae_epoch env))"
  have "rule_policy row = pid" "rule_id row = ae_ruleId env" by (simp_all add: row_def)
  then show ?thesis unfolding add_to_policy_def Let_def row_def [symmetric]
    by (cases "\<exists>s \<in> set (ad_rules db). rule_clash row s") auto
qed

lemma add_noticed:
  assumes "ids_ok (ad_policies db1)" and "q \<in> set (ad_policies db1)"
    and "policies_in p (ad_policies db1) = policies_in p (ad_policies db) \<or>
      in_scope p q \<and> length (policies_in p (ad_policies db1)) \<noteq> length (policies_in p (ad_policies db))"
    and "db1 = db\<lparr>ad_policies := ad_policies db1\<rparr>"
  shows "noticed (client_db db) (client_db (snd (add_to_policy env a (po_id q) created db1))) p"
proof -
  define db' where "db' = snd (add_to_policy env a (po_id q) created db1)"
  have tables: "ad_rules db1 = ad_rules db" "ad_versions db1 = ad_versions db" "ad_exceptions db1 = ad_exceptions db"
      "ad_grants db1 = ad_grants db"
    by (subst assms(4), simp)+
  have kept: "ad_policies db' = ad_policies db1"
    by (simp add: db'_def add_to_policy_def Let_def publish_tables)
  show ?thesis
  proof (cases "policies_in p (ad_policies db1) = policies_in p (ad_policies db)")
    case False
    with assms(3) same_revision(1) [of "client_db db'" p "client_db db"] show ?thesis
      by (auto simp: noticed_def client_scoped kept simp flip: db'_def)
  next
    case same: True
    consider (clash) "db' = db1"
      | (added) row c where "rule_policy row = po_id q"
          "db' = snd (publishPolicyVersion env (po_id q) c None (db1\<lparr>ad_rules := ad_rules db1 @ [row]\<rparr>))"
      using add_to_policy_result [of env a "po_id q" created db1] unfolding db'_def by metis
    then show ?thesis
    proof cases
      case clash
      have "joined_rules (client_db db1) p = joined_rules (client_db db) p"
        by (rule joined_same) (simp_all add: relevant_scoped client_scoped same tables client_active_versions)
      then have "noticed (client_db db) (client_db db1) p"
        using load_same [of "client_db db1" p "client_db db"] by (simp add: noticed_def tables)
      with clash show ?thesis by (simp add: db'_def)
    next
      case (added row c)
      let ?db2 = "db1\<lparr>ad_rules := ad_rules db1 @ [row]\<rparr>"
      show ?thesis
      proof (cases "in_scope p q")
        case True
        with rule_scoped [OF assms(2) True added(1)] have "noticed (client_db db) (client_db db') p"
          by (intro rule_count_moves) (simp add: added(2) publish_tables same tables flip: same)
        then show ?thesis by (simp add: db'_def)
      next
        case False
        with added edited_elsewhere [of ?db2 q p db env c None] assms(1,2) same tables show ?thesis
          by (simp flip: db'_def)
      qed
    qed
  qed
qed

lemma same_key: "distinct (map k t) \<Longrightarrow> x \<in> set t \<Longrightarrow> y \<in> set t \<Longrightarrow> k x = k y \<Longrightarrow> x = y"
  by (auto simp: distinct_map dest: inj_onD)

text \<open>An update that leaves the snapshot of the policy alone leaves the rule alone.\<close>

lemma opt_js_eq [simp]: "opt_js v = opt_js w \<longleftrightarrow> v = w"
  by (auto simp: opt_js_def split: option.splits)

lemma same_rule_snapshot:
  "rule_snapshot (set_rule_values n e v s) = rule_snapshot s \<Longrightarrow> set_rule_values n e v s = s"
  by (simp add: rule_snapshot_def set_rule_values_def Let_def)

lemma in_rules_of: "s \<in> set (rules_of db pid) \<longleftrightarrow> s \<in> set (ad_rules db) \<and> rule_policy s = pid"
  by (auto simp: rules_of_def)

definition update_rows :: "string \<Rightarrow> int \<Rightarrow> string \<Rightarrow> rule_values \<Rightarrow> full_rule list \<Rightarrow> full_rule list" where
  "update_rows i n e v t = map (\<lambda>s. if rule_id s = i then set_rule_values n e v s else s) t"

lemma unchanged_snapshot:
  assumes "policy_snapshot q (rules_of (db\<lparr>ad_rules := update_rows i n e v (ad_rules db)\<rparr>) (po_id q)) =
      policy_snapshot q (rules_of db (po_id q))"
    and "distinct (map rule_id (ad_rules db))" and "s \<in> set (ad_rules db)" and "rule_id s = i" and "rule_policy s = po_id q"
  shows "update_rows i n e v (ad_rules db) = ad_rules db"
proof -
  let ?s' = "set_rule_values n e v s" and ?db1 = "db\<lparr>ad_rules := update_rows i n e v (ad_rules db)\<rparr>"
  have "?s' \<in> set (rules_of ?db1 (po_id q))"
    using assms(3-5) by (auto simp: in_rules_of update_rows_def intro!: rev_image_eqI [of s])
  moreover have "map rule_snapshot (rules_of ?db1 (po_id q)) = map rule_snapshot (rules_of db (po_id q))"
    using assms(1) by (simp only: policy_snapshot_def js.inject list.inject prod.inject)
  then have "rule_snapshot ` set (rules_of ?db1 (po_id q)) = rule_snapshot ` set (rules_of db (po_id q))"
    by (metis list.set_map)
  ultimately have "rule_snapshot ?s' \<in> rule_snapshot ` set (rules_of db (po_id q))" by blast
  then obtain t where t: "t \<in> set (ad_rules db)" "rule_snapshot ?s' = rule_snapshot t" by (auto simp: in_rules_of)
  then have "rule_id t = rule_id s" by (simp add: rule_snapshot_def rule_id_def Let_def set_rule_values_def)
  with same_key [OF assms(2) t(1) assms(3)] have "t = s" by simp
  with t(2) same_rule_snapshot have "?s' = s" by metis
  moreover have "u = s" if "u \<in> set (ad_rules db)" "rule_id u = i" for u
    using same_key [OF assms(2) that(1) assms(3)] that assms(4) by simp
  ultimately have "(if rule_id u = i then set_rule_values n e v u else u) = u" if "u \<in> set (ad_rules db)" for u
    using that by auto
  then show ?thesis unfolding update_rows_def by (rule map_idI)
qed

lemma first_row_filter:
  assumes "first_row (filter P t) = Some s"
  shows "s \<in> set t" "P s"
  using first_row_in [OF assms] by simp_all

lemma update_result:
  "snd (updatePolicyRule env a db) = db \<or>
   (\<exists>n s c. first_row (filter (\<lambda>s. rule_id s = up_ruleId a) (ad_rules db)) = Some s \<and>
      snd (updatePolicyRule env a db) = snd (publishPolicyVersion env (rule_policy s) c None
        (db\<lparr>ad_rules := update_rows (up_ruleId a) n (up_matchEventType a) (up_values a) (ad_rules db)\<rparr>)))"
proof (cases "up_priority a")
  case (Some n)
  show ?thesis
  proof (cases "first_row (filter (\<lambda>s. rule_id s = up_ruleId a) (ad_rules db))")
    case (Some s)
    define rows where "rows = update_rows (up_ruleId a) n (up_matchEventType a) (up_values a) (ad_rules db)"
    have "snd (updatePolicyRule env a db) = db \<or> snd (updatePolicyRule env a db) =
      snd (publishPolicyVersion env (rule_policy s) (Some (''Updated rule '' @ rule_label (up_ruleId a))) None (db\<lparr>ad_rules := rows\<rparr>))"
      unfolding updatePolicyRule_def Let_def rows_def update_rows_def by (simp add: Some \<open>up_priority a = Some n\<close>)
    with Some show ?thesis unfolding rows_def by blast
  qed (simp add: updatePolicyRule_def Some)
qed (simp add: updatePolicyRule_def)

lemma update_noticed:
  assumes kept: "well_kept env db" and safe: "inj_on (snapshot_hash env) (snapshots db \<union> snapshots (snd (updatePolicyRule env a db)))"
  shows "noticed (client_db db) (client_db (snd (updatePolicyRule env a db))) p"
proof (cases "snd (updatePolicyRule env a db) = db")
  case False
  then obtain n s c where s: "first_row (filter (\<lambda>s. rule_id s = up_ruleId a) (ad_rules db)) = Some s"
    and res: "snd (updatePolicyRule env a db) = snd (publishPolicyVersion env (rule_policy s) c None
      (db\<lparr>ad_rules := update_rows (up_ruleId a) n (up_matchEventType a) (up_values a) (ad_rules db)\<rparr>))"
    using update_result [of env a db] by metis
  let ?db1 = "db\<lparr>ad_rules := update_rows (up_ruleId a) n (up_matchEventType a) (up_values a) (ad_rules db)\<rparr>"
  note s_in = first_row_filter [OF s]
  obtain q where q: "q \<in> set (ad_policies db)" "rule_policy s = po_id q"
    using kept s_in(1) by (auto simp: well_kept_def)
  have ids: "ids_ok (ad_policies ?db1)" "q \<in> set (ad_policies ?db1)" using kept q(1) by (simp_all add: well_kept_def)
  show ?thesis
  proof (cases "in_scope p q")
    case False
    have own: "rule_policy t = po_id q" if "t \<in> set (ad_rules db)" "rule_id t = up_ruleId a" for t
      using that kept s_in q(2) same_key [of rule_id "ad_rules db" t s] by (simp add: well_kept_def)
    have "filter (\<lambda>t. rule_policy t \<noteq> po_id q) (update_rows (up_ruleId a) n (up_matchEventType a) (up_values a) l) =
        filter (\<lambda>t. rule_policy t \<noteq> po_id q) l" if "set l \<subseteq> set (ad_rules db)" for l
      using that own by (induction l) (auto simp: update_rows_def)
    with edited_elsewhere [of ?db1 q p db env c None] ids False res q(2) show ?thesis by simp
  next
    case True
    show ?thesis
    proof (rule publish_by_id [OF ids, of env c None])
      fix row db' assume new: "publishPolicyVersion env (po_id q) c None ?db1 = (Inr row, db')"
        "new_version env q (rules_of ?db1 (po_id q)) row ?db1 db'"
      from new_version_seen [OF new(2) True, of db] new(1) res q(2) show ?thesis by (simp add: noticed_def)
    next
      fix v assume same: "publishPolicyVersion env (po_id q) c None ?db1 = (Inr v, ?db1)"
        "first_row (listPolicyVersions ?db1 (po_id q)) = Some v"
        "fv_snapshotHash v = snapshot_hash env (policy_snapshot q (rules_of ?db1 (po_id q)))"
      then have "first_row (listPolicyVersions db (po_id q)) = Some v" by (simp add: listPolicyVersions_def)
      with kept q(1) have "fv_snapshotHash v = snapshot_hash env (policy_snapshot q (rules_of db (po_id q)))"
        by (simp add: well_kept_def published_def)
      moreover have "policy_snapshot q (rules_of ?db1 (po_id q)) \<in> snapshots (snd (updatePolicyRule env a db))"
        using q same(1) by (simp add: res snapshots_def)
      moreover have "policy_snapshot q (rules_of db (po_id q)) \<in> snapshots db" using q by (simp add: snapshots_def)
      ultimately have "policy_snapshot q (rules_of ?db1 (po_id q)) = policy_snapshot q (rules_of db (po_id q))"
        using safe same(3) by (auto dest: inj_onD)
      from unchanged_snapshot [OF this _ s_in q(2)] kept have "?db1 = db" by (simp add: well_kept_def)
      with same(1) res q(2) show ?thesis by (simp add: noticed_refl)
    qed
  qed
qed (simp add: noticed_refl)

definition switch_row :: "string \<Rightarrow> bool \<Rightarrow> int \<Rightarrow> full_policy \<Rightarrow> full_policy" where
  "switch_row i active t q = (if po_id q = i then q\<lparr>po_isActive := active, po_updatedAt := t\<rparr> else q)"

definition switch_rows :: "string \<Rightarrow> bool \<Rightarrow> int \<Rightarrow> full_policy list \<Rightarrow> full_policy list" where
  "switch_rows i active t l = map (switch_row i active t) l"

lemma switch_row_columns [simp]:
  "po_id (switch_row i b t q) = po_id q" "fp_name (switch_row i b t q) = fp_name q"
  "in_scope p (switch_row i b t q) = in_scope p q"
  by (simp_all add: switch_row_def in_scope_def)

lemma switch_ids: "ids_ok l \<Longrightarrow> ids_ok (switch_rows i b t l)"
  by (auto simp: ids_ok_def switch_rows_def comp_def)

lemma switch_result:
  "snd (setPolicyActive env i b p db) = db \<or>
   (\<exists>q c. q \<in> set (ad_policies db) \<and> snd (setPolicyActive env i b p db) = snd (publishPolicyVersion env (po_id q) c None
      (db\<lparr>ad_policies := switch_rows (po_id q) b (seconds (ae_now env)) (ad_policies db)\<rparr>)))"
proof (cases "find_policy db i p")
  case (Some q)
  then have "q \<in> set (ad_policies db)" unfolding find_policy_def by (rule first_row_filter)
  with Some show ?thesis by (auto simp: setPolicyActive_def switch_rows_def switch_row_def [abs_def] Let_def)
qed (simp add: setPolicyActive_def)

lemma policies_in_switch:
  "policies_in p (switch_rows i b t l) = switch_rows i b t (policies_in p l)"
  by (induction l) (simp_all add: policies_in_def switch_rows_def)

lemma switch_noticed:
  assumes "ids_ok (ad_policies db)" and "recorded_before db (seconds (ae_now env))"
  shows "noticed (client_db db) (client_db (snd (setPolicyActive env i b pr db))) p"
proof (cases "snd (setPolicyActive env i b pr db) = db")
  case False
  let ?t = "seconds (ae_now env)"
  obtain q c where q: "q \<in> set (ad_policies db)" and res: "snd (setPolicyActive env i b pr db) =
      snd (publishPolicyVersion env (po_id q) c None (db\<lparr>ad_policies := switch_rows (po_id q) b ?t (ad_policies db)\<rparr>))"
    using switch_result [of env i b pr db] False by blast
  let ?db1 = "db\<lparr>ad_policies := switch_rows (po_id q) b ?t (ad_policies db)\<rparr>"
  let ?q = "q\<lparr>po_isActive := b, po_updatedAt := ?t\<rparr>"
  have ids: "ids_ok (ad_policies ?db1)" using switch_ids [OF assms(1)] by simp
  have "?q = switch_row (po_id q) b ?t q" by (simp add: switch_row_def)
  then have q1: "?q \<in> set (ad_policies ?db1)" using q by (simp add: switch_rows_def)
  show ?thesis
  proof (cases "in_scope p q")
    case True
    then have "?q \<in> set (policies_in p (ad_policies ?db1))" using q1 by (simp add: policies_in_def in_scope_def)
    then have "Some ?t \<in> set (map (Some \<circ> po_updatedAt) (scoped_policies (client_db (snd (setPolicyActive env i b pr db))) p))"
      by (auto simp: res client_scoped publish_tables intro: rev_image_eqI)
    moreover have "\<forall>y. Some y \<in> set (map (Some \<circ> po_updatedAt) (scoped_policies (client_db db) p)) \<longrightarrow> y < ?t"
      using assms(2) by (auto simp: client_scoped policies_in_def recorded_before_def)
    ultimately show ?thesis
      using sql_max_moves same_revision(2) unfolding noticed_def by metis
  next
    case False
    have "r = q" if "r \<in> set (ad_policies db)" "po_id r = po_id q" for r
      using that q assms(1) same_key [of po_id "ad_policies db" r q] by (simp add: ids_ok_def)
    with False have "po_id r \<noteq> po_id q" if "r \<in> set (policies_in p (ad_policies db))" for r
      using that by (auto simp: policies_in_def)
    then have "switch_rows (po_id q) b ?t (policies_in p (ad_policies db)) = policies_in p (ad_policies db)"
      unfolding switch_rows_def by (intro map_idI) (simp add: switch_row_def)
    then have "policies_in p (ad_policies ?db1) = policies_in p (ad_policies db)" by (simp add: policies_in_switch)
    moreover have "\<not> in_scope p ?q" using False by (simp add: in_scope_def)
    ultimately show ?thesis
      using edited_elsewhere [OF ids q1, of p db env c None] res by simp
  qed
qed (simp add: noticed_refl)

lemma delete_result:
  "snd (deletePolicyRule env i db) = db \<or>
   (\<exists>s c. first_row (filter (\<lambda>s. rule_id s = i) (ad_rules db)) = Some s \<and> snd (deletePolicyRule env i db) =
      snd (publishPolicyVersion env (rule_policy s) c None (db\<lparr>ad_rules := filter (\<lambda>t. rule_id t \<noteq> i) (ad_rules db)\<rparr>)))"
  by (auto simp: deletePolicyRule_def split: option.split)

lemma sum_list_filter_less:
  assumes "x \<in> set l" and "\<not> P x" and "0 < (f x :: nat)"
  shows "sum_list (map f (filter P l)) < sum_list (map f l)"
proof -
  have le: "sum_list (map f (filter P l)) \<le> sum_list (map f l)" for l by (induction l) auto
  from assms show ?thesis
  proof (induction l)
    case (Cons y l)
    then show ?case using le [of l] by (cases "x = y") auto
  qed simp
qed

lemma delete_noticed:
  assumes "well_kept env db"
  shows "noticed (client_db db) (client_db (snd (deletePolicyRule env i db))) p"
proof (cases "snd (deletePolicyRule env i db) = db")
  case False
  then obtain s c where s: "first_row (filter (\<lambda>s. rule_id s = i) (ad_rules db)) = Some s"
    and res: "snd (deletePolicyRule env i db) =
      snd (publishPolicyVersion env (rule_policy s) c None (db\<lparr>ad_rules := filter (\<lambda>t. rule_id t \<noteq> i) (ad_rules db)\<rparr>))"
    using delete_result [of env i db] by blast
  let ?db1 = "db\<lparr>ad_rules := filter (\<lambda>t. rule_id t \<noteq> i) (ad_rules db)\<rparr>"
  note s_in = first_row_filter [OF s]
  obtain q where q: "q \<in> set (ad_policies db)" "rule_policy s = po_id q"
    using assms s_in(1) by (auto simp: well_kept_def)
  show ?thesis
  proof (cases "in_scope p q")
    case True
    with sum_list_filter_less [OF s_in(1), of "\<lambda>t. rule_id t \<noteq> i"] s_in(2) rule_scoped [OF q(1) True q(2)]
    have "noticed (client_db db) (client_db (snd (deletePolicyRule env i db))) p"
      by (intro rule_count_moves) (simp add: res publish_tables less_imp_neq)
    then show ?thesis .
  next
    case False
    have "rule_policy t = po_id q" if "t \<in> set (ad_rules db)" "rule_id t = i" for t
      using that assms s_in q(2) same_key [of rule_id "ad_rules db" t s] by (simp add: well_kept_def)
    then have "filter (\<lambda>t. rule_policy t \<noteq> po_id q) (ad_rules ?db1) = filter (\<lambda>t. rule_policy t \<noteq> po_id q) (ad_rules db)"
      by (auto intro: filter_cong)
    with edited_elsewhere [of ?db1 q p db env c None] assms q False res show ?thesis by (simp add: well_kept_def)
  qed
qed (simp add: noticed_refl)

lemma get_found:
  assumes "ids_ok (ad_policies db)" and "getPolicy db i None = Some (q, rules)"
  shows "q \<in> set (ad_policies db)" and "getPolicy db (po_id q) None = Some (q, rules)"
proof -
  show q: "q \<in> set (ad_policies db)"
    using assms(2) first_row_filter(1) by (auto simp: getPolicy_def find_policy_def split: if_splits)
  show "getPolicy db (po_id q) None = Some (q, rules)"
    using assms(2) get_by_id [OF assms(1) q] by (auto simp: getPolicy_def split: if_splits)
qed

lemma publish_noticed:
  assumes "ids_ok (ad_policies db)"
  shows "noticed (client_db db) (client_db (snd (publishPolicyVersion env i c u db))) p"
proof (rule publish_cases [of db i env c u])
  fix q rules row db' assume get: "getPolicy db i None = Some (q, rules)"
    and new: "publishPolicyVersion env i c u db = (Inr row, db')" "new_version env q rules row db db'"
  note q = get_found(1) [OF assms get]
  show ?thesis
  proof (cases "in_scope p q")
    case True
    with new_version_seen [OF new(2) True refl] new(1) show ?thesis by (simp add: noticed_def)
  next
    case False
    have "publishPolicyVersion env (po_id q) c u db = publishPolicyVersion env i c u db"
      using get_found [OF assms get] by (simp add: publishPolicyVersion_def get)
    with edited_elsewhere [OF assms q False, of db env c u] show ?thesis by simp
  qed
qed (simp_all add: noticed_refl)

text \<open>Exceptions and grants: the tables of the policies stay, so do the joined rules.\<close>

definition same_rules :: "admin_db \<Rightarrow> admin_db \<Rightarrow> bool" where
  "same_rules db db' \<longleftrightarrow> ad_policies db' = ad_policies db \<and> ad_rules db' = ad_rules db \<and> ad_versions db' = ad_versions db"

lemma same_rules_joined: "same_rules db db' \<Longrightarrow> joined_rules (client_db db') p = joined_rules (client_db db) p"
  by (intro joined_same) (simp_all add: same_rules_def relevant_def client_active_versions)

definition exceptions_in :: "string option \<Rightarrow> full_exception list \<Rightarrow> full_exception list" where
  "exceptions_in p t = filter (\<lambda>x. rev_scope p (xr_projectId x)) t"

definition grants_in :: "string option \<Rightarrow> full_grant list \<Rightarrow> full_grant list" where
  "grants_in p t = filter (\<lambda>g. rev_scope p (gr_projectId g)) t"

lemma loaded_exceptions:
  "filter (\<lambda>x. xr_status x = ''active'' \<and> in_project p (xr_projectId x)) (map exception_row.truncate t) =
   filter (\<lambda>x. xr_status x = ''active'' \<and> in_project p (xr_projectId x)) (map exception_row.truncate (exceptions_in p t))"
  by (induction t) (auto simp: exceptions_in_def in_project_def rev_scope_def split: option.splits)

lemma loaded_grants:
  "filter (\<lambda>g. gr_revokedAt g = None \<and> (p = None \<or> gr_projectId g = None \<or> gr_projectId g = p)) (map grant_row.truncate t) =
   filter (\<lambda>g. gr_revokedAt g = None \<and> (p = None \<or> gr_projectId g = None \<or> gr_projectId g = p)) (map grant_row.truncate (grants_in p t))"
  by (induction t) (auto simp: grants_in_def rev_scope_def)

lemma unseen_side_edit:
  assumes "same_rules db db'" and "exceptions_in p (ad_exceptions db') = exceptions_in p (ad_exceptions db)"
    and "grants_in p (ad_grants db') = grants_in p (ad_grants db)"
  shows "noticed (client_db db) (client_db db') p"
  using same_rules_joined [OF assms(1), of p] assms(2,3)
    loaded_exceptions [of p "ad_exceptions db'"] loaded_exceptions [of p "ad_exceptions db"]
    loaded_grants [of p "ad_grants db'"] loaded_grants [of p "ad_grants db"]
  by (simp add: noticed_def loadPolicyState_def)

lemma exceptions_moved:
  assumes "length (exceptions_in p (ad_exceptions db')) \<noteq> length (exceptions_in p (ad_exceptions db)) \<or>
    sql_max (map xr_updatedAt (exceptions_in p (ad_exceptions db'))) \<noteq> sql_max (map xr_updatedAt (exceptions_in p (ad_exceptions db)))"
  shows "noticed (client_db db) (client_db db') p"
  using assms same_revision(5,6) [of "client_db db'" p "client_db db"]
  by (auto simp: noticed_def exceptions_in_def filter_map comp_def)

lemma grants_moved:
  assumes "length (grants_in p (ad_grants db')) \<noteq> length (grants_in p (ad_grants db)) \<or>
    sql_max (map gr_revokedAt (grants_in p (ad_grants db'))) \<noteq> sql_max (map gr_revokedAt (grants_in p (ad_grants db)))"
  shows "noticed (client_db db) (client_db db') p"
  using assms same_revision(7,8) [of "client_db db'" p "client_db db"]
  by (auto simp: noticed_def grants_in_def filter_map comp_def)

lemma exception_noticed: "noticed (client_db db) (client_db (snd (createPolicyException env a db))) p"
proof (cases "rev_scope p (Some (xa_projectId a))")
  case True
  then show ?thesis
    by (auto simp: createPolicyException_def Let_def audited_def noticed_refl exceptions_in_def intro: exceptions_moved)
next
  case False
  then show ?thesis
    by (auto simp: createPolicyException_def Let_def audited_def noticed_refl exceptions_in_def same_rules_def intro: unseen_side_edit)
qed

lemma grant_noticed: "noticed (client_db db) (client_db (snd (createPolicyGrant env a db))) p"
proof (cases "rev_scope p (ga_projectId a)")
  case True
  then show ?thesis
    by (auto simp: createPolicyGrant_def Let_def audited_def noticed_refl grants_in_def intro: grants_moved)
next
  case False
  then show ?thesis
    by (auto simp: createPolicyGrant_def Let_def audited_def noticed_refl grants_in_def same_rules_def intro: unseen_side_edit)
qed

lemma patched [simp]:
  "xr_projectId (patch_exception now x u e) = xr_projectId e" "xr_updatedAt (patch_exception now x u e) = Some (seconds now)"
  by (cases x; simp add: patch_exception_def Let_def)+

text \<open>The update of the rows with one id, in the scope or out of it.\<close>

lemma filter_map_if:
  assumes "\<And>x. P (f x) = P x"
  shows "filter P (map (\<lambda>x. if Q x then f x else x) l) = map (\<lambda>x. if Q x then f x else x) (filter P l)"
  using assms by (induction l) auto

lemma status_noticed:
  assumes "recorded_before db (seconds (ae_now env))"
  shows "noticed (client_db db) (client_db (snd (updatePolicyExceptionStatus env i x u db))) p"
proof -
  let ?f = "\<lambda>e. if xr_id e = i then patch_exception (ae_now env) x u e else e"
  let ?db' = "snd (updatePolicyExceptionStatus env i x u db)"
  have tables: "ad_exceptions ?db' = map ?f (ad_exceptions db)" "ad_grants ?db' = ad_grants db" "same_rules db ?db'"
    by (auto simp: updatePolicyExceptionStatus_def Let_def audited_def same_rules_def split: option.split)
  have in_p: "exceptions_in p (ad_exceptions ?db') = map ?f (exceptions_in p (ad_exceptions db))"
    unfolding tables(1) exceptions_in_def by (rule filter_map_if) simp
  show ?thesis
  proof (cases "\<exists>e \<in> set (exceptions_in p (ad_exceptions db)). xr_id e = i")
    case True
    then have "Some (seconds (ae_now env)) \<in> set (map xr_updatedAt (exceptions_in p (ad_exceptions ?db')))"
      unfolding in_p by force
    moreover have "\<forall>y. Some y \<in> set (map xr_updatedAt (exceptions_in p (ad_exceptions db))) \<longrightarrow> y < seconds (ae_now env)"
      using assms by (auto simp: exceptions_in_def recorded_before_def)
    ultimately show ?thesis using sql_max_moves by (intro exceptions_moved) metis
  next
    case False
    then have "map ?f (exceptions_in p (ad_exceptions db)) = exceptions_in p (ad_exceptions db)" by (intro map_idI) auto
    with in_p tables(2,3) show ?thesis by (intro unseen_side_edit) simp_all
  qed
qed

lemma revoke_noticed:
  assumes "recorded_before db (seconds (ae_now env))"
  shows "noticed (client_db db) (client_db (snd (revokePolicyGrant env i u db))) p"
proof -
  let ?f = "\<lambda>g. if gr_id g = i then g\<lparr>gr_revokedAt := Some (seconds (ae_now env))\<rparr> else g"
  let ?db' = "snd (revokePolicyGrant env i u db)"
  have tables: "ad_grants ?db' = map ?f (ad_grants db)" "ad_exceptions ?db' = ad_exceptions db" "same_rules db ?db'"
    by (auto simp: revokePolicyGrant_def Let_def audited_def same_rules_def split: option.split)
  have in_p: "grants_in p (ad_grants ?db') = map ?f (grants_in p (ad_grants db))"
    unfolding tables(1) grants_in_def by (rule filter_map_if) simp
  show ?thesis
  proof (cases "\<exists>g \<in> set (grants_in p (ad_grants db)). gr_id g = i")
    case True
    then have "Some (seconds (ae_now env)) \<in> set (map gr_revokedAt (grants_in p (ad_grants ?db')))"
      unfolding in_p by force
    moreover have "\<forall>y. Some y \<in> set (map gr_revokedAt (grants_in p (ad_grants db))) \<longrightarrow> y < seconds (ae_now env)"
      using assms by (auto simp: grants_in_def recorded_before_def)
    ultimately show ?thesis using sql_max_moves by (intro grants_moved) metis
  next
    case False
    then have "map ?f (grants_in p (ad_grants db)) = grants_in p (ad_grants db)" by (intro map_idI) auto
    with in_p tables(2,3) show ?thesis by (intro unseen_side_edit) simp_all
  qed
qed

lemma add_rule_result:
  "snd (addPolicyRule env a db) = db \<or>
   (\<exists>q \<in> set (ad_policies db). snd (addPolicyRule env a db) = snd (add_to_policy env a (po_id q) False db)) \<or>
   snd (addPolicyRule env a db) = snd (add_to_policy env a (ae_policyId env) True
     (db\<lparr>ad_policies := ad_policies db @ [new_policy env a (nullish (ar_policyName a) ''__default__'')]\<rparr>))"
proof (cases "first_row (filter (\<lambda>p. po_projectId p = ar_projectId a \<and> fp_name p = nullish (ar_policyName a) ''__default__'')
    (ad_policies db))")
  case None
  then show ?thesis by (simp add: addPolicyRule_def Let_def)
next
  case (Some q)
  then have "q \<in> set (ad_policies db)" by (rule first_row_filter)
  with Some show ?thesis by (auto simp: addPolicyRule_def Let_def)
qed

lemma ids_ok_snoc:
  assumes "ids_ok t" and "po_id n \<noteq> []" and "fp_name n \<noteq> po_id n"
    and "\<forall>q \<in> set t. po_id q \<noteq> po_id n \<and> fp_name q \<noteq> po_id n \<and> fp_name n \<noteq> po_id q"
  shows "ids_ok (t @ [n])"
  using assms by (force simp: ids_ok_def)

lemma add_rule_noticed:
  assumes "well_kept env db" and "mints_fresh env (AddRule a) db"
  shows "noticed (client_db db) (client_db (snd (addPolicyRule env a db))) p"
proof -
  let ?name = "nullish (ar_policyName a) ''__default__''"
  let ?db1 = "db\<lparr>ad_policies := ad_policies db @ [new_policy env a ?name]\<rparr>"
  have new: "po_id (new_policy env a ?name) = ae_policyId env" "fp_name (new_policy env a ?name) = ?name"
    by (simp_all add: new_policy_def)
  consider (unchanged) "snd (addPolicyRule env a db) = db"
    | (found) q where "q \<in> set (ad_policies db)" "snd (addPolicyRule env a db) = snd (add_to_policy env a (po_id q) False db)"
    | (created) "snd (addPolicyRule env a db) = snd (add_to_policy env a (ae_policyId env) True ?db1)"
    using add_rule_result [of env a db] by blast
  then show ?thesis
  proof cases
    case (found q)
    with assms(1) add_noticed [of db q p db env a False] show ?thesis by (simp add: well_kept_def)
  next
    case created
    have "ids_ok (ad_policies db @ [new_policy env a ?name])"
      using assms new by (intro ids_ok_snoc) (auto simp: well_kept_def image_iff)
    then have "ids_ok (ad_policies ?db1)" by simp
    with add_noticed [of ?db1 "new_policy env a ?name" p db env a True] created new show ?thesis
      by (auto simp: policies_in_def)
  qed (simp add: noticed_refl)
qed

lemma step_noticed:
  assumes "well_kept env db" and "mints_fresh env op db" and "recorded_before db (seconds (ae_now env))"
    and "inj_on (snapshot_hash env) (snapshots db \<union> snapshots (admin_step env op db))"
  shows "noticed (client_db db) (client_db (admin_step env op db)) p"
  using assms
  by (cases op)
    (auto simp: well_kept_def [THEN iffD1, THEN conjunct1] intro: add_rule_noticed update_noticed switch_noticed
      delete_noticed publish_noticed exception_noticed status_noticed grant_noticed revoke_noticed)

end
