(* ===== verification/Policy_Upkeep.thy ===== *)
theory Policy_Upkeep
  imports Policy_Freshness
begin

text \<open>
  What the administrative operations keep of the policy tables: ids and references stay in order, the
  versions stay a history, and the newest version of every policy describes it as it is.
\<close>

section \<open>Publishing keeps the tables\<close>

definition published_at :: "admin_env \<Rightarrow> admin_db \<Rightarrow> full_policy \<Rightarrow> bool" where
  "published_at env db p \<longleftrightarrow>
     (\<forall>v. first_row (listPolicyVersions db (po_id p)) = Some v \<longrightarrow>
        fv_snapshotHash v = snapshot_hash env (policy_snapshot p (rules_of db (po_id p))))"

lemma published_everywhere: "published env db \<longleftrightarrow> (\<forall>p \<in> set (ad_policies db). published_at env db p)"
  by (simp add: published_def published_at_def)

text \<open>The tables without the versions' content.\<close>

definition in_order :: "admin_db \<Rightarrow> bool" where
  "in_order db \<longleftrightarrow>
     ids_ok (ad_policies db) \<and> distinct (map rule_id (ad_rules db)) \<and>
     (\<forall>s \<in> set (ad_rules db). rule_policy s \<in> po_id ` set (ad_policies db)) \<and>
     (\<forall>v \<in> set (ad_versions db). pv_policyId v \<in> po_id ` set (ad_policies db)) \<and> versions_ok (ad_versions db)"

lemma well_kept_alt: "well_kept env db \<longleftrightarrow> in_order db \<and> published env db"
  by (auto simp: well_kept_def in_order_def)

lemma latest_in_order:
  assumes "versions_ok (ad_versions db)"
  shows "first_row (listPolicyVersions db pid) =
    (if versions_of (ad_versions db) pid = [] then None else Some (last (versions_of (ad_versions db) pid)))"
  using latest_version [of "ad_versions db" pid] assms by (simp add: versions_ok_def listPolicyVersions_def versions_of_def)

lemma publish_keeps:
  assumes "in_order db" and "q \<in> set (ad_policies db)"
    and "\<forall>p \<in> set (ad_policies db). po_id p \<noteq> po_id q \<longrightarrow> published_at env db p"
  shows "well_kept env (snd (publishPolicyVersion env (po_id q) c u db))"
proof -
  have ids: "ids_ok (ad_policies db)" and ok: "versions_ok (ad_versions db)" using assms(1) by (simp_all add: in_order_def)
  have own: "p = q" if "p \<in> set (ad_policies db)" "po_id p = po_id q" for p
    using that ids assms(2) same_key [of po_id "ad_policies db" p q] by (simp add: ids_ok_def)
  show ?thesis
  proof (rule publish_by_id [OF ids assms(2), of env c u])
    fix v assume same: "publishPolicyVersion env (po_id q) c u db = (Inr v, db)"
      "first_row (listPolicyVersions db (po_id q)) = Some v"
      "fv_snapshotHash v = snapshot_hash env (policy_snapshot q (rules_of db (po_id q)))"
    then have "published_at env db p" if "p \<in> set (ad_policies db)" for p
      using that assms(3) own [OF that] by (cases "po_id p = po_id q") (simp_all add: published_at_def)
    with assms(1) same(1) show ?thesis by (simp add: well_kept_alt published_everywhere)
  next
    fix row db' assume r: "publishPolicyVersion env (po_id q) c u db = (Inr row, db')"
      and n: "new_version env q (rules_of db (po_id q)) row db db'"
    have ok': "versions_ok (ad_versions db')" by (rule new_version_ok [OF n ok])
    have tables: "ad_policies db' = ad_policies db" "ad_rules db' = ad_rules db" "pv_policyId row = po_id q"
      "ad_versions db' = map (retire (po_id q) (seconds (ae_now env))) (ad_versions db) @ [row]"
      "fv_snapshotHash row = snapshot_hash env (policy_snapshot q (rules_of db (po_id q)))"
      using n by (auto simp: new_version_def)
    have rules: "rules_of db' = rules_of db" by (simp add: fun_eq_iff rules_of_def tables(2))
    have "published_at env db' p" if p: "p \<in> set (ad_policies db)" for p
    proof (cases "po_id p = po_id q")
      case True
      then show ?thesis
        using own [OF p True] latest_in_order [OF ok', of "po_id q"]
        by (simp add: published_at_def rules tables(3-5) versions_of_retired)
    next
      case False
      then have "versions_of (ad_versions db') (po_id p) = versions_of (ad_versions db) (po_id p)"
        by (simp add: tables(3,4) versions_of_retired)
      then have "listPolicyVersions db' (po_id p) = listPolicyVersions db (po_id p)"
        by (simp add: listPolicyVersions_def versions_of_def)
      with assms(3) False p show ?thesis by (simp add: published_at_def rules)
    qed
    moreover have "in_order db'"
      using assms(1,2) ok' by (auto simp: in_order_def tables retire_def)
    ultimately show ?thesis using r by (simp add: well_kept_alt published_everywhere tables)
  qed
qed

lemma publish_current:
  assumes "ids_ok (ad_policies db)" and "q \<in> set (ad_policies db)" and "first_row (listPolicyVersions db (po_id q)) = Some v"
    and "fv_snapshotHash v = snapshot_hash env (policy_snapshot q (rules_of db (po_id q)))"
  shows "publishPolicyVersion env (po_id q) c u db = (Inr v, db)"
  using assms by (simp add: publishPolicyVersion_def get_by_id Let_def)

text \<open>Published twice is published once.\<close>

lemma publish_again:
  assumes ids: "ids_ok (ad_policies db)" and q: "q \<in> set (ad_policies db)" and ok: "versions_ok (ad_versions db)"
    and same: "snapshot_hash env' = snapshot_hash env"
  shows "\<exists>v. publishPolicyVersion env' (po_id q) c' u' (snd (publishPolicyVersion env (po_id q) c u db)) =
    (Inr v, snd (publishPolicyVersion env (po_id q) c u db))"
proof (rule publish_by_id [OF ids q, of env c u])
  fix v assume "publishPolicyVersion env (po_id q) c u db = (Inr v, db)"
    "first_row (listPolicyVersions db (po_id q)) = Some v"
    "fv_snapshotHash v = snapshot_hash env (policy_snapshot q (rules_of db (po_id q)))"
  then show ?thesis using publish_current [OF ids q, of v env'] by (simp add: same)
next
  fix row db' assume r: "publishPolicyVersion env (po_id q) c u db = (Inr row, db')"
    and n: "new_version env q (rules_of db (po_id q)) row db db'"
  have tables: "ad_policies db' = ad_policies db" "ad_rules db' = ad_rules db"
    "versions_of (ad_versions db') (po_id q) \<noteq> []" "last (versions_of (ad_versions db') (po_id q)) = row"
    "fv_snapshotHash row = snapshot_hash env (policy_snapshot q (rules_of db (po_id q)))"
    using n by (auto simp: new_version_def versions_of_retired)
  have "rules_of db' = rules_of db" by (simp add: fun_eq_iff rules_of_def tables(2))
  with tables latest_in_order [OF new_version_ok [OF n ok], of "po_id q"] ids q
  have "publishPolicyVersion env' (po_id q) c' u' db' = (Inr row, db')"
    by (intro publish_current) (simp_all add: same)
  with r show ?thesis by simp
qed

text \<open>Only the edited policy may differ from its published version before it is published again.\<close>

lemma published_elsewhere:
  assumes "published env db" and "ad_versions db1 = ad_versions db"
    and "\<And>p. p \<in> set (ad_policies db1) \<Longrightarrow> po_id p \<noteq> pid \<Longrightarrow> p \<in> set (ad_policies db)"
    and "filter (\<lambda>s. rule_policy s \<noteq> pid) (ad_rules db1) = filter (\<lambda>s. rule_policy s \<noteq> pid) (ad_rules db)"
  shows "\<forall>p \<in> set (ad_policies db1). po_id p \<noteq> pid \<longrightarrow> published_at env db1 p"
proof (intro ballI impI)
  fix p assume p: "p \<in> set (ad_policies db1)" "po_id p \<noteq> pid"
  have f: "filter (\<lambda>s. rule_policy s = po_id p) rs = filter (\<lambda>s. rule_policy s = po_id p) (filter (\<lambda>s. rule_policy s \<noteq> pid) rs)" for rs
    using p(2) by (auto intro: filter_cong)
  have "filter (\<lambda>s. rule_policy s = po_id p) (ad_rules db1) = filter (\<lambda>s. rule_policy s = po_id p) (ad_rules db)"
    by (subst f, subst (2) f) (simp only: assms(4))
  then have "rules_of db1 (po_id p) = rules_of db (po_id p)" by (simp add: rules_of_def)
  moreover have "published_at env db p" using assms(1,3) p by (simp add: published_everywhere)
  ultimately show "published_at env db1 p" by (simp add: published_at_def listPolicyVersions_def assms(2))
qed

section \<open>Every operation keeps them\<close>

lemma tables_same:
  assumes "same_rules db db'" and "well_kept env db"
  shows "well_kept env db'"
proof -
  have "rules_of db' = rules_of db" using assms(1) by (simp add: fun_eq_iff rules_of_def same_rules_def)
  with assms show ?thesis
    by (simp add: well_kept_def published_def same_rules_def listPolicyVersions_def)
qed

lemma rules_edit_keeps:
  assumes kept: "well_kept env db" and q: "q \<in> set (ad_policies db)"
    and rules: "filter (\<lambda>s. rule_policy s \<noteq> po_id q) rs = filter (\<lambda>s. rule_policy s \<noteq> po_id q) (ad_rules db)"
    and "distinct (map rule_id rs)"
  shows "well_kept env (snd (publishPolicyVersion env (po_id q) c u (db\<lparr>ad_rules := rs\<rparr>)))"
proof (rule publish_keeps)
  let ?db1 = "db\<lparr>ad_rules := rs\<rparr>"
  have "rule_policy s \<in> po_id ` set (ad_policies db)" if "s \<in> set rs" for s
  proof (cases "rule_policy s = po_id q")
    case False
    with that have "s \<in> set (filter (\<lambda>s. rule_policy s \<noteq> po_id q) rs)" by simp
    with rules kept show ?thesis by (simp add: well_kept_def)
  qed (use q in simp)
  with kept assms(4) show "in_order ?db1" by (simp add: well_kept_def in_order_def)
  show "\<forall>p \<in> set (ad_policies ?db1). po_id p \<noteq> po_id q \<longrightarrow> published_at env ?db1 p"
    using kept rules by (intro published_elsewhere [of env db]) (simp_all add: well_kept_def)
qed (use q in simp)

lemma update_keeps:
  assumes kept: "well_kept env db"
  shows "well_kept env (snd (updatePolicyRule env a db))"
proof (cases "snd (updatePolicyRule env a db) = db")
  case False
  then obtain n s c where s: "first_row (filter (\<lambda>s. rule_id s = up_ruleId a) (ad_rules db)) = Some s"
    and res: "snd (updatePolicyRule env a db) = snd (publishPolicyVersion env (rule_policy s) c None
      (db\<lparr>ad_rules := update_rows (up_ruleId a) n (up_matchEventType a) (up_values a) (ad_rules db)\<rparr>))"
    using update_result [of env a db] by metis
  note s_in = first_row_filter [OF s]
  obtain q where q: "q \<in> set (ad_policies db)" "rule_policy s = po_id q"
    using kept s_in(1) by (auto simp: well_kept_def)
  have own: "rule_policy t = po_id q" if "t \<in> set (ad_rules db)" "rule_id t = up_ruleId a" for t
    using that kept s_in q(2) same_key [of rule_id "ad_rules db" t s] by (simp add: well_kept_def)
  have "filter (\<lambda>t. rule_policy t \<noteq> po_id q) (update_rows (up_ruleId a) n (up_matchEventType a) (up_values a) l) =
      filter (\<lambda>t. rule_policy t \<noteq> po_id q) l" if "set l \<subseteq> set (ad_rules db)" for l
    using that own by (induction l) (auto simp: update_rows_def)
  moreover have "map rule_id (update_rows i n e v l) = map rule_id l" for i e v l
    by (simp add: update_rows_def)
  moreover have "distinct (map rule_id (ad_rules db))" using kept by (simp add: well_kept_def)
  ultimately show ?thesis unfolding res q(2) by (intro rules_edit_keeps [OF kept q(1)]) simp_all
qed (use kept in simp)

lemma delete_keeps:
  assumes kept: "well_kept env db"
  shows "well_kept env (snd (deletePolicyRule env i db))"
proof (cases "snd (deletePolicyRule env i db) = db")
  case False
  then obtain s c where s: "first_row (filter (\<lambda>s. rule_id s = i) (ad_rules db)) = Some s"
    and res: "snd (deletePolicyRule env i db) =
      snd (publishPolicyVersion env (rule_policy s) c None (db\<lparr>ad_rules := filter (\<lambda>t. rule_id t \<noteq> i) (ad_rules db)\<rparr>))"
    using delete_result [of env i db] by blast
  note s_in = first_row_filter [OF s]
  obtain q where q: "q \<in> set (ad_policies db)" "rule_policy s = po_id q"
    using kept s_in(1) by (auto simp: well_kept_def)
  have "rule_policy t = po_id q" if "t \<in> set (ad_rules db)" "rule_id t = i" for t
    using that kept s_in q(2) same_key [of rule_id "ad_rules db" t s] by (simp add: well_kept_def)
  then have "filter (\<lambda>t. rule_policy t \<noteq> po_id q) (filter (\<lambda>t. rule_id t \<noteq> i) (ad_rules db)) =
      filter (\<lambda>t. rule_policy t \<noteq> po_id q) (ad_rules db)"
    by (auto intro: filter_cong)
  moreover have "distinct (map rule_id (filter (\<lambda>t. rule_id t \<noteq> i) (ad_rules db)))"
    using kept by (simp add: well_kept_def distinct_map_filter)
  ultimately show ?thesis unfolding res q(2) by (rule rules_edit_keeps [OF kept q(1)])
qed (use kept in simp)

lemma switch_keeps:
  assumes kept: "well_kept env db"
  shows "well_kept env (snd (setPolicyActive env i b pr db))"
proof (cases "snd (setPolicyActive env i b pr db) = db")
  case False
  let ?t = "seconds (ae_now env)"
  obtain q c where q: "q \<in> set (ad_policies db)" and res: "snd (setPolicyActive env i b pr db) =
      snd (publishPolicyVersion env (po_id q) c None (db\<lparr>ad_policies := switch_rows (po_id q) b ?t (ad_policies db)\<rparr>))"
    using switch_result [of env i b pr db] False by blast
  let ?db1 = "db\<lparr>ad_policies := switch_rows (po_id q) b ?t (ad_policies db)\<rparr>" and ?q = "switch_row (po_id q) b ?t q"
  have ids: "po_id ` set (switch_rows (po_id q) b ?t (ad_policies db)) = po_id ` set (ad_policies db)"
    by (simp add: switch_rows_def image_image)
  have "well_kept env (snd (publishPolicyVersion env (po_id ?q) c None ?db1))"
  proof (rule publish_keeps)
    show "in_order ?db1"
      using kept switch_ids [of "ad_policies db"] by (simp add: well_kept_def in_order_def ids)
    show "\<forall>p \<in> set (ad_policies ?db1). po_id p \<noteq> po_id ?q \<longrightarrow> published_at env ?db1 p"
      using kept by (intro published_elsewhere [of env db]) (auto simp: well_kept_def switch_rows_def switch_row_def)
  qed (use q in \<open>simp add: switch_rows_def\<close>)
  then show ?thesis by (simp add: res)
qed (use kept in simp)

lemma publish_version_keeps:
  assumes "well_kept env db"
  shows "well_kept env (snd (publishPolicyVersion env i c u db))"
proof (cases "getPolicy db i None")
  case (Some x)
  obtain q rules where get: "getPolicy db i None = Some (q, rules)" using Some by (cases x) simp
  have ids: "ids_ok (ad_policies db)" using assms by (simp add: well_kept_def)
  have "publishPolicyVersion env i c u db = publishPolicyVersion env (po_id q) c u db"
    using get_found [OF ids get] by (simp add: publishPolicyVersion_def get)
  moreover have "well_kept env (snd (publishPolicyVersion env (po_id q) c u db))"
    using assms get_found(1) [OF ids get]
    by (intro publish_keeps) (simp_all add: well_kept_alt published_everywhere)
  ultimately show ?thesis by simp
qed (use assms in \<open>simp add: publish_missing\<close>)

text \<open>A policy that is new has no rules and no versions yet.\<close>

lemma new_policy_keeps:
  assumes kept: "well_kept env db" and "po_id n \<noteq> []" and fresh: "po_id n \<notin> po_id ` set (ad_policies db)"
    and "po_id n \<notin> fp_name ` set (ad_policies db)" and "fp_name n \<notin> insert (po_id n) (po_id ` set (ad_policies db))"
  shows "well_kept env (db\<lparr>ad_policies := ad_policies db @ [n]\<rparr>)"
proof -
  let ?db1 = "db\<lparr>ad_policies := ad_policies db @ [n]\<rparr>"
  have "ids_ok (ad_policies db @ [n])"
    using assms by (intro ids_ok_snoc) (auto simp: well_kept_def image_iff)
  then have "in_order ?db1" using kept by (auto simp: well_kept_def in_order_def)
  moreover have "published_at env ?db1 n"
  proof -
    have "filter (\<lambda>v. pv_policyId v = po_id n) (ad_versions db) = []"
    proof (rule filter_False, rule ballI)
      fix v assume "v \<in> set (ad_versions db)"
      with kept have "pv_policyId v \<in> po_id ` set (ad_policies db)" unfolding well_kept_def by blast
      with fresh show "pv_policyId v \<noteq> po_id n" by auto
    qed
    then show ?thesis by (simp add: published_at_def listPolicyVersions_def first_row_def order_by_desc_def)
  qed
  moreover have "published_at env ?db1 p" if "p \<in> set (ad_policies db)" for p
    using kept that by (simp add: well_kept_alt published_everywhere published_at_def listPolicyVersions_def rules_of_def)
  ultimately show ?thesis by (simp add: well_kept_alt published_everywhere)
qed

lemma add_rule_keeps:
  assumes kept: "well_kept env db" and fresh: "mints_fresh env (AddRule a) db"
  shows "well_kept env (snd (addPolicyRule env a db))"
proof -
  let ?n = "new_policy env a (nullish (ar_policyName a) ''__default__'')"
  let ?db1 = "db\<lparr>ad_policies := ad_policies db @ [?n]\<rparr>"
  have added: "well_kept env (snd (add_to_policy env a (po_id q) created db'))"
    if k: "well_kept env db'" and q: "q \<in> set (ad_policies db')" and r: "ae_ruleId env \<notin> rule_id ` set (ad_rules db')" for q created db'
  proof -
    consider "snd (add_to_policy env a (po_id q) created db') = db'" | row c where "rule_policy row = po_id q" "rule_id row = ae_ruleId env"
      "snd (add_to_policy env a (po_id q) created db') =
        snd (publishPolicyVersion env (po_id q) c None (db'\<lparr>ad_rules := ad_rules db' @ [row]\<rparr>))"
      using add_to_policy_result [of env a "po_id q" created db'] by metis
    then show ?thesis
    proof cases
      case (2 row c)
      have "well_kept env (snd (publishPolicyVersion env (po_id q) c None (db'\<lparr>ad_rules := ad_rules db' @ [row]\<rparr>)))"
        using k q r 2(1,2) by (intro rules_edit_keeps) (simp_all add: well_kept_def)
      with 2(3) show ?thesis by simp
    qed (use k in simp)
  qed
  have new: "po_id ?n = ae_policyId env" "fp_name ?n = nullish (ar_policyName a) ''__default__''"
    by (simp_all add: new_policy_def)
  have "well_kept env ?db1" using kept fresh new by (intro new_policy_keeps) auto
  with added [of ?db1 ?n True] fresh new
  have "well_kept env (snd (add_to_policy env a (ae_policyId env) True ?db1))" by simp
  with added [OF kept] fresh kept show ?thesis using add_rule_result [of env a db] by auto
qed

text \<open>The administrative operations keep the policy tables in order, failed ones included: ids stay
  unique, rules and versions belong to a policy, and wherever a policy has been published its newest
  version is the hash of the policy and its rules as they stand now.\<close>

theorem admin_step_keeps:
  assumes "well_kept env db" and "mints_fresh env op db"
  shows "well_kept env (admin_step env op db)"
proof (cases op)
  case (CreateException a)
  have "same_rules db (admin_step env op db)"
    using CreateException by (simp add: createPolicyException_def Let_def audited_def same_rules_def)
  with assms(1) show ?thesis by (blast intro: tables_same)
next
  case (UpdateException i x u)
  have "same_rules db (admin_step env op db)"
    using UpdateException by (simp add: updatePolicyExceptionStatus_def Let_def audited_def same_rules_def split: option.split)
  with assms(1) show ?thesis by (blast intro: tables_same)
next
  case (CreateGrant a)
  have "same_rules db (admin_step env op db)"
    using CreateGrant by (simp add: createPolicyGrant_def Let_def audited_def same_rules_def)
  with assms(1) show ?thesis by (blast intro: tables_same)
next
  case (RevokeGrant i u)
  have "same_rules db (admin_step env op db)"
    using RevokeGrant by (simp add: revokePolicyGrant_def Let_def audited_def same_rules_def split: option.split)
  with assms(1) show ?thesis by (blast intro: tables_same)
qed (use assms in \<open>simp_all add: add_rule_keeps update_keeps switch_keeps delete_keeps publish_version_keeps\<close>)

section \<open>Every edit reaches the client\<close>

text \<open>C18: An edit is never hidden by the cache: after any administrative operation, made in a second
  later than all the seconds the tables record, a policy client whose cached state was current loads
  the new tables at its next evaluation, or would load the same state again.  So the reader's sixty
  seconds bound only what is edited past these operations.\<close>

theorem edit_reaches_client:
  assumes "well_kept aenv db" and "mints_fresh aenv op db" and "recorded_before db (seconds (ae_now aenv))"
    and "inj_on (snapshot_hash aenv) (snapshots db \<union> snapshots (admin_step aenv op db))"
    and "cache (cache_key p) = Some \<lparr> ca_state = loadPolicyState (pc_pm cfg) (pc_jparse cfg) (client_db db) p,
           ca_loadedAt = t, ca_revision = loadPolicyStateRevision (client_db db) p \<rparr>"
    and "ee_revisionFault env = None" and "ee_loadFault env = None"
    and "ee_revisionDb env = client_db (admin_step aenv op db)" and "ee_loadDb env = client_db (admin_step aenv op db)"
  shows "fst (getPolicyState cfg cache p env) =
    Inr (loadPolicyState (pc_pm cfg) (pc_jparse cfg) (client_db (admin_step aenv op db)) p)"
proof (cases "revision_fields (client_db (admin_step aenv op db)) p = revision_fields (client_db db) p")
  case True
  with step_noticed [OF assms(1-4), of p] show ?thesis
    by (simp add: noticed_def getPolicyState_def assms(5-9) Let_def)
next
  case False
  then have "loadPolicyStateRevision (client_db db) p \<noteq> loadPolicyStateRevision (client_db (admin_step aenv op db)) p"
    using revision_string_faithful by metis
  then show ?thesis by (simp add: getPolicyState_def assms(5-9) Let_def)
qed

section \<open>Witnesses\<close>

definition sample_admin_env :: "int \<Rightarrow> admin_env" where
  "sample_admin_env now = \<lparr> ae_now = now * 1000, ae_epoch = now, ae_policyId = ''p1'', ae_ruleId = ''r1'', ae_versionId = ''v1'',
     ae_rowId = ''x1'', ae_eventId = ''e1'', ae_numStr = (\<lambda>_. ''0''), ae_sha256 = id, ae_pick = hd \<rparr>"

definition sample_rule_args :: add_rule_args where
  "sample_rule_args = \<lparr> ar_projectId = ''proj'', ar_policyName = None, ar_policyDescription = None, ar_groupKey = None,
     ar_profile = None, ar_enforcementMode = None, ar_denyOnPolicyError = None, ar_priority = None, ar_matchEventType = None,
     ar_values = \<lparr> rl_matchToolName = ''Bash'', rl_matchPathGlob = None, rl_matchCommandPattern = None, rl_matchAgentType = None,
       rl_decision = Deny, rl_enforcementDecision = None, rl_governanceVerdict = None, rl_ruleEnforcementMode = None,
       rl_requiredCapability = None, rl_excludedCapability = None, rl_reason = ''no shell'', rl_controlKey = None,
       rl_ruleType = None, rl_severity = None, rl_details = None \<rparr> \<rparr>"

definition empty_admin_db :: admin_db where
  "empty_admin_db = \<lparr> ad_projects = [''proj''], ad_runs = [], ad_policies = [], ad_rules = [], ad_versions = [],
     ad_exceptions = [], ad_grants = [], ad_matchedRules = [], ad_audit = [] \<rparr>"

lemma empty_well_kept: "well_kept env empty_admin_db"
  by (simp add: empty_admin_db_def well_kept_def ids_ok_def published_def versions_ok_def versions_of_def version_history_def)

lemma sample_mints: "mints_fresh (sample_admin_env t) (AddRule sample_rule_args) empty_admin_db"
  by (simp add: sample_admin_env_def sample_rule_args_def empty_admin_db_def)

definition sample_eval_env :: "policy_db \<Rightarrow> eval_env" where
  "sample_eval_env d = \<lparr> ee_revisionFault = None, ee_loadFault = None, ee_revisionDb = d, ee_loadDb = d,
     ee_checkedAt = 1000, ee_storedAt = 1001, ee_now = 1002, ee_grantNow = 1003 \<rparr>"

lemma edit_reaches_client_witness:
  "fst (getPolicyState sample_cfg [cache_key (Some ''proj'') \<mapsto>
       \<lparr> ca_state = loadPolicyState (pc_pm sample_cfg) (pc_jparse sample_cfg) (client_db empty_admin_db) (Some ''proj''),
         ca_loadedAt = 0, ca_revision = loadPolicyStateRevision (client_db empty_admin_db) (Some ''proj'') \<rparr>]
     (Some ''proj'')
     (sample_eval_env (client_db (admin_step (sample_admin_env 5) (AddRule sample_rule_args) empty_admin_db)))) =
   Inr (loadPolicyState (pc_pm sample_cfg) (pc_jparse sample_cfg)
     (client_db (admin_step (sample_admin_env 5) (AddRule sample_rule_args) empty_admin_db)) (Some ''proj''))"
proof (rule edit_reaches_client [OF empty_well_kept sample_mints])
  show "recorded_before empty_admin_db (seconds (ae_now (sample_admin_env 5)))"
    by (simp add: recorded_before_def empty_admin_db_def)
  have "length (ad_policies (admin_step (sample_admin_env 5) (AddRule sample_rule_args) empty_admin_db)) \<le> 1"
    by (simp add: addPolicyRule_def add_to_policy_def Let_def publish_tables empty_admin_db_def first_row_def)
  then obtain p where "set (ad_policies (admin_step (sample_admin_env 5) (AddRule sample_rule_args) empty_admin_db)) \<subseteq> {p}"
    by (cases "ad_policies (admin_step (sample_admin_env 5) (AddRule sample_rule_args) empty_admin_db)") auto
  then show "inj_on (snapshot_hash (sample_admin_env 5)) (snapshots empty_admin_db \<union>
      snapshots (admin_step (sample_admin_env 5) (AddRule sample_rule_args) empty_admin_db))"
    by (auto simp: snapshots_def empty_admin_db_def inj_on_def)
qed (simp_all add: sample_eval_env_def)

end
