(* ===== verification/Default_Policy.thy ===== *)
theory Default_Policy
  imports Policy_Upkeep
begin

text \<open>
  The policy every project starts with, \<open>packages/db/src/ensure-default-policy.ts\<close>: the table of default
  rules, and \<open>ensureDefaultPolicy\<close>, which seeds it and on later runs adds what is missing (SQLite
  branch).  \<open>dash\<close> is the em dash of the reasons, which is not a character of the string model; \<open>ids\<close>
  are the minted rule ids.
\<close>

section \<open>The default rules\<close>

record default_spec =
  ds_priority :: int
  ds_matchEventType :: string
  ds_matchToolName :: string
  ds_matchPathGlob :: "string option"
  ds_matchCommandPattern :: "string option"
  ds_matchAgentType :: string
  ds_decision :: policy_decision
  ds_reason :: string
  ds_controlKey :: "string option"
  ds_ruleType :: "string option"
  ds_severity :: "string option"
  ds_details :: "string option"

definition ENV_DENY_REASONS :: "string \<Rightarrow> (string \<times> string) list" where
  "ENV_DENY_REASONS dash =
     [(''.env'', ''writes to .env are denied '' @ dash @ '' secrets must not flow through agent edits''),
      (''**/.env'', ''writes to nested .env are denied '' @ dash @ '' secrets must not flow through agent edits'')]"

definition HYGIENE_ASK_REASONS :: "string \<Rightarrow> (string \<times> string) list" where
  "HYGIENE_ASK_REASONS dash =
     [(''.git/**'', ''writes inside .git/** require human confirmation '' @ dash @
         '' repository metadata is normally owned by `git`, not the agent''),
      (''**/.git/**'', ''writes inside nested .git/** (submodules, monorepo workspaces) require human confirmation '' @ dash @
         '' repository metadata is normally owned by `git`, not the agent''),
      (''node_modules/**'', ''writes inside node_modules/** require human confirmation '' @ dash @
         '' normally installed via package manager, not hand-edited''),
      (''**/node_modules/**'', ''writes inside nested node_modules/** (workspace packages) require human confirmation '' @ dash @
         '' normally installed via package manager, not hand-edited'')]"

definition decisionForGlob :: "string \<Rightarrow> policy_decision" where
  "decisionForGlob glob = (if map_of (ENV_DENY_REASONS []) glob \<noteq> None then Deny else Ask)"

definition reasonForGlob :: "string \<Rightarrow> string \<Rightarrow> string" where
  "reasonForGlob dash glob =
     nullish (nullish_opt (map_of (ENV_DENY_REASONS dash) glob) (map_of (HYGIENE_ASK_REASONS dash) glob))
       (glob @ '' requires human confirmation'')"

definition TOOL_BLOCKS :: "(string \<times> int list) list" where
  "TOOL_BLOCKS =
     [(''Write'', [10, 11, 20, 12, 30, 13]), (''Edit'', [40, 41, 50, 42, 60, 43]),
      (''MultiEdit'', [80, 81, 82, 83, 84, 85]), (''NotebookEdit'', [90, 91, 92, 93, 94, 95])]"

definition GLOBS_IN_BLOCK_ORDER :: "string list" where
  "GLOBS_IN_BLOCK_ORDER = [''.env'', ''**/.env'', ''.git/**'', ''**/.git/**'', ''node_modules/**'', ''**/node_modules/**'']"

definition pre_tool_rule :: "int \<Rightarrow> string \<Rightarrow> string option \<Rightarrow> policy_decision \<Rightarrow> string \<Rightarrow> default_spec" where
  "pre_tool_rule priority tool glob decision reason =
     \<lparr> ds_priority = priority, ds_matchEventType = ''PreToolUse'', ds_matchToolName = tool, ds_matchPathGlob = glob,
       ds_matchCommandPattern = None, ds_matchAgentType = ''*'', ds_decision = decision, ds_reason = reason,
       ds_controlKey = None, ds_ruleType = None, ds_severity = None, ds_details = None \<rparr>"

definition ENV_READ_RULES :: "string \<Rightarrow> default_spec list" where
  "ENV_READ_RULES dash =
     [pre_tool_rule 96 ''Read'' (Some ''.env'') Deny
        (''reads of .env are denied '' @ dash @ '' secrets must not flow into agent context or transcripts''),
      pre_tool_rule 97 ''Read'' (Some ''**/.env'') Deny
        (''reads of nested .env are denied '' @ dash @ '' secrets must not flow into agent context or transcripts'')]"

definition SELF_PROTECTION_GLOBS :: "string list" where
  "SELF_PROTECTION_GLOBS = [''.coodra/config.json'', ''.coodra/policies/**'', ''.coodra/hooks/**'', ''.claude/**'',
     ''.codex/**'', ''AGENTS.md'', ''CLAUDE.md'']"

definition FILE_TOOLS :: "string list" where
  "FILE_TOOLS = [''Write'', ''Edit'', ''MultiEdit'', ''NotebookEdit'']"

definition buildSelfProtectionRules :: "string \<Rightarrow> default_spec list" where
  "buildSelfProtectionRules dash =
     map (\<lambda>(n, tool, glob).
       (pre_tool_rule (110 + int n) tool (Some glob) Deny
          (''writes to '' @ glob @ '' are denied '' @ dash @ '' agents must not modify their own Coodra or agent-control surface''))
         \<lparr>ds_controlKey := Some ''agent-self-protection'', ds_ruleType := Some ''file_protection'',
          ds_severity := Some ''critical'',
          ds_details := Some ''Prevents agents from weakening policy, hooks, rule files, or native agent configuration.''\<rparr>)
       (enumerate 0 (List.product FILE_TOOLS SELF_PROTECTION_GLOBS))"

definition buildToolBlockRules :: "string \<Rightarrow> string \<times> int list \<Rightarrow> default_spec list" where
  "buildToolBlockRules dash block =
     map (\<lambda>(i, glob).
       (let decision = decisionForGlob glob;
            priority = (if i < length (snd block) then snd block ! i else 0);
            r = pre_tool_rule priority (fst block) (Some glob) decision (reasonForGlob dash glob) in
        if decision = Ask
        then r\<lparr>ds_controlKey := Some ''file-hygiene-attestation'', ds_ruleType := Some ''file_protection'',
               ds_severity := Some ''medium''\<rparr>
        else r))
       (enumerate 0 GLOBS_IN_BLOCK_ORDER)"

definition bash_rule :: "int \<Rightarrow> string \<Rightarrow> string \<Rightarrow> string \<Rightarrow> string \<Rightarrow> default_spec" where
  "bash_rule priority pattern reason key severity =
     (pre_tool_rule priority ''Bash'' None Ask reason)
       \<lparr>ds_matchCommandPattern := Some pattern, ds_controlKey := Some key, ds_ruleType := Some ''bash_command'',
        ds_severity := Some severity\<rparr>"

definition BASH_ASK_RULES :: "default_spec list" where
  "BASH_ASK_RULES =
     [bash_rule 70 ''rm -rf*'' ''destructive recursive removal requires human confirmation'' ''shell-human-attestation'' ''high'',
      bash_rule 71 ''git push*--force*'' ''force pushes require human confirmation'' ''shell-human-attestation'' ''high'',
      bash_rule 72 ''* > .env*'' ''shell redirects into .env require human confirmation'' ''shell-human-attestation'' ''high'',
      bash_rule 73 ''curl*|*bash*'' ''curl piped to bash requires human confirmation'' ''supply-chain-shell-install'' ''critical'',
      bash_rule 74 ''curl*|*sh*'' ''curl piped to sh requires human confirmation'' ''supply-chain-shell-install'' ''critical'']"

definition DEFAULT_RULES :: "string \<Rightarrow> default_spec list" where
  "DEFAULT_RULES dash =
     concat (map (buildToolBlockRules dash) TOOL_BLOCKS) @ ENV_READ_RULES dash @ BASH_ASK_RULES @ buildSelfProtectionRules dash"

section \<open>Seeding and repair\<close>

definition rule_identity :: "int \<Rightarrow> string \<Rightarrow> string \<Rightarrow> string option \<Rightarrow> string option \<Rightarrow> string" where
  "rule_identity priority eventType toolName glob command =
     int_string priority @ ''|'' @ eventType @ ''|'' @ toolName @ ''|'' @ nullish glob [] @ ''|'' @ nullish command []"

definition spec_identity :: "default_spec \<Rightarrow> string" where
  "spec_identity s = rule_identity (ds_priority s) (ds_matchEventType s) (ds_matchToolName s) (ds_matchPathGlob s)
     (ds_matchCommandPattern s)"

definition row_identity :: "full_rule \<Rightarrow> string" where
  "row_identity t = (let r = sr_row t in
     rule_identity (rr_priority r) (rr_matchEventType r) (rr_matchToolName r) (rr_matchPathGlob r) (rr_matchCommandPattern r))"

definition seeded_row :: "int \<Rightarrow> string \<Rightarrow> string \<Rightarrow> default_spec \<Rightarrow> full_rule" where
  "seeded_row now pid i s =
     (bare_rule i pid now)
       \<lparr>sr_row := (sr_row (bare_rule i pid now))\<lparr>
          rr_priority := ds_priority s, rr_matchEventType := ds_matchEventType s, rr_matchToolName := ds_matchToolName s,
          rr_matchPathGlob := ds_matchPathGlob s, rr_matchCommandPattern := ds_matchCommandPattern s,
          rr_matchAgentType := Some (ds_matchAgentType s), rr_decision := kind_text (ds_decision s),
          rr_reason := ds_reason s\<rparr>,
        fu_controlKey := Some (nullish (ds_controlKey s)
          (if ds_decision s = Ask then ''shell-human-attestation''
           else ''protect-'' @ nullish (ds_matchPathGlob s) ''shell'')),
        fu_ruleType := nullish (ds_ruleType s) (if ds_matchCommandPattern s \<noteq> None then ''bash_command'' else ''tool_call''),
        fu_severity := nullish (ds_severity s) (if ds_decision s = Deny then ''high'' else ''medium''),
        fu_details := Some (nullish (ds_details s) (ds_reason s))\<rparr>"

definition DEFAULT_POLICY_DESCRIPTION :: string where
  "DEFAULT_POLICY_DESCRIPTION =
     ''Default policy seeded by `coodra init` (Phase 3 Fix D + Phase 4 Fix F, 2026-05-02; '' @
     ''git/node_modules hygiene rules softened to ask, 2026-08-09). '' @
     ''Denies file-mutating tools (Write, Edit, MultiEdit, NotebookEdit) writing to .env / **/.env; '' @
     ''asks before the same tools writing to .git/** / **/.git/** / node_modules/** / **/node_modules/**; '' @
     ''denies Read against .env / **/.env; '' @
     ''denies writes to Coodra and agent control files; asks before targeted risky Bash commands. '' @
     ''Edit via `policy` UI or by writing custom rules with higher priority.''"

definition default_policy_row :: "admin_env \<Rightarrow> string \<Rightarrow> full_policy" where
  "default_policy_row env projectId =
     \<lparr> po_id = ae_policyId env, po_projectId = projectId, po_enforcementMode = ''detective'',
       po_denyOnPolicyError = False, po_isActive = True, po_createdAt = ae_epoch env, po_updatedAt = ae_epoch env,
       fp_orgId = None, fp_name = ''__default__'', fp_description = Some DEFAULT_POLICY_DESCRIPTION,
       fp_groupKey = ''agent_guardrails'', fp_profile = ''default'' \<rparr>"

record ensure_result =
  er_policyId :: string
  er_created :: bool
  er_rulesInserted :: nat

text \<open>One statement inserts all the missing rows; the unique index rejects it whole.\<close>

definition insert_rules :: "full_rule list \<Rightarrow> admin_db \<Rightarrow> admin_error + admin_db" where
  "insert_rules rows db =
     (if (\<exists>r \<in> set rows. \<exists>s \<in> set (ad_rules db). rule_clash r s) then Inl UniqueFailed
      else if \<not> sorted_wrt (\<lambda>r s. \<not> rule_clash r s) rows then Inl UniqueFailed
      else Inr (db\<lparr>ad_rules := ad_rules db @ rows\<rparr>))"

definition seed_policy ::
  "string \<Rightarrow> admin_env \<Rightarrow> (nat \<Rightarrow> string) \<Rightarrow> string \<Rightarrow> bool \<Rightarrow> admin_db \<Rightarrow> (admin_error + ensure_result) \<times> admin_db"
where
  "seed_policy dash env ids pid created db =
     (let existing = (if created then [] else filter (\<lambda>s. rule_policy s = pid) (ad_rules db));
          missing = filter (\<lambda>s. spec_identity s \<notin> set (map row_identity existing)) (DEFAULT_RULES dash);
          rows = map (\<lambda>(i, s). seeded_row (ae_epoch env) pid (ids i) s) (enumerate 0 missing) in
      case insert_rules rows db of
        Inl e \<Rightarrow> (Inl e, db)
      | Inr db1 \<Rightarrow>
          (case publishPolicyVersion env pid
                  (Some (if created then ''Seeded default Agent Guardrails policy''
                         else ''Repaired default Agent Guardrails policy'')) None db1 of
             (Inl e, db2) \<Rightarrow> (Inl e, db2)
           | (Inr _, db2) \<Rightarrow> (Inr \<lparr> er_policyId = pid, er_created = created, er_rulesInserted = length missing \<rparr>, db2)))"

definition ensureDefaultPolicy ::
  "string \<Rightarrow> admin_env \<Rightarrow> (nat \<Rightarrow> string) \<Rightarrow> string \<Rightarrow> admin_db \<Rightarrow> (admin_error + ensure_result) \<times> admin_db"
where
  "ensureDefaultPolicy dash env ids projectId db =
     (case first_row (filter (\<lambda>p. po_projectId p = projectId \<and> fp_name p = ''__default__'') (ad_policies db)) of
        Some p \<Rightarrow> seed_policy dash env ids (po_id p) False db
      | None \<Rightarrow>
          if projectId \<notin> set (ad_projects db) then (Inl ForeignKeyFailed, db)
          else seed_policy dash env ids (ae_policyId env) True
                 (db\<lparr>ad_policies := ad_policies db @ [default_policy_row env projectId]\<rparr>))"

section \<open>The table\<close>

lemmas default_table_defs = DEFAULT_RULES_def TOOL_BLOCKS_def buildToolBlockRules_def GLOBS_IN_BLOCK_ORDER_def
  ENV_READ_RULES_def BASH_ASK_RULES_def buildSelfProtectionRules_def FILE_TOOLS_def SELF_PROTECTION_GLOBS_def
  pre_tool_rule_def bash_rule_def decisionForGlob_def ENV_DENY_REASONS_def

lemma default_priorities:
  "map ds_priority (DEFAULT_RULES dash) =
     [10, 11, 20, 12, 30, 13, 40, 41, 50, 42, 60, 43, 80, 81, 82, 83, 84, 85, 90, 91, 92, 93, 94, 95, 96, 97,
      70, 71, 72, 73, 74, 110, 111, 112, 113, 114, 115, 116, 117, 118, 119, 120, 121, 122, 123, 124, 125, 126, 127, 128,
      129, 130, 131, 132, 133, 134, 135, 136, 137]"
  by (simp add: default_table_defs Let_def)


lemma default_count: "length (DEFAULT_RULES dash) = 59"
proof -
  have "length (map ds_priority (DEFAULT_RULES dash)) = 59" unfolding default_priorities by simp
  then show ?thesis by simp
qed

lemma identity_priority:
  assumes "rule_identity p e t g c = rule_identity p' e' t' g' c'"
  shows "p = p'"
proof -
  have "CHR ''|'' \<notin> set (int_string i)" for i
    using int_string_chars [of "CHR ''|''" i] by (auto simp: is_digit_def)
  with assms split_at_separator [of "int_string p" "CHR ''|''" _ "int_string p'"] int_string_inj show ?thesis
    by (simp add: rule_identity_def)
qed

lemma distinct_priorities: "distinct (map ds_priority (DEFAULT_RULES dash))"
  by (simp add: default_priorities)

lemma same_default:
  assumes "s \<in> set (DEFAULT_RULES dash)" and "s' \<in> set (DEFAULT_RULES dash)" and "ds_priority s = ds_priority s'"
  shows "s = s'"
  using same_key [OF distinct_priorities assms(1,2)] assms(3) by simp

section \<open>Seeding and repair, in lemmas\<close>

lemma seeded [simp]:
  "rule_policy (seeded_row now pid i s) = pid" "rule_id (seeded_row now pid i s) = i"
  "row_identity (seeded_row now pid i s) = spec_identity s" "rr_priority (sr_row (seeded_row now pid i s)) = ds_priority s"
  by (simp_all add: seeded_row_def bare_rule_def rule_policy_def rule_id_def row_identity_def spec_identity_def)

definition seeded_rows :: "int \<Rightarrow> string \<Rightarrow> (nat \<Rightarrow> string) \<Rightarrow> default_spec list \<Rightarrow> full_rule list" where
  "seeded_rows now pid ids specs = map (\<lambda>(i, s). seeded_row now pid (ids i) s) (enumerate 0 specs)"

lemma seeded_rows_Nil [simp]: "seeded_rows now pid ids [] = []"
  by (simp add: seeded_rows_def)

lemma seeded_rows_elem: "t \<in> set (seeded_rows now pid ids specs) \<Longrightarrow> \<exists>i. \<exists>s \<in> set specs. t = seeded_row now pid (ids i) s"
  by (auto simp: seeded_rows_def in_set_enumerate_eq) (metis nth_mem)

lemma seeded_rows_of:
  assumes "s \<in> set specs"
  shows "\<exists>i. seeded_row now pid (ids i) s \<in> set (seeded_rows now pid ids specs)"
proof -
  obtain i where "i < length specs" "s = specs ! i" using assms by (auto simp: in_set_conv_nth)
  then have "(i, s) \<in> set (enumerate 0 specs)" by (simp add: in_set_enumerate_eq)
  then show ?thesis unfolding seeded_rows_def by force
qed

lemma seeded_rows_ids: "map rule_id (seeded_rows now pid ids specs) = map ids [0..<length specs]"
proof -
  have "map (rule_id \<circ> (\<lambda>(i, s). seeded_row now pid (ids i) s)) (enumerate 0 specs) = map (ids \<circ> fst) (enumerate 0 specs)"
    by (simp add: case_prod_unfold)
  also have "\<dots> = map ids (map fst (enumerate 0 specs))" by (simp only: map_map)
  finally show ?thesis by (simp add: seeded_rows_def)
qed

lemma seeded_no_clash:
  "distinct (map ds_priority specs) \<Longrightarrow>
   sorted_wrt (\<lambda>r s. \<not> rule_clash r s) (map (\<lambda>(i, s). seeded_row now pid (ids i) s) (enumerate k specs))"
proof (induction specs arbitrary: k)
  case (Cons s specs)
  have "\<not> rule_clash (seeded_row now pid (ids k) s) t"
    if "t \<in> set (map (\<lambda>(i, s). seeded_row now pid (ids i) s) (enumerate (Suc k) specs))" for t
    using that Cons.prems by (force simp: rule_clash_def in_set_enumerate_eq Let_def)
  with Cons show ?case by simp
qed simp

definition missing_specs :: "string \<Rightarrow> full_rule list \<Rightarrow> default_spec list" where
  "missing_specs dash existing = filter (\<lambda>s. spec_identity s \<notin> set (map row_identity existing)) (DEFAULT_RULES dash)"

text \<open>Seeding in one step: the missing rows are rejected as a whole or appended and published.\<close>

lemma seed_policy_alt:
  fixes dash created pid db
  defines "specs \<equiv> missing_specs dash (if created then [] else filter (\<lambda>s. rule_policy s = pid) (ad_rules db))"
  shows "seed_policy dash env ids pid created db =
     (if \<exists>r \<in> set (seeded_rows (ae_epoch env) pid ids specs). \<exists>s \<in> set (ad_rules db). rule_clash r s
      then (Inl UniqueFailed, db)
      else case publishPolicyVersion env pid
                  (Some (if created then ''Seeded default Agent Guardrails policy''
                         else ''Repaired default Agent Guardrails policy'')) None
                  (db\<lparr>ad_rules := ad_rules db @ seeded_rows (ae_epoch env) pid ids specs\<rparr>) of
             (Inl e, db2) \<Rightarrow> (Inl e, db2)
           | (Inr _, db2) \<Rightarrow> (Inr \<lparr> er_policyId = pid, er_created = created, er_rulesInserted = length specs \<rparr>, db2))"
proof -
  have "distinct (map ds_priority specs)"
    unfolding specs_def missing_specs_def by (rule distinct_map_filter [OF distinct_priorities])
  then have "sorted_wrt (\<lambda>r s. \<not> rule_clash r s) (seeded_rows (ae_epoch env) pid ids specs)"
    unfolding seeded_rows_def by (rule seeded_no_clash)
  moreover have "seed_policy dash env ids pid created db =
     (case insert_rules (seeded_rows (ae_epoch env) pid ids specs) db of
        Inl e \<Rightarrow> (Inl e, db)
      | Inr db1 \<Rightarrow>
          (case publishPolicyVersion env pid
                  (Some (if created then ''Seeded default Agent Guardrails policy''
                         else ''Repaired default Agent Guardrails policy'')) None db1 of
             (Inl e, db2) \<Rightarrow> (Inl e, db2)
           | (Inr _, db2) \<Rightarrow> (Inr \<lparr> er_policyId = pid, er_created = created, er_rulesInserted = length specs \<rparr>, db2)))"
    by (simp only: seed_policy_def Let_def seeded_rows_def missing_specs_def specs_def)
  ultimately show ?thesis by (simp add: insert_rules_def)
qed

text \<open>The ids a call mints are new, and no policy is named like an id.\<close>

definition mints_default :: "admin_env \<Rightarrow> (nat \<Rightarrow> string) \<Rightarrow> admin_db \<Rightarrow> bool" where
  "mints_default env ids db \<longleftrightarrow>
     ae_policyId env \<noteq> [] \<and> ae_policyId env \<notin> po_id ` set (ad_policies db) \<and> ae_policyId env \<notin> fp_name ` set (ad_policies db) \<and>
     ''__default__'' \<notin> insert (ae_policyId env) (po_id ` set (ad_policies db)) \<and>
     inj ids \<and> range ids \<inter> rule_id ` set (ad_rules db) = {}"

lemma unpublished_gap:
  assumes "well_kept env db" and "q \<in> set (ad_policies db)" and "inj ids" and "range ids \<inter> rule_id ` set (ad_rules db) = {}"
  shows "well_kept env (snd (publishPolicyVersion env (po_id q) c u
    (db\<lparr>ad_rules := ad_rules db @ seeded_rows now (po_id q) ids specs\<rparr>)))"
proof (rule rules_edit_keeps [OF assms(1,2)])
  have "filter (\<lambda>s. rule_policy s \<noteq> po_id q) (seeded_rows now (po_id q) ids specs) = []"
    by (auto simp: filter_empty_conv dest: seeded_rows_elem)
  then show "filter (\<lambda>s. rule_policy s \<noteq> po_id q) (ad_rules db @ seeded_rows now (po_id q) ids specs) =
      filter (\<lambda>s. rule_policy s \<noteq> po_id q) (ad_rules db)" by simp
  have "distinct (map ids [0..<length specs])" using assms(3) by (simp add: distinct_map inj_on_def)
  moreover have "set (map rule_id (seeded_rows now (po_id q) ids specs)) \<subseteq> range ids" by (simp add: seeded_rows_ids del: set_map) auto
  ultimately show "distinct (map rule_id (ad_rules db @ seeded_rows now (po_id q) ids specs))"
    using assms(1,4) unfolding map_append distinct_append by (auto simp: well_kept_def seeded_rows_ids)
qed

lemma not_rejected: "(if b then (Inl e, d) else x) = (Inr r, d') \<Longrightarrow> x = (Inr r, d')"
  by (simp split: if_splits)

lemma rules_kept [simp]: "db\<lparr>ad_rules := ad_rules db\<rparr> = (db :: admin_db)"
  by (cases db) simp

lemma seed_policy_ok:
  fixes dash created pid db
  defines "specs \<equiv> missing_specs dash (if created then [] else filter (\<lambda>s. rule_policy s = pid) (ad_rules db))"
  assumes "seed_policy dash env ids pid created db = (Inr r, db')"
  shows "(\<exists>c. db' = snd (publishPolicyVersion env pid c None (db\<lparr>ad_rules := ad_rules db @ seeded_rows (ae_epoch env) pid ids specs\<rparr>))) \<and>
    r = \<lparr> er_policyId = pid, er_created = created, er_rulesInserted = length specs \<rparr>"
proof -
  define c where "c = Some (if created then ''Seeded default Agent Guardrails policy'' else ''Repaired default Agent Guardrails policy'')"
  define pub where "pub = publishPolicyVersion env pid c None (db\<lparr>ad_rules := ad_rules db @ seeded_rows (ae_epoch env) pid ids specs\<rparr>)"
  have "(case pub of (Inl e, db2) \<Rightarrow> (Inl e, db2)
      | (Inr _, db2) \<Rightarrow> (Inr \<lparr> er_policyId = pid, er_created = created, er_rulesInserted = length specs \<rparr>, db2)) = (Inr r, db')"
    using assms(2) unfolding seed_policy_alt specs_def [symmetric] c_def [symmetric] pub_def [symmetric] by (rule not_rejected)
  then have "db' = snd pub \<and> r = \<lparr> er_policyId = pid, er_created = created, er_rulesInserted = length specs \<rparr>"
    by (cases pub; cases "fst pub") auto
  then show ?thesis unfolding pub_def by blast
qed

text \<open>What one successful seeding leaves.\<close>

lemma seed_succeeds:
  assumes kept: "well_kept env db" and q: "q \<in> set (ad_policies db)"
    and ids: "inj ids" "range ids \<inter> rule_id ` set (ad_rules db) = {}"
    and new: "created \<longrightarrow> (\<forall>t \<in> set (ad_rules db). rule_policy t \<noteq> po_id q)"
    and ok: "seed_policy dash env ids (po_id q) created db = (Inr r, db')"
  defines "specs \<equiv> missing_specs dash (filter (\<lambda>s. rule_policy s = po_id q) (ad_rules db))"
  shows "well_kept env db'" and "ad_policies db' = ad_policies db" and "ad_projects db' = ad_projects db"
    and "ad_rules db' = ad_rules db @ seeded_rows (ae_epoch env) (po_id q) ids specs"
    and "r = \<lparr> er_policyId = po_id q, er_created = created, er_rulesInserted = length specs \<rparr>"
    and "snapshot_hash env' = snapshot_hash env \<Longrightarrow> \<exists>v. publishPolicyVersion env' (po_id q) c' u' db' = (Inr v, db')"
proof -
  let ?rows = "seeded_rows (ae_epoch env) (po_id q) ids specs"
  let ?db1 = "db\<lparr>ad_rules := ad_rules db @ ?rows\<rparr>"
  have own: "(if created then [] else filter (\<lambda>s. rule_policy s = po_id q) (ad_rules db)) = filter (\<lambda>s. rule_policy s = po_id q) (ad_rules db)"
    using new by (simp add: filter_empty_conv)
  from seed_policy_ok [OF ok] obtain c where db': "db' = snd (publishPolicyVersion env (po_id q) c None ?db1)"
    and r: "r = \<lparr> er_policyId = po_id q, er_created = created, er_rulesInserted = length specs \<rparr>"
    unfolding own specs_def [symmetric] by blast
  show "well_kept env db'" unfolding db' by (rule unpublished_gap [OF kept q ids])
  show "ad_policies db' = ad_policies db" "ad_rules db' = ad_rules db @ ?rows"
    by (simp_all add: db' publish_tables)
  show "ad_projects db' = ad_projects db"
    unfolding db' by (rule publish_cases [of ?db1 "po_id q" env c None]) (auto simp: new_version_def)
  show "r = \<lparr> er_policyId = po_id q, er_created = created, er_rulesInserted = length specs \<rparr>" by (rule r)
  show "\<exists>v. publishPolicyVersion env' (po_id q) c' u' db' = (Inr v, db')" if "snapshot_hash env' = snapshot_hash env"
    unfolding db' using kept q that by (intro publish_again) (simp_all add: well_kept_def)
qed

lemma nothing_missing:
  assumes "ad_rules db' = ad_rules db @ seeded_rows now pid ids (missing_specs dash (filter (\<lambda>s. rule_policy s = pid) (ad_rules db)))"
  shows "missing_specs dash (filter (\<lambda>s. rule_policy s = pid) (ad_rules db')) = []"
    and "\<forall>s \<in> set (DEFAULT_RULES dash). \<exists>t \<in> set (ad_rules db'). rule_policy t = pid \<and> row_identity t = spec_identity s"
proof -
  show present: "\<forall>s \<in> set (DEFAULT_RULES dash). \<exists>t \<in> set (ad_rules db'). rule_policy t = pid \<and> row_identity t = spec_identity s"
  proof
    fix s assume s: "s \<in> set (DEFAULT_RULES dash)"
    show "\<exists>t \<in> set (ad_rules db'). rule_policy t = pid \<and> row_identity t = spec_identity s"
    proof (cases "s \<in> set (missing_specs dash (filter (\<lambda>s. rule_policy s = pid) (ad_rules db)))")
      case True
      from seeded_rows_of [OF this] obtain i where
        "seeded_row now pid (ids i) s \<in> set (ad_rules db')" unfolding assms set_append by blast
      then show ?thesis by (rule rev_bexI) simp
    next
      case False
      with s show ?thesis by (auto simp: missing_specs_def assms)
    qed
  qed
  then show "missing_specs dash (filter (\<lambda>s. rule_policy s = pid) (ad_rules db')) = []"
    by (force simp: missing_specs_def filter_empty_conv)
qed

lemma ensure_succeeds:
  assumes kept: "well_kept env db" and mints: "mints_default env ids db"
    and ok: "ensureDefaultPolicy dash env ids projectId db = (Inr r, db')"
  obtains q where "q \<in> set (ad_policies db')" "po_id q = er_policyId r"
    "first_row (filter (\<lambda>p. po_projectId p = projectId \<and> fp_name p = ''__default__'') (ad_policies db')) = Some q"
    "well_kept env db'" "er_rulesInserted r = length (missing_specs dash (filter (\<lambda>s. rule_policy s = po_id q) (ad_rules db)))"
    "ad_rules db' = ad_rules db @ seeded_rows (ae_epoch env) (po_id q) ids
       (missing_specs dash (filter (\<lambda>s. rule_policy s = po_id q) (ad_rules db)))"
    "\<And>env' c u. snapshot_hash env' = snapshot_hash env \<Longrightarrow> \<exists>v. publishPolicyVersion env' (po_id q) c u db' = (Inr v, db')"
proof (cases "first_row (filter (\<lambda>p. po_projectId p = projectId \<and> fp_name p = ''__default__'') (ad_policies db))")
  case (Some q)
  note q = first_row_filter [OF Some]
  have seed: "seed_policy dash env ids (po_id q) False db = (Inr r, db')" using ok by (simp add: ensureDefaultPolicy_def Some)
  have m: "inj ids" "range ids \<inter> rule_id ` set (ad_rules db) = {}" using mints by (simp_all add: mints_default_def)
  have "False \<longrightarrow> (\<forall>t \<in> set (ad_rules db). rule_policy t \<noteq> po_id q)" by simp
  note f = seed_succeeds [OF kept q(1) m this seed]
  show ?thesis by (rule that [of q]) (use f q Some in simp_all)
next
  case None
  let ?q = "default_policy_row env projectId"
  let ?db1 = "db\<lparr>ad_policies := ad_policies db @ [?q]\<rparr>"
  have q: "po_id ?q = ae_policyId env" "fp_name ?q = ''__default__''" "po_projectId ?q = projectId"
    by (simp_all add: default_policy_row_def)
  have seed: "seed_policy dash env ids (po_id ?q) True ?db1 = (Inr r, db')"
    using ok by (simp add: ensureDefaultPolicy_def None q split: if_splits)
  have k1: "well_kept env ?db1" using kept mints q by (intro new_policy_keeps) (auto simp: mints_default_def)
  have m: "inj ids" "range ids \<inter> rule_id ` set (ad_rules ?db1) = {}" using mints by (simp_all add: mints_default_def)
  have "rule_policy t \<noteq> po_id ?q" if "t \<in> set (ad_rules db)" for t
    using kept mints that q(1) unfolding well_kept_def mints_default_def by metis
  then have "True \<longrightarrow> (\<forall>t \<in> set (ad_rules ?db1). rule_policy t \<noteq> po_id ?q)" by simp
  note f = seed_succeeds [OF k1 _ m this seed]
  have "first_row (filter (\<lambda>p. po_projectId p = projectId \<and> fp_name p = ''__default__'') (ad_policies db')) = Some ?q"
    using None f(2) q unfolding first_row_None by (simp add: first_row_def)
  then show ?thesis using f q by (intro that [of ?q]) simp_all
qed

text \<open>Running \<open>ensureDefaultPolicy\<close> again after it succeeded inserts nothing and leaves every table as it
  is.  The first run only appends rules to the default policy, leaves all 59 default rules present,
  and keeps the policy tables in order.\<close>

theorem default_repair_idempotent:
  assumes kept: "well_kept env db" and mints: "mints_default env ids db"
    and ok: "ensureDefaultPolicy dash env ids projectId db = (Inr r, db')"
    and same: "ae_numStr env' = ae_numStr env" "ae_sha256 env' = ae_sha256 env"
  shows "ensureDefaultPolicy dash env' ids' projectId db' =
           (Inr \<lparr> er_policyId = er_policyId r, er_created = False, er_rulesInserted = 0 \<rparr>, db') \<and>
         (\<exists>rows. ad_rules db' = ad_rules db @ rows \<and> length rows = er_rulesInserted r \<and>
            (\<forall>t \<in> set rows. rule_policy t = er_policyId r)) \<and>
         (\<forall>s \<in> set (DEFAULT_RULES dash). \<exists>t \<in> set (ad_rules db').
            rule_policy t = er_policyId r \<and> row_identity t = spec_identity s) \<and>
         length (DEFAULT_RULES dash) = 59 \<and> well_kept env db'"
proof (rule ensure_succeeds [OF kept mints ok])
  fix q :: full_policy
  let ?specs = "missing_specs dash (filter (\<lambda>s. rule_policy s = po_id q) (ad_rules db))"
  assume q: "q \<in> set (ad_policies db')" "po_id q = er_policyId r"
    and first: "first_row (filter (\<lambda>p. po_projectId p = projectId \<and> fp_name p = ''__default__'') (ad_policies db')) = Some q"
    and kept': "well_kept env db'" and n: "er_rulesInserted r = length ?specs"
    and rules: "ad_rules db' = ad_rules db @ seeded_rows (ae_epoch env) (po_id q) ids ?specs"
    and again: "\<And>env' c u. snapshot_hash env' = snapshot_hash env \<Longrightarrow> \<exists>v. publishPolicyVersion env' (po_id q) c u db' = (Inr v, db')"
  have "snapshot_hash env' = snapshot_hash env" by (simp add: fun_eq_iff snapshot_hash_def same)
  from again [OF this] obtain v where
    "publishPolicyVersion env' (po_id q) (Some ''Repaired default Agent Guardrails policy'') None db' = (Inr v, db')" by blast
  then have "seed_policy dash env' ids' (po_id q) False db' =
      (Inr \<lparr> er_policyId = po_id q, er_created = False, er_rulesInserted = 0 \<rparr>, db')"
    unfolding seed_policy_alt if_False nothing_missing(1) [OF rules] seeded_rows_Nil append_Nil2 rules_kept by simp
  then have again: "ensureDefaultPolicy dash env' ids' projectId db' =
      (Inr \<lparr> er_policyId = er_policyId r, er_created = False, er_rulesInserted = 0 \<rparr>, db')"
    by (simp add: ensureDefaultPolicy_def first q(2))
  have "length (seeded_rows (ae_epoch env) (po_id q) ids ?specs) = er_rulesInserted r" by (simp add: n seeded_rows_def)
  moreover have "\<forall>t \<in> set (seeded_rows (ae_epoch env) (po_id q) ids ?specs). rule_policy t = er_policyId r"
    by (auto simp: q(2) dest: seeded_rows_elem)
  ultimately have "\<exists>rows. ad_rules db' = ad_rules db @ rows \<and> length rows = er_rulesInserted r \<and>
      (\<forall>t \<in> set rows. rule_policy t = er_policyId r)" using rules by blast
  with again nothing_missing(2) [OF rules, unfolded q(2)] default_count kept' show ?thesis by blast
qed

section \<open>What a new project is guarded against\<close>

text \<open>The columns of the table that decide.\<close>

definition spec_view :: "default_spec \<Rightarrow> int \<times> string \<times> string option \<times> policy_decision" where
  "spec_view s = (ds_priority s, ds_matchToolName s, ds_matchPathGlob s, ds_decision s)"

definition default_table :: "(int \<times> string \<times> string option \<times> policy_decision) list" where
  "default_table =
     [(10, ''Write'', Some ''.env'', Deny), (11, ''Write'', Some ''**/.env'', Deny), (20, ''Write'', Some ''.git/**'', Ask),
      (12, ''Write'', Some ''**/.git/**'', Ask), (30, ''Write'', Some ''node_modules/**'', Ask),
      (13, ''Write'', Some ''**/node_modules/**'', Ask),
      (40, ''Edit'', Some ''.env'', Deny), (41, ''Edit'', Some ''**/.env'', Deny), (50, ''Edit'', Some ''.git/**'', Ask),
      (42, ''Edit'', Some ''**/.git/**'', Ask), (60, ''Edit'', Some ''node_modules/**'', Ask),
      (43, ''Edit'', Some ''**/node_modules/**'', Ask),
      (80, ''MultiEdit'', Some ''.env'', Deny), (81, ''MultiEdit'', Some ''**/.env'', Deny),
      (82, ''MultiEdit'', Some ''.git/**'', Ask), (83, ''MultiEdit'', Some ''**/.git/**'', Ask),
      (84, ''MultiEdit'', Some ''node_modules/**'', Ask), (85, ''MultiEdit'', Some ''**/node_modules/**'', Ask),
      (90, ''NotebookEdit'', Some ''.env'', Deny), (91, ''NotebookEdit'', Some ''**/.env'', Deny),
      (92, ''NotebookEdit'', Some ''.git/**'', Ask), (93, ''NotebookEdit'', Some ''**/.git/**'', Ask),
      (94, ''NotebookEdit'', Some ''node_modules/**'', Ask), (95, ''NotebookEdit'', Some ''**/node_modules/**'', Ask),
      (96, ''Read'', Some ''.env'', Deny), (97, ''Read'', Some ''**/.env'', Deny),
      (70, ''Bash'', None, Ask), (71, ''Bash'', None, Ask), (72, ''Bash'', None, Ask), (73, ''Bash'', None, Ask), (74, ''Bash'', None, Ask)] @
     map (\<lambda>(n, t, g). (110 + int n, t, Some g, Deny)) (enumerate 0 (List.product FILE_TOOLS SELF_PROTECTION_GLOBS))"

lemma default_view: "map spec_view (DEFAULT_RULES dash) = default_table"
  by (simp add: default_table_def default_table_defs spec_view_def Let_def)

lemma insort_key_map_comp: "insort_key k (f x) (map f xs) = map f (insort_key (\<lambda>y. k (f y)) x xs)"
  by (induction xs) simp_all

lemma sort_key_map_comp: "sort_key k (map f xs) = map f (sort_key (\<lambda>y. k (f y)) xs)"
  by (induction xs) (simp_all add: insort_key_map_comp)

lemma find_map_comp: "List.find P (map f xs) = map_option f (List.find (\<lambda>x. P (f x)) xs)"
  by (induction xs) simp_all

lemma find_filtered: "List.find (\<lambda>x. P x \<and> Q x) xs = List.find Q (filter P xs)"
  by (induction xs) auto

text \<open>The decision for one tool, over the table in priority order.\<close>

definition table_decision :: "(string \<Rightarrow> bool) \<Rightarrow> string \<Rightarrow> string \<Rightarrow> policy_decision option" where
  "table_decision hit dash tool =
     map_option ds_decision (List.find (\<lambda>s. ds_matchToolName s = tool \<and> hit (nullish (ds_matchPathGlob s) []))
       (sort_key ds_priority (DEFAULT_RULES dash)))"

definition tool_rows :: "string \<Rightarrow> (int \<times> string \<times> string option \<times> policy_decision) list" where
  "tool_rows tool = sort_key fst (filter (\<lambda>(_, t, _). t = tool) default_table)"

definition view_glob :: "int \<times> string \<times> string option \<times> policy_decision \<Rightarrow> string" where
  "view_glob v = nullish (fst (snd (snd v))) []"

definition view_decision :: "int \<times> string \<times> string option \<times> policy_decision \<Rightarrow> policy_decision" where
  "view_decision v = snd (snd (snd v))"

lemma table_decision_view:
  "table_decision hit dash tool = map_option view_decision (List.find (\<lambda>v. hit (view_glob v)) (tool_rows tool))"
  unfolding tool_rows_def default_view [of dash, symmetric]
  by (simp add: table_decision_def find_filtered filter_sort filter_map sort_key_map_comp find_map_comp
      comp_def spec_view_def view_glob_def view_decision_def option.map_comp case_prod_unfold)

lemma find_block:
  "list_all (\<lambda>x. f x = D) xs \<Longrightarrow>
   map_option f (List.find P (xs @ ys)) = (if \<exists>x \<in> set xs. P x then Some D else map_option f (List.find P ys))"
  by (induction xs) (simp_all del: map_option_eq_Some)

text \<open>In priority order, each file tool has its denials, its questions and its self-protection in this order.\<close>

definition tool_blocks_ok :: "string \<Rightarrow> bool" where
  "tool_blocks_ok tool \<longleftrightarrow>
     (let r = tool_rows tool; a = take 2 r; m = take 4 (drop 2 r); z = drop 6 r in
      r = a @ m @ z \<and>
      list_all (\<lambda>x. view_decision x = Deny) a \<and> list_all (\<lambda>x. view_decision x = Ask) m \<and> list_all (\<lambda>x. view_decision x = Deny) z \<and>
      map view_glob a = [''.env'', ''**/.env''] \<and> map view_glob z = SELF_PROTECTION_GLOBS \<and>
      list_all (\<lambda>g. g \<in> set (map fst (HYGIENE_ASK_REASONS []))) (map view_glob m) \<and>
      list_all (\<lambda>g. g \<in> set (map view_glob m)) (map fst (HYGIENE_ASK_REASONS [])))"

lemma tool_blocks: "list_all tool_blocks_ok FILE_TOOLS"
  by code_simp

lemma blocks_of:
  assumes "tool \<in> set FILE_TOOLS"
  obtains a m z where "tool_rows tool = a @ m @ z"
    "list_all (\<lambda>x. view_decision x = Deny) a" "list_all (\<lambda>x. view_decision x = Ask) m" "list_all (\<lambda>x. view_decision x = Deny) z"
    "map view_glob a = [''.env'', ''**/.env'']" "map view_glob z = SELF_PROTECTION_GLOBS"
    "set (map view_glob m) = set (map fst (HYGIENE_ASK_REASONS []))"
proof -
  have "tool_blocks_ok tool" using assms tool_blocks by (auto simp only: list_all_iff)
  then show ?thesis
    unfolding tool_blocks_ok_def Let_def list_all_iff [of _ "map fst _"] list_all_iff [of _ "map view_glob _"]
    by (elim conjE) (rule that; (assumption | blast))
qed

lemma file_tool_decision:
  assumes "tool \<in> set FILE_TOOLS"
  shows "table_decision hit dash tool =
    (if hit ''.env'' \<or> hit ''**/.env'' then Some Deny
     else if \<exists>g \<in> set (map fst (HYGIENE_ASK_REASONS dash)). hit g then Some Ask
     else if \<exists>g \<in> set SELF_PROTECTION_GLOBS. hit g then Some Deny else None)"
proof (rule blocks_of [OF assms])
  fix a m z
  assume rows: "tool_rows tool = a @ m @ z"
    and d: "list_all (\<lambda>x. view_decision x = Deny) a" "list_all (\<lambda>x. view_decision x = Ask) m" "list_all (\<lambda>x. view_decision x = Deny) z"
    and globs: "map view_glob a = [''.env'', ''**/.env'']" "map view_glob z = SELF_PROTECTION_GLOBS"
      "set (map view_glob m) = set (map fst (HYGIENE_ASK_REASONS []))"
  have some: "(\<exists>x \<in> set l. hit (view_glob x)) \<longleftrightarrow> (\<exists>g \<in> set (map view_glob l). hit g)" for l by simp
  have "set (map fst (HYGIENE_ASK_REASONS [])) = set (map fst (HYGIENE_ASK_REASONS dash))" by (simp add: HYGIENE_ASK_REASONS_def)
  then have m: "(\<exists>x \<in> set m. hit (view_glob x)) \<longleftrightarrow> (\<exists>g \<in> set (map fst (HYGIENE_ASK_REASONS dash)). hit g)"
    by (simp only: some globs)
  have a: "(\<exists>x \<in> set a. hit (view_glob x)) \<longleftrightarrow> hit ''.env'' \<or> hit ''**/.env''" unfolding some globs by simp
  have z: "(\<exists>x \<in> set z. hit (view_glob x)) \<longleftrightarrow> (\<exists>g \<in> set SELF_PROTECTION_GLOBS. hit g)" unfolding some globs ..
  show ?thesis
    using find_block [OF d(3), of _ "[]"] unfolding a [symmetric] m [symmetric] z [symmetric]
    by (simp add: table_decision_view rows find_block [OF d(1)] find_block [OF d(2)] del: map_option_eq_Some)
qed

text \<open>A default rule as the client compiles it.\<close>

lemma default_spec_shape:
  assumes "s \<in> set (DEFAULT_RULES dash)"
  shows "ds_matchEventType s = ''PreToolUse''" and "ds_matchAgentType s = ''*''" and "CHR ''*'' \<notin> set (ds_matchToolName s)"
    and "ds_matchPathGlob s \<noteq> Some []" and "ds_decision s \<noteq> Allow"
    and "ds_matchToolName s \<in> set FILE_TOOLS \<Longrightarrow> ds_matchCommandPattern s = None \<and> ds_matchPathGlob s \<noteq> None"
proof -
  have "list_all (\<lambda>s. ds_matchEventType s = ''PreToolUse'' \<and> ds_matchAgentType s = ''*'' \<and>
      CHR ''*'' \<notin> set (ds_matchToolName s) \<and> ds_matchPathGlob s \<noteq> Some [] \<and> ds_decision s \<noteq> Allow \<and>
      (ds_matchToolName s \<in> set FILE_TOOLS \<longrightarrow> ds_matchCommandPattern s = None \<and> ds_matchPathGlob s \<noteq> None)) (DEFAULT_RULES dash)"
    by (simp add: default_table_defs Let_def)
  with assms show "ds_matchEventType s = ''PreToolUse''" "ds_matchAgentType s = ''*''" "CHR ''*'' \<notin> set (ds_matchToolName s)"
    "ds_matchPathGlob s \<noteq> Some []" "ds_decision s \<noteq> Allow"
    "ds_matchToolName s \<in> set FILE_TOOLS \<Longrightarrow> ds_matchCommandPattern s = None \<and> ds_matchPathGlob s \<noteq> None"
    by (auto simp: list_all_iff)
qed

definition joined_row :: "string option \<Rightarrow> full_policy \<Rightarrow> full_rule \<Rightarrow> rule_row" where
  "joined_row v q t = (sr_row t)\<lparr>rr_policyVersionId := v, rr_policyEnforcementMode := po_enforcementMode q,
     rr_policyDenyOnPolicyError := po_denyOnPolicyError q\<rparr>"

lemma joined_row_priority [simp]: "rr_priority (joined_row v q t) = rr_priority (sr_row t)"
  by (simp add: joined_row_def)

lemma default_compiled:
  assumes s: "s \<in> set (DEFAULT_RULES dash)" and i: "pi_phase i = Pre" "pi_toolName i \<in> set FILE_TOOLS"
  shows "applies_to pm i (stamp_version pm (joined_row v q (seeded_row now pid k s))) \<longleftrightarrow>
      ds_matchToolName s = pi_toolName i \<and> extractPath (pi_input i) \<noteq> [] \<and>
      pm (nullish (ds_matchPathGlob s) []) False (extractPath (pi_input i))"
    and "effectiveDecisionForRule (stamp_version pm (joined_row v q (seeded_row now pid k s))) = ds_decision s"
proof -
  let ?r = "stamp_version pm (joined_row v q (seeded_row now pid k s))"
  note shape = default_spec_shape [OF s]
  note fields = stamp_version_def compileRule_def joined_row_def seeded_row_def bare_rule_def Let_def
  have r: "cr_requiredCapability ?r = None" "cr_excludedCapability ?r = None" "cr_matchEventType ?r = ds_matchEventType s"
    "cr_matchToolName ?r = ds_matchToolName s" "cr_matchAgentType ?r = Some (ds_matchAgentType s)"
    "cr_matchPath ?r = (case ds_matchPathGlob s of None \<Rightarrow> None | Some g \<Rightarrow> if g = [] then None else Some (pm g False))"
    "cr_matchCommand ?r = (case ds_matchCommandPattern s of None \<Rightarrow> None | Some g \<Rightarrow> if g = [] then None else Some (pm g True))"
    "cr_enforcementMode ?r = legacyEnforcementModeForDecision (kind_text (ds_decision s))"
    "cr_enforcementDecision ?r = normalizePolicyDecision (kind_text (ds_decision s))"
    by (simp_all only: fields rule_row.simps compiled_rule.simps stored_rule.simps full_rule.simps normalizeCapability_def
        option.simps nullish_simps HOL.simp_thms if_False)
  show "effectiveDecisionForRule ?r = ds_decision s"
    using shape(5) by (cases "ds_decision s")
      (simp_all add: effectiveDecisionForRule_def r legacyEnforcementModeForDecision_def normalizePolicyDecision_def)
  have "cr_enforcementMode ?r \<noteq> Disabled" by (simp add: r legacyEnforcementModeForDecision_def)
  moreover have "toolNameMatches pm ?r t \<longleftrightarrow> ds_matchToolName s = t" for t
    using shape(3) by (auto simp: toolNameMatches_def r)
  ultimately show "applies_to pm i ?r \<longleftrightarrow> ds_matchToolName s = pi_toolName i \<and> extractPath (pi_input i) \<noteq> [] \<and>
      pm (nullish (ds_matchPathGlob s) []) False (extractPath (pi_input i))"
    using i shape(1,2,4,6)
    by (cases "ds_matchToolName s = pi_toolName i"; cases "ds_matchPathGlob s") (auto simp: applies_to_def rule_applies_def r)
qed

text \<open>The search over the sorted join is the search over the sorted table.\<close>

lemma seeded_decision:
  fixes pm v q pid ids now
  defines "F \<equiv> \<lambda>t. joined_row v q t"
  assumes i: "pi_phase i = Pre" "pi_toolName i \<in> set FILE_TOOLS"
  shows "map_option effectiveDecisionForRule (evaluateRules pm
      (map (stamp_version pm) (order_by rr_priority (map F (seeded_rows now pid ids (DEFAULT_RULES dash))))) i) =
    table_decision (\<lambda>g. extractPath (pi_input i) \<noteq> [] \<and> pm g False (extractPath (pi_input i))) dash (pi_toolName i)"
proof -
  define hit where "hit = (\<lambda>s :: default_spec. ds_matchToolName s = pi_toolName i \<and> extractPath (pi_input i) \<noteq> [] \<and>
      pm (nullish (ds_matchPathGlob s) []) False (extractPath (pi_input i)))"
  define C where "C = (\<lambda>x. stamp_version pm (F (seeded_row now pid (ids (fst x)) (snd x))))"
  define xs where "xs = sort_key (\<lambda>x. ds_priority (snd x)) (enumerate 0 (DEFAULT_RULES dash))"
  have sorted: "map (stamp_version pm) (order_by rr_priority (map F (seeded_rows now pid ids (DEFAULT_RULES dash)))) = map C xs"
    by (simp add: order_by_def seeded_rows_def sort_key_map_comp C_def xs_def F_def case_prod_unfold comp_def)
  have table: "map snd xs = sort_key ds_priority (DEFAULT_RULES dash)"
    unfolding xs_def by (simp add: sort_key_map_comp [symmetric])
  have in_table: "snd x \<in> set (DEFAULT_RULES dash)" if "x \<in> set xs" for x
    using that by (auto simp: xs_def in_set_enumerate_eq) (metis nth_mem)
  have "map_option effectiveDecisionForRule (List.find (applies_to pm i) (map C ys)) =
      map_option ds_decision (List.find hit (map snd ys))" if "set ys \<subseteq> set xs" for ys
    using that
  proof (induction ys)
    case (Cons y ys)
    then have "snd y \<in> set (DEFAULT_RULES dash)" using in_table by simp
    from default_compiled [OF this i] Cons show ?case by (simp add: C_def F_def hit_def del: map_option_eq_Some)
  qed simp
  from this [of xs] show ?thesis
    unfolding evaluateRules_find sorted table_decision_def table hit_def by simp
qed

lemma fresh_seed:
  assumes kept: "well_kept env db" and mints: "mints_default env ids db" and known: "projectId \<in> set (ad_projects db)"
    and none: "\<forall>q \<in> set (ad_policies db). po_projectId q \<noteq> projectId"
  obtains row db' where "ensureDefaultPolicy dash env ids projectId db =
      (Inr \<lparr> er_policyId = ae_policyId env, er_created = True, er_rulesInserted = 59 \<rparr>, db')"
    "ad_policies db' = ad_policies db @ [default_policy_row env projectId]"
    "ad_rules db' = ad_rules db @ seeded_rows (ae_epoch env) (ae_policyId env) ids (DEFAULT_RULES dash)"
    "filter (\<lambda>v. pv_policyId v = ae_policyId env \<and> pv_status v = ''active'') (ad_versions db') = [row]"
proof -
  let ?q = "default_policy_row env projectId" and ?pid = "ae_policyId env"
  let ?db1 = "db\<lparr>ad_policies := ad_policies db @ [?q]\<rparr>"
  let ?db2 = "?db1\<lparr>ad_rules := ad_rules db @ seeded_rows (ae_epoch env) ?pid ids (DEFAULT_RULES dash)\<rparr>"
  have q: "po_id ?q = ?pid" "fp_name ?q = ''__default__''" by (simp_all add: default_policy_row_def)
  have k1: "well_kept env ?db1" using kept mints q by (intro new_policy_keeps) (auto simp: mints_default_def)
  then have ids2: "ids_ok (ad_policies ?db2)" by (simp add: well_kept_def)
  have apart: "rule_policy t \<noteq> ?pid" if "t \<in> set (ad_rules db)" for t
    using kept mints that unfolding well_kept_def mints_default_def by metis
  have unseen: "filter (\<lambda>v. pv_policyId v = ?pid) (ad_versions db) = []"
    using kept mints unfolding well_kept_def mints_default_def filter_empty_conv by metis
  have first: "first_row (filter (\<lambda>p. po_projectId p = projectId \<and> fp_name p = ''__default__'') (ad_policies db)) = None"
    using none by (simp add: first_row_None filter_empty_conv)
  have all: "missing_specs dash [] = DEFAULT_RULES dash" by (simp add: missing_specs_def)
  have clash: "\<not> (\<exists>r \<in> set (seeded_rows (ae_epoch env) ?pid ids (DEFAULT_RULES dash)). \<exists>s \<in> set (ad_rules db). rule_clash r s)"
    using apart by (fastforce simp: rule_clash_def Let_def rule_policy_def [symmetric] dest: seeded_rows_elem)
  obtain row db' where pub: "publishPolicyVersion env ?pid (Some ''Seeded default Agent Guardrails policy'') None ?db2 = (Inr row, db')"
    and n: "new_version env ?q (rules_of ?db2 ?pid) row ?db2 db'"
    by (rule publish_by_id [OF ids2, of ?q env "Some ''Seeded default Agent Guardrails policy''" None])
      (use unseen q in \<open>simp_all add: listPolicyVersions_def first_row_def order_by_desc_def\<close>)
  have "ensureDefaultPolicy dash env ids projectId db =
      (Inr \<lparr> er_policyId = ?pid, er_created = True, er_rulesInserted = 59 \<rparr>, db')"
    using known pub clash by (simp add: ensureDefaultPolicy_def first seed_policy_alt all default_count)
  moreover have "filter (\<lambda>v. pv_policyId v = ?pid \<and> pv_status v = ''active'') (map (retire ?pid t) (ad_versions db) @ [row]) = [row]" for t
    using n q(1) by (auto simp: new_version_def filter_empty_conv retire_def)
  ultimately show ?thesis using n q(1) by (intro that [of db' row]) (auto simp: new_version_def)
qed

text \<open>C17: On a project without policies \<open>ensureDefaultPolicy\<close> succeeds with 59 rules, and from then on the
  policy engine decides a file-mutating tool call by its path alone: denied on a \<open>.env\<close> glob, otherwise
  asked about on a \<open>.git\<close> or \<open>node_modules\<close> glob, otherwise denied on a control-file glob, otherwise left
  to the default.\<close>

theorem fresh_project_guarded:
  fixes pm :: glob_matcher
  assumes kept: "well_kept env db" and mints: "mints_default env ids db" and known: "projectId \<in> set (ad_projects db)"
    and none: "\<forall>q \<in> set (ad_policies db). po_projectId q \<noteq> projectId"
    and i: "pi_phase i = Pre" "pi_toolName i \<in> set FILE_TOOLS"
  defines "hit \<equiv> \<lambda>g. extractPath (pi_input i) \<noteq> [] \<and> pm g False (extractPath (pi_input i))"
  shows "\<exists>db'. ensureDefaultPolicy dash env ids projectId db =
      (Inr \<lparr> er_policyId = ae_policyId env, er_created = True, er_rulesInserted = 59 \<rparr>, db') \<and>
    map_option effectiveDecisionForRule
      (evaluateRules pm (ls_rules (loadPolicyState pm jp (client_db db') (Some projectId))) i) =
      (if hit ''.env'' \<or> hit ''**/.env'' then Some Deny
       else if \<exists>g \<in> set (map fst (HYGIENE_ASK_REASONS dash)). hit g then Some Ask
       else if \<exists>g \<in> set SELF_PROTECTION_GLOBS. hit g then Some Deny
       else None)"
proof (rule fresh_seed [OF kept mints known none])
  fix row db'
  let ?q = "default_policy_row env projectId" and ?pid = "ae_policyId env"
  let ?rows = "seeded_rows (ae_epoch env) ?pid ids (DEFAULT_RULES dash)"
  assume ok: "ensureDefaultPolicy dash env ids projectId db =
      (Inr \<lparr> er_policyId = ?pid, er_created = True, er_rulesInserted = 59 \<rparr>, db')"
    and policies: "ad_policies db' = ad_policies db @ [?q]" and rules: "ad_rules db' = ad_rules db @ ?rows"
    and active: "filter (\<lambda>v. pv_policyId v = ?pid \<and> pv_status v = ''active'') (ad_versions db') = [row]"
  let ?d = "client_db db'"
  have relevant: "relevant ?d (Some projectId) = [policy_row.truncate ?q]"
    using none policies by (simp add: relevant_def in_project_def filter_empty_conv default_policy_row_def)
  have versions: "active_versions ?d ?pid = [Some (pv_id row)]" by (simp add: client_active_versions active)
  have q: "po_id ?q = ?pid" "po_isActive ?q" by (simp_all add: default_policy_row_def)
  have apart: "rule_policy t \<noteq> ?pid" if "t \<in> set (ad_rules db)" for t
    using kept mints that unfolding well_kept_def mints_default_def by metis
  have other: "joined_with ?d [policy_row.truncate ?q] (stored_rule.truncate t) = []" if "t \<in> set (ad_rules db)" for t
    using apart [OF that] q by (simp add: joined_with_def rule_policy_def)
  have own: "joined_with ?d [policy_row.truncate ?q] (stored_rule.truncate t) = [joined_row (Some (pv_id row)) ?q t]"
    if "t \<in> set ?rows" for t
  proof -
    have "rr_policyId (sr_row t) = ?pid" using that by (auto simp: rule_policy_def [symmetric] dest: seeded_rows_elem)
    with q versions show ?thesis by (simp add: joined_with_def joined_row_def policy_row.defs)
  qed
  have "joined_rules ?d (Some projectId) =
      concat (map (\<lambda>t. joined_with ?d [policy_row.truncate ?q] (stored_rule.truncate t)) (ad_rules db @ ?rows))"
    by (simp add: joined_rules_with relevant rules comp_def)
  also have "\<dots> = map (joined_row (Some (pv_id row)) ?q) ?rows"
    using other own by (simp cong: map_cong)
  finally have joined: "joined_rules ?d (Some projectId) = map (joined_row (Some (pv_id row)) ?q) ?rows" .
  show ?thesis
    using ok seeded_decision [OF i, of pm "Some (pv_id row)" ?q "ae_epoch env" ?pid ids dash]
      file_tool_decision [OF i(2), of hit dash]
    by (auto simp: loaded_rules joined hit_def)
qed

section \<open>Where the repair fails\<close>

text \<open>The repair compares five columns, the unique index four.  Once an operator gives a default rule a
  command pattern of its own, every repair of that project fails on the index and changes nothing: the
  baseline rules it lacks are not added any more.\<close>

theorem edited_default_breaks_repair:
  assumes p: "first_row (filter (\<lambda>p. po_projectId p = projectId \<and> fp_name p = ''__default__'') (ad_policies db)) = Some p"
    and s: "s \<in> set (DEFAULT_RULES dash)" and t: "t \<in> set (ad_rules db)" "rule_policy t = po_id p"
    and same: "rr_priority (sr_row t) = ds_priority s" "rr_matchEventType (sr_row t) = ds_matchEventType s"
      "rr_matchToolName (sr_row t) = ds_matchToolName s" "rr_matchPathGlob (sr_row t) = ds_matchPathGlob s"
      "ds_matchPathGlob s \<noteq> None"
    and edited: "\<forall>u \<in> set (ad_rules db). rule_policy u = po_id p \<longrightarrow> row_identity u \<noteq> spec_identity s"
  shows "ensureDefaultPolicy dash env ids projectId db = (Inl UniqueFailed, db)"
proof -
  have "s \<in> set (missing_specs dash (filter (\<lambda>s. rule_policy s = po_id p) (ad_rules db)))"
    using s edited by (auto simp: missing_specs_def)
  from seeded_rows_of [OF this] obtain k where
    k: "seeded_row (ae_epoch env) (po_id p) (ids k) s \<in> set (seeded_rows (ae_epoch env) (po_id p) ids
      (missing_specs dash (filter (\<lambda>s. rule_policy s = po_id p) (ad_rules db))))" by blast
  have "rule_clash (seeded_row (ae_epoch env) (po_id p) (ids k) s) t"
    using t(2) same by (simp add: rule_clash_def Let_def seeded_row_def bare_rule_def rule_policy_def)
  with k t(1) have "seed_policy dash env ids (po_id p) False db = (Inl UniqueFailed, db)"
    unfolding seed_policy_alt if_False by (meson if_P)
  then show ?thesis by (simp add: ensureDefaultPolicy_def p)
qed

section \<open>Witnesses\<close>

definition sample_ids :: "nat \<Rightarrow> string" where
  "sample_ids n = CHR ''r'' # nat_digits n"

lemma sample_mints_default: "mints_default (sample_admin_env 5) sample_ids empty_admin_db"
  by (auto simp: mints_default_def sample_admin_env_def empty_admin_db_def sample_ids_def inj_on_def nat_digits_inj)

definition seeded_db :: "string \<Rightarrow> admin_db" where
  "seeded_db dash = snd (ensureDefaultPolicy dash (sample_admin_env 5) sample_ids ''proj'' empty_admin_db)"

definition sample_write :: policy_input where
  "sample_write = \<lparr> pi_toolName = ''Write'', pi_sessionId = ''s'', pi_input = JObj [(''file_path'', JStr ''AGENTS.md'')],
     pi_phase = Pre, pi_activeCapabilities = None, pi_projectId = Some ''proj'' \<rparr>"

lemma sample_write_fields:
  "extractPath (pi_input sample_write) = ''AGENTS.md''" "pi_phase sample_write = Pre" "pi_toolName sample_write = ''Write''"
  "ae_policyId (sample_admin_env 5) = ''p1''"
  by (code_simp, simp_all add: sample_write_def sample_admin_env_def)

lemma empty_projects: "ad_projects empty_admin_db = [''proj'']" "ad_policies empty_admin_db = []"
  by (simp_all add: empty_admin_db_def)

lemma fresh_project_guarded_witness:
  "\<exists>db'. ensureDefaultPolicy [] (sample_admin_env 5) sample_ids ''proj'' empty_admin_db =
      (Inr \<lparr> er_policyId = ''p1'', er_created = True, er_rulesInserted = 59 \<rparr>, db') \<and>
    map_option effectiveDecisionForRule
      (evaluateRules (\<lambda>g _ s. g = s) (ls_rules (loadPolicyState (\<lambda>g _ s. g = s) (\<lambda>_. None) (client_db db') (Some ''proj''))) sample_write) =
      Some Deny"
  using fresh_project_guarded [OF empty_well_kept sample_mints_default, where projectId = "''proj''" and i = sample_write
      and pm = "\<lambda>g _ s. g = s" and dash = "[]" and jp = "\<lambda>_. None"]
  by (simp add: sample_write_fields empty_projects FILE_TOOLS_def SELF_PROTECTION_GLOBS_def HYGIENE_ASK_REASONS_def
      del: map_option_eq_Some)

definition edited_default_db :: admin_db where
  "edited_default_db = empty_admin_db
     \<lparr>ad_policies := [default_policy_row (sample_admin_env 5) ''proj''],
      ad_rules := [(seeded_row 5 ''p1'' ''r0'' (pre_tool_rule 10 ''Write'' (Some ''.env'') Deny []))
        \<lparr>sr_row := (sr_row (seeded_row 5 ''p1'' ''r0'' (pre_tool_rule 10 ''Write'' (Some ''.env'') Deny [])))
           \<lparr>rr_matchCommandPattern := Some ''cp*''\<rparr>\<rparr>]\<rparr>"

end
