(* ===== verification/Project_Registry.thy ===== *)
theory Project_Registry
  imports Default_Policy Outbox
begin

text \<open>
  The projects table and the one path that creates projects: \<open>packages/db/src/ensure-project.ts\<close> with
  the lookups of \<open>lookup-project.ts\<close> (SQLite branches).  A project that is born is given the default
  policy, and in team mode a job that carries it to the cloud.

  \<open>ensureProject\<close> is a call with no other in between, but for a row another process inserts after the lookup of
  a new project.  The updates of an existing row come after an await and name it by its id alone: calls that
  interleave there are the step relation \<open>ensure_step\<close>.
\<close>

section \<open>Table\<close>

record project =
  pj_id :: string
  pj_slug :: string
  pj_orgId :: string
  pj_name :: string
  pj_cwd :: "string option"
  pj_updatedAt :: int

definition GLOBAL_ORG_ID :: string where
  "GLOBAL_ORG_ID = ''__global__''"

definition isLocalOnlyOrg :: "string option \<Rightarrow> bool" where
  "isLocalOnlyOrg orgId = (orgId = Some SOLO_ORG_ID \<or> orgId = Some GLOBAL_ORG_ID \<or> orgId = None \<or> orgId = Some [])"

text \<open>The tables a call reads or writes; a feature is its id and its project's.\<close>

record registry =
  rg_projects :: "project list"
  rg_features :: "(string \<times> string) list"
  rg_policy :: admin_db
  rg_jobs :: "job list"

record ensure_args =
  ea_slug :: string
  ea_name :: "string option"
  ea_orgId :: "string option"
  ea_cwd :: "string option"
  ea_idOverride :: "string option"

datatype ensure_error = OrgMismatch string string | ProjectIdTaken

record ensured =
  es_id :: string
  es_created :: bool
  es_cwdBackfilled :: bool
  es_promotedFrom :: "string option"

text \<open>
  What a call gets from outside: the clock, the minted id, the row another process inserts between the
  lookup and the insert, and for the k-th enqueue of the call its id, its time and whether it throws.
\<close>

record ensure_env =
  ee_now :: int
  ee_uuid :: string
  ee_rival :: "project option"
  ee_team :: bool
  ee_jobId :: "nat \<Rightarrow> string"
  ee_jobNow :: "nat \<Rightarrow> int"
  ee_jobThrows :: "nat \<Rightarrow> bool"
  ee_stringify :: "js \<Rightarrow> string"
  ee_dash :: string
  ee_admin :: admin_env
  ee_ruleIds :: "nat \<Rightarrow> string"

section \<open>Operations\<close>

definition lookupProjectBySlug :: "project list \<Rightarrow> string \<Rightarrow> project option" where
  "lookupProjectBySlug t slug = first_row (filter (\<lambda>p. pj_slug p = slug) t)"

definition lookupProjectById :: "project list \<Rightarrow> string \<Rightarrow> project option" where
  "lookupProjectById t i = first_row (filter (\<lambda>p. pj_id p = i) t)"

text \<open>\<open>UPDATE projects SET ... WHERE id = ?\<close>\<close>

definition update_project :: "string \<Rightarrow> (project \<Rightarrow> project) \<Rightarrow> project list \<Rightarrow> project list" where
  "update_project i f t = map (\<lambda>p. if pj_id p = i then f p else p) t"

text \<open>The conflict target is the slug; an id that is taken under another slug violates the primary key.\<close>

definition insertProject :: "project \<Rightarrow> project list \<Rightarrow> project list \<times> bool" where
  "insertProject = insert_or_ignore pj_slug"

interpretation projects: keyed_table pj_slug insertProject
  unfolding insertProject_def by (rule insert_or_ignore_keyed)

definition sync_payload :: "string \<Rightarrow> string \<Rightarrow> js" where
  "sync_payload table i =
     JObj [(''v'', JNum 1), (''table'', JStr table), (''lookup'', sync_lookup_json (ById i))]"

definition enqueue_sync :: "ensure_env \<Rightarrow> nat \<Rightarrow> string \<Rightarrow> string \<Rightarrow> job list \<Rightarrow> job list option" where
  "enqueue_sync env k table i jobs =
     (if ee_jobThrows env k then None
      else case scheduleDurableWrite (ee_stringify env) (ee_jobId env k) (ee_jobNow env k)
                  \<lparr> da_queue = ''sync_to_cloud'', da_payload = sync_payload table i, da_id = None, da_runAfter = None \<rparr> jobs of
             Inl _ \<Rightarrow> None
           | Inr (_, jobs') \<Rightarrow> Some jobs')"

text \<open>The project of a promotion, then its features; a feature whose enqueue throws is skipped.\<close>

definition enqueue_promoted :: "ensure_env \<Rightarrow> string \<Rightarrow> string list \<Rightarrow> job list \<Rightarrow> job list" where
  "enqueue_promoted env i features jobs =
     (case enqueue_sync env 0 ''projects'' i jobs of
        None \<Rightarrow> jobs
      | Some jobs' \<Rightarrow> fold (\<lambda>(k, f) t. nullish (enqueue_sync env k ''features'' f t) t) (enumerate 1 features) jobs')"

text \<open>A seed that fails is logged; what it had written stays.\<close>

definition seedDefaultPolicyOnCreate :: "ensure_env \<Rightarrow> string \<Rightarrow> registry \<Rightarrow> registry" where
  "seedDefaultPolicyOnCreate env i db =
     db\<lparr>rg_policy := snd (ensureDefaultPolicy (ee_dash env) (ee_admin env) (ee_ruleIds env) i
                            ((rg_policy db)\<lparr>ad_projects := map pj_id (rg_projects db)\<rparr>))\<rparr>"

definition promote :: "ensure_env \<Rightarrow> string \<Rightarrow> project \<Rightarrow> registry \<Rightarrow> registry" where
  "promote env orgId p db =
     db\<lparr>rg_projects := update_project (pj_id p) (\<lambda>q. q\<lparr>pj_orgId := orgId, pj_updatedAt := ee_now env\<rparr>) (rg_projects db),
        rg_jobs := (if ee_team env
                    then enqueue_promoted env (pj_id p) (map fst (filter (\<lambda>f. snd f = pj_id p) (rg_features db))) (rg_jobs db)
                    else rg_jobs db)\<rparr>"

definition backfill :: "ensure_env \<Rightarrow> string \<Rightarrow> project \<Rightarrow> registry \<Rightarrow> registry" where
  "backfill env cwd p db =
     db\<lparr>rg_projects := update_project (pj_id p) (\<lambda>q. q\<lparr>pj_cwd := Some cwd, pj_updatedAt := ee_now env\<rparr>) (rg_projects db)\<rparr>"

text \<open>The branch of an existing row.\<close>

definition ensure_existing ::
  "ensure_env \<Rightarrow> ensure_args \<Rightarrow> project \<Rightarrow> registry \<Rightarrow> (ensure_error + ensured) \<times> registry"
where
  "ensure_existing env a p db =
     (let orgId = nullish (ea_orgId a) SOLO_ORG_ID;
          promoted = (isLocalOnlyOrg (Some (pj_orgId p)) \<and> \<not> isLocalOnlyOrg (Some orgId)) in
      if \<not> promoted \<and> \<not> isLocalOnlyOrg (Some (pj_orgId p)) \<and> \<not> isLocalOnlyOrg (Some orgId) \<and> pj_orgId p \<noteq> orgId
      then (Inl (OrgMismatch (pj_orgId p) orgId), db)
      else
        (let db1 = (if promoted then promote env orgId p db else db);
             backfilled = (ea_cwd a \<noteq> None \<and> pj_cwd p = None);
             db2 = (case ea_cwd a of
                      Some cwd \<Rightarrow> if pj_cwd p = None then backfill env cwd p db1 else db1
                    | None \<Rightarrow> db1)
         in (Inr \<lparr> es_id = pj_id p, es_created = False, es_cwdBackfilled = backfilled,
                   es_promotedFrom = (if promoted then Some (pj_orgId p) else None) \<rparr>, db2)))"

text \<open>The branch of a new row, after the row of a rival is in.\<close>

definition ensure_fresh ::
  "ensure_env \<Rightarrow> ensure_args \<Rightarrow> registry \<Rightarrow> (ensure_error + ensured) \<times> registry"
where
  "ensure_fresh env a db =
     (let i = nullish (ea_idOverride a) (ee_uuid env);
          row = \<lparr> pj_id = i, pj_slug = ea_slug a, pj_orgId = nullish (ea_orgId a) SOLO_ORG_ID,
                  pj_name = nullish (ea_name a) (ea_slug a), pj_cwd = ea_cwd a, pj_updatedAt = ee_now env \<rparr> in
      if ea_slug a \<notin> pj_slug ` set (rg_projects db) \<and> i \<in> pj_id ` set (rg_projects db)
      then (Inl ProjectIdTaken, db)
      else
        (let db1 = db\<lparr>rg_projects := fst (insertProject row (rg_projects db))\<rparr>;
             settled = nullish (map_option pj_id (lookupProjectBySlug (rg_projects db1) (ea_slug a))) i;
             created = (settled = i);
             db2 = (if created \<and> ee_team env
                    then db1\<lparr>rg_jobs := nullish (enqueue_sync env 0 ''projects'' settled (rg_jobs db1)) (rg_jobs db1)\<rparr>
                    else db1);
             db3 = (if created then seedDefaultPolicyOnCreate env settled db2 else db2)
         in (Inr \<lparr> es_id = settled, es_created = created, es_cwdBackfilled = False, es_promotedFrom = None \<rparr>, db3)))"

definition ensureProject ::
  "ensure_env \<Rightarrow> ensure_args \<Rightarrow> registry \<Rightarrow> (ensure_error + ensured) \<times> registry"
where
  "ensureProject env a db =
     (case lookupProjectBySlug (rg_projects db) (ea_slug a) of
        Some p \<Rightarrow> ensure_existing env a p db
      | None \<Rightarrow>
          ensure_fresh env a
            (case ee_rival env of None \<Rightarrow> db | Some r \<Rightarrow> db\<lparr>rg_projects := fst (insertProject r (rg_projects db))\<rparr>))"

section \<open>What a project keeps\<close>

definition registry_ok :: "registry \<Rightarrow> bool" where
  "registry_ok db \<longleftrightarrow> distinct (map pj_id (rg_projects db)) \<and> distinct (map pj_slug (rg_projects db))"

text \<open>The later row is the earlier one with an organisation or a directory it did not have.\<close>

definition descends :: "project \<Rightarrow> project \<Rightarrow> bool" where
  "descends p p' \<longleftrightarrow> pj_id p' = pj_id p \<and> pj_slug p' = pj_slug p \<and> pj_name p' = pj_name p \<and>
     pj_cwd p \<in> {None, pj_cwd p'} \<and> (isLocalOnlyOrg (Some (pj_orgId p)) \<or> pj_orgId p' = pj_orgId p)"

definition rival_fresh :: "ensure_env \<Rightarrow> registry \<Rightarrow> bool" where
  "rival_fresh env db \<longleftrightarrow> (case ee_rival env of None \<Rightarrow> True | Some r \<Rightarrow> pj_id r \<notin> pj_id ` set (rg_projects db))"

lemma descends_refl [simp]: "descends p p"
  by (simp add: descends_def)

lemma descends_trans: "descends p q \<Longrightarrow> descends q r \<Longrightarrow> descends p r"
  by (auto simp: descends_def)

lemma update_project_keys [simp]:
  assumes "\<And>p. pj_id (f p) = pj_id p" and "\<And>p. pj_slug (f p) = pj_slug p"
  shows "map pj_id (update_project i f t) = map pj_id t" "map pj_slug (update_project i f t) = map pj_slug t"
  using assms by (simp_all add: update_project_def)

lemma update_project_descends:
  assumes "\<And>p. p \<in> set t \<Longrightarrow> pj_id p = i \<Longrightarrow> descends p (f p)" and "p \<in> set t"
  shows "\<exists>p' \<in> set (update_project i f t). descends p p'"
proof (rule bexI [of _ "if pj_id p = i then f p else p"])
  show "descends p (if pj_id p = i then f p else p)" using assms by simp
qed (use assms(2) in \<open>auto simp: update_project_def\<close>)

lemma lookup_updated:
  assumes "\<And>p. pj_slug (f p) = pj_slug p"
  shows "lookupProjectBySlug (update_project j f t) slug =
     map_option (\<lambda>p. if pj_id p = j then f p else p) (lookupProjectBySlug t slug)"
proof -
  have "filter (\<lambda>p. pj_slug p = slug) (update_project j f t) =
      map (\<lambda>p. if pj_id p = j then f p else p) (filter (\<lambda>p. pj_slug p = slug) t)"
    by (induction t) (auto simp: update_project_def assms)
  then show ?thesis by (simp add: lookupProjectBySlug_def first_row_def split: list.split)
qed

lemma same_project: "registry_ok db \<Longrightarrow> p \<in> set (rg_projects db) \<Longrightarrow> q \<in> set (rg_projects db) \<Longrightarrow> pj_id p = pj_id q \<Longrightarrow> p = q"
  by (auto simp: registry_ok_def distinct_map inj_on_def)

lemma insertProject_ok:
  assumes "registry_ok db" and "pj_slug row \<in> pj_slug ` set (rg_projects db) \<or> pj_id row \<notin> pj_id ` set (rg_projects db)"
  shows "registry_ok (db\<lparr>rg_projects := fst (insertProject row (rg_projects db))\<rparr>)"
  using assms by (cases "pj_slug row \<in> pj_slug ` set (rg_projects db)")
    (auto simp: registry_ok_def projects.ins_fresh projects.ins_conflict)

lemma promote_fields [simp]:
  "rg_projects (promote env o' p db) =
     update_project (pj_id p) (\<lambda>q. q\<lparr>pj_orgId := o', pj_updatedAt := ee_now env\<rparr>) (rg_projects db)"
  "rg_projects (backfill env c p db) =
     update_project (pj_id p) (\<lambda>q. q\<lparr>pj_cwd := Some c, pj_updatedAt := ee_now env\<rparr>) (rg_projects db)"
  "rg_projects (seedDefaultPolicyOnCreate env i db) = rg_projects db"
  by (simp_all add: promote_def backfill_def seedDefaultPolicyOnCreate_def)

lemma existing_keeps:
  assumes ok: "registry_ok db" and p: "p \<in> set (rg_projects db)" and run: "ensure_existing env a p db = (r, db')"
  shows "registry_ok db' \<and> (\<forall>q \<in> set (rg_projects db). \<exists>q' \<in> set (rg_projects db'). descends q q')"
proof -
  let ?o = "nullish (ea_orgId a) SOLO_ORG_ID"
  let ?promoted = "isLocalOnlyOrg (Some (pj_orgId p)) \<and> \<not> isLocalOnlyOrg (Some ?o)"
  define db1 where "db1 = (if ?promoted then promote env ?o p db else db)"
  have ok1: "registry_ok db1" using ok by (auto simp: db1_def registry_ok_def)
  have keep1: "\<exists>q' \<in> set (rg_projects db1). descends q q'" if "q \<in> set (rg_projects db)" for q
  proof (cases ?promoted)
    case True
    show ?thesis unfolding db1_def if_P [OF True] promote_fields
      by (rule update_project_descends [OF _ that]) (use True same_project [OF ok p] in \<open>fastforce simp: descends_def\<close>)
  next
    case False
    with that show ?thesis unfolding db1_def if_not_P [OF False] by (blast intro: descends_refl)
  qed
  have cwd1: "\<forall>q \<in> set (rg_projects db1). pj_id q = pj_id p \<longrightarrow> pj_cwd q = pj_cwd p"
    using same_project [OF ok _ p] by (fastforce simp: db1_def update_project_def split: if_splits)
  have filled: "registry_ok (backfill env c p db1) \<and> (\<forall>q \<in> set (rg_projects db1). \<exists>q' \<in> set (rg_projects (backfill env c p db1)). descends q q')"
    if "pj_cwd p = None" for c
  proof
    show "registry_ok (backfill env c p db1)" using ok1 by (simp add: registry_ok_def)
    show "\<forall>q \<in> set (rg_projects db1). \<exists>q' \<in> set (rg_projects (backfill env c p db1)). descends q q'"
    proof
      fix q assume "q \<in> set (rg_projects db1)"
      then show "\<exists>q' \<in> set (rg_projects (backfill env c p db1)). descends q q'"
        unfolding promote_fields by (rule update_project_descends [rotated]) (use cwd1 that in \<open>auto simp: descends_def\<close>)
    qed
  qed
  have "db' = db \<or> db' = db1 \<or> (\<exists>c. pj_cwd p = None \<and> db' = backfill env c p db1)"
    using run by (auto simp: ensure_existing_def Let_def db1_def split: option.splits if_splits)
  then consider "db' = db" | "db' = db1" | c where "pj_cwd p = None" "db' = backfill env c p db1" by blast
  then show ?thesis
  proof cases
    case 3
    note filled [OF 3(1), of c]
    then show ?thesis unfolding 3(2) using keep1 by (blast intro: descends_trans)
  qed (use ok ok1 keep1 descends_refl in blast)+
qed

lemma fresh_keeps:
  assumes ok: "registry_ok db" and run: "ensure_fresh env a db = (r, db')"
  shows "registry_ok db' \<and> (\<forall>q \<in> set (rg_projects db). \<exists>q' \<in> set (rg_projects db'). descends q q')"
proof -
  let ?i = "nullish (ea_idOverride a) (ee_uuid env)"
  let ?row = "\<lparr> pj_id = ?i, pj_slug = ea_slug a, pj_orgId = nullish (ea_orgId a) SOLO_ORG_ID,
      pj_name = nullish (ea_name a) (ea_slug a), pj_cwd = ea_cwd a, pj_updatedAt = ee_now env \<rparr>"
  consider "db' = db" | "ea_slug a \<in> pj_slug ` set (rg_projects db) \<or> ?i \<notin> pj_id ` set (rg_projects db)"
      "rg_projects db' = fst (insertProject ?row (rg_projects db))"
    using run by (auto simp: ensure_fresh_def Let_def split: if_splits)
  then show ?thesis
  proof cases
    case 2
    then have "registry_ok (db\<lparr>rg_projects := fst (insertProject ?row (rg_projects db))\<rparr>)"
      by (intro insertProject_ok [OF ok]) simp
    with 2 have "registry_ok db'" by (simp add: registry_ok_def)
    moreover have "set (rg_projects db) \<subseteq> set (rg_projects db')" unfolding 2(2) by (rule projects.rows_survive)
    ultimately show ?thesis by (meson descends_refl subsetD)
  qed (use ok descends_refl in blast)
qed

text \<open>A call with no other call between its lookup and its updates.\<close>

lemma lone_call_keeps:
  assumes "registry_ok db" and "rival_fresh env db" and "ensureProject env a db = (r, db')"
  shows "registry_ok db' \<and> (\<forall>p \<in> set (rg_projects db). \<exists>p' \<in> set (rg_projects db'). descends p p')"
proof (cases "lookupProjectBySlug (rg_projects db) (ea_slug a)")
  case None
  define db0 where "db0 = (case ee_rival env of None \<Rightarrow> db | Some r \<Rightarrow> db\<lparr>rg_projects := fst (insertProject r (rg_projects db))\<rparr>)"
  have "registry_ok db0" using assms(1,2) unfolding db0_def rival_fresh_def
    by (auto split: option.splits intro: insertProject_ok)
  moreover have "ensure_fresh env a db0 = (r, db')" using assms(3) None by (simp add: ensureProject_def db0_def)
  moreover have "set (rg_projects db) \<subseteq> set (rg_projects db0)"
    unfolding db0_def by (auto split: option.splits dest: subsetD [OF projects.rows_survive])
  ultimately show ?thesis using fresh_keeps by blast
next
  case (Some p)
  then have "p \<in> set (rg_projects db)" unfolding lookupProjectBySlug_def by (auto dest: first_row_in)
  moreover have "ensure_existing env a p db = (r, db')" using assms(3) Some by (simp add: ensureProject_def)
  ultimately show ?thesis by (rule existing_keeps [OF assms(1)])
qed

lemma well_kept_projects [simp]: "well_kept env (db\<lparr>ad_projects := ps\<rparr>) \<longleftrightarrow> well_kept env db"
  by (simp add: well_kept_def published_def listPolicyVersions_def rules_of_def)

lemma mints_default_projects [simp]: "mints_default env ids (db\<lparr>ad_projects := ps\<rparr>) \<longleftrightarrow> mints_default env ids db"
  by (simp add: mints_default_def)

lemma created_fresh:
  assumes "ensureProject env a db = (Inr res, db')" and "es_created res" and "ee_rival env = None"
  shows "es_id res = nullish (ea_idOverride a) (ee_uuid env) \<and> es_id res \<in> pj_id ` set (rg_projects db') \<and>
    rg_policy db' = snd (ensureDefaultPolicy (ee_dash env) (ee_admin env) (ee_ruleIds env) (es_id res)
      ((rg_policy db)\<lparr>ad_projects := map pj_id (rg_projects db')\<rparr>))"
proof -
  have none: "lookupProjectBySlug (rg_projects db) (ea_slug a) = None"
    using assms(1,2) by (auto simp: ensureProject_def ensure_existing_def Let_def split: option.splits if_splits)
  let ?i = "nullish (ea_idOverride a) (ee_uuid env)"
  let ?row = "\<lparr> pj_id = ?i, pj_slug = ea_slug a, pj_orgId = nullish (ea_orgId a) SOLO_ORG_ID,
      pj_name = nullish (ea_name a) (ea_slug a), pj_cwd = ea_cwd a, pj_updatedAt = ee_now env \<rparr>"
  have slug: "ea_slug a \<notin> pj_slug ` set (rg_projects db)"
    using none by (auto simp: lookupProjectBySlug_def first_row_None filter_empty_conv)
  have run: "ensure_fresh env a db = (Inr res, db')" using assms(1,3) none by (simp add: ensureProject_def)
  have added: "fst (insertProject ?row (rg_projects db)) = rg_projects db @ [?row]"
    using slug by (subst projects.ins_fresh) simp_all
  have i: "es_id res = ?i" using run assms(2) by (auto simp: ensure_fresh_def Let_def split: if_splits)
  moreover have "rg_projects db' = rg_projects db @ [?row]"
    using run slug added by (auto simp: ensure_fresh_def Let_def split: if_splits)
  moreover have "rg_policy db' = snd (ensureDefaultPolicy (ee_dash env) (ee_admin env) (ee_ruleIds env) ?i
      ((rg_policy db)\<lparr>ad_projects := map pj_id (rg_projects db @ [?row])\<rparr>))"
    using run assms(2) added
    by (auto simp: ensure_fresh_def seedDefaultPolicyOnCreate_def Let_def split: if_splits)
  ultimately show ?thesis by simp
qed

text \<open>A project that \<open>ensureProject\<close> creates is never without a policy: with the policy tables in order and
  no policy of that project yet, it has the default policy with its 59 rules and one published version.\<close>

theorem project_born_guarded:
  assumes run: "ensureProject env a db = (Inr res, db')" and new: "es_created res" "ee_rival env = None"
    and kept: "well_kept (ee_admin env) (rg_policy db)" "mints_default (ee_admin env) (ee_ruleIds env) (rg_policy db)"
    and none: "\<forall>q \<in> set (ad_policies (rg_policy db)). po_projectId q \<noteq> es_id res"
  shows "ad_policies (rg_policy db') = ad_policies (rg_policy db) @ [default_policy_row (ee_admin env) (es_id res)] \<and>
    length (filter (\<lambda>r. rule_policy r = ae_policyId (ee_admin env)) (ad_rules (rg_policy db'))) = 59 \<and>
    length (filter (\<lambda>v. pv_policyId v = ae_policyId (ee_admin env) \<and> pv_status v = ''active'') (ad_versions (rg_policy db'))) = 1"
proof -
  let ?db0 = "(rg_policy db)\<lparr>ad_projects := map pj_id (rg_projects db')\<rparr>" and ?pid = "ae_policyId (ee_admin env)"
  note made = created_fresh [OF run new]
  have known: "es_id res \<in> set (ad_projects ?db0)" using made [THEN conjunct2, THEN conjunct1] by simp
  have k: "well_kept (ee_admin env) ?db0" "mints_default (ee_admin env) (ee_ruleIds env) ?db0" using kept by simp_all
  have n: "\<forall>q \<in> set (ad_policies ?db0). po_projectId q \<noteq> es_id res" using none by simp
  obtain row db1 where seed: "ensureDefaultPolicy (ee_dash env) (ee_admin env) (ee_ruleIds env) (es_id res) ?db0 =
      (Inr \<lparr> er_policyId = ?pid, er_created = True, er_rulesInserted = 59 \<rparr>, db1)"
    "ad_policies db1 = ad_policies ?db0 @ [default_policy_row (ee_admin env) (es_id res)]"
    "ad_rules db1 = ad_rules ?db0 @ seeded_rows (ae_epoch (ee_admin env)) ?pid (ee_ruleIds env) (DEFAULT_RULES (ee_dash env))"
    "filter (\<lambda>v. pv_policyId v = ?pid \<and> pv_status v = ''active'') (ad_versions db1) = [row]"
    by (rule fresh_seed [OF k known n])
  have "rg_policy db' = db1" using made seed(1) by simp
  moreover have "filter (\<lambda>r. rule_policy r = ?pid) (ad_rules ?db0) = []"
    using kept unfolding well_kept_def mints_default_def filter_empty_conv by (simp, metis)
  moreover have "filter (\<lambda>r. rule_policy r = ?pid)
      (seeded_rows (ae_epoch (ee_admin env)) ?pid (ee_ruleIds env) (DEFAULT_RULES (ee_dash env))) =
      seeded_rows (ae_epoch (ee_admin env)) ?pid (ee_ruleIds env) (DEFAULT_RULES (ee_dash env))"
    by (rule filter_True) (auto dest: seeded_rows_elem)
  moreover have "length (seeded_rows (ae_epoch (ee_admin env)) ?pid (ee_ruleIds env) (DEFAULT_RULES (ee_dash env))) = 59"
    by (simp add: seeded_rows_def default_count)
  ultimately show ?thesis using seed(2-4) by simp
qed

section \<open>Calls that race\<close>

text \<open>
  A call awaits between its lookup and each of its updates, and the updates name the row by its id alone.  The
  state is the table with the rows that lookups have returned so far; the steps are the statements of
  \<open>ensureProject\<close>, of any number of calls in any order: an update is guarded by what its call has seen,
  which may be out of date.
\<close>

inductive ensure_step :: "project list \<times> registry \<Rightarrow> project list \<times> registry \<Rightarrow> bool" where
  sees: "lookupProjectBySlug (rg_projects db) slug = Some p \<Longrightarrow> ensure_step (seen, db) (p # seen, db)"
| promotes: "p \<in> set seen \<Longrightarrow> isLocalOnlyOrg (Some (pj_orgId p)) \<Longrightarrow> \<not> isLocalOnlyOrg (Some orgId) \<Longrightarrow>
    ensure_step (seen, db) (seen, promote env orgId p db)"
| backfills: "p \<in> set seen \<Longrightarrow> pj_cwd p = None \<Longrightarrow> ensure_step (seen, db) (seen, backfill env cwd p db)"
| inserts: "ensure_fresh env a db = (r, db') \<Longrightarrow> ensure_step (seen, db) (seen, db')"

text \<open>One call with nothing in between is a sequence of these steps.\<close>

lemma ensureProject_steps:
  assumes run: "ensureProject env a db = (r, db')" and alone: "ee_rival env = None"
  shows "\<exists>seen'. ensure_step\<^sup>*\<^sup>* (seen, db) (seen', db')"
proof (cases "lookupProjectBySlug (rg_projects db) (ea_slug a)")
  case None
  with run alone have "ensure_fresh env a db = (r, db')" by (simp add: ensureProject_def)
  then show ?thesis by (blast intro: inserts)
next
  case (Some p)
  let ?o = "nullish (ea_orgId a) SOLO_ORG_ID" and ?seen = "p # seen"
  let ?up = "isLocalOnlyOrg (Some (pj_orgId p)) \<and> \<not> isLocalOnlyOrg (Some ?o)"
  define db1 where "db1 = (if ?up then promote env ?o p db else db)"
  have "ensure_step\<^sup>*\<^sup>* (seen, db) (?seen, db)" by (rule r_into_rtranclp, rule sees [OF Some])
  also have first: "ensure_step\<^sup>*\<^sup>* (?seen, db) (?seen, db1)"
  proof (cases ?up)
    case True
    show ?thesis unfolding db1_def if_P [OF True]
      by (rule r_into_rtranclp, rule promotes) (use True in simp_all)
  qed (auto simp: db1_def)
  finally have reach: "ensure_step\<^sup>*\<^sup>* (seen, db) (?seen, db1)" .
  have fill: "ensure_step\<^sup>*\<^sup>* (?seen, db1) (?seen, backfill env c p db1)" if "pj_cwd p = None" for c
    by (rule r_into_rtranclp, rule backfills) (simp_all add: that)
  have "db' = db \<or> db' = db1 \<or> (pj_cwd p = None \<and> (\<exists>c. db' = backfill env c p db1))"
    using run Some by (auto simp: ensureProject_def ensure_existing_def Let_def db1_def split: if_splits option.splits)
  then show ?thesis using reach fill \<open>ensure_step\<^sup>*\<^sup>* (seen, db) (?seen, db)\<close> by (meson rtranclp_trans)
qed

text \<open>What a row keeps of itself even then.\<close>

definition endures :: "project \<Rightarrow> project \<Rightarrow> bool" where
  "endures p p' \<longleftrightarrow> pj_id p' = pj_id p \<and> pj_slug p' = pj_slug p \<and> pj_name p' = pj_name p \<and>
     (pj_cwd p \<noteq> None \<longrightarrow> pj_cwd p' \<noteq> None) \<and>
     (\<not> isLocalOnlyOrg (Some (pj_orgId p)) \<longrightarrow> \<not> isLocalOnlyOrg (Some (pj_orgId p')))"

lemma endures_refl [simp]: "endures p p"
  by (simp add: endures_def)

lemma endures_trans: "endures p q \<Longrightarrow> endures q r \<Longrightarrow> endures p r"
  by (auto simp: endures_def)

lemma descends_endures: "descends p q \<Longrightarrow> endures p q"
  by (cases "pj_cwd q") (auto simp: descends_def endures_def)

lemma update_project_endures:
  assumes "\<And>p. endures p (f p)" and "p \<in> set t"
  shows "\<exists>p' \<in> set (update_project i f t). endures p p'"
  by (rule bexI [of _ "if pj_id p = i then f p else p"]) (use assms in \<open>auto simp: update_project_def\<close>)

lemma ensure_step_keeps:
  assumes "ensure_step (seen, db) (seen', db')" and ok: "registry_ok db"
  shows "registry_ok db' \<and> (\<forall>p \<in> set (rg_projects db). \<exists>p' \<in> set (rg_projects db'). endures p p')"
  using assms(1)
proof cases
  case (promotes p orgId env)
  then have "endures q (q\<lparr>pj_orgId := orgId, pj_updatedAt := ee_now env\<rparr>)" for q by (simp add: endures_def)
  with promotes ok show ?thesis by (auto simp: registry_ok_def intro!: update_project_endures)
next
  case (backfills p env cwd)
  have "registry_ok db'" using ok backfills by (simp add: registry_ok_def backfill_def)
  moreover have "endures q (q\<lparr>pj_cwd := Some cwd, pj_updatedAt := ee_now env\<rparr>)" for q by (simp add: endures_def)
  ultimately show ?thesis using backfills by (auto simp: backfill_def intro!: update_project_endures)
next
  case (inserts env a r)
  from fresh_keeps [OF ok inserts(2)] show ?thesis by (meson descends_endures)
qed (use ok in \<open>auto intro: endures_refl\<close>)

lemma racing_calls_keep:
  assumes "registry_ok db" and "ensure_step\<^sup>*\<^sup>* ([], db) (seen, db')"
  shows "registry_ok db' \<and> (\<forall>p \<in> set (rg_projects db). \<exists>p' \<in> set (rg_projects db'). endures p p')"
  using assms(2)
proof (induction rule: rtranclp_induct2)
  case (step seen1 db1 seen2 db2)
  from ensure_step_keeps [OF step(2)] step(3) show ?case by (meson endures_trans)
qed (use assms(1) in \<open>auto intro: endures_refl\<close>)

text \<open>C25: A call of \<open>ensureProject\<close> with no other call between its lookup and its updates, whatever its arguments, keeps project
  ids and slugs unique, and renames no project, moves none that belongs to a real organisation and replaces no
  directory that was recorded; another process may insert a row, under any slug and a new id, between
  the lookup of a new project and its insert.  Any number of calls whose statements interleave in any order, each
  update guarded only by what its own call saw, still keep ids and slugs unique, lose and rename no project, leave
  none without a directory that had one and none without a real organisation that had one; but which directory and which
  organisation it is may change (\<open>stale_call_moves_project\<close>).\<close>

theorem ensure_keeps_projects:
  assumes "registry_ok db"
  shows "(rival_fresh env db \<and> ensureProject env a db = (r, db1) \<longrightarrow>
      registry_ok db1 \<and> (\<forall>p \<in> set (rg_projects db). \<exists>p' \<in> set (rg_projects db1). descends p p')) \<and>
    (ensure_step\<^sup>*\<^sup>* ([], db) (seen, db2) \<longrightarrow>
      registry_ok db2 \<and> (\<forall>p \<in> set (rg_projects db). \<exists>p' \<in> set (rg_projects db2). endures p p'))"
  using lone_call_keeps [OF assms] racing_calls_keep [OF assms] by blast

text \<open>
  Racing calls keep no more than that.  Of two calls that have both seen a project without an organisation and without a directory, the
  second to write moves it out of the organisation the first gave it, for which \<open>ensureProject\<close> throws
  \<open>org_mismatch\<close> when it sees the row, and replaces the directory the first recorded.
\<close>

theorem stale_call_moves_project:
  assumes "lookupProjectBySlug (rg_projects db) slug = Some p"
    and "isLocalOnlyOrg (Some (pj_orgId p))" "pj_cwd p = None"
    and "\<not> isLocalOnlyOrg (Some org1)" "\<not> isLocalOnlyOrg (Some org2)"
  shows "\<exists>db1 db2 q1 q2. ensure_step\<^sup>*\<^sup>* ([], db) ([p, p], db1) \<and> ensure_step\<^sup>*\<^sup>* ([p, p], db1) ([p, p], db2) \<and>
    lookupProjectBySlug (rg_projects db1) slug = Some q1 \<and> pj_id q1 = pj_id p \<and> pj_orgId q1 = org1 \<and> pj_cwd q1 = Some cwd1 \<and>
    lookupProjectBySlug (rg_projects db2) slug = Some q2 \<and> pj_id q2 = pj_id p \<and> pj_orgId q2 = org2 \<and> pj_cwd q2 = Some cwd2"
proof -
  fix env :: ensure_env
  let ?after = "\<lambda>org cwd db. backfill env cwd p (promote env org p db)"
  have writes: "ensure_step\<^sup>*\<^sup>* ([p, p], d) ([p, p], ?after org cwd d)" if "\<not> isLocalOnlyOrg (Some org)" for d org cwd
  proof -
    have "ensure_step ([p, p], d) ([p, p], promote env org p d)" by (rule promotes) (use assms that in simp_all)
    moreover have "ensure_step ([p, p], promote env org p d) ([p, p], ?after org cwd d)" by (rule backfills) (use assms in simp_all)
    ultimately show ?thesis by (rule converse_rtranclp_into_rtranclp [OF _ r_into_rtranclp])
  qed
  have reads: "ensure_step\<^sup>*\<^sup>* ([], db) ([p, p], db)"
    by (rule converse_rtranclp_into_rtranclp, rule sees [OF assms(1)], rule r_into_rtranclp, rule sees [OF assms(1)])
  have look: "\<exists>q. lookupProjectBySlug (rg_projects (?after org cwd d)) slug = Some q \<and> pj_id q = pj_id p \<and> pj_orgId q = org \<and> pj_cwd q = Some cwd"
    if "lookupProjectBySlug (rg_projects d) slug = Some q0" "pj_id q0 = pj_id p" for d org cwd q0
    using that by (auto simp: backfill_def lookup_updated)
  from look [OF assms(1)] obtain q1 where q1: "lookupProjectBySlug (rg_projects (?after org1 cwd1 db)) slug = Some q1"
    "pj_id q1 = pj_id p" "pj_orgId q1 = org1" "pj_cwd q1 = Some cwd1" by blast
  from look [OF q1(1,2)] obtain q2 where "lookupProjectBySlug (rg_projects (?after org2 cwd2 (?after org1 cwd1 db))) slug = Some q2"
    "pj_id q2 = pj_id p" "pj_orgId q2 = org2" "pj_cwd q2 = Some cwd2" by blast
  with q1 rtranclp_trans [OF reads writes [OF assms(4)]] writes [OF assms(5)] show ?thesis by blast
qed

section \<open>Witnesses\<close>

definition sample_ensure_env :: ensure_env where
  "sample_ensure_env = \<lparr> ee_now = 7, ee_uuid = ''proj'', ee_rival = None, ee_team = False, ee_jobId = (\<lambda>_. ''j''),
     ee_jobNow = (\<lambda>_. 7), ee_jobThrows = (\<lambda>_. False), ee_stringify = (\<lambda>_. []), ee_dash = [],
     ee_admin = sample_admin_env 5, ee_ruleIds = sample_ids \<rparr>"

definition empty_registry :: registry where
  "empty_registry = \<lparr> rg_projects = [], rg_features = [], rg_policy = empty_admin_db, rg_jobs = [] \<rparr>"

definition ensure_slug :: "string \<Rightarrow> string option \<Rightarrow> string option \<Rightarrow> ensure_args" where
  "ensure_slug slug org cwd = \<lparr> ea_slug = slug, ea_name = None, ea_orgId = org, ea_cwd = cwd, ea_idOverride = None \<rparr>"

definition solo_project :: "string \<Rightarrow> project" where
  "solo_project org = \<lparr> pj_id = ''p'', pj_slug = ''app'', pj_orgId = org, pj_name = ''app'', pj_cwd = None, pj_updatedAt = 0 \<rparr>"

definition one_project :: "string \<Rightarrow> registry" where
  "one_project org = empty_registry\<lparr>rg_projects := [solo_project org]\<rparr>"

lemma sample_race:
  "\<exists>db' q. ensure_step\<^sup>*\<^sup>* ([], one_project ''__solo__'') ([solo_project ''__solo__'', solo_project ''__solo__''], db') \<and>
     lookupProjectBySlug (rg_projects db') ''app'' = Some q \<and> pj_orgId q = ''org_b''"
proof -
  let ?db = "one_project ''__solo__''" and ?p = "solo_project ''__solo__''"
  have p: "lookupProjectBySlug (rg_projects ?db) ''app'' = Some ?p"
    by (simp add: lookupProjectBySlug_def first_row_def one_project_def solo_project_def)
  have org: "isLocalOnlyOrg (Some (pj_orgId ?p))" "pj_cwd ?p = None" "\<not> isLocalOnlyOrg (Some ''org_a'')"
    "\<not> isLocalOnlyOrg (Some ''org_b'')"
    by (simp_all add: solo_project_def isLocalOnlyOrg_def SOLO_ORG_ID_def GLOBAL_ORG_ID_def)
  show ?thesis using stale_call_moves_project [OF p org] by (blast intro: rtranclp_trans)
qed

lemma ensure_keeps_projects_witness:
  "\<exists>db1 db2 seen q. ensureProject sample_ensure_env (ensure_slug ''app'' (Some ''org_a'') (Some ''/w'')) (one_project ''__solo__'') =
     (Inr \<lparr> es_id = ''p'', es_created = False, es_cwdBackfilled = True, es_promotedFrom = Some ''__solo__'' \<rparr>, db1) \<and>
   registry_ok db1 \<and> ensure_step\<^sup>*\<^sup>* ([], one_project ''__solo__'') (seen, db2) \<and>
   lookupProjectBySlug (rg_projects db2) ''app'' = Some q \<and> pj_orgId q = ''org_b'' \<and> registry_ok db2"
proof -
  let ?db = "one_project ''__solo__''"
  let ?ans = "\<lparr> es_id = ''p'', es_created = False, es_cwdBackfilled = True, es_promotedFrom = Some ''__solo__'' \<rparr>"
  obtain db1 where run: "ensureProject sample_ensure_env (ensure_slug ''app'' (Some ''org_a'') (Some ''/w'')) ?db = (Inr ?ans, db1)"
    by (simp add: ensureProject_def ensure_existing_def lookupProjectBySlug_def first_row_def one_project_def ensure_slug_def
        empty_registry_def solo_project_def isLocalOnlyOrg_def SOLO_ORG_ID_def GLOBAL_ORG_ID_def Let_def)
  obtain db2 q seen where race: "ensure_step\<^sup>*\<^sup>* ([], ?db) (seen, db2)" "lookupProjectBySlug (rg_projects db2) ''app'' = Some q"
    "pj_orgId q = ''org_b''"
    using sample_race by blast
  have "registry_ok ?db" "rival_fresh sample_ensure_env ?db"
    by (simp_all add: registry_ok_def one_project_def rival_fresh_def sample_ensure_env_def)
  then have "registry_ok db1" "registry_ok db2"
    using ensure_keeps_projects [of ?db sample_ensure_env _ _ db1 seen db2] run race(1) by blast+
  with run race show ?thesis by blast
qed

end
