(* ===== verification/Run_Lifecycle.thy ===== *)
theory Run_Lifecycle
  imports Project_Registry Dispatcher
begin

text \<open>
  The life of a run row after it was opened: \<open>packages/db/src/runs-admin.ts\<close>, the two cleanups and the
  base commit of \<open>packages/lifecycle/src\<close> (\<open>stale-runs-sweeper.ts\<close>, \<open>abandon-stale-runs.ts\<close>,
  \<open>capture-base-sha.ts\<close>) and the \<open>get_run_id\<close> tool of \<open>apps/mcp-server/src/tools/get-run-id\<close>.

  Times in the tables are seconds.  The sweeper's timer is left out: a sweep may happen at any time.
\<close>

section \<open>Terminal states\<close>

definition is_run :: "string \<Rightarrow> run \<Rightarrow> bool" where
  "is_run i r \<longleftrightarrow> rn_id r = i"

definition update_runs :: "(run \<Rightarrow> bool) \<Rightarrow> (run \<Rightarrow> run) \<Rightarrow> run list \<Rightarrow> run list" where
  "update_runs P f t = map (\<lambda>r. if P r then f r else r) t"

definition end_as :: "string \<Rightarrow> int \<Rightarrow> run \<Rightarrow> run" where
  "end_as status now r = r\<lparr>rn_status := status, rn_endedAt := Some now\<rparr>"

datatype cancel_result = Cancelled run | CancelNotFound | AlreadyTerminal run

definition cancelRun :: "run list \<Rightarrow> string \<Rightarrow> int \<Rightarrow> cancel_result \<times> run list" where
  "cancelRun t runId now =
     (case first_row (filter (is_run runId) t) of
        None \<Rightarrow> (CancelNotFound, t)
      | Some row \<Rightarrow>
          if rn_status row \<noteq> ''in_progress'' then (AlreadyTerminal row, t)
          else (let t' = update_runs (is_run runId) (end_as ''cancelled'' now) t in
                ((case first_row (filter (is_run runId) t') of None \<Rightarrow> CancelNotFound | Some after \<Rightarrow> Cancelled after), t')))"

definition markRunCompleted :: "string \<Rightarrow> int \<Rightarrow> run list \<Rightarrow> run list" where
  "markRunCompleted runId now = update_runs (\<lambda>r. is_run runId r \<and> rn_status r \<noteq> ''completed'') (end_as ''completed'' now)"

definition markRunFailed :: "string \<Rightarrow> int \<Rightarrow> run list \<Rightarrow> run list" where
  "markRunFailed runId now = update_runs (\<lambda>r. is_run runId r \<and> rn_status r \<noteq> ''failed'') (end_as ''failed'' now)"

section \<open>Questions about a run\<close>

text \<open>\<open>LIKE\<close> of SQLite: letters match in either case, \<open>%\<close> any text, \<open>_\<close> one character.\<close>

fun sql_like :: "string \<Rightarrow> string \<Rightarrow> bool" where
  "sql_like [] s = (s = [])"
| "sql_like (p # ps) [] = (p = CHR ''%'' \<and> sql_like ps [])"
| "sql_like (p # ps) (c # cs) =
     (if p = CHR ''%'' then sql_like ps (c # cs) \<or> sql_like (p # ps) cs
      else (p = CHR ''_'' \<or> lower_char p = lower_char c) \<and> sql_like ps cs)"

record list_filter =
  lf_projectId :: "string option"
  lf_status :: "string option"
  lf_limit :: "int option"
  lf_excludeStatuses :: "string list option"
  lf_excludeSessionIdPattern :: "string option"

definition listed :: "list_filter \<Rightarrow> run \<Rightarrow> bool" where
  "listed f r \<longleftrightarrow>
     lf_projectId f \<in> {None, Some (rn_projectId r)} \<and> lf_status f \<in> {None, Some (rn_status r)} \<and>
     rn_status r \<notin> set (nullish (lf_excludeStatuses f) []) \<and>
     (case lf_excludeSessionIdPattern f of
        None \<Rightarrow> True
      | Some p \<Rightarrow> p = [] \<or> \<not> sql_like (CHR ''%'' # p @ ''%'') (rn_sessionId r))"

definition listRunsForProject :: "run list \<Rightarrow> list_filter \<Rightarrow> run list" where
  "listRunsForProject t f =
     take (nat (min (max 1 (nullish (lf_limit f) 20)) 1000)) (order_by_desc rn_startedAt (filter (listed f) t))"

definition getLastEventAtForRuns :: "run_event list \<Rightarrow> string list \<Rightarrow> string \<Rightarrow> int option" where
  "getLastEventAtForRuns events runIds i =
     (if i \<notin> set runIds then None
      else case map rv_createdAt (filter (\<lambda>e. rv_runId e = Some i) events) of
             [] \<Rightarrow> None
           | c # cs \<Rightarrow> Some (fold max cs c))"

text \<open>\<open>packs\<close> are the run ids of the rows of \<open>context_packs\<close>.\<close>

definition hasContextPackForRun :: "string list \<Rightarrow> string \<Rightarrow> bool" where
  "hasContextPackForRun packs runId = (runId \<in> set packs)"

definition hasSessionStartEventForRun :: "run_event list \<Rightarrow> string \<Rightarrow> bool" where
  "hasSessionStartEventForRun events runId =
     list_ex (\<lambda>e. rv_runId e = Some runId \<and> rv_toolName e = ''SessionStart'') events"

definition getRunCompactionNudgedAt :: "run list \<Rightarrow> string \<Rightarrow> int option" where
  "getRunCompactionNudgedAt t runId =
     (case first_row (filter (is_run runId) t) of None \<Rightarrow> None | Some r \<Rightarrow> rn_compactionNudgedAt r)"

definition markRunCompactionNudged :: "string \<Rightarrow> int \<Rightarrow> run list \<Rightarrow> run list" where
  "markRunCompactionNudged runId now = update_runs (is_run runId) (\<lambda>r. r\<lparr>rn_compactionNudgedAt := Some now\<rparr>)"

section \<open>Cleanups\<close>

text \<open>A run is live when it has an event since the cutoff.\<close>

definition live_since :: "run_event list \<Rightarrow> int \<Rightarrow> run \<Rightarrow> bool" where
  "live_since events cutoff r = list_ex (\<lambda>e. rv_runId e = Some (rn_id r) \<and> cutoff \<le> rv_createdAt e) events"

definition DEFAULT_THRESHOLD_SEC :: int where
  "DEFAULT_THRESHOLD_SEC = 1800"

definition stale :: "int \<Rightarrow> run_event list \<Rightarrow> run \<Rightarrow> bool" where
  "stale cutoff events r \<longleftrightarrow>
     rn_status r = ''in_progress'' \<and> rn_startedAt r < cutoff \<and> \<not> live_since events cutoff r"

text \<open>The number of rows changed, and the table; a statement that throws changes nothing.\<close>

definition sweepOnce :: "bool \<Rightarrow> int option \<Rightarrow> int \<Rightarrow> run_event list \<Rightarrow> run list \<Rightarrow> nat \<times> run list" where
  "sweepOnce fault thresholdSec now events t =
     (if fault then (0, t)
      else let hit = stale (now - nullish thresholdSec DEFAULT_THRESHOLD_SEC) events in
           (length (filter hit t), update_runs hit (end_as ''cancelled'' now) t))"

definition abandonable :: "string \<Rightarrow> string \<Rightarrow> int \<Rightarrow> run_event list \<Rightarrow> run \<Rightarrow> bool" where
  "abandonable projectId excludeSessionId cutoff events r \<longleftrightarrow>
     rn_projectId r = projectId \<and> rn_status r = ''in_progress'' \<and> rn_sessionId r \<noteq> excludeSessionId \<and>
     \<not> live_since events cutoff r"

definition abandonStaleInProgressRuns ::
  "string \<Rightarrow> string \<Rightarrow> int option \<Rightarrow> int \<Rightarrow> run_event list \<Rightarrow> run list \<Rightarrow> nat \<times> run list"
where
  "abandonStaleInProgressRuns projectId excludeSessionId window now events t =
     (let hit = abandonable projectId excludeSessionId (now - nullish window 1800) events in
      (length (filter hit t), update_runs hit (end_as ''abandoned'' now) t))"

section \<open>The base commit\<close>

definition hex_digit :: "char \<Rightarrow> bool" where
  "hex_digit c \<longleftrightarrow> is_digit c \<or> c \<in> set ''abcdef''"

text \<open>\<open>stdout\<close> is what \<open>git rev-parse HEAD\<close> printed, \<open>None\<close> when it failed.\<close>

definition defaultGitRevParseHead :: "string option \<Rightarrow> string option" where
  "defaultGitRevParseHead stdout =
     (case stdout of
        None \<Rightarrow> None
      | Some s \<Rightarrow> (let t = trim s in if list_all hex_digit t \<and> length t \<in> {40, 64} then Some t else None))"

datatype capture_reason = NotAGitRepo | RunsRowNotFound

record capture_result =
  cr_captured :: bool
  cr_baseSha :: "string option"
  cr_reason :: "capture_reason option"

definition UPDATE_RETRY_LIMIT :: nat where
  "UPDATE_RETRY_LIMIT = 3"

definition unbased :: "string \<Rightarrow> string \<Rightarrow> run \<Rightarrow> bool" where
  "unbased projectId sessionId r \<longleftrightarrow> run_session r = (projectId, sessionId) \<and> rn_baseSha r = None"

text \<open>One try per element; an element is what others do to the table before that try.\<close>

fun try_base_sha ::
  "string \<Rightarrow> string \<Rightarrow> string \<Rightarrow> (run list \<Rightarrow> run list) list \<Rightarrow> run list \<Rightarrow> capture_result \<times> run list"
where
  "try_base_sha sha p s [] t = (\<lparr> cr_captured = False, cr_baseSha = Some sha, cr_reason = Some RunsRowNotFound \<rparr>, t)"
| "try_base_sha sha p s (before # rest) t =
     (let t1 = before t in
      if filter (unbased p s) t1 \<noteq> []
      then (\<lparr> cr_captured = True, cr_baseSha = Some sha, cr_reason = None \<rparr>,
            update_runs (unbased p s) (\<lambda>r. r\<lparr>rn_baseSha := Some sha\<rparr>) t1)
      else try_base_sha sha p s rest t1)"

definition captureBaseSha ::
  "string option \<Rightarrow> string \<Rightarrow> string \<Rightarrow> (nat \<Rightarrow> run list \<Rightarrow> run list) \<Rightarrow> run list \<Rightarrow> capture_result \<times> run list"
where
  "captureBaseSha stdout projectId sessionId others t =
     (case defaultGitRevParseHead stdout of
        None \<Rightarrow> (\<lparr> cr_captured = False, cr_baseSha = None, cr_reason = Some NotAGitRepo \<rparr>, t)
      | Some sha \<Rightarrow> try_base_sha sha projectId sessionId (map others [0..<UPDATE_RETRY_LIMIT]) t)"

section \<open>get_run_id\<close>

record run_id_input =
  gi_projectSlug :: string
  gi_agentSessionId :: "string option"
  gi_agentType :: "string option"
  gi_cwd :: "string option"
  gi_confirmRegister :: bool

text \<open>
  \<open>gv_config\<close> is \<open>readCoodraProjectConfig\<close>: the slug of the project file at or above a directory.
  \<open>gv_rival\<close> is the row another process opens for the session between the lookup and the insert.
\<close>

record run_id_env =
  gv_team :: bool
  gv_config :: "string \<Rightarrow> string option"
  gv_ensure :: ensure_env
  gv_ctxSession :: string
  gv_ctxAgentType :: string
  gv_uuid :: string
  gv_now :: int
  gv_rival :: "run_args option"

record run_store =
  st_registry :: registry
  st_runs :: "run list"

datatype run_id_answer =
    RunReady string int
  | ProjectNotRegistered
  | ProjectNotFoundTeam

datatype run_id_error = EnsureThrew ensure_error | KeyThrew key_error | RunIdTaken string | RunVanished

definition SOLO_IDENTITY_orgId :: string where
  "SOLO_IDENTITY_orgId = ''org_dev_local''"

definition allow_register :: "run_id_env \<Rightarrow> run_id_input \<Rightarrow> bool" where
  "allow_register env i =
     (case gi_cwd i of
        None \<Rightarrow> False
      | Some cwd \<Rightarrow> gi_confirmRegister i \<or> gv_config env cwd = Some (gi_projectSlug i))"

text \<open>\<open>Inr None\<close> is the soft failure of an unregistered project.\<close>

definition registerProject ::
  "run_id_env \<Rightarrow> run_id_input \<Rightarrow> registry \<Rightarrow> (ensure_error + (string \<times> string) option) \<times> registry"
where
  "registerProject env i db =
     (if \<not> allow_register env i then (Inr None, db)
      else case ensureProject (gv_ensure env)
                  \<lparr> ea_slug = gi_projectSlug i, ea_name = None, ea_orgId = Some SOLO_IDENTITY_orgId,
                    ea_cwd = gi_cwd i, ea_idOverride = None \<rparr> db of
             (Inl e, db') \<Rightarrow> (Inl e, db')
           | (Inr res, db') \<Rightarrow>
               (Inr (Some (es_id res,
                  case lookupProjectBySlug (rg_projects db') (gi_projectSlug i) of
                    None \<Rightarrow> SOLO_IDENTITY_orgId | Some p \<Rightarrow> pj_orgId p)), db'))"

definition resolveOrRegisterProject ::
  "run_id_env \<Rightarrow> run_id_input \<Rightarrow> registry \<Rightarrow> (ensure_error + (string \<times> string) option) \<times> registry"
where
  "resolveOrRegisterProject env i db =
     (case lookupProjectBySlug (rg_projects db) (gi_projectSlug i) of
        None \<Rightarrow> registerProject env i db
      | Some p \<Rightarrow> if pj_cwd p = None then registerProject env i db else (Inr (Some (pj_id p, pj_orgId p)), db))"

definition selectLatestRun :: "run list \<Rightarrow> string \<Rightarrow> string \<Rightarrow> run option" where
  "selectLatestRun t projectId sessionId =
     first_row (order_by_desc rn_startedAt (filter (\<lambda>r. run_session r = (projectId, sessionId)) t))"

definition resumeRun :: "string \<Rightarrow> run list \<Rightarrow> run list" where
  "resumeRun runId = update_runs (is_run runId) (\<lambda>r. r\<lparr>rn_status := ''in_progress'', rn_endedAt := None\<rparr>)"

definition new_run_args :: "run_id_env \<Rightarrow> run_id_input \<Rightarrow> string \<Rightarrow> string \<Rightarrow> string \<Rightarrow> run_args" where
  "new_run_args env i runId projectId orgId =
     \<lparr> na_id = runId, na_orgId = Some orgId, na_projectId = projectId,
       na_sessionId = nullish (gi_agentSessionId i) (gv_ctxSession env),
       na_agentType = (if gv_ctxAgentType env \<noteq> ''unknown'' then gv_ctxAgentType env
                       else nullish (gi_agentType i) (gv_ctxAgentType env)),
       na_mode = (if gv_team env then ''team'' else ''solo''), na_status = None,
       na_activeCapabilitiesJson = None, na_createdByUserId = None \<rparr>"

text \<open>The part after the project is known: the run of the session is reused, resumed or opened.\<close>

definition run_of_session ::
  "run_id_env \<Rightarrow> run_id_input \<Rightarrow> string \<Rightarrow> string \<Rightarrow> run list \<Rightarrow> (run_id_error + run_id_answer) \<times> run list"
where
  "run_of_session env i projectId orgId t =
     (let sessionId = nullish (gi_agentSessionId i) (gv_ctxSession env) in
      case selectLatestRun t projectId sessionId of
        Some existing \<Rightarrow>
          (Inr (RunReady (rn_id existing) (rn_startedAt existing)),
           if rn_status existing \<noteq> ''in_progress'' then resumeRun (rn_id existing) t else t)
      | None \<Rightarrow>
          (case generateRunKey (gv_uuid env) projectId sessionId of
             Inl e \<Rightarrow> (Inl (KeyThrew e), t)
           | Inr newId \<Rightarrow>
               (let t1 = (case gv_rival env of None \<Rightarrow> t | Some a \<Rightarrow> (case insertRun (gv_now env) a t of Inl _ \<Rightarrow> t | Inr u \<Rightarrow> u));
                    row = run_row (gv_now env) (new_run_args env i newId projectId orgId) in
                case insertRun (gv_now env) (new_run_args env i newId projectId orgId) t1 of
                  Inl e \<Rightarrow> (Inl (RunIdTaken e), t1)
                | Inr t2 \<Rightarrow>
                    if run_session row \<notin> run_session ` set t1
                    then (Inr (RunReady (rn_id row) (rn_startedAt row)), t2)
                    else (case selectLatestRun t2 projectId sessionId of
                            None \<Rightarrow> (Inl RunVanished, t2)
                          | Some winner \<Rightarrow> (Inr (RunReady (rn_id winner) (rn_startedAt winner)), t2)))))"

definition getRunIdHandler ::
  "run_id_env \<Rightarrow> run_id_input \<Rightarrow> run_store \<Rightarrow> (run_id_error + run_id_answer) \<times> run_store"
where
  "getRunIdHandler env i st =
     (let serve = (\<lambda>pid org db.
            case run_of_session env i pid org (st_runs st) of
              (res, t) \<Rightarrow> (res, \<lparr> st_registry = db, st_runs = t \<rparr>)) in
      if gv_team env
      then (case lookupProjectBySlug (rg_projects (st_registry st)) (gi_projectSlug i) of
              None \<Rightarrow> (Inr ProjectNotFoundTeam, st)
            | Some p \<Rightarrow> serve (pj_id p) (pj_orgId p) (st_registry st))
      else (case resolveOrRegisterProject env i (st_registry st) of
              (Inl e, db) \<Rightarrow> (Inl (EnsureThrew e), st\<lparr>st_registry := db\<rparr>)
            | (Inr None, db) \<Rightarrow> (Inr ProjectNotRegistered, st\<lparr>st_registry := db\<rparr>)
            | (Inr (Some (pid, org)), db) \<Rightarrow> serve pid org db))"

section \<open>Tables under updates\<close>

lemma update_runs_keys [simp]:
  assumes "\<And>r. rn_id (f r) = rn_id r" and "\<And>r. run_session (f r) = run_session r"
  shows "map rn_id (update_runs P f t) = map rn_id t" "map run_session (update_runs P f t) = map run_session t"
  using assms by (simp_all add: update_runs_def)

lemma update_runs_ok [simp]:
  assumes "\<And>r. rn_id (f r) = rn_id r" and "\<And>r. run_session (f r) = run_session r"
  shows "runs_ok (update_runs P f t) \<longleftrightarrow> runs_ok t"
  unfolding runs_ok_def update_runs_keys [OF assms] ..

lemma update_runs_Ball: "(\<And>r. r \<in> set t \<Longrightarrow> Q (if P r then f r else r)) \<Longrightarrow> r \<in> set (update_runs P f t) \<Longrightarrow> Q r"
proof -
  assume *: "\<And>r. r \<in> set t \<Longrightarrow> Q (if P r then f r else r)" and "r \<in> set (update_runs P f t)"
  then obtain x where "x \<in> set t" "r = (if P x then f x else x)" unfolding update_runs_def by auto
  with * show "Q r" by blast
qed

lemma end_as_fields [simp]:
  "rn_id (end_as s n r) = rn_id r" "run_session (end_as s n r) = run_session r"
  "rn_status (end_as s n r) = s" "rn_endedAt (end_as s n r) = Some n" "rn_startedAt (end_as s n r) = rn_startedAt r"
  by (simp_all add: end_as_def run_session_def)

lemma closeRun_update: "closeRun p s e = update_runs (\<lambda>r. run_session r = (p, s)) (end_as ''completed'' e)"
  by (simp add: fun_eq_iff closeRun_def update_runs_def end_as_def)

section \<open>The states of a run\<close>

record run_world =
  rw_runs :: "run list"
  rw_events :: "run_event list"
  rw_now :: int

text \<open>What may happen to the tables, at the time on the clock.\<close>

inductive life_step :: "run_world \<Rightarrow> run_world \<Rightarrow> bool" where
  tick: "rw_now w \<le> now \<Longrightarrow> life_step w (w\<lparr>rw_now := now\<rparr>)"
| event_in: "rv_createdAt e = rw_now w \<Longrightarrow> life_step w (w\<lparr>rw_events := fst (insertRunEvent e (rw_events w))\<rparr>)"
| run_open: "na_status a = None \<Longrightarrow> insertRun (rw_now w) a (rw_runs w) = Inr t \<Longrightarrow> life_step w (w\<lparr>rw_runs := t\<rparr>)"
| run_close: "life_step w (w\<lparr>rw_runs := closeRun p s (rw_now w) (rw_runs w)\<rparr>)"
| run_resume: "life_step w (w\<lparr>rw_runs := resumeRun i (rw_runs w)\<rparr>)"
| run_cancel: "life_step w (w\<lparr>rw_runs := snd (cancelRun (rw_runs w) i (rw_now w))\<rparr>)"
| run_complete: "life_step w (w\<lparr>rw_runs := markRunCompleted i (rw_now w) (rw_runs w)\<rparr>)"
| run_fail: "life_step w (w\<lparr>rw_runs := markRunFailed i (rw_now w) (rw_runs w)\<rparr>)"
| run_sweep: "life_step w (w\<lparr>rw_runs := snd (sweepOnce fault threshold (rw_now w) (rw_events w) (rw_runs w))\<rparr>)"
| run_abandon: "life_step w (w\<lparr>rw_runs := snd (abandonStaleInProgressRuns p s window (rw_now w) (rw_events w) (rw_runs w))\<rparr>)"
| run_nudge: "life_step w (w\<lparr>rw_runs := markRunCompactionNudged i (rw_now w) (rw_runs w)\<rparr>)"
| run_base: "life_step w (w\<lparr>rw_runs := snd (captureBaseSha out p s (\<lambda>_ t. t) (rw_runs w))\<rparr>)"
| run_bump: "life_step w (w\<lparr>rw_runs := snd (bumpRunBaselineGeneration False i (rw_runs w))\<rparr>)"

inductive_cases life_stepE: "life_step w w'"

definition terminal_statuses :: "string set" where
  "terminal_statuses = {''completed'', ''failed'', ''cancelled'', ''abandoned''}"

definition well_ended :: "int \<Rightarrow> run \<Rightarrow> bool" where
  "well_ended now r \<longleftrightarrow> rn_startedAt r \<le> now \<and>
     (case rn_endedAt r of
        None \<Rightarrow> rn_status r = ''in_progress''
      | Some e \<Rightarrow> rn_status r \<in> terminal_statuses \<and> rn_startedAt r \<le> e \<and> e \<le> now)"

definition world_ok :: "run_world \<Rightarrow> bool" where
  "world_ok w \<longleftrightarrow> runs_ok (rw_runs w) \<and> list_all (well_ended (rw_now w)) (rw_runs w)"

lemma world_update:
  assumes "world_ok w" and "\<And>r. rn_id (f r) = rn_id r" and "\<And>r. run_session (f r) = run_session r"
    and "\<And>r. r \<in> set (rw_runs w) \<Longrightarrow> well_ended (rw_now w) r \<Longrightarrow> P r \<Longrightarrow> well_ended (rw_now w) (f r)"
  shows "world_ok (w\<lparr>rw_runs := update_runs P f (rw_runs w)\<rparr>)"
  using assms by (auto simp: world_ok_def list_all_iff elim!: update_runs_Ball [rotated])

lemma end_as_well: "well_ended now r \<Longrightarrow> s \<in> terminal_statuses \<Longrightarrow> well_ended now (end_as s now r)"
  by (auto simp: well_ended_def)

lemma resumed_well: "well_ended now r \<Longrightarrow> well_ended now (r\<lparr>rn_status := ''in_progress'', rn_endedAt := None\<rparr>)"
  by (auto simp: well_ended_def)

lemma well_ended_other [simp]:
  "well_ended now (r\<lparr>rn_compactionNudgedAt := c\<rparr>) = well_ended now r" "well_ended now (r\<lparr>rn_baseSha := b\<rparr>) = well_ended now r"
  "well_ended now (r\<lparr>rn_baselineGeneration := g\<rparr>) = well_ended now r"
  by (simp_all add: well_ended_def split: option.split)

lemma session_other [simp]:
  "run_session (r\<lparr>rn_status := x, rn_endedAt := e\<rparr>) = run_session r" "run_session (r\<lparr>rn_compactionNudgedAt := c\<rparr>) = run_session r"
  "run_session (r\<lparr>rn_baseSha := b\<rparr>) = run_session r" "run_session (r\<lparr>rn_baselineGeneration := g\<rparr>) = run_session r"
  by (simp_all add: run_session_def)

lemma terminal [simp]: "''completed'' \<in> terminal_statuses" "''failed'' \<in> terminal_statuses" "''cancelled'' \<in> terminal_statuses"
    "''abandoned'' \<in> terminal_statuses"
  by (simp_all add: terminal_statuses_def)

lemma capture_alone:
  "snd (captureBaseSha out p s (\<lambda>_ t. t) t) =
     (case defaultGitRevParseHead out of None \<Rightarrow> t | Some sha \<Rightarrow> update_runs (unbased p s) (\<lambda>r. r\<lparr>rn_baseSha := Some sha\<rparr>) t)"
proof -
  have none: "update_runs (unbased p s) f t = t" if "filter (unbased p s) t = []" for f
    using that by (auto simp: update_runs_def filter_empty_conv intro!: map_idI)
  have "snd (try_base_sha sha p s (map (\<lambda>_ t. t) [0..<n]) t) = (if n = 0 then t else update_runs (unbased p s) (\<lambda>r. r\<lparr>rn_baseSha := Some sha\<rparr>) t)"
    for sha n
  proof (cases "filter (unbased p s) t = []")
    case True
    have "snd (try_base_sha sha p s (replicate n (\<lambda>t. t)) t) = t" by (induction n) (simp_all add: True)
    with True none show ?thesis by (simp add: map_replicate_const)
  next
    case False
    then show ?thesis by (cases n) (simp_all add: map_replicate_const del: upt_Suc)
  qed
  then show ?thesis by (simp add: captureBaseSha_def UPDATE_RETRY_LIMIT_def split: option.split)
qed

lemma life_step_ok: "life_step w w' \<Longrightarrow> world_ok w \<Longrightarrow> world_ok w'"
proof (induction rule: life_step.induct)
  case (tick w now)
  then show ?case by (auto simp: world_ok_def list_all_iff well_ended_def split: option.splits)
next
  case (run_open a w t)
  let ?row = "run_row (rw_now w) a"
  have "runs_ok t" using run_open by (auto simp: world_ok_def intro: insertRun_ok)
  moreover have "set t \<subseteq> insert ?row (set (rw_runs w))"
    using run_open(2) sessions.new_row_only [of ?row "rw_runs w"] by (auto simp: insertRun_def Let_def split: if_splits)
  moreover have "well_ended (rw_now w) ?row" using run_open(1) by (simp add: well_ended_def run_row_def)
  ultimately show ?case using run_open(3) by (auto simp: world_ok_def list_all_iff)
next
  case (run_close w p s)
  then show ?case by (simp add: closeRun_update world_update end_as_well)
next
  case (run_resume w i)
  then show ?case by (simp add: resumeRun_def world_update resumed_well)
next
  case (run_cancel w i)
  then show ?case by (simp add: cancelRun_def world_update end_as_well Let_def split: option.split)
next
  case (run_complete w i)
  then show ?case by (simp add: markRunCompleted_def world_update end_as_well)
next
  case (run_fail w i)
  then show ?case by (simp add: markRunFailed_def world_update end_as_well)
next
  case (run_sweep w fault threshold)
  then show ?case by (simp add: sweepOnce_def world_update end_as_well Let_def)
next
  case (run_abandon w p s window)
  then show ?case by (simp add: abandonStaleInProgressRuns_def world_update end_as_well Let_def)
next
  case (run_nudge w i)
  then show ?case by (simp add: markRunCompactionNudged_def world_update)
next
  case (run_base w out p s)
  then show ?case by (simp add: capture_alone world_update split: option.split)
next
  case (run_bump w i)
  have "snd (bumpRunBaselineGeneration False i t) = update_runs (is_run i) (\<lambda>r. r\<lparr>rn_baselineGeneration := rn_baselineGeneration r + 1\<rparr>) t" for t
    by (simp add: bumpRunBaselineGeneration_def update_runs_def is_run_def Let_def)
  then show ?case using run_bump by (simp add: world_update)
qed (auto simp: world_ok_def)

text \<open>C22: In every reachable state a run is \<open>in_progress\<close> exactly when it has no end; an ended run has one of
  the four terminal states and ended no earlier than it started and not in the future.  Ids and
  sessions stay unique, whatever opens, resumes, cancels, completes, fails or sweeps runs.\<close>

theorem runs_well_ended:
  assumes "life_step\<^sup>*\<^sup>* \<lparr> rw_runs = [], rw_events = [], rw_now = t0 \<rparr> w"
  shows "runs_ok (rw_runs w) \<and> list_all (well_ended (rw_now w)) (rw_runs w)"
proof -
  from assms have "world_ok w"
  proof (induction rule: rtranclp_induct)
    case base
    show ?case by (simp add: world_ok_def runs_ok_def)
  qed (rule life_step_ok)
  then show ?thesis by (simp add: world_ok_def)
qed

definition sample_opened :: run where
  "sample_opened = run_row 1 (sample_run_args ''r1'' ''s'')"

lemma runs_well_ended_witness:
  "life_step\<^sup>*\<^sup>* \<lparr> rw_runs = [], rw_events = [], rw_now = 1 \<rparr>
     \<lparr> rw_runs = [end_as ''completed'' 9 (end_as ''cancelled'' 1 sample_opened)], rw_events = [], rw_now = 9 \<rparr> \<and>
   well_ended 9 (end_as ''completed'' 9 (end_as ''cancelled'' 1 sample_opened))"
    (is "?reach \<and> _")
proof -
  let ?w = "\<lambda>t n. \<lparr> rw_runs = t, rw_events = [], rw_now = n \<rparr>"
  let ?c = "end_as ''cancelled'' 1 sample_opened"
  have "insertRun 1 (sample_run_args ''r1'' ''s'') [] = Inr [sample_opened]"
    by (simp add: insertRun_def insertSession_def insert_or_ignore_def sample_opened_def Let_def)
  then have 1: "life_step (?w [] 1) (?w [sample_opened] 1)"
    using run_open [of "sample_run_args ''r1'' ''s''" "?w [] 1"] by (simp add: sample_run_args_def)
  have "snd (cancelRun [sample_opened] ''r1'' 1) = [?c]"
    by (simp add: cancelRun_def is_run_def sample_opened_def run_row_def sample_run_args_def first_row_def update_runs_def
        Let_def)
  then have 2: "life_step (?w [sample_opened] 1) (?w [?c] 1)" using run_cancel [of "?w [sample_opened] 1" "''r1''"] by simp
  have 3: "life_step (?w [?c] 1) (?w [?c] 9)" using tick [of "?w [?c] 1" 9] by simp
  have "markRunCompleted ''r1'' 9 [?c] = [end_as ''completed'' 9 ?c]"
    by (simp add: markRunCompleted_def update_runs_def is_run_def sample_opened_def run_row_def sample_run_args_def)
  then have 4: "life_step (?w [?c] 9) (?w [end_as ''completed'' 9 ?c] 9)" using run_complete [of "?w [?c] 9" "''r1''"] by simp
  from 1 2 3 4 have reach: ?reach by (meson rtranclp.rtrancl_into_rtrancl rtranclp.rtrancl_refl)
  from runs_well_ended [OF this] reach show ?thesis by simp
qed

section \<open>What a run keeps\<close>

definition continues :: "run \<Rightarrow> run \<Rightarrow> bool" where
  "continues r r' \<longleftrightarrow> rn_id r' = rn_id r \<and> run_session r' = run_session r \<and> rn_agentType r' = rn_agentType r \<and>
     rn_startedAt r' = rn_startedAt r \<and> rn_baseSha r \<in> {None, rn_baseSha r'} \<and>
     rn_baselineGeneration r \<le> rn_baselineGeneration r'"

lemma continues_refl [simp]: "continues r r"
  by (simp add: continues_def)

lemma continues_trans: "continues p q \<Longrightarrow> continues q r \<Longrightarrow> continues p r"
  by (auto simp: continues_def)

lemma continues_update: "(\<And>r. P r \<Longrightarrow> continues r (f r)) \<Longrightarrow> r \<in> set t \<Longrightarrow> \<exists>r' \<in> set (update_runs P f t). continues r r'"
  unfolding update_runs_def by (rule bexI [of _ "if P r then f r else r"]) auto

lemma continues_updates [simp]:
  "continues r (end_as s n r)" "continues r (r\<lparr>rn_status := x, rn_endedAt := e\<rparr>)" "continues r (r\<lparr>rn_compactionNudgedAt := c\<rparr>)"
  "continues r (r\<lparr>rn_baselineGeneration := rn_baselineGeneration r + 1\<rparr>)"
  "unbased p q r \<Longrightarrow> continues r (r\<lparr>rn_baseSha := b\<rparr>)"
  by (simp_all add: continues_def end_as_def run_session_def unbased_def)

lemma bump_update:
  "snd (bumpRunBaselineGeneration False i t) = update_runs (is_run i) (\<lambda>r. r\<lparr>rn_baselineGeneration := rn_baselineGeneration r + 1\<rparr>) t"
  by (simp add: bumpRunBaselineGeneration_def update_runs_def is_run_def Let_def)

lemma life_step_continues:
  "life_step w w' \<Longrightarrow> \<forall>r \<in> set (rw_runs w). \<exists>r' \<in> set (rw_runs w'). continues r r'"
proof (induction rule: life_step.induct)
  case (run_open a w t)
  then have "set (rw_runs w) \<subseteq> set t"
    using sessions.rows_survive [of "rw_runs w" "run_row (rw_now w) a"] by (auto simp: insertRun_def Let_def split: if_splits)
  then show ?case by (auto intro: continues_refl)
next
  case (run_cancel w i)
  then show ?case by (auto simp: cancelRun_def Let_def intro: continues_update continues_refl split: option.split)
next
  case (run_base w out p s)
  then show ?case by (auto simp: capture_alone intro: continues_update [OF continues_updates(5)] continues_refl split: option.split)
next
  case (run_sweep w fault threshold)
  then show ?case by (auto simp: sweepOnce_def Let_def intro: continues_update continues_refl)
qed (auto simp: closeRun_update resumeRun_def markRunCompleted_def markRunFailed_def abandonStaleInProgressRuns_def
    markRunCompactionNudged_def bump_update Let_def intro: continues_update continues_refl)

text \<open>A run row is never lost, and through everything that happens to it its id, project, session, agent and
  start stay what they were, the base commit once recorded is never replaced, and its compaction generation
  never decreases.\<close>

theorem run_kept:
  assumes "life_step\<^sup>*\<^sup>* w w'" and "r \<in> set (rw_runs w)"
  shows "\<exists>r' \<in> set (rw_runs w'). continues r r'"
  using assms
proof (induction rule: rtranclp_induct)
  case (step y z)
  then show ?case using life_step_continues [OF step(2)] by (meson continues_trans)
qed (auto intro: continues_refl)

section \<open>Cleanups end exactly the abandoned runs\<close>

text \<open>What has shown itself at work since the cutoff.\<close>

definition seen_since :: "int \<Rightarrow> run_event list \<Rightarrow> run \<Rightarrow> bool" where
  "seen_since cutoff events r \<longleftrightarrow> (\<exists>e \<in> set events. rv_runId e = Some (rn_id r) \<and> cutoff \<le> rv_createdAt e)"

lemma live_since_seen: "live_since events cutoff r \<longleftrightarrow> seen_since cutoff events r"
  by (simp add: live_since_def seen_since_def list_ex_iff)

lemma end_as_differs: "rn_status r = ''in_progress'' \<Longrightarrow> s \<noteq> ''in_progress'' \<Longrightarrow> end_as s n r \<noteq> r"
  by (auto simp: end_as_def dest: arg_cong [where f = rn_status])

lemma updated_rows:
  assumes "\<And>r. P r \<Longrightarrow> f r \<noteq> r"
  shows "length (filter (\<lambda>(r, r'). r \<noteq> r') (zip t (update_runs P f t))) = length (filter P t)"
  by (induction t) (auto simp: update_runs_def dest: assms)

lemma updated_ids: "(\<And>r. rn_id (f r) = rn_id r) \<Longrightarrow> map rn_id (update_runs P f t) = map rn_id t"
  by (simp add: update_runs_def)

lemma updated_member: "r \<in> set t \<Longrightarrow> (if P r then f r else r) \<in> set (update_runs P f t)"
  by (auto simp: update_runs_def)

text \<open>C23: Both cleanups, when their statements do not throw, keep every run, in its place, and end exactly the
  abandoned ones.  With the cutoff at the
  threshold (half an hour unless given) before now, a sweep gives the status \<open>cancelled\<close> and the
  end time now, and changes nothing else, for the runs that are in progress, started before the cutoff and have
  had no event since it; the cleanup of a starting session gives the status \<open>abandoned\<close> and the end time now
  to the other in-progress sessions of its project that have had no event since the cutoff.  Every other run
  is untouched.  The count each returns is the number of rows it changed, and a sweep repeated at once ends
  nothing more.\<close>

theorem cleanups_spare_live:
  fixes threshold :: "int option" and now :: int
  defines "cutoff \<equiv> now - nullish threshold 1800"
  assumes "sweepOnce False threshold now events t = (n, swept)"
    and "abandonStaleInProgressRuns p s threshold now events t = (m, left)"
  shows "map rn_id swept = map rn_id t \<and> map rn_id left = map rn_id t \<and>
    (\<forall>r \<in> set t.
      (if rn_status r = ''in_progress'' \<and> rn_startedAt r < cutoff \<and> \<not> seen_since cutoff events r
       then r\<lparr>rn_status := ''cancelled'', rn_endedAt := Some now\<rparr> else r) \<in> set swept \<and>
      (if rn_status r = ''in_progress'' \<and> rn_projectId r = p \<and> rn_sessionId r \<noteq> s \<and> \<not> seen_since cutoff events r
       then r\<lparr>rn_status := ''abandoned'', rn_endedAt := Some now\<rparr> else r) \<in> set left) \<and>
    n = length (filter (\<lambda>(r, r'). r \<noteq> r') (zip t swept)) \<and> m = length (filter (\<lambda>(r, r'). r \<noteq> r') (zip t left)) \<and>
    sweepOnce False threshold now events swept = (0, swept)"
proof (intro conjI ballI)
  let ?S = "stale cutoff events" and ?A = "abandonable p s cutoff events"
  let ?c = "end_as ''cancelled'' now" and ?a = "end_as ''abandoned'' now"
  have swept: "swept = update_runs ?S ?c t" "n = length (filter ?S t)"
    and left: "left = update_runs ?A ?a t" "m = length (filter ?A t)"
    using assms(2,3) by (simp_all add: sweepOnce_def abandonStaleInProgressRuns_def cutoff_def DEFAULT_THRESHOLD_SEC_def Let_def)
  show "map rn_id swept = map rn_id t" "map rn_id left = map rn_id t"
    by (simp_all add: swept left updated_ids end_as_def)
  show "(if rn_status r = ''in_progress'' \<and> rn_startedAt r < cutoff \<and> \<not> seen_since cutoff events r
       then r\<lparr>rn_status := ''cancelled'', rn_endedAt := Some now\<rparr> else r) \<in> set swept" if "r \<in> set t" for r
    using updated_member [OF that, of ?S ?c] unfolding swept stale_def live_since_seen end_as_def .
  show "(if rn_status r = ''in_progress'' \<and> rn_projectId r = p \<and> rn_sessionId r \<noteq> s \<and> \<not> seen_since cutoff events r
       then r\<lparr>rn_status := ''abandoned'', rn_endedAt := Some now\<rparr> else r) \<in> set left" if "r \<in> set t" for r
    using updated_member [OF that, of ?A ?a] by (auto simp: left abandonable_def live_since_seen end_as_def split: if_splits)
  show "n = length (filter (\<lambda>(r, r'). r \<noteq> r') (zip t swept))" "m = length (filter (\<lambda>(r, r'). r \<noteq> r') (zip t left))"
    unfolding swept left
    by (rule updated_rows [symmetric], rule end_as_differs, simp_all add: stale_def abandonable_def)+
  have "\<not> ?S r" if "r \<in> set swept" for r
    using that by (auto simp: swept update_runs_def stale_def end_as_def)
  then show "sweepOnce False threshold now events swept = (0, swept)"
    by (simp add: sweepOnce_def cutoff_def DEFAULT_THRESHOLD_SEC_def Let_def update_runs_def filter_empty_conv map_idI)
qed

definition sample_event :: "string \<Rightarrow> int \<Rightarrow> run_event" where
  "sample_event runId at' = \<lparr> rv_id = ''e'', rv_orgId = None, rv_projectId = None, rv_runId = Some runId, rv_phase = ''pre'',
     rv_toolName = ''Bash'', rv_toolUseId = ''t'', rv_toolInput = [], rv_outcome = None, rv_createdAt = at' \<rparr>"

lemma cleanups_spare_live_witness:
  "snd (sweepOnce False None 9000 [sample_event ''r1'' 8000] [sample_opened]) = [sample_opened] \<and>
   snd (sweepOnce False None 9000 [sample_event ''r1'' 7000] [sample_opened]) = [end_as ''cancelled'' 9000 sample_opened]"
proof -
  let ?sweep = "\<lambda>moment. snd (sweepOnce False None 9000 [sample_event ''r1'' moment] [sample_opened])"
  have run: "rn_id sample_opened = ''r1''" "rn_status sample_opened = ''in_progress''" "rn_startedAt sample_opened = 1"
    by (simp_all add: sample_opened_def run_row_def sample_run_args_def)
  have fate: "(if moment < 7200 then end_as ''cancelled'' 9000 sample_opened else sample_opened) \<in> set (?sweep moment)"
    and one: "length (?sweep moment) = 1" for moment
  proof -
    note ended = cleanups_spare_live [OF surjective_pairing surjective_pairing, of None 9000 "[sample_event ''r1'' moment]"
        "[sample_opened]" "''p''" "''x''"]
    show "length (?sweep moment) = 1" using ended [THEN conjunct1, THEN arg_cong [where f = length]] by simp
    show "(if moment < 7200 then end_as ''cancelled'' 9000 sample_opened else sample_opened) \<in> set (?sweep moment)"
      using ended [THEN conjunct2, THEN conjunct2, THEN conjunct1, THEN bspec, OF list.set_intros(1), THEN conjunct1] run
      by (simp add: seen_since_def sample_event_def end_as_def split: if_splits)
  qed
  show ?thesis using fate [of 8000] fate [of 7000] one [of 8000] one [of 7000] by (auto simp: length_Suc_conv)
qed

section \<open>One run per session\<close>

lemma select_session:
  assumes "runs_ok t" and "r \<in> set t" and "run_session r = (p, s)"
  shows "selectLatestRun t p s = Some r"
proof -
  let ?F = "filter (\<lambda>x. run_session x = (p, s)) t"
  have "set (order_by_desc rn_startedAt ?F) = {r}"
    using assms by (auto simp: runs_ok_def distinct_map inj_on_def)
  then show ?thesis unfolding selectLatestRun_def first_row_def
    by (cases "order_by_desc rn_startedAt ?F") auto
qed

lemma selected: "selectLatestRun t p s = Some r \<Longrightarrow> r \<in> set t \<and> run_session r = (p, s)"
  using first_row_in [of "order_by_desc rn_startedAt (filter (\<lambda>r. run_session r = (p, s)) t)" r]
  by (simp add: selectLatestRun_def)

lemma none_selected: "selectLatestRun t p s = None \<longleftrightarrow> (p, s) \<notin> run_session ` set t"
proof -
  have "order_by_desc k xs = [] \<longleftrightarrow> xs = []" for k :: "run \<Rightarrow> int" and xs by (metis set_empty set_order_by_desc)
  then show ?thesis by (auto simp: selectLatestRun_def first_row_None filter_empty_conv image_iff)
qed

definition rival_ok :: "run_id_env \<Rightarrow> bool" where
  "rival_ok env \<longleftrightarrow> (case gv_rival env of None \<Rightarrow> True | Some a \<Rightarrow> na_status a = None)"

text \<open>The run a call answers with is the session's, and it is in progress from then on.\<close>

lemma session_served:
  assumes ok: "runs_ok t" and rival: "rival_ok env"
    and run: "run_of_session env i p org t = (Inr (RunReady rid started), t')"
  defines "s \<equiv> nullish (gi_agentSessionId i) (gv_ctxSession env)"
  shows "runs_ok t' \<and> (\<exists>r \<in> set t'. run_session r = (p, s) \<and> rn_id r = rid \<and> rn_startedAt r = started \<and> rn_status r = ''in_progress'')"
proof (cases "selectLatestRun t p s")
  case (Some r)
  note sel = selected [OF Some]
  let ?f = "\<lambda>r. r\<lparr>rn_status := ''in_progress'', rn_endedAt := None\<rparr>"
  have eq: "rid = rn_id r" "started = rn_startedAt r" "t' = (if rn_status r \<noteq> ''in_progress'' then resumeRun (rn_id r) t else t)"
    using run Some by (auto simp: run_of_session_def s_def [symmetric] Let_def)
  show ?thesis
  proof (cases "rn_status r = ''in_progress''")
    case False
    have "?f r \<in> set (resumeRun (rn_id r) t)" using sel by (auto simp: resumeRun_def update_runs_def is_run_def)
    with False eq sel ok show ?thesis by (auto simp: resumeRun_def intro!: bexI [of _ "?f r"])
  qed (use eq sel ok in auto)
next
  case None
  define t1 where "t1 = (case gv_rival env of None \<Rightarrow> t | Some a \<Rightarrow> (case insertRun (gv_now env) a t of Inl _ \<Rightarrow> t | Inr u \<Rightarrow> u))"
  obtain k where k: "generateRunKey (gv_uuid env) p s = Inr k"
    using run None by (auto simp: run_of_session_def s_def [symmetric] Let_def split: sum.splits)
  let ?a = "new_run_args env i k p org" and ?row = "run_row (gv_now env) (new_run_args env i k p org)"
  have row: "run_session ?row = (p, s)" "rn_status ?row = ''in_progress''" by (simp_all add: new_run_args_def s_def run_row_def run_session_def)
  obtain t2 where t2: "insertRun (gv_now env) ?a t1 = Inr t2"
    using run None k by (auto simp: run_of_session_def s_def [symmetric] t1_def [symmetric] Let_def split: sum.splits)
  have ok1: "runs_ok t1" using ok by (auto simp: t1_def insertRun_ok split: option.split sum.split)
  have ok2: "runs_ok t2" by (rule insertRun_ok [OF ok1 t2])
  have t2_def: "t2 = fst (insertSession ?row t1)" using t2 by (auto simp: insertRun_def Let_def split: if_splits)
  show ?thesis
  proof (cases "run_session ?row \<in> run_session ` set t1")
    case False
    then have "(RunReady rid started, t') = (RunReady (rn_id ?row) (rn_startedAt ?row), t2)"
      using run None k t2 by (simp add: run_of_session_def s_def [symmetric] t1_def [symmetric] Let_def)
    moreover have "?row \<in> set t2" using False by (simp add: t2_def sessions.ins_fresh)
    ultimately show ?thesis using ok2 row by (auto intro!: bexI [of _ ?row])
  next
    case True
    then have "t2 = t1" by (simp add: t2_def sessions.ins_conflict)
    with True run None k t2 obtain r where r: "selectLatestRun t1 p s = Some r" "rid = rn_id r" "started = rn_startedAt r" "t' = t1"
      by (auto simp: run_of_session_def s_def [symmetric] t1_def [symmetric] Let_def split: option.splits)
    note sel = selected [OF r(1)]
    obtain a where a: "gv_rival env = Some a" "r = run_row (gv_now env) a"
    proof -
      have notin: "r \<notin> set t" using None sel unfolding none_selected by (metis imageI)
      then obtain a u where au: "gv_rival env = Some a" "insertRun (gv_now env) a t = Inr u" "r \<in> set u"
        using sel by (auto simp: t1_def split: option.splits sum.splits)
      then have "r = run_row (gv_now env) a"
        using notin sessions.new_row_only [of "run_row (gv_now env) a" t] by (auto simp: insertRun_def Let_def split: if_splits)
      with au that show ?thesis by blast
    qed
    with rival have "rn_status r = ''in_progress''" by (simp add: rival_ok_def run_row_def)
    with r sel ok1 show ?thesis by auto
  qed
qed

lemma served_again:
  assumes "runs_ok t" and "r \<in> set t" and "run_session r = (p, nullish (gi_agentSessionId i) (gv_ctxSession env))"
    and "rn_status r = ''in_progress''"
  shows "run_of_session env i p org t = (Inr (RunReady (rn_id r) (rn_startedAt r)), t)"
  using select_session [OF assms(1-3)] assms(4) by (simp add: run_of_session_def Let_def)

text \<open>After \<open>ensureProject\<close> with a directory, the slug names a project that has one.\<close>

lemma ensured_lookup:
  assumes run: "ensureProject env a db = (Inr res, db')" and c: "ea_cwd a = Some c" and alone: "ee_rival env = None"
  shows "\<exists>q. lookupProjectBySlug (rg_projects db') (ea_slug a) = Some q \<and> pj_id q = es_id res \<and> pj_cwd q \<noteq> None \<and>
    (isLocalOnlyOrg (Some (nullish (ea_orgId a) SOLO_ORG_ID)) \<or> pj_orgId q = nullish (ea_orgId a) SOLO_ORG_ID)"
proof (cases "lookupProjectBySlug (rg_projects db) (ea_slug a)")
  case (Some p)
  let ?o = "nullish (ea_orgId a) SOLO_ORG_ID"
  define db1 where "db1 = (if isLocalOnlyOrg (Some (pj_orgId p)) \<and> \<not> isLocalOnlyOrg (Some ?o) then promote env ?o p db else db)"
  have ex: "ensure_existing env a p db = (Inr res, db')" using run Some by (simp add: ensureProject_def)
  then have db': "db' = (if pj_cwd p = None then backfill env c p db1 else db1)" and i: "es_id res = pj_id p"
    and org: "isLocalOnlyOrg (Some (pj_orgId p)) \<or> isLocalOnlyOrg (Some ?o) \<or> pj_orgId p = ?o"
    using c by (auto simp: ensure_existing_def Let_def db1_def split: if_splits)
  obtain q where q: "lookupProjectBySlug (rg_projects db1) (ea_slug a) = Some q" "pj_id q = pj_id p" "pj_cwd q = pj_cwd p"
    "isLocalOnlyOrg (Some ?o) \<or> pj_orgId q = ?o"
    by (rule that [of "if isLocalOnlyOrg (Some (pj_orgId p)) \<and> \<not> isLocalOnlyOrg (Some ?o)
          then p\<lparr>pj_orgId := ?o, pj_updatedAt := ee_now env\<rparr> else p"])
      (use Some org in \<open>auto simp: db1_def lookup_updated\<close>)
  then show ?thesis using i by (auto simp: db' lookup_updated)
next
  case None
  let ?i = "nullish (ea_idOverride a) (ee_uuid env)"
  let ?row = "\<lparr> pj_id = ?i, pj_slug = ea_slug a, pj_orgId = nullish (ea_orgId a) SOLO_ORG_ID,
      pj_name = nullish (ea_name a) (ea_slug a), pj_cwd = ea_cwd a, pj_updatedAt = ee_now env \<rparr>"
  have slug: "ea_slug a \<notin> pj_slug ` set (rg_projects db)"
    using None by (auto simp: lookupProjectBySlug_def first_row_None filter_empty_conv)
  then have f: "filter (\<lambda>p. pj_slug p = ea_slug a) (rg_projects db @ [?row]) = [?row]" by (force simp: filter_empty_conv)
  have added: "fst (insertProject ?row (rg_projects db)) = rg_projects db @ [?row]" using slug by (subst projects.ins_fresh) simp_all
  have look: "lookupProjectBySlug (rg_projects db @ [?row]) (ea_slug a) = Some ?row"
    unfolding lookupProjectBySlug_def f by (simp add: first_row_def)
  have "ensure_fresh env a db = (Inr res, db')" using run None alone by (simp add: ensureProject_def)
  then have "rg_projects db' = rg_projects db @ [?row]" "es_id res = ?i"
    using added look by (auto simp: ensure_fresh_def Let_def split: if_splits)
  with look c show ?thesis by simp
qed

lemma resolved_lookup:
  assumes "resolveOrRegisterProject env i db = (Inr (Some (pid, org)), db')" and "ee_rival (gv_ensure env) = None"
  shows "\<exists>q. lookupProjectBySlug (rg_projects db') (gi_projectSlug i) = Some q \<and> pj_id q = pid \<and> pj_cwd q \<noteq> None"
proof -
  have reg: ?thesis if r: "registerProject env i db = (Inr (Some (pid, org)), db')"
  proof -
    from r have allow: "allow_register env i" by (auto simp: registerProject_def split: if_splits)
    then obtain c where c: "gi_cwd i = Some c" by (auto simp: allow_register_def split: option.splits)
    let ?a = "\<lparr> ea_slug = gi_projectSlug i, ea_name = None, ea_orgId = Some SOLO_IDENTITY_orgId,
        ea_cwd = gi_cwd i, ea_idOverride = None \<rparr>"
    obtain res where "ensureProject (gv_ensure env) ?a db = (Inr res, db')" "pid = es_id res"
      using r allow by (auto simp: registerProject_def split: prod.splits sum.splits)
    from ensured_lookup [OF this(1) _ assms(2)] c this(2) show ?thesis by auto
  qed
  show ?thesis
  proof (cases "lookupProjectBySlug (rg_projects db) (gi_projectSlug i)")
    case None
    with assms(1) reg show ?thesis by (simp add: resolveOrRegisterProject_def)
  next
    case (Some p)
    with assms(1) reg show ?thesis by (auto simp: resolveOrRegisterProject_def split: if_splits)
  qed
qed

text \<open>The registry of a later moment: slugs are unique, and every project is still there with its id, slug and
  name, and with a directory once it has one; so do racing calls of \<open>ensureProject\<close> leave it.\<close>

definition registry_later :: "registry \<Rightarrow> registry \<Rightarrow> bool" where
  "registry_later db db' \<longleftrightarrow> registry_ok db' \<and> (\<forall>q \<in> set (rg_projects db). \<exists>q' \<in> set (rg_projects db'). endures q q')"

lemma later_lookup:
  assumes "registry_later db db'" and "lookupProjectBySlug (rg_projects db) slug = Some q"
  shows "\<exists>q'. lookupProjectBySlug (rg_projects db') slug = Some q' \<and> endures q q'"
proof -
  have q: "q \<in> set (rg_projects db)" "pj_slug q = slug"
    using assms(2) first_row_in [of "filter (\<lambda>p. pj_slug p = slug) (rg_projects db)" q] by (auto simp: lookupProjectBySlug_def)
  with assms(1) obtain q' where q': "q' \<in> set (rg_projects db')" "endures q q'" by (auto simp: registry_later_def)
  let ?F = "filter (\<lambda>p. pj_slug p = slug) (rg_projects db')"
  have slug: "pj_slug q' = slug" and inj: "inj_on pj_slug (set (rg_projects db'))"
    using assms(1) q' q(2) by (simp_all add: registry_later_def registry_ok_def distinct_map endures_def)
  have "x = q'" if "x \<in> set ?F" for x using that q'(1) slug by (intro inj_onD [OF inj]) simp_all
  moreover have "q' \<in> set ?F" using q'(1) slug by simp
  ultimately have "set ?F = {q'}" by blast
  then have "lookupProjectBySlug (rg_projects db') slug = Some q'"
    unfolding lookupProjectBySlug_def first_row_def by (cases ?F) auto
  with q'(2) show ?thesis by blast
qed

lemma life_step_runs_ok: "life_step w w' \<Longrightarrow> runs_ok (rw_runs w) \<Longrightarrow> runs_ok (rw_runs w')"
proof (induction rule: life_step.induct)
  case (run_open a w t)
  then show ?case by (auto intro: insertRun_ok)
next
  case (run_cancel w i)
  then show ?case by (simp add: cancelRun_def Let_def split: option.split)
next
  case (run_base w out p s)
  then show ?case by (simp add: capture_alone split: option.split)
next
  case (run_sweep w fault threshold)
  then show ?case by (simp add: sweepOnce_def Let_def)
qed (simp_all add: closeRun_update resumeRun_def markRunCompleted_def markRunFailed_def abandonStaleInProgressRuns_def
    markRunCompactionNudged_def bump_update Let_def)

text \<open>Whatever happened to a session's run since, the row is still the session's.\<close>

lemma run_still_there:
  assumes "life_step\<^sup>*\<^sup>* w w'" and "runs_ok (rw_runs w)" and "r \<in> set (rw_runs w)"
  shows "runs_ok (rw_runs w') \<and>
    (\<exists>r' \<in> set (rw_runs w'). rn_id r' = rn_id r \<and> run_session r' = run_session r \<and> rn_startedAt r' = rn_startedAt r)"
proof
  show "runs_ok (rw_runs w')" using assms(1,2) by (induction rule: rtranclp_induct) (auto intro: life_step_runs_ok)
  show "\<exists>r' \<in> set (rw_runs w'). rn_id r' = rn_id r \<and> run_session r' = run_session r \<and> rn_startedAt r' = rn_startedAt r"
    using run_kept [OF assms(1,3)] by (auto simp: continues_def)
qed

text \<open>The answer to a session that has a run: that run, resumed when it had ended.\<close>

lemma served_by_its_run:
  assumes "runs_ok t" and "r \<in> set t" and "run_session r = (p, nullish (gi_agentSessionId i) (gv_ctxSession env))"
  shows "run_of_session env i p org t = (Inr (RunReady (rn_id r) (rn_startedAt r)),
    if rn_status r = ''in_progress'' then t
    else map (\<lambda>x. if rn_id x = rn_id r then x\<lparr>rn_status := ''in_progress'', rn_endedAt := None\<rparr> else x) t)"
  using select_session [OF assms] by (auto simp: run_of_session_def resumeRun_def update_runs_def is_run_def Let_def)

text \<open>The project a call serves is one that a later call finds under the slug, with what it needs.\<close>

lemma served_project:
  assumes run: "getRunIdHandler env i st = (Inr (RunReady rid started), st')" and alone: "ee_rival (gv_ensure env) = None"
  obtains q org where "lookupProjectBySlug (rg_projects (st_registry st')) (gi_projectSlug i) = Some q"
    and "\<not> gv_team env \<longrightarrow> pj_cwd q \<noteq> None"
    and "run_of_session env i (pj_id q) org (st_runs st) = (Inr (RunReady rid started), st_runs st')"
proof (cases "gv_team env")
  case True
  with run that show ?thesis by (auto simp: getRunIdHandler_def Let_def split: option.splits prod.splits)
next
  case False
  with run obtain pid org db' t' where p: "resolveOrRegisterProject env i (st_registry st) = (Inr (Some (pid, org)), db')"
    "run_of_session env i pid org (st_runs st) = (Inr (RunReady rid started), t')"
    "st' = \<lparr> st_registry = db', st_runs = t' \<rparr>"
    by (auto simp: getRunIdHandler_def Let_def split: option.splits prod.splits sum.splits)
  with resolved_lookup [OF p(1) alone] that show ?thesis by auto
qed

lemma served_later:
  assumes "lookupProjectBySlug (rg_projects (st_registry st)) (gi_projectSlug i) = Some q"
    and "\<not> gv_team env \<longrightarrow> pj_cwd q \<noteq> None"
    and "run_of_session env i (pj_id q) (pj_orgId q) (st_runs st) = (Inr (RunReady rid started), t')"
  shows "getRunIdHandler env i st = (Inr (RunReady rid started), st\<lparr>st_runs := t'\<rparr>)"
  using assms by (auto simp: getRunIdHandler_def resolveOrRegisterProject_def Let_def)

text \<open>C24: A session has one run. Once \<open>get_run_id\<close> has answered a session of a project with
  a run, in solo or team mode, whether it opened the run, lost the race to open it to a process that opened it
  in progress, or resumed it, every later call in that mode for the same project slug and session id gives the
  same run id and start, whatever else the call says, whoever races it, and whatever happened to the runs in
  between: other sessions opening, this run closed, cancelled, swept or resumed. The registry may have changed
  as racing calls of \<open>ensureProject\<close> change it: slugs stay unique, each project keeps its id, slug
  and name, a directory and a real organisation once it has one. If the first call itself registers the project,
  no other process inserts it at the same time. The later call leaves the registry as it is and changes no other
  run; it changes its own run only when it had ended, which is then in progress again and without an
  end.\<close>

theorem get_run_id_idempotent:
  assumes ok: "runs_ok (st_runs st)" and rivals: "rival_ok env" "ee_rival (gv_ensure env) = None"
    and run: "getRunIdHandler env i st = (Inr (RunReady rid started), st')"
    and later: "life_step\<^sup>*\<^sup>* \<lparr> rw_runs = st_runs st', rw_events = events, rw_now = now \<rparr> w" "st_runs st2 = rw_runs w"
      "registry_later (st_registry st') (st_registry st2)"
    and same: "gv_team env' = gv_team env" "gi_projectSlug i' = gi_projectSlug i"
      "nullish (gi_agentSessionId i') (gv_ctxSession env') = nullish (gi_agentSessionId i) (gv_ctxSession env)"
  shows "\<exists>r \<in> set (st_runs st2). rn_id r = rid \<and> rn_startedAt r = started \<and>
    rn_sessionId r = nullish (gi_agentSessionId i) (gv_ctxSession env) \<and>
    getRunIdHandler env' i' st2 = (Inr (RunReady rid started),
      if rn_status r = ''in_progress'' then st2
      else st2\<lparr>st_runs := map (\<lambda>x. if rn_id x = rid then x\<lparr>rn_status := ''in_progress'', rn_endedAt := None\<rparr> else x)
        (st_runs st2)\<rparr>)"
proof -
  let ?s = "nullish (gi_agentSessionId i) (gv_ctxSession env)"
  obtain q org where q: "lookupProjectBySlug (rg_projects (st_registry st')) (gi_projectSlug i) = Some q"
    "\<not> gv_team env \<longrightarrow> pj_cwd q \<noteq> None"
    and served: "run_of_session env i (pj_id q) org (st_runs st) = (Inr (RunReady rid started), st_runs st')"
    using served_project [OF run rivals(2)] .
  obtain r0 where r0: "runs_ok (st_runs st')" "r0 \<in> set (st_runs st')" "run_session r0 = (pj_id q, ?s)" "rn_id r0 = rid"
    "rn_startedAt r0 = started"
    using session_served [OF ok rivals(1) served] by blast
  then obtain r where r: "runs_ok (st_runs st2)" "r \<in> set (st_runs st2)" "run_session r = (pj_id q, ?s)" "rn_id r = rid"
    "rn_startedAt r = started"
    using run_still_there [OF later(1), of r0] later(2) by auto
  obtain q' where q': "lookupProjectBySlug (rg_projects (st_registry st2)) (gi_projectSlug i') = Some q'" "endures q q'"
    using later_lookup [OF later(3) q(1)] same(2) by auto
  then have id': "pj_id q' = pj_id q" "\<not> gv_team env' \<longrightarrow> pj_cwd q' \<noteq> None"
    using q(2) same(1) by (auto simp: endures_def)
  have "run_session r = (pj_id q', nullish (gi_agentSessionId i') (gv_ctxSession env'))" using r(3) id' same(3) by simp
  from served_later [OF q'(1) id'(2) served_by_its_run [OF r(1,2) this, of "pj_orgId q'"]] r
  show ?thesis by (intro bexI [of _ r]) (auto simp: run_session_def)
qed

text \<open>A project that solo \<open>get_run_id\<close> registers, or gives its directory, belongs from then on to the
  organisation \<open>org_dev_local\<close>, which the registry takes for a real one: promoting it to a team's
  organisation fails with a mismatch.\<close>

theorem registered_project_cannot_join_team:
  assumes reg: "registerProject env i db = (Inr (Some (pid, org)), db')" and alone: "ee_rival (gv_ensure env) = None"
    and team: "\<not> isLocalOnlyOrg (Some teamOrg)" "teamOrg \<noteq> ''org_dev_local''"
  shows "ensureProject env2 \<lparr> ea_slug = gi_projectSlug i, ea_name = None, ea_orgId = Some teamOrg, ea_cwd = None, ea_idOverride = None \<rparr> db' =
    (Inl (OrgMismatch ''org_dev_local'' teamOrg), db')"
proof -
  from reg have allow: "allow_register env i" by (auto simp: registerProject_def split: if_splits)
  then obtain c where c: "gi_cwd i = Some c" by (auto simp: allow_register_def split: option.splits)
  let ?a = "\<lparr> ea_slug = gi_projectSlug i, ea_name = None, ea_orgId = Some SOLO_IDENTITY_orgId,
      ea_cwd = gi_cwd i, ea_idOverride = None \<rparr>"
  obtain res where ran: "ensureProject (gv_ensure env) ?a db = (Inr res, db')"
    using reg allow by (auto simp: registerProject_def split: prod.splits sum.splits)
  have real: "\<not> isLocalOnlyOrg (Some SOLO_IDENTITY_orgId)"
    by (simp add: isLocalOnlyOrg_def SOLO_IDENTITY_orgId_def SOLO_ORG_ID_def GLOBAL_ORG_ID_def)
  from ensured_lookup [OF ran _ alone] c real obtain q where
    "lookupProjectBySlug (rg_projects db') (gi_projectSlug i) = Some q" "pj_orgId q = SOLO_IDENTITY_orgId" by auto
  with team real show ?thesis
    by (auto simp: ensureProject_def ensure_existing_def SOLO_IDENTITY_orgId_def)
qed

section \<open>Witnesses\<close>

definition sample_run_env :: run_id_env where
  "sample_run_env = \<lparr> gv_team = False, gv_config = (\<lambda>_. None), gv_ensure = sample_ensure_env, gv_ctxSession = ''x'',
     gv_ctxAgentType = ''unknown'', gv_uuid = ''u'', gv_now = 1, gv_rival = None \<rparr>"

definition sample_run_input :: run_id_input where
  "sample_run_input = \<lparr> gi_projectSlug = ''app'', gi_agentSessionId = Some ''s'', gi_agentType = None, gi_cwd = Some ''/w'',
     gi_confirmRegister = True \<rparr>"

definition known_project :: registry where
  "known_project = empty_registry\<lparr>rg_projects := [(solo_project ''__solo__'')\<lparr>pj_cwd := Some ''/w''\<rparr>]\<rparr>"

definition ended_run :: run where
  "ended_run = end_as ''completed'' 5 sample_opened"

lemma get_run_id_idempotent_witness:
  "\<exists>st'. getRunIdHandler sample_run_env sample_run_input \<lparr> st_registry = known_project, st_runs = [ended_run] \<rparr> =
     (Inr (RunReady ''r1'' 1), st') \<and>
   fst (getRunIdHandler (sample_run_env\<lparr>gv_now := 99\<rparr>) (sample_run_input\<lparr>gi_cwd := None\<rparr>)
     (st'\<lparr>st_runs := closeRun ''p'' ''s'' 50 (st_runs st')\<rparr>)) = Inr (RunReady ''r1'' 1)"
proof -
  let ?st = "\<lparr> st_registry = known_project, st_runs = [ended_run] \<rparr>"
  have "run_session ended_run = (''p'', ''s'')" "rn_id ended_run = ''r1''" "rn_startedAt ended_run = 1" "rn_status ended_run = ''completed''"
    by (simp_all add: ended_run_def sample_opened_def run_row_def sample_run_args_def run_session_def end_as_def)
  then obtain st' where st': "getRunIdHandler sample_run_env sample_run_input ?st = (Inr (RunReady ''r1'' 1), st')"
    "st_registry st' = known_project"
    by (simp add: getRunIdHandler_def resolveOrRegisterProject_def lookupProjectBySlug_def first_row_def known_project_def
        solo_project_def empty_registry_def sample_run_env_def sample_run_input_def run_of_session_def selectLatestRun_def
        order_by_desc_def resumeRun_def update_runs_def is_run_def)
  let ?w = "\<lparr> rw_runs = st_runs st', rw_events = [], rw_now = 50 \<rparr>"
  have closed: "life_step\<^sup>*\<^sup>* ?w (?w\<lparr>rw_runs := closeRun ''p'' ''s'' 50 (st_runs st')\<rparr>)"
    using life_step.run_close [of ?w "''p''" "''s''"] by simp
  have "fst (getRunIdHandler (sample_run_env\<lparr>gv_now := 99\<rparr>) (sample_run_input\<lparr>gi_cwd := None\<rparr>)
     (st'\<lparr>st_runs := closeRun ''p'' ''s'' 50 (st_runs st')\<rparr>)) = Inr (RunReady ''r1'' 1)"
    using get_run_id_idempotent [OF _ _ _ st'(1) closed, of "st'\<lparr>st_runs := closeRun ''p'' ''s'' 50 (st_runs st')\<rparr>"
        "sample_run_env\<lparr>gv_now := 99\<rparr>" "sample_run_input\<lparr>gi_cwd := None\<rparr>"]
    by (auto simp: st'(2) sample_run_env_def sample_ensure_env_def rival_ok_def runs_ok_def registry_later_def registry_ok_def
        known_project_def empty_registry_def sample_run_input_def split: if_splits)
  with st' show ?thesis by blast
qed

end
