(* ===== verification/Decision_Store.thy ===== *)
theory Decision_Store
  imports Project_Registry Context_Pack Runs "HOL-Library.Sublist"
begin

text \<open>
  The memory of decisions: \<open>apps/mcp-server/src/tools/record-decision/handler.ts\<close> with the target classifier
  \<open>packages/shared/src/decision-targets.ts\<close> and the actor check of \<open>lib/actor-identity.ts\<close>.  A decision row is
  written once; what it replaces and what it affects are edges beside it.

  Parameters of a call: \<open>dw_sha256\<close> (hexadecimal), \<open>dw_stringify\<close> and \<open>dw_jparse\<close> for \<open>JSON\<close> (\<open>None\<close> when
  parsing throws), the minted id, the clocks, and the claims of the verified Clerk token.  The minted
  ids and the creation times of edges and links are left out: no code reads them.  The one-character
  ellipsis lies outside the string model, so an elision is three dots here.

  \<open>recordDecisionHandler\<close> is a call that runs to its end with no other call in between.  The code writes the row, the
  links and the edges in separate statements without a transaction; \<open>call_writes\<close> lists them and \<open>broken_call\<close>
  is a call that stops after some of them.
\<close>

section \<open>What an impact entry names\<close>

datatype target_type = FileTarget | WorkPackTarget | GraphNodeTarget | ConceptTarget | DecisionTarget

definition isElidedPath :: "string \<Rightarrow> bool" where
  "isElidedPath value = sublist ''...'' value"

definition alnum_char :: "char \<Rightarrow> bool" where
  "alnum_char c \<longleftrightarrow> c \<in> set ''abcdefghijklmnopqrstuvwxyzABCDEFGHIJKLMNOPQRSTUVWXYZ0123456789''"

text \<open>The end of the text matches \<open>\.[A-Za-z0-9]{1,6}\<close>.\<close>

definition short_extension :: "string \<Rightarrow> bool" where
  "short_extension value =
     (let ext = takeWhile alnum_char (rev value); rest = dropWhile alnum_char (rev value) in
      1 \<le> length ext \<and> length ext \<le> 6 \<and> rest \<noteq> [] \<and> hd rest = CHR ''.'')"

definition looksLikeFilePath :: "string \<Rightarrow> bool" where
  "looksLikeFilePath value \<longleftrightarrow> CHR ''/'' \<in> set value \<and> short_extension value \<and> \<not> isElidedPath value"

text \<open>The first prefix of the list that the text starts with decides.\<close>

fun prefixed_target :: "string \<Rightarrow> (string \<times> target_type) list \<Rightarrow> (target_type \<times> string) option option" where
  "prefixed_target value [] = None"
| "prefixed_target value ((p, targetType) # ps) =
     (if prefix p value
      then (let targetId = trim (drop (length p) value) in
            Some (if targetId \<noteq> [] then Some (targetType, targetId) else None))
      else prefixed_target value ps)"

definition classifyImpactTarget :: "string \<Rightarrow> (target_type \<times> string) option" where
  "classifyImpactTarget raw =
     (let value = trim raw in
      if value = [] then None
      else case prefixed_target value [(''graph_node:'', GraphNodeTarget), (''work_pack:'', WorkPackTarget)] of
             Some res \<Rightarrow> res
           | None \<Rightarrow> Some (if looksLikeFilePath value then FileTarget else ConceptTarget, value))"

section \<open>Tables\<close>

record bound_run = run +
  rn_workPackId :: "string option"
  rn_issueRef :: "string option"

record project_pack = work_pack_row +
  wp_projectId :: string

record decision =
  dm_id :: string
  dm_orgId :: "string option"
  dm_projectId :: "string option"
  dm_idempotencyKey :: string
  dm_runId :: "string option"
  dm_description :: string
  dm_rationale :: string
  dm_alternatives :: "string option"
  dm_context :: "string option"
  dm_impact :: "string option"
  dm_confidence :: "string option"
  dm_reversible :: "bool option"
  dm_createdByUserId :: "string option"
  dm_createdAt :: int

datatype edge_type = Supersedes | Affects

record edge =
  eg_projectId :: string
  eg_from :: string
  eg_type :: edge_type
  eg_targetType :: target_type
  eg_targetId :: string
  eg_metadata :: string

record pack_decision_link =
  dl_orgId :: "string option"
  dl_projectId :: string
  dl_workPackId :: string
  dl_decisionId :: string

record decision_db =
  dd_decisions :: "decision list"
  dd_edges :: "edge list"
  dd_links :: "pack_decision_link list"
  dd_packs :: "project_pack list"
  dd_jobs :: "job list"

definition edge_key :: "edge \<Rightarrow> string \<times> edge_type \<times> target_type \<times> string" where
  "edge_key e = (eg_from e, eg_type e, eg_targetType e, eg_targetId e)"

definition link_key :: "pack_decision_link \<Rightarrow> string \<times> string" where
  "link_key l = (dl_workPackId l, dl_decisionId l)"

definition insertEdge :: "edge \<Rightarrow> edge list \<Rightarrow> edge list \<times> bool" where
  "insertEdge = insert_or_ignore edge_key"

definition insertLink :: "pack_decision_link \<Rightarrow> pack_decision_link list \<Rightarrow> pack_decision_link list \<times> bool" where
  "insertLink = insert_or_ignore link_key"

interpretation edges: keyed_table edge_key insertEdge
  unfolding insertEdge_def by (rule insert_or_ignore_keyed)

interpretation pack_links: keyed_table link_key insertLink
  unfolding insertLink_def by (rule insert_or_ignore_keyed)

text \<open>\<open>[...new Set(xs)]\<close>: the first occurrence of every element, in order.\<close>

definition js_set :: "'a list \<Rightarrow> 'a list" where
  "js_set xs = rev (remdups (rev xs))"

lemma set_js_set [simp]: "set (js_set xs) = set xs"
  by (simp add: js_set_def)

lemma distinct_js_set [simp]: "distinct (js_set xs)"
  by (simp add: js_set_def)

section \<open>Actor\<close>

record actor =
  ac_userId :: string
  ac_orgId :: string

datatype require_actor = Identity "actor option" | ActorRequired

text \<open>\<open>claims\<close> is what \<open>readVerifiedToken\<close> yields, \<open>None\<close> also when it throws.\<close>

definition requireActorIdentityForTeamMode :: "bool \<Rightarrow> actor option \<Rightarrow> require_actor" where
  "requireActorIdentityForTeamMode configTeam claims =
     (if \<not> configTeam then Identity None
      else case claims of Some a \<Rightarrow> Identity (Some a) | None \<Rightarrow> ActorRequired)"

section \<open>Input and environment\<close>

record decision_input =
  di_runId :: string
  di_description :: string
  di_rationale :: string
  di_alternatives :: "string list option"
  di_context :: "string option"
  di_impact :: "string list option"
  di_confidence :: "string option"
  di_reversible :: "bool option"
  di_supersedesDecisionIds :: "string list option"
  di_workPackSlugs :: "string list option"

record decision_env =
  dw_runs :: "bound_run list"
  dw_projects :: "project list"
  dw_configTeam :: bool
  dw_envTeam :: bool
  dw_claims :: "actor option"
  dw_uuid :: string
  dw_now :: int
  dw_sha256 :: "string \<Rightarrow> string"
  dw_stringify :: "js \<Rightarrow> string"
  dw_jparse :: "string \<Rightarrow> js option"
  dw_jobId :: string

datatype record_answer =
    RunNotFound
  | AuthRequired
  | SupersedesNotFound string
  | SupersessionCycle string
  | DecisionRecorded string int bool "(string \<times> string \<times> string) list"

section \<open>Reads\<close>

definition computeIdempotencyKey :: "(string \<Rightarrow> string) \<Rightarrow> string \<Rightarrow> string \<Rightarrow> string" where
  "computeIdempotencyKey sha256 runId description =
     ''dec:'' @ runId @ '':'' @ take 32 (sha256 description)"

record run_attribution =
  rb_projectId :: string
  rb_orgId :: "string option"
  rb_workPackId :: "string option"

definition selectRunAttribution :: "bound_run list \<Rightarrow> project list \<Rightarrow> string \<Rightarrow> run_attribution option" where
  "selectRunAttribution runs projects runId =
     first_row (concat (map (\<lambda>r. map (\<lambda>p.
         \<lparr> rb_projectId = rn_projectId r, rb_orgId = nullish_opt (rn_orgId r) (Some (pj_orgId p)),
           rb_workPackId = rn_workPackId r \<rparr>)
       (filter (\<lambda>p. pj_id p = rn_projectId r) projects)) (filter (\<lambda>r. rn_id r = runId) runs)))"

definition selectWorkPackIdBySlug :: "project_pack list \<Rightarrow> string \<Rightarrow> string \<Rightarrow> string option" where
  "selectWorkPackIdBySlug t projectId slug =
     map_option wp_id (first_row (filter (\<lambda>w. wp_projectId w = projectId \<and> wp_slug w = slug) t))"

definition selectByIdempotencyKey :: "decision list \<Rightarrow> string \<Rightarrow> decision option" where
  "selectByIdempotencyKey t key = first_row (filter (\<lambda>d. dm_idempotencyKey d = key) t)"

definition selectDecisionTarget :: "decision list \<Rightarrow> string \<Rightarrow> decision option" where
  "selectDecisionTarget t i = (if i = [] then None else List.find (\<lambda>d. dm_id d = i) t)"

definition supersedes_edge :: "edge \<Rightarrow> bool" where
  "supersedes_edge e \<longleftrightarrow> eg_type e = Supersedes \<and> eg_targetType e = DecisionTarget"

definition selectSupersededTargets :: "edge list \<Rightarrow> string \<Rightarrow> string list" where
  "selectSupersededTargets t decisionId =
     map eg_targetId (filter (\<lambda>e. eg_from e = decisionId \<and> supersedes_edge e) t)"

definition selectIncomingSupersededTargetIds :: "edge list \<Rightarrow> string list \<Rightarrow> string list" where
  "selectIncomingSupersededTargetIds t decisionIds =
     js_set (map eg_targetId (filter (\<lambda>e. supersedes_edge e \<and> eg_targetId e \<in> set decisionIds) t))"

section \<open>The cycle check\<close>

text \<open>The stack is a list with its top in front: pushing \<open>xs\<close> leaves the last of them on top.\<close>

definition sources :: "edge list \<Rightarrow> string set" where
  "sources t = eg_from ` set t"

lemma no_source_no_targets: "i \<notin> sources t \<Longrightarrow> selectSupersededTargets t i = []"
  by (auto simp: sources_def selectSupersededTargets_def filter_empty_conv)

function cycle_search :: "edge list \<Rightarrow> string \<Rightarrow> string list \<Rightarrow> string list \<Rightarrow> bool" where
  "cycle_search t origin seen [] = False"
| "cycle_search t origin seen (current # stack) =
     (if current \<in> set seen then cycle_search t origin seen stack
      else if current = origin then True
      else cycle_search t origin (current # seen) (rev (selectSupersededTargets t current) @ stack))"
  by pat_completeness auto

termination
proof (relation "inv_image (less_than <*lex*> less_than)
    (\<lambda>(t, origin, seen, stack). (card (sources t - set seen), length stack))")
  fix t :: "edge list" and origin current :: string and seen stack :: "string list"
  assume new: "current \<notin> set seen"
  show "((t, origin, current # seen, rev (selectSupersededTargets t current) @ stack), (t, origin, seen, current # stack))
     \<in> inv_image (less_than <*lex*> less_than) (\<lambda>(t, origin, seen, stack). (card (sources t - set seen), length stack))"
  proof (cases "current \<in> sources t")
    case True
    have "finite (sources t - set seen)" by (simp add: sources_def)
    moreover have "sources t - set (current # seen) \<subset> sources t - set seen" using True new by auto
    ultimately have "card (sources t - set (current # seen)) < card (sources t - set seen)" by (rule psubset_card_mono)
    then show ?thesis by simp
  next
    case False
    then have "sources t - set (current # seen) = sources t - set seen" by auto
    then show ?thesis using no_source_no_targets [OF False] by simp
  qed
qed auto

definition wouldCreateSupersessionCycle :: "edge list \<Rightarrow> string \<Rightarrow> string \<Rightarrow> bool" where
  "wouldCreateSupersessionCycle t fromDecisionId targetDecisionId =
     cycle_search t fromDecisionId [] [targetDecisionId]"

section \<open>Writes\<close>

text \<open>\<open>Map.set\<close> keeps the place of a key and replaces its value.\<close>

fun put_edge :: "edge \<Rightarrow> edge list \<Rightarrow> edge list" where
  "put_edge e [] = [e]"
| "put_edge e (x # xs) = (if edge_key x = edge_key e then e # xs else x # put_edge e xs)"

definition insertDecisionEdges :: "edge list \<Rightarrow> edge list \<Rightarrow> edge list" where
  "insertDecisionEdges es t = fold (\<lambda>e t. fst (insertEdge e t)) (fold put_edge es []) t"

definition linkDecisionToWorkPacks ::
  "string option \<Rightarrow> string \<Rightarrow> string \<Rightarrow> string list \<Rightarrow> pack_decision_link list \<Rightarrow> pack_decision_link list"
where
  "linkDecisionToWorkPacks orgId projectId decisionId workPackIds t =
     fold (\<lambda>w t. fst (insertLink \<lparr> dl_orgId = orgId, dl_projectId = projectId, dl_workPackId = w,
                                    dl_decisionId = decisionId \<rparr> t)) workPackIds t"

definition touchWorkPacksActivity :: "string list \<Rightarrow> int \<Rightarrow> project_pack list \<Rightarrow> project_pack list" where
  "touchWorkPacksActivity workPackIds now t =
     map (\<lambda>w. if wp_id w \<in> set workPackIds then w\<lparr>wp_lastActivityAt := Some now\<rparr> else w) t"

text \<open>The conflict target is the idempotency key; a taken id under a new key makes the statement throw.\<close>

definition insertIgnoreOnConflict :: "decision \<Rightarrow> decision list \<Rightarrow> (string + bool \<times> string \<times> int) \<times> decision list" where
  "insertIgnoreOnConflict row t =
     (case selectByIdempotencyKey t (dm_idempotencyKey row) of
        Some d \<Rightarrow> (Inr (False, dm_id d, dm_createdAt d), t)
      | None \<Rightarrow>
          if dm_id row \<in> dm_id ` set t then (Inl ''UNIQUE constraint failed: decisions.id'', t)
          else (Inr (True, dm_id row, dm_createdAt row), t @ [row]))"

definition parseImpact :: "(string \<Rightarrow> js option) \<Rightarrow> string option \<Rightarrow> string list" where
  "parseImpact jparse raw =
     (case raw of
        None \<Rightarrow> []
      | Some s \<Rightarrow> (case jparse s of
                    Some (JArr vs) \<Rightarrow> List.map_filter (\<lambda>v. case v of JStr x \<Rightarrow> Some x | _ \<Rightarrow> None) vs
                  | _ \<Rightarrow> []))"

definition merge_entry :: "string \<Rightarrow> string list \<Rightarrow> string list" where
  "merge_entry entry merged =
     (let value = trim entry in if value \<noteq> [] \<and> value \<notin> set merged then merged @ [value] else merged)"

definition json_strings :: "(js \<Rightarrow> string) \<Rightarrow> string list \<Rightarrow> string" where
  "json_strings stringify xs = stringify (JArr (map JStr xs))"

definition mergeImpactOnIdempotentHit ::
  "decision_env \<Rightarrow> string \<Rightarrow> string list \<Rightarrow> decision list \<Rightarrow> decision list"
where
  "mergeImpactOnIdempotentHit env decisionId incoming t =
     (if incoming = [] then t
      else let current = parseImpact (dw_jparse env)
                 (case selectDecisionTarget t decisionId of None \<Rightarrow> None | Some d \<Rightarrow> dm_impact d);
               merged = fold merge_entry incoming current in
           if length merged = length current then t
           else map (\<lambda>d. if dm_id d = decisionId
                          then d\<lparr>dm_impact := Some (json_strings (dw_stringify env) merged)\<rparr> else d) t)"

section \<open>Related decisions\<close>

definition token_char :: "char \<Rightarrow> bool" where
  "token_char c \<longleftrightarrow> c \<in> set ''abcdefghijklmnopqrstuvwxyz0123456789_/-''"

text \<open>The matches of \<open>/[a-z0-9_\/-]{4,}/g\<close>: the maximal runs of at least four such characters.\<close>

function runs_of :: "string \<Rightarrow> string list" where
  "runs_of [] = []"
| "runs_of (c # cs) =
     (if token_char c then (c # takeWhile token_char cs) # runs_of (dropWhile token_char cs) else runs_of cs)"
  by pat_completeness auto

termination
  by (relation "measure length") (auto simp: le_imp_less_Suc length_dropWhile_le)

definition tokens_of :: "string \<Rightarrow> string list" where
  "tokens_of part = filter (\<lambda>w. 4 \<le> length w) (runs_of (to_lower part))"

fun collect_tokens :: "string list \<Rightarrow> string list \<Rightarrow> string list" where
  "collect_tokens tokens [] = tokens"
| "collect_tokens tokens (w # ws) =
     (let tokens' = (if w \<in> set tokens then tokens else tokens @ [w]) in
      if 24 \<le> length tokens' then tokens' else collect_tokens tokens' ws)"

definition textTokens :: "string option list \<Rightarrow> string list" where
  "textTokens parts = collect_tokens [] (concat (map tokens_of (List.map_filter id parts)))"

definition selectRecentActiveDecisionCandidates :: "decision_db \<Rightarrow> string \<Rightarrow> string \<Rightarrow> decision list" where
  "selectRecentActiveDecisionCandidates db projectId currentDecisionId =
     (let rows = take 100 (order_by_desc dm_createdAt (filter (\<lambda>d. dm_projectId d = Some projectId) (dd_decisions db)));
          superseded = selectIncomingSupersededTargetIds (dd_edges db) (map dm_id rows) in
      filter (\<lambda>d. dm_id d \<noteq> currentDecisionId \<and> dm_id d \<notin> set superseded) rows)"

definition decision_tokens :: "(string \<Rightarrow> js option) \<Rightarrow> decision \<Rightarrow> string list" where
  "decision_tokens jparse d =
     textTokens [Some (dm_description d), Some (dm_rationale d), dm_context d,
                 Some (join '' '' (parseImpact jparse (dm_impact d)))]"

definition relatedDecisionCandidates ::
  "decision_env \<Rightarrow> decision_db \<Rightarrow> string \<Rightarrow> string \<Rightarrow> decision_input \<Rightarrow> (string \<times> string \<times> string) list"
where
  "relatedDecisionCandidates env db projectId decisionId i =
     (let tokens = textTokens [Some (di_description i), Some (di_rationale i), di_context i,
                               Some (join '' '' (nullish (di_impact i) []))] in
      if tokens = [] then []
      else let scored = filter (\<lambda>(d, matched). matched \<noteq> [])
                 (map (\<lambda>d. (d, filter (\<lambda>w. w \<in> set (decision_tokens (dw_jparse env) d)) tokens))
                    (selectRecentActiveDecisionCandidates db projectId decisionId)) in
           map (\<lambda>(d, matched). (dm_id d, dm_description d, ''overlap:'' @ join '','' (take 3 matched)))
             (take 5 (order_by_desc (\<lambda>(d, matched). int (length matched)) scored)))"

section \<open>The handler\<close>

text \<open>The first entry that may not be superseded, if any.\<close>

primrec refused_target :: "decision_db \<Rightarrow> string \<Rightarrow> string \<Rightarrow> string list \<Rightarrow> record_answer option" where
  "refused_target db projectId candidateId [] = None"
| "refused_target db projectId candidateId (target # rest) =
     (if (case selectDecisionTarget (dd_decisions db) target of
            None \<Rightarrow> True | Some d \<Rightarrow> dm_projectId d \<noteq> Some projectId)
      then Some (SupersedesNotFound target)
      else if target = candidateId \<or> wouldCreateSupersessionCycle (dd_edges db) candidateId target
      then Some (SupersessionCycle target)
      else refused_target db projectId candidateId rest)"

definition source_metadata :: "decision_env \<Rightarrow> string \<Rightarrow> (string \<times> js) list \<Rightarrow> string" where
  "source_metadata env source extra = dw_stringify env (JObj ((''source'', JStr (''record_decision.'' @ source)) # extra))"

definition edge_inserts :: "decision_env \<Rightarrow> string \<Rightarrow> string \<Rightarrow> decision_input \<Rightarrow> string list \<Rightarrow> edge list" where
  "edge_inserts env projectId i inp workPackIds =
     map (\<lambda>target. \<lparr> eg_projectId = projectId, eg_from = i, eg_type = Supersedes, eg_targetType = DecisionTarget,
                     eg_targetId = target, eg_metadata = source_metadata env ''supersedesDecisionIds'' [] \<rparr>)
       (js_set (nullish (di_supersedesDecisionIds inp) [])) @
     concat (map (\<lambda>raw. case classifyImpactTarget raw of
           None \<Rightarrow> []
         | Some (targetType, targetId) \<Rightarrow>
             [\<lparr> eg_projectId = projectId, eg_from = i, eg_type = Affects, eg_targetType = targetType,
                eg_targetId = targetId, eg_metadata = source_metadata env ''impact'' [(''raw'', JStr raw)] \<rparr>])
       (nullish (di_impact inp) [])) @
     map (\<lambda>w. \<lparr> eg_projectId = projectId, eg_from = i, eg_type = Affects, eg_targetType = WorkPackTarget,
                eg_targetId = w, eg_metadata = source_metadata env ''workPackLink'' [] \<rparr>) workPackIds"

definition work_packs_to_link :: "decision_db \<Rightarrow> run_attribution \<Rightarrow> decision_input \<Rightarrow> string list" where
  "work_packs_to_link db run inp =
     js_set ((case rb_workPackId run of None \<Rightarrow> [] | Some w \<Rightarrow> [w]) @
             List.map_filter (selectWorkPackIdBySlug (dd_packs db) (rb_projectId run)) (nullish (di_workPackSlugs inp) []))"

definition new_decision :: "decision_env \<Rightarrow> run_attribution \<Rightarrow> actor option \<Rightarrow> string \<Rightarrow> decision_input \<Rightarrow> decision" where
  "new_decision env run actor i inp =
     \<lparr> dm_id = i, dm_orgId = nullish_opt (map_option ac_orgId actor) (rb_orgId run), dm_projectId = Some (rb_projectId run),
       dm_idempotencyKey = computeIdempotencyKey (dw_sha256 env) (di_runId inp) (di_description inp),
       dm_runId = Some (di_runId inp), dm_description = di_description inp, dm_rationale = di_rationale inp,
       dm_alternatives = (case di_alternatives inp of
            Some (x # xs) \<Rightarrow> Some (json_strings (dw_stringify env) (x # xs)) | _ \<Rightarrow> None),
       dm_context = di_context inp,
       dm_impact = (case di_impact inp of
            Some (x # xs) \<Rightarrow> Some (json_strings (dw_stringify env) (x # xs)) | _ \<Rightarrow> None),
       dm_confidence = di_confidence inp, dm_reversible = di_reversible inp,
       dm_createdByUserId = map_option ac_userId actor, dm_createdAt = dw_now env \<rparr>"

text \<open>An enqueue that throws is logged and changes nothing.\<close>

definition enqueue_decision_sync :: "decision_env \<Rightarrow> string \<Rightarrow> job list \<Rightarrow> job list" where
  "enqueue_decision_sync env key t =
     (case scheduleDurableWrite (dw_stringify env) (dw_jobId env) (1000 * dw_now env)
             \<lparr> da_queue = ''sync_to_cloud'',
               da_payload = JObj [(''v'', JNum 1), (''table'', JStr ''decisions''),
                                  (''lookup'', sync_lookup_json (ByIdempotencyKey key))],
               da_id = None, da_runAfter = None \<rparr> t of
        Inl _ \<Rightarrow> t | Inr (_, t') \<Rightarrow> t')"

text \<open>What follows the insert, on a fresh row and on a retry alike.\<close>

definition complete_record ::
  "decision_env \<Rightarrow> decision_input \<Rightarrow> run_attribution \<Rightarrow> actor option \<Rightarrow> string \<Rightarrow> bool \<Rightarrow> decision_db \<Rightarrow> decision_db"
where
  "complete_record env inp run actor i inserted db =
     (let ds = (if inserted then dd_decisions db
                else mergeImpactOnIdempotentHit env i (nullish (di_impact inp) []) (dd_decisions db));
          workPackIds = work_packs_to_link db run inp in
      db\<lparr>dd_decisions := ds,
         dd_links := linkDecisionToWorkPacks (nullish_opt (map_option ac_orgId actor) (rb_orgId run)) (rb_projectId run) i
                       workPackIds (dd_links db),
         dd_packs := touchWorkPacksActivity workPackIds (dw_now env) (dd_packs db),
         dd_edges := insertDecisionEdges (edge_inserts env (rb_projectId run) i inp workPackIds) (dd_edges db)\<rparr>)"

definition recordDecisionHandler ::
  "decision_env \<Rightarrow> decision_input \<Rightarrow> decision_db \<Rightarrow> (string + record_answer) \<times> decision_db"
where
  "recordDecisionHandler env inp db =
     (case selectRunAttribution (dw_runs env) (dw_projects env) (di_runId inp) of
        None \<Rightarrow> (Inr RunNotFound, db)
      | Some run \<Rightarrow>
          (case requireActorIdentityForTeamMode (dw_configTeam env) (dw_claims env) of
             ActorRequired \<Rightarrow> (Inr AuthRequired, db)
           | Identity actor \<Rightarrow>
               (let key = computeIdempotencyKey (dw_sha256 env) (di_runId inp) (di_description inp);
                    candidateId = (case selectByIdempotencyKey (dd_decisions db) key of
                        Some d \<Rightarrow> dm_id d | None \<Rightarrow> ''dec_'' @ dw_uuid env) in
                case refused_target db (rb_projectId run) candidateId
                       (js_set (nullish (di_supersedesDecisionIds inp) [])) of
                  Some refusal \<Rightarrow> (Inr refusal, db)
                | None \<Rightarrow>
                    (case insertIgnoreOnConflict (new_decision env run actor candidateId inp) (dd_decisions db) of
                       (Inl e, _) \<Rightarrow> (Inl e, db)
                     | (Inr (inserted, i, createdAt), ds) \<Rightarrow>
                         (let db1 = complete_record env inp run actor i inserted (db\<lparr>dd_decisions := ds\<rparr>);
                              candidates = relatedDecisionCandidates env db1 (rb_projectId run) i inp in
                          (Inr (DecisionRecorded i createdAt inserted candidates),
                           if inserted \<and> dw_envTeam env
                           then db1\<lparr>dd_jobs := enqueue_decision_sync env key (dd_jobs db1)\<rparr> else db1))))))"

text \<open>
  The handler above is a call that runs to its end.  Its writes are separate statements with awaits in between and no
  transaction around them: a process that dies, or a statement that throws, leaves the first of them.  These are
  the writes of a call, in order, with what they insert as the call computed it.
\<close>

definition call_writes :: "decision_env \<Rightarrow> decision_input \<Rightarrow> decision_db \<Rightarrow> (decision_db \<Rightarrow> decision_db) list" where
  "call_writes env inp db =
     (case recordDecisionHandler env inp db of
        (Inr (DecisionRecorded i createdAt inserted candidates), _) \<Rightarrow>
          (case selectRunAttribution (dw_runs env) (dw_projects env) (di_runId inp) of
             None \<Rightarrow> []
           | Some run \<Rightarrow>
               (let actor = (case requireActorIdentityForTeamMode (dw_configTeam env) (dw_claims env) of
                               Identity actor \<Rightarrow> actor | ActorRequired \<Rightarrow> None);
                    packs = work_packs_to_link db run inp in
                [\<lambda>d. d\<lparr>dd_decisions :=
                   if inserted then dd_decisions d @ [new_decision env run actor i inp]
                   else mergeImpactOnIdempotentHit env i (nullish (di_impact inp) []) (dd_decisions d)\<rparr>] @
                map (\<lambda>w d. d\<lparr>dd_links := linkDecisionToWorkPacks (nullish_opt (map_option ac_orgId actor) (rb_orgId run))
                                           (rb_projectId run) i [w] (dd_links d)\<rparr>) packs @
                map (\<lambda>w d. d\<lparr>dd_packs := touchWorkPacksActivity [w] (dw_now env) (dd_packs d)\<rparr>) packs @
                map (\<lambda>e d. d\<lparr>dd_edges := fst (insertEdge e (dd_edges d))\<rparr>)
                  (fold put_edge (edge_inserts env (rb_projectId run) i inp packs) []) @
                (if inserted \<and> dw_envTeam env
                 then [\<lambda>d. d\<lparr>dd_jobs := enqueue_decision_sync env
                              (computeIdempotencyKey (dw_sha256 env) (di_runId inp) (di_description inp)) (dd_jobs d)\<rparr>]
                 else [])))
      | _ \<Rightarrow> [])"

definition broken_call :: "nat \<Rightarrow> decision_env \<Rightarrow> decision_input \<Rightarrow> decision_db \<Rightarrow> decision_db" where
  "broken_call k env inp db = fold (\<lambda>w. w) (take k (call_writes env inp db)) db"

section \<open>The supersession graph\<close>

definition supersession :: "edge list \<Rightarrow> (string \<times> string) set" where
  "supersession t = {(a, b). (a, Supersedes, DecisionTarget, b) \<in> edge_key ` set t}"

lemma supersession_edge: "(a, b) \<in> supersession t \<longleftrightarrow> (\<exists>e \<in> set t. supersedes_edge e \<and> eg_from e = a \<and> eg_targetId e = b)"
  by (auto simp: supersession_def edge_key_def supersedes_edge_def image_iff Bex_def)

lemma superseded_targets [simp]: "set (selectSupersededTargets t a) = supersession t `` {a}"
  by (auto simp: selectSupersededTargets_def supersession_edge)

lemma finite_supersession [simp]: "finite (supersession t)"
proof (rule finite_subset)
  show "supersession t \<subseteq> (\<lambda>e. (eg_from e, eg_targetId e)) ` set t" by (auto simp: supersession_edge)
qed simp

lemma leave_seen:
  assumes "(x, goal) \<in> r\<^sup>*" and "x \<in> seen" and "goal \<notin> seen" and "r `` seen \<subseteq> seen \<union> stack"
  shows "\<exists>y \<in> stack. (y, goal) \<in> r\<^sup>*"
  using assms by (induction rule: converse_rtrancl_induct) blast+

lemma cycle_search_exact:
  assumes "origin \<notin> set seen" and "supersession t `` set seen \<subseteq> set seen \<union> set stack"
  shows "cycle_search t origin seen stack \<longleftrightarrow> (\<exists>x \<in> set stack. (x, origin) \<in> (supersession t)\<^sup>*)"
  using assms
proof (induction t origin seen stack rule: cycle_search.induct)
  case (1 t origin seen)
  then show ?case by simp
next
  case (2 t origin seen current stack)
  consider (again) "current \<in> set seen" | (found) "current = origin"
    | (expand) "current \<notin> set seen" "current \<noteq> origin" by blast
  then show ?case
  proof cases
    case again
    have "supersession t `` set seen \<subseteq> set seen \<union> set stack" using "2.prems"(2) again by auto
    moreover from this have "(\<exists>x \<in> set (current # stack). (x, origin) \<in> (supersession t)\<^sup>*)
        \<longleftrightarrow> (\<exists>x \<in> set stack. (x, origin) \<in> (supersession t)\<^sup>*)"
      using leave_seen [OF _ again "2.prems"(1)] by auto
    ultimately show ?thesis using "2.IH"(1) [OF again "2.prems"(1)] again by simp
  next
    case found
    then show ?thesis using "2.prems"(1) by simp
  next
    case expand
    let ?next = "rev (selectSupersededTargets t current) @ stack"
    have "(current, origin) \<in> (supersession t)\<^sup>* \<longleftrightarrow> (\<exists>x \<in> supersession t `` {current}. (x, origin) \<in> (supersession t)\<^sup>*)"
      using expand(2) by (auto elim: converse_rtranclE intro: converse_rtrancl_into_rtrancl)
    moreover have "cycle_search t origin (current # seen) ?next
        \<longleftrightarrow> (\<exists>x \<in> set ?next. (x, origin) \<in> (supersession t)\<^sup>*)"
      using expand "2.prems" by (intro "2.IH"(2)) auto
    ultimately show ?thesis using expand by auto
  qed
qed

lemma would_create_cycle_iff:
  "wouldCreateSupersessionCycle t a b \<longleftrightarrow> (b, a) \<in> (supersession t)\<^sup>*"
  using cycle_search_exact [of a "[]" t "[b]"] by (simp add: wouldCreateSupersessionCycle_def)

lemma acyclic_add_edges:
  assumes "finite T" and "acyclic r" and "\<And>x. x \<in> T \<Longrightarrow> (x, i) \<notin> r\<^sup>*"
  shows "acyclic (r \<union> {i} \<times> T) \<and> (\<forall>x. (x, i) \<in> (r \<union> {i} \<times> T)\<^sup>* \<longrightarrow> (x, i) \<in> r\<^sup>*)"
  using assms
proof (induction T rule: finite_induct)
  case empty
  then show ?case by simp
next
  case (insert y T)
  let ?r = "r \<union> {i} \<times> T"
  have ih: "acyclic ?r" "(x, i) \<in> ?r\<^sup>* \<Longrightarrow> (x, i) \<in> r\<^sup>*" for x using insert by auto
  have "r \<union> {i} \<times> insert y T = insert (i, y) ?r" by auto
  moreover have "(y, i) \<notin> ?r\<^sup>*" using ih(2) insert.prems(2) by blast
  ultimately show ?case using ih by (auto simp: rtrancl_insert)
qed

section \<open>Rows and keys under the writes\<close>

context keyed_table
begin

definition insert_all :: "'r list \<Rightarrow> 'r list \<Rightarrow> 'r list" where
  "insert_all rs t = fold (\<lambda>r t. fst (ins r t)) rs t"

lemma insert_all_simps [simp]: "insert_all [] t = t" "insert_all (r # rs) t = insert_all rs (fst (ins r t))"
  by (simp_all add: insert_all_def)

lemma insert_all_unique: "distinct (map key t) \<Longrightarrow> distinct (map key (insert_all rs t))"
  by (induction rs arbitrary: t) (simp_all add: keys_stay_unique)

lemma insert_all_keys: "key ` set (insert_all rs t) = key ` set rs \<union> key ` set t"
proof (induction rs arbitrary: t)
  case (Cons r rs)
  have "key ` set (fst (ins r t)) = insert (key r) (key ` set t)"
    by (cases "key r \<in> key ` set t") (auto simp: ins_fresh ins_conflict)
  then show ?case by (simp add: Cons)
qed simp

lemma insert_all_prefix: "prefix t (insert_all rs t)"
proof (induction rs arbitrary: t)
  case (Cons r rs)
  have "prefix t (fst (ins r t))" by (cases "key r \<in> key ` set t") (simp_all add: ins_fresh ins_conflict)
  then show ?case using Cons [of "fst (ins r t)"] prefix_order.trans by auto
qed simp

end

lemma put_edge_keys: "edge_key ` set (put_edge e t) = insert (edge_key e) (edge_key ` set t)"
  by (induction t) auto

lemma put_edges_keys: "edge_key ` set (fold put_edge es t) = edge_key ` set es \<union> edge_key ` set t"
  by (induction es arbitrary: t) (auto simp: put_edge_keys)

lemma insertDecisionEdges_all: "insertDecisionEdges es t = edges.insert_all (fold put_edge es []) t"
  by (simp add: insertDecisionEdges_def edges.insert_all_def)

lemma insertDecisionEdges_keys: "edge_key ` set (insertDecisionEdges es t) = edge_key ` set es \<union> edge_key ` set t"
  by (simp add: insertDecisionEdges_all edges.insert_all_keys put_edges_keys)

lemma supersession_insert: "supersession (insertDecisionEdges es t) = supersession es \<union> supersession t"
  unfolding supersession_def insertDecisionEdges_keys by auto

lemma sources_keys: "sources t = fst ` edge_key ` set t"
  by (auto simp: sources_def edge_key_def image_iff)

lemma sources_insert: "sources (insertDecisionEdges es t) = sources es \<union> sources t"
  unfolding sources_keys insertDecisionEdges_keys by auto

lemma edge_inserts_keys:
  "edge_key ` set (edge_inserts env p i inp ws) =
     (\<lambda>t. (i, Supersedes, DecisionTarget, t)) ` set (nullish (di_supersedesDecisionIds inp) []) \<union>
     {(i, Affects, ty, x) | raw ty x. raw \<in> set (nullish (di_impact inp) []) \<and> classifyImpactTarget raw = Some (ty, x)} \<union>
     (\<lambda>w. (i, Affects, WorkPackTarget, w)) ` set ws"
  unfolding edge_inserts_def edge_key_def
  by (auto simp: image_Un image_image image_UN split: option.splits prod.splits)

lemma supersession_edge_inserts:
  "supersession (edge_inserts env p i inp ws) = {i} \<times> set (nullish (di_supersedesDecisionIds inp) [])"
  unfolding supersession_def edge_inserts_keys by auto

lemma sources_edge_inserts: "sources (edge_inserts env p i inp ws) \<subseteq> {i}"
  by (auto simp: sources_def edge_inserts_def split: option.splits prod.splits)

section \<open>What a call keeps\<close>

definition decisions_ok :: "decision_db \<Rightarrow> bool" where
  "decisions_ok db \<longleftrightarrow>
     distinct (map dm_id (dd_decisions db)) \<and> distinct (map dm_idempotencyKey (dd_decisions db)) \<and>
     [] \<notin> dm_id ` set (dd_decisions db) \<and> distinct (map edge_key (dd_edges db)) \<and>
     sources (dd_edges db) \<union> snd ` supersession (dd_edges db) \<subseteq> dm_id ` set (dd_decisions db) \<and>
     acyclic (supersession (dd_edges db))"

lemma decisions_okD:
  assumes "decisions_ok db"
  shows "distinct (map dm_id (dd_decisions db))" "distinct (map dm_idempotencyKey (dd_decisions db))"
    "[] \<notin> dm_id ` set (dd_decisions db)" "distinct (map edge_key (dd_edges db))"
    "sources (dd_edges db) \<subseteq> dm_id ` set (dd_decisions db)"
    "snd ` supersession (dd_edges db) \<subseteq> dm_id ` set (dd_decisions db)"
    "acyclic (supersession (dd_edges db))"
  using assms unfolding decisions_ok_def Un_subset_iff by blast+

text \<open>A row as it was recorded: everything but the impact column.\<close>

definition recorded_text :: "decision \<Rightarrow> decision" where
  "recorded_text d = d\<lparr>dm_impact := None\<rparr>"

lemma recorded_text_fields [simp]:
  "dm_id (recorded_text d) = dm_id d" "dm_idempotencyKey (recorded_text d) = dm_idempotencyKey d"
  "dm_createdAt (recorded_text d) = dm_createdAt d"
  by (simp_all add: recorded_text_def)

lemma recorded_text_eq: "recorded_text e = recorded_text d \<Longrightarrow> dm_id e = dm_id d \<and> dm_createdAt e = dm_createdAt d"
  by (metis recorded_text_fields(1,3))

lemma recorded_text_maps:
  "map recorded_text xs = map recorded_text ys \<Longrightarrow> map dm_id xs = map dm_id ys"
  "map recorded_text xs = map recorded_text ys \<Longrightarrow> map dm_idempotencyKey xs = map dm_idempotencyKey ys"
  by (metis (mono_tags, lifting) list.map_comp map_eq_conv comp_apply recorded_text_fields)+

lemma merge_keeps_text [simp]: "map recorded_text (mergeImpactOnIdempotentHit env i inc t) = map recorded_text t"
  by (simp add: mergeImpactOnIdempotentHit_def Let_def recorded_text_def)

lemma refused_target_None:
  "refused_target db p c ts = None \<longleftrightarrow>
     (\<forall>t \<in> set ts. (\<exists>d. selectDecisionTarget (dd_decisions db) t = Some d \<and> dm_projectId d = Some p) \<and>
        t \<noteq> c \<and> (t, c) \<notin> (supersession (dd_edges db))\<^sup>*)"
  by (induction ts) (auto simp: would_create_cycle_iff split: option.splits)

lemma selectDecisionTarget_in:
  "selectDecisionTarget t i = Some d \<Longrightarrow> d \<in> set t \<and> dm_id d = i \<and> i \<noteq> []"
  by (auto simp: selectDecisionTarget_def dest: find_Some_D split: if_splits)

lemma selectByIdempotencyKey_in:
  "selectByIdempotencyKey t k = Some d \<Longrightarrow> d \<in> set t \<and> dm_idempotencyKey d = k"
  unfolding selectByIdempotencyKey_def using first_row_in by fastforce

lemma selectByIdempotencyKey_None: "selectByIdempotencyKey t k = None \<longleftrightarrow> k \<notin> dm_idempotencyKey ` set t"
  by (auto simp: selectByIdempotencyKey_def first_row_None filter_empty_conv)

lemma refusal_only [simp]: "refused_target db p c ts \<noteq> Some (DecisionRecorded i since new cands)"
  by (induction ts) auto

text \<open>A call that records, taken apart.\<close>

lemma recorded_call:
  assumes "recordDecisionHandler env inp db = (Inr (DecisionRecorded i since new cands), db')"
  obtains run actor row db1 where
    "selectRunAttribution (dw_runs env) (dw_projects env) (di_runId inp) = Some run"
    "requireActorIdentityForTeamMode (dw_configTeam env) (dw_claims env) = Identity actor"
    "row = new_decision env run actor i inp"
    "refused_target db (rb_projectId run) i (js_set (nullish (di_supersedesDecisionIds inp) [])) = None"
    "new \<longleftrightarrow> selectByIdempotencyKey (dd_decisions db) (dm_idempotencyKey row) = None"
    "new \<longrightarrow> i = ''dec_'' @ dw_uuid env \<and> i \<notin> dm_id ` set (dd_decisions db) \<and> since = dw_now env"
    "\<not> new \<longrightarrow> (\<exists>d. selectByIdempotencyKey (dd_decisions db) (dm_idempotencyKey row) = Some d \<and> dm_id d = i \<and> dm_createdAt d = since)"
    "db1 = complete_record env inp run actor i new
       (db\<lparr>dd_decisions := (if new then dd_decisions db @ [row] else dd_decisions db)\<rparr>)"
    "cands = relatedDecisionCandidates env db1 (rb_projectId run) i inp"
    "db' = (if new \<and> dw_envTeam env then db1\<lparr>dd_jobs := enqueue_decision_sync env (dm_idempotencyKey row) (dd_jobs db1)\<rparr> else db1)"
proof -
  let ?key = "computeIdempotencyKey (dw_sha256 env) (di_runId inp) (di_description inp)"
  obtain run where run: "selectRunAttribution (dw_runs env) (dw_projects env) (di_runId inp) = Some run"
    using assms by (auto simp: recordDecisionHandler_def split: option.splits)
  obtain actor where actor: "requireActorIdentityForTeamMode (dw_configTeam env) (dw_claims env) = Identity actor"
    using assms run by (auto simp: recordDecisionHandler_def split: require_actor.splits)
  have key: "dm_idempotencyKey (new_decision env run actor i inp) = ?key" "dm_id (new_decision env run actor i inp) = i"
    "dm_createdAt (new_decision env run actor i inp) = dw_now env" for i
    by (simp_all add: new_decision_def)
  define k where "k = ?key"
  let ?row = "new_decision env run actor i inp"
  let ?db1 = "complete_record env inp run actor i new
    (db\<lparr>dd_decisions := (if new then dd_decisions db @ [?row] else dd_decisions db)\<rparr>)"
  let ?c = "case selectByIdempotencyKey (dd_decisions db) k of Some d \<Rightarrow> dm_id d | None \<Rightarrow> ''dec_'' @ dw_uuid env"
  have ref: "refused_target db (rb_projectId run) ?c (js_set (nullish (di_supersedesDecisionIds inp) [])) = None"
    using assms run actor by (auto simp: recordDecisionHandler_def Let_def k_def split: option.splits)
  show thesis
  proof (cases "selectByIdempotencyKey (dd_decisions db) k")
    case None
    then show thesis using assms run actor ref
      by (intro that [of run actor ?row ?db1]) (auto simp: recordDecisionHandler_def insertIgnoreOnConflict_def Let_def key k_def split: if_splits)
  next
    case (Some d)
    then show thesis using assms run actor ref
      by (intro that [of run actor ?row ?db1]) (auto simp: recordDecisionHandler_def insertIgnoreOnConflict_def Let_def key k_def split: if_splits)
  qed
qed

lemma not_recorded:
  assumes "recordDecisionHandler env inp db = (res, db')" and "\<And>i since new cands. res \<noteq> Inr (DecisionRecorded i since new cands)"
  shows "db' = db"
  using assms by (auto simp: recordDecisionHandler_def Let_def split: option.splits require_actor.splits sum.splits prod.splits)

lemma recorded_tables:
  assumes "recordDecisionHandler env inp db = (Inr (DecisionRecorded i since new cands), db')"
  obtains run :: run_attribution and row :: decision and ws where
    "dm_id row = i" and "dm_idempotencyKey row = computeIdempotencyKey (dw_sha256 env) (di_runId inp) (di_description inp)"
    "refused_target db (rb_projectId run) i (js_set (nullish (di_supersedesDecisionIds inp) [])) = None"
    "new \<longleftrightarrow> selectByIdempotencyKey (dd_decisions db) (dm_idempotencyKey row) = None"
    "new \<longrightarrow> i \<noteq> [] \<and> i \<notin> dm_id ` set (dd_decisions db)"
    "\<not> new \<longrightarrow> i \<in> dm_id ` set (dd_decisions db)"
    "dm_impact row = (if nullish (di_impact inp) [] = [] then None else Some (json_strings (dw_stringify env) (nullish (di_impact inp) [])))"
    "dd_decisions db' = (if new then dd_decisions db @ [row]
       else mergeImpactOnIdempotentHit env i (nullish (di_impact inp) []) (dd_decisions db))"
    "dd_edges db' = insertDecisionEdges (edge_inserts env (rb_projectId run) i inp ws) (dd_edges db)"
    "dd_links db' = pack_links.insert_all (map (\<lambda>w. \<lparr> dl_orgId = dm_orgId row, dl_projectId = rb_projectId run,
       dl_workPackId = w, dl_decisionId = i \<rparr>) ws) (dd_links db)"
proof -
  obtain run actor row db1 where
    "selectRunAttribution (dw_runs env) (dw_projects env) (di_runId inp) = Some run"
    "requireActorIdentityForTeamMode (dw_configTeam env) (dw_claims env) = Identity actor"
    and r: "row = new_decision env run actor i inp"
    and f: "refused_target db (rb_projectId run) i (js_set (nullish (di_supersedesDecisionIds inp) [])) = None"
    and n: "new \<longleftrightarrow> selectByIdempotencyKey (dd_decisions db) (dm_idempotencyKey row) = None"
    and fresh: "new \<longrightarrow> i = ''dec_'' @ dw_uuid env \<and> i \<notin> dm_id ` set (dd_decisions db) \<and> since = dw_now env"
    and old: "\<not> new \<longrightarrow> (\<exists>d. selectByIdempotencyKey (dd_decisions db) (dm_idempotencyKey row) = Some d \<and> dm_id d = i \<and> dm_createdAt d = since)"
    and d1: "db1 = complete_record env inp run actor i new
       (db\<lparr>dd_decisions := (if new then dd_decisions db @ [row] else dd_decisions db)\<rparr>)"
    and "cands = relatedDecisionCandidates env db1 (rb_projectId run) i inp"
    and d': "db' = (if new \<and> dw_envTeam env then db1\<lparr>dd_jobs := enqueue_decision_sync env (dm_idempotencyKey row) (dd_jobs db1)\<rparr> else db1)"
    by (rule recorded_call [OF assms])
  define ds where "ds = (if new then dd_decisions db @ [row] else dd_decisions db)"
  define ws where "ws = work_packs_to_link (db\<lparr>dd_decisions := ds\<rparr>) run inp"
  have row: "dm_id row = i"
    "dm_idempotencyKey row = computeIdempotencyKey (dw_sha256 env) (di_runId inp) (di_description inp)"
    "dm_orgId row = nullish_opt (map_option ac_orgId actor) (rb_orgId run)"
    by (simp_all add: r new_decision_def)
  have imp: "dm_impact row = (if nullish (di_impact inp) [] = [] then None else Some (json_strings (dw_stringify env) (nullish (di_impact inp) [])))"
    by (simp add: r new_decision_def split: option.splits list.splits)
  have f1: "new \<longrightarrow> i \<noteq> [] \<and> i \<notin> dm_id ` set (dd_decisions db)" using fresh by auto
  have f2: "\<not> new \<longrightarrow> i \<in> dm_id ` set (dd_decisions db)" using old selectByIdempotencyKey_in by fastforce
  have same: "dd_decisions db' = dd_decisions db1" "dd_edges db' = dd_edges db1" "dd_links db' = dd_links db1"
    by (simp_all add: d')
  have one: "dd_decisions db' = (if new then dd_decisions db @ [row]
       else mergeImpactOnIdempotentHit env i (nullish (di_impact inp) []) (dd_decisions db))"
    by (simp add: same d1 complete_record_def Let_def)
  have two: "dd_edges db' = insertDecisionEdges (edge_inserts env (rb_projectId run) i inp ws) (dd_edges db)"
    by (simp add: same d1 complete_record_def Let_def ws_def flip: ds_def)
  have three: "dd_links db' = pack_links.insert_all (map (\<lambda>w. \<lparr> dl_orgId = dm_orgId row, dl_projectId = rb_projectId run,
       dl_workPackId = w, dl_decisionId = i \<rparr>) ws) (dd_links db)"
    by (simp add: same d1 complete_record_def Let_def row linkDecisionToWorkPacks_def pack_links.insert_all_def
        fold_map comp_def ws_def flip: ds_def)
  show thesis
    by (rule that [OF row(1) row(2) f n f1 f2 imp one two three])
qed

lemma handler_keeps_ok:
  assumes ok: "decisions_ok db"
  shows "decisions_ok (snd (recordDecisionHandler env inp db))"
proof (cases "\<exists>i since new cands db'. recordDecisionHandler env inp db = (Inr (DecisionRecorded i since new cands), db')")
  case False
  then show ?thesis using not_recorded [of env inp db] ok by (metis prod.collapse)
next
  case True
  then obtain i since new cands db' where
    call: "recordDecisionHandler env inp db = (Inr (DecisionRecorded i since new cands), db')" by blast
  obtain run :: run_attribution and row ws where i: "dm_id row = i"
    and "dm_idempotencyKey row = computeIdempotencyKey (dw_sha256 env) (di_runId inp) (di_description inp)"
    and ref: "refused_target db (rb_projectId run) i (js_set (nullish (di_supersedesDecisionIds inp) [])) = None"
    and n: "new \<longleftrightarrow> selectByIdempotencyKey (dd_decisions db) (dm_idempotencyKey row) = None"
    and fresh: "new \<longrightarrow> i \<noteq> [] \<and> i \<notin> dm_id ` set (dd_decisions db)"
    and old: "\<not> new \<longrightarrow> i \<in> dm_id ` set (dd_decisions db)"
    and "dm_impact row = (if nullish (di_impact inp) [] = [] then None else Some (json_strings (dw_stringify env) (nullish (di_impact inp) [])))"
    and rows: "dd_decisions db' = (if new then dd_decisions db @ [row]
       else mergeImpactOnIdempotentHit env i (nullish (di_impact inp) []) (dd_decisions db))"
    and es: "dd_edges db' = insertDecisionEdges (edge_inserts env (rb_projectId run) i inp ws) (dd_edges db)"
    and "dd_links db' = pack_links.insert_all (map (\<lambda>w. \<lparr> dl_orgId = dm_orgId row, dl_projectId = rb_projectId run,
       dl_workPackId = w, dl_decisionId = i \<rparr>) ws) (dd_links db)"
    by (rule recorded_tables [OF call])
  let ?T = "set (nullish (di_supersedesDecisionIds inp) [])"
  let ?ids = "map dm_id (dd_decisions db')"
  note ok = decisions_okD [OF ok]
  have ds: "map recorded_text (dd_decisions db') = map recorded_text (if new then dd_decisions db @ [row] else dd_decisions db)"
    by (simp add: rows)
  have T: "x \<in> dm_id ` set (dd_decisions db) \<and> (x, i) \<notin> (supersession (dd_edges db))\<^sup>*" if "x \<in> ?T" for x
    using ref that unfolding refused_target_None by (auto dest!: selectDecisionTarget_in)
  have ids: "?ids = (if new then map dm_id (dd_decisions db) @ [i] else map dm_id (dd_decisions db))"
    using recorded_text_maps(1) [OF ds] i by simp
  have keys: "map dm_idempotencyKey (dd_decisions db') =
      (if new then map dm_idempotencyKey (dd_decisions db) @ [dm_idempotencyKey row] else map dm_idempotencyKey (dd_decisions db))"
    using recorded_text_maps(2) [OF ds] by simp
  have graph: "supersession (dd_edges db') = supersession (dd_edges db) \<union> {i} \<times> ?T"
    by (auto simp: es supersession_insert supersession_edge_inserts)
  have "distinct ?ids" "distinct (map dm_idempotencyKey (dd_decisions db'))"
    using ok(1,2) fresh n by (auto simp: ids keys selectByIdempotencyKey_None)
  moreover have "[] \<notin> set ?ids" using ok(3) fresh by (auto simp: ids)
  moreover have "distinct (map edge_key (dd_edges db'))"
    unfolding es insertDecisionEdges_all by (rule edges.insert_all_unique [OF ok(4)])
  moreover have "sources (dd_edges db') \<union> snd ` supersession (dd_edges db') \<subseteq> set ?ids"
  proof -
    have "set ?ids = insert i (dm_id ` set (dd_decisions db))" using old by (auto simp: ids)
    moreover have "sources (dd_edges db') \<subseteq> insert i (dm_id ` set (dd_decisions db))"
      using sources_edge_inserts [of env "rb_projectId run" i inp ws] ok(5) by (auto simp: es sources_insert)
    moreover have "snd ` supersession (dd_edges db') \<subseteq> dm_id ` set (dd_decisions db)"
      using ok(6) T by (force simp: graph)
    ultimately show ?thesis by auto
  qed
  moreover have "acyclic (supersession (dd_edges db'))"
    unfolding graph using acyclic_add_edges [of ?T "supersession (dd_edges db)" i] ok(7) T by simp
  ultimately show ?thesis by (simp add: call decisions_ok_def)
qed

lemma handler_prefix:
  defines "after env inp db \<equiv> snd (recordDecisionHandler env inp db)"
  shows "prefix (map recorded_text (dd_decisions db)) (map recorded_text (dd_decisions (after env inp db)))"
    and "prefix (dd_edges db) (dd_edges (after env inp db))"
    and "prefix (dd_links db) (dd_links (after env inp db))"
proof -
  have "prefix (map recorded_text (dd_decisions db)) (map recorded_text (dd_decisions (after env inp db))) \<and>
      prefix (dd_edges db) (dd_edges (after env inp db)) \<and> prefix (dd_links db) (dd_links (after env inp db))"
  proof (cases "\<exists>i since new cands db'. recordDecisionHandler env inp db = (Inr (DecisionRecorded i since new cands), db')")
    case False
    then have "after env inp db = db" unfolding after_def using not_recorded [of env inp db] by (metis prod.collapse)
    then show ?thesis by simp
  next
    case True
    then obtain i since new cands db' where
      call: "recordDecisionHandler env inp db = (Inr (DecisionRecorded i since new cands), db')" by blast
    show ?thesis
      by (rule recorded_tables [OF call])
        (simp add: after_def call insertDecisionEdges_all edges.insert_all_prefix pack_links.insert_all_prefix)
  qed
  then show "prefix (map recorded_text (dd_decisions db)) (map recorded_text (dd_decisions (after env inp db)))"
    "prefix (dd_edges db) (dd_edges (after env inp db))" "prefix (dd_links db) (dd_links (after env inp db))" by blast+
qed

section \<open>Sequences of calls\<close>

text \<open>Between two calls runs, projects and the machine's mode may change in any way.\<close>

primrec record_all :: "(decision_env \<times> decision_input) list \<Rightarrow> decision_db \<Rightarrow> decision_db" where
  "record_all [] db = db"
| "record_all (c # cs) db = record_all cs (snd (recordDecisionHandler (fst c) (snd c) db))"

definition no_decisions :: "project_pack list \<Rightarrow> job list \<Rightarrow> decision_db" where
  "no_decisions packs jobs = \<lparr> dd_decisions = [], dd_edges = [], dd_links = [], dd_packs = packs, dd_jobs = jobs \<rparr>"

lemma no_decisions_ok: "decisions_ok (no_decisions packs jobs)"
  by (simp add: decisions_ok_def no_decisions_def sources_def supersession_def acyclic_def)

lemma record_all_ok: "decisions_ok db \<Longrightarrow> decisions_ok (record_all calls db)"
  by (induction calls arbitrary: db) (simp_all add: handler_keeps_ok)

lemma record_all_prefix:
  "prefix (map recorded_text (dd_decisions db)) (map recorded_text (dd_decisions (record_all calls db)))"
  "prefix (dd_edges db) (dd_edges (record_all calls db))"
  "prefix (dd_links db) (dd_links (record_all calls db))"
proof (induction calls arbitrary: db)
  case (Cons c cs)
  { case 1 then show ?case using prefix_order.trans [OF handler_prefix(1) Cons.IH(1)] by simp }
  { case 2 then show ?case using prefix_order.trans [OF handler_prefix(2) Cons.IH(2)] by simp }
  { case 3 then show ?case using prefix_order.trans [OF handler_prefix(3) Cons.IH(3)] by simp }
qed simp_all

text \<open>A decision is in force as long as no edge supersedes it.\<close>

definition in_force :: "edge list \<Rightarrow> string \<Rightarrow> bool" where
  "in_force t i \<longleftrightarrow> \<not> list_ex (\<lambda>e. supersedes_edge e \<and> eg_targetId e = i) t"

lemma in_force_iff: "in_force t i \<longleftrightarrow> i \<notin> snd ` supersession t"
  by (auto simp: in_force_def list_ex_iff image_iff supersession_edge Bex_def)

lemma successor_in_force:
  assumes "decisions_ok db" and "i \<in> dm_id ` set (dd_decisions db)"
  shows "\<exists>j \<in> dm_id ` set (dd_decisions db). in_force (dd_edges db) j \<and> (j, i) \<in> (supersession (dd_edges db))\<^sup>*"
proof -
  let ?r = "supersession (dd_edges db)"
  have "wf ?r" by (rule finite_acyclic_wf [OF finite_supersession decisions_okD(7) [OF assms(1)]])
  then obtain j where j: "(j, i) \<in> ?r\<^sup>*" "\<And>x. (x, j) \<in> ?r \<Longrightarrow> (x, i) \<notin> ?r\<^sup>*"
    using wfE_min [of ?r i "{x. (x, i) \<in> ?r\<^sup>*}"] by auto
  then have "in_force (dd_edges db) j"
    by (force simp: in_force_iff intro: converse_rtrancl_into_rtrancl)
  moreover have "j \<in> dm_id ` set (dd_decisions db)"
    using j(1)
  proof (cases rule: converse_rtranclE)
    case base
    then show ?thesis using assms(2) by simp
  next
    case (step y)
    then have "j \<in> sources (dd_edges db)" by (auto simp: supersession_edge sources_def)
    then show ?thesis using decisions_okD(5) [OF assms(1)] by blast
  qed
  ultimately show ?thesis using j(1) by blast
qed

section \<open>The row of a key\<close>

lemma select_text:
  "map_option recorded_text (selectByIdempotencyKey t k) = first_row (filter (\<lambda>d. dm_idempotencyKey d = k) (map recorded_text t))"
  by (simp add: selectByIdempotencyKey_def filter_map comp_def first_row_def split: list.splits)

lemma select_prefix:
  assumes "prefix (map recorded_text t) (map recorded_text u)" and "selectByIdempotencyKey t k = Some d"
  shows "\<exists>e. selectByIdempotencyKey u k = Some e \<and> recorded_text e = recorded_text d"
proof -
  have "first_row (filter (\<lambda>d. dm_idempotencyKey d = k) (map recorded_text t)) = Some (recorded_text d)"
    using assms(2) by (simp flip: select_text)
  then have "first_row (filter (\<lambda>d. dm_idempotencyKey d = k) (map recorded_text u)) = Some (recorded_text d)"
    using assms(1) by (auto simp: first_row_Some elim!: prefixE)
  then show ?thesis by (simp flip: select_text)
qed

lemma recorded_row_found:
  assumes "recordDecisionHandler env inp db = (Inr (DecisionRecorded i since new cands), db')"
  shows "\<exists>d. selectByIdempotencyKey (dd_decisions db') (computeIdempotencyKey (dw_sha256 env) (di_runId inp) (di_description inp)) = Some d
    \<and> dm_id d = i \<and> dm_createdAt d = since"
proof (rule recorded_call [OF assms])
  let ?k = "computeIdempotencyKey (dw_sha256 env) (di_runId inp) (di_description inp)"
  fix run actor row db1
  assume row: "row = new_decision env run actor i inp"
    and new: "new \<longleftrightarrow> selectByIdempotencyKey (dd_decisions db) (dm_idempotencyKey row) = None"
    and fresh: "new \<longrightarrow> i = ''dec_'' @ dw_uuid env \<and> i \<notin> dm_id ` set (dd_decisions db) \<and> since = dw_now env"
    and old: "\<not> new \<longrightarrow> (\<exists>d. selectByIdempotencyKey (dd_decisions db) (dm_idempotencyKey row) = Some d \<and> dm_id d = i \<and> dm_createdAt d = since)"
    and db1: "db1 = complete_record env inp run actor i new
       (db\<lparr>dd_decisions := (if new then dd_decisions db @ [row] else dd_decisions db)\<rparr>)"
    and db': "db' = (if new \<and> dw_envTeam env then db1\<lparr>dd_jobs := enqueue_decision_sync env (dm_idempotencyKey row) (dd_jobs db1)\<rparr> else db1)"
  have k: "dm_idempotencyKey row = ?k" "dm_id row = i" "dm_createdAt row = dw_now env" by (simp_all add: row new_decision_def)
  have txt_db: "map recorded_text (dd_decisions db') = map recorded_text (if new then dd_decisions db @ [row] else dd_decisions db)"
    by (simp add: db' db1 complete_record_def Let_def)
  have "\<exists>d. selectByIdempotencyKey (if new then dd_decisions db @ [row] else dd_decisions db) ?k = Some d \<and> dm_id d = i \<and> dm_createdAt d = since"
  proof (cases new)
    case True
    then have "filter (\<lambda>d. dm_idempotencyKey d = ?k) (dd_decisions db) = []"
      using new k by (simp add: selectByIdempotencyKey_def first_row_None)
    then show ?thesis using True fresh k by (simp add: selectByIdempotencyKey_def first_row_def)
  next
    case False
    then show ?thesis using old k by simp
  qed
  then obtain d where d: "selectByIdempotencyKey (if new then dd_decisions db @ [row] else dd_decisions db) ?k = Some d"
    "dm_id d = i" "dm_createdAt d = since" by blast
  obtain e where "selectByIdempotencyKey (dd_decisions db') ?k = Some e" "recorded_text e = recorded_text d"
    using select_prefix [OF _ d(1), of "dd_decisions db'"] by (auto simp: txt_db)
  moreover have "dm_id e = i" "dm_createdAt e = since"
    using recorded_text_eq [OF calculation(2)] d by simp_all
  ultimately show ?thesis by blast
qed

section \<open>The impact column and its edges\<close>

lemma dropWhile_head: "(xs \<noteq> [] \<Longrightarrow> \<not> P (hd xs)) \<Longrightarrow> dropWhile P xs = xs"
  by (cases xs) auto

lemma trim_trim [simp]: "trim (trim s) = trim s"
proof -
  let ?u = "dropWhile js_space s"
  obtain w where w: "?u = trim_end ?u @ w" using trim_end_prefix by blast
  have "trim_end ?u \<noteq> [] \<Longrightarrow> \<not> js_space (hd (trim_end ?u))"
    by (metis w append_is_Nil_conv hd_append2 hd_dropWhile)
  then have "dropWhile js_space (trim_end ?u) = trim_end ?u" by (rule dropWhile_head)
  moreover have "trim_end (trim_end ?u) = trim_end ?u" by (simp add: trim_end_def dropWhile_idem)
  ultimately show ?thesis by (simp add: trim_def)
qed

lemma classify_trim [simp]: "classifyImpactTarget (trim raw) = classifyImpactTarget raw"
  by (simp add: classifyImpactTarget_def)

lemma classify_blank: "trim raw = [] \<Longrightarrow> classifyImpactTarget raw = None"
  by (simp add: classifyImpactTarget_def)

text \<open>What the entries name, and what the edges of a decision name, work packs aside: those are also linked
  without an entry.\<close>

definition impact_targets :: "string list \<Rightarrow> (target_type \<times> string) set" where
  "impact_targets entries =
     {(ty, x) | raw ty x. raw \<in> set entries \<and> classifyImpactTarget raw = Some (ty, x) \<and> ty \<noteq> WorkPackTarget}"

definition affected_targets :: "edge list \<Rightarrow> string \<Rightarrow> (target_type \<times> string) set" where
  "affected_targets t i = {(ty, x). (i, Affects, ty, x) \<in> edge_key ` set t \<and> ty \<noteq> WorkPackTarget}"

definition mirrored :: "(string \<Rightarrow> js option) \<Rightarrow> decision_db \<Rightarrow> bool" where
  "mirrored jparse db \<longleftrightarrow>
     (\<forall>d \<in> set (dd_decisions db). impact_targets (parseImpact jparse (dm_impact d)) = affected_targets (dd_edges db) (dm_id d))"

text \<open>Array of strings, written and read back: what \<open>JSON\<close> promises.\<close>

definition json_roundtrip :: "(js \<Rightarrow> string) \<Rightarrow> (string \<Rightarrow> js option) \<Rightarrow> bool" where
  "json_roundtrip stringify jparse \<longleftrightarrow> (\<forall>xs. jparse (json_strings stringify xs) = Some (JArr (map JStr xs)))"

lemma impact_targets_simps [simp]:
  "impact_targets [] = {}" "impact_targets (xs @ ys) = impact_targets xs \<union> impact_targets ys"
  by (auto simp: impact_targets_def)

lemma impact_targets_merge: "impact_targets (fold merge_entry es m) = impact_targets es \<union> impact_targets m"
proof (induction es arbitrary: m)
  case (Cons e es)
  have "impact_targets (merge_entry e m) = impact_targets [e] \<union> impact_targets m"
  proof -
    have "impact_targets [trim e] = impact_targets [e]" by (simp add: impact_targets_def)
    moreover have "trim e = [] \<Longrightarrow> impact_targets [e] = {}" by (simp add: impact_targets_def classify_blank)
    moreover have "trim e \<in> set m \<Longrightarrow> impact_targets [trim e] \<subseteq> impact_targets m"
      unfolding impact_targets_def by (fastforce simp del: classify_trim)
    ultimately show ?thesis by (auto simp: merge_entry_def Let_def)
  qed
  moreover have "impact_targets (e # es) = impact_targets [e] \<union> impact_targets es" by (auto simp: impact_targets_def)
  ultimately show ?case using Cons by auto
qed simp

lemma merge_prefix: "prefix m (fold merge_entry es m)"
proof (induction es arbitrary: m)
  case (Cons e es)
  have "prefix m (merge_entry e m)" by (simp add: merge_entry_def Let_def)
  then show ?case using Cons [of "merge_entry e m"] prefix_order.trans by auto
qed simp

lemma parse_strings:
  assumes "json_roundtrip stringify jparse"
  shows "parseImpact jparse (Some (json_strings stringify xs)) = xs"
proof -
  have "List.map_filter (\<lambda>v. case v of JStr x \<Rightarrow> Some x | _ \<Rightarrow> None) (map JStr xs) = xs"
    by (induction xs) (simp_all add: map_filter_simps)
  then show ?thesis using assms by (simp add: parseImpact_def json_roundtrip_def)
qed

lemma affected_insert:
  "affected_targets (insertDecisionEdges (edge_inserts env p i inp ws) t) j =
     (if j = i then impact_targets (nullish (di_impact inp) []) \<union> affected_targets t j else affected_targets t j)"
  unfolding affected_targets_def insertDecisionEdges_keys edge_inserts_keys impact_targets_def by auto

lemma mirrored_merge:
  assumes rt: "json_roundtrip (dw_stringify env) (dw_jparse env)" and ids: "distinct (map dm_id t)" "[] \<notin> dm_id ` set t"
    and d: "d' \<in> set (mergeImpactOnIdempotentHit env i incoming t)"
  obtains d where "d \<in> set t" "dm_id d' = dm_id d"
    "impact_targets (parseImpact (dw_jparse env) (dm_impact d')) =
       (if dm_id d = i then impact_targets incoming else {}) \<union> impact_targets (parseImpact (dw_jparse env) (dm_impact d))"
proof (cases "\<exists>d \<in> set t. dm_id d = i")
  case False
  then have "mergeImpactOnIdempotentHit env i incoming t = t"
    by (auto simp: mergeImpactOnIdempotentHit_def Let_def intro: map_idI)
  then show thesis using d False that [of d'] by auto
next
  case True
  then obtain e where e: "e \<in> set t" "dm_id e = i" by blast
  let ?cur = "parseImpact (dw_jparse env) (dm_impact e)"
  have "i \<noteq> []" using e ids(2) by (metis image_eqI)
  moreover have uniq: "x = e" if "x \<in> set t" "dm_id x = i" for x
    using that e ids(1) by (auto simp: distinct_map inj_on_def)
  then have "List.find (\<lambda>x. dm_id x = i) t = Some e" using find_unique [OF e(1), of "\<lambda>x. dm_id x = i"] e(2) by blast
  ultimately have sel: "selectDecisionTarget t i = Some e" by (simp add: selectDecisionTarget_def)
  show thesis
  proof (cases "length (fold merge_entry incoming ?cur) = length ?cur")
    case True
    then have "fold merge_entry incoming ?cur = ?cur" using merge_prefix [of ?cur incoming] by (auto elim!: prefixE)
    then have "impact_targets incoming \<subseteq> impact_targets ?cur" using impact_targets_merge [of incoming ?cur] by auto
    moreover have "mergeImpactOnIdempotentHit env i incoming t = t"
      using True by (simp add: mergeImpactOnIdempotentHit_def Let_def sel)
    ultimately show thesis using d that [of d'] uniq by (cases "dm_id d' = i") auto
  next
    case False
    then obtain x where x: "x \<in> set t" "d' = (if dm_id x = i
        then x\<lparr>dm_impact := Some (json_strings (dw_stringify env) (fold merge_entry incoming ?cur))\<rparr> else x)"
      using d by (auto simp: mergeImpactOnIdempotentHit_def Let_def sel split: if_splits)
    then show thesis
      using that [of x] uniq parse_strings [OF rt] by (auto simp: impact_targets_merge split: if_splits)
  qed
qed

text \<open>What a call that records adds, to the column of its decision and to the edges: the same.\<close>

lemma handler_targets:
  assumes ok: "decisions_ok db" and rt: "json_roundtrip (dw_stringify env) (dw_jparse env)"
    and call: "recordDecisionHandler env inp db = (Inr (DecisionRecorded i since new cands), db')"
  defines "tg \<equiv> \<lambda>d. impact_targets (parseImpact (dw_jparse env) (dm_impact d))"
    and "inc \<equiv> impact_targets (nullish (di_impact inp) [])"
  shows "affected_targets (dd_edges db') j = (if j = i then inc else {}) \<union> affected_targets (dd_edges db) j"
    and "d' \<in> set (dd_decisions db') \<Longrightarrow>
      (\<exists>d \<in> set (dd_decisions db). dm_id d = dm_id d' \<and> tg d' = (if dm_id d' = i then inc else {}) \<union> tg d) \<or>
      (dm_id d' = i \<and> affected_targets (dd_edges db) i = {} \<and> tg d' = inc)"
proof -
  let ?inc = "nullish (di_impact inp) []"
  obtain run :: run_attribution and row ws where i: "dm_id row = i"
    and "dm_idempotencyKey row = computeIdempotencyKey (dw_sha256 env) (di_runId inp) (di_description inp)"
    and "refused_target db (rb_projectId run) i (js_set (nullish (di_supersedesDecisionIds inp) [])) = None"
    and "new \<longleftrightarrow> selectByIdempotencyKey (dd_decisions db) (dm_idempotencyKey row) = None"
    and fresh: "new \<longrightarrow> i \<noteq> [] \<and> i \<notin> dm_id ` set (dd_decisions db)"
    and "\<not> new \<longrightarrow> i \<in> dm_id ` set (dd_decisions db)"
    and imp: "dm_impact row = (if ?inc = [] then None else Some (json_strings (dw_stringify env) ?inc))"
    and rows: "dd_decisions db' = (if new then dd_decisions db @ [row] else mergeImpactOnIdempotentHit env i ?inc (dd_decisions db))"
    and es: "dd_edges db' = insertDecisionEdges (edge_inserts env (rb_projectId run) i inp ws) (dd_edges db)"
    and "dd_links db' = pack_links.insert_all (map (\<lambda>w. \<lparr> dl_orgId = dm_orgId row, dl_projectId = rb_projectId run,
       dl_workPackId = w, dl_decisionId = i \<rparr>) ws) (dd_links db)"
    by (rule recorded_tables [OF call])
  show "affected_targets (dd_edges db') j = (if j = i then inc else {}) \<union> affected_targets (dd_edges db) j"
    by (simp add: es affected_insert inc_def)
  assume d': "d' \<in> set (dd_decisions db')"
  show "(\<exists>d \<in> set (dd_decisions db). dm_id d = dm_id d' \<and> tg d' = (if dm_id d' = i then inc else {}) \<union> tg d) \<or>
      (dm_id d' = i \<and> affected_targets (dd_edges db) i = {} \<and> tg d' = inc)"
  proof (cases new)
    case True
    have "tg row = inc"
      using parse_strings [OF rt] by (simp add: imp parseImpact_def [of _ None] tg_def inc_def)
    moreover have "affected_targets (dd_edges db) i = {}"
    proof -
      have "i \<notin> fst ` edge_key ` set (dd_edges db)" using True fresh decisions_okD(5) [OF ok] by (auto simp: sources_keys)
      then have "(i, Affects, ty, x) \<notin> edge_key ` set (dd_edges db)" for ty x by (metis fst_conv image_eqI)
      then show ?thesis by (simp add: affected_targets_def)
    qed
    moreover have "d' = row \<or> d' \<in> set (dd_decisions db) \<and> dm_id d' \<noteq> i" using d' True fresh by (auto simp: rows)
    ultimately show ?thesis using i by auto
  next
    case False
    with d' rows have "d' \<in> set (mergeImpactOnIdempotentHit env i ?inc (dd_decisions db))" by simp
    then obtain d where "d \<in> set (dd_decisions db)" "dm_id d' = dm_id d" "tg d' = (if dm_id d = i then inc else {}) \<union> tg d"
      unfolding tg_def inc_def by (rule mirrored_merge [OF rt decisions_okD(1,3) [OF ok]])
    then show ?thesis by auto
  qed
qed

lemma handler_mirrors:
  assumes ok: "decisions_ok db" and mir: "mirrored (dw_jparse env) db"
    and rt: "json_roundtrip (dw_stringify env) (dw_jparse env)"
  shows "mirrored (dw_jparse env) (snd (recordDecisionHandler env inp db))"
proof (cases "\<exists>i since new cands db'. recordDecisionHandler env inp db = (Inr (DecisionRecorded i since new cands), db')")
  case False
  then show ?thesis using not_recorded [of env inp db] mir by (metis prod.collapse)
next
  case True
  then obtain i since new cands db' where
    call: "recordDecisionHandler env inp db = (Inr (DecisionRecorded i since new cands), db')" by blast
  have "impact_targets (parseImpact (dw_jparse env) (dm_impact d')) = affected_targets (dd_edges db') (dm_id d')"
    if "d' \<in> set (dd_decisions db')" for d'
    using handler_targets(2) [OF ok rt call that] handler_targets(1) [OF ok rt call, of "dm_id d'"] mir
    by (auto simp: mirrored_def simp del: split_paired_All split_paired_Ex)
  then show ?thesis by (simp add: call mirrored_def)
qed

lemma record_all_mirrors:
  assumes "decisions_ok db" and "mirrored jparse db" and "json_roundtrip stringify jparse"
    and "list_all (\<lambda>c. dw_stringify (fst c) = stringify \<and> dw_jparse (fst c) = jparse) calls"
  shows "mirrored jparse (record_all calls db)"
  using assms
proof (induction calls arbitrary: db)
  case (Cons c cs)
  then have "mirrored jparse (snd (recordDecisionHandler (fst c) (snd c) db))"
    using handler_mirrors [of db "fst c" "snd c"] by simp
  then show ?case using Cons handler_keeps_ok by simp
qed simp

section \<open>Calls broken off\<close>

lemma touch_each: "fold (\<lambda>w. touchWorkPacksActivity [w] now) ws t = touchWorkPacksActivity ws now t"
proof (induction ws arbitrary: t)
  case (Cons w ws)
  then show ?case by (auto simp: touchWorkPacksActivity_def)
qed (simp add: touchWorkPacksActivity_def)

lemma fold_writes:
  "fold (\<lambda>w. w) (map (\<lambda>x d. d\<lparr>dd_links := f x (dd_links d)\<rparr>) xs) db = db\<lparr>dd_links := fold f xs (dd_links db)\<rparr>"
  "fold (\<lambda>w. w) (map (\<lambda>x d. d\<lparr>dd_packs := g x (dd_packs d)\<rparr>) xs) db = db\<lparr>dd_packs := fold g xs (dd_packs db)\<rparr>"
  "fold (\<lambda>w. w) (map (\<lambda>e d. d\<lparr>dd_edges := h e (dd_edges d)\<rparr>) es) db = db\<lparr>dd_edges := fold h es (dd_edges db)\<rparr>"
proof (induction xs arbitrary: db)
  case Nil
  { case 3 then show ?case by (induction es arbitrary: db) simp_all }
qed simp_all

text \<open>Each kind of write of a call, all of them in one.\<close>

lemma call_parts:
  "fold (\<lambda>w. w) (map (\<lambda>w d. d\<lparr>dd_links := linkDecisionToWorkPacks orgId p i [w] (dd_links d)\<rparr>) ws) db =
     db\<lparr>dd_links := linkDecisionToWorkPacks orgId p i ws (dd_links db)\<rparr>"
  "fold (\<lambda>w. w) (map (\<lambda>w d. d\<lparr>dd_packs := touchWorkPacksActivity [w] now (dd_packs d)\<rparr>) ws) db =
     db\<lparr>dd_packs := touchWorkPacksActivity ws now (dd_packs db)\<rparr>"
  "fold (\<lambda>w. w) (map (\<lambda>e d. d\<lparr>dd_edges := fst (insertEdge e (dd_edges d))\<rparr>) (fold put_edge es [])) db =
     db\<lparr>dd_edges := insertDecisionEdges es (dd_edges db)\<rparr>"
proof -
  have "fold (\<lambda>w. linkDecisionToWorkPacks orgId p i [w]) ws t = linkDecisionToWorkPacks orgId p i ws t" for t
    by (induction ws arbitrary: t) (simp_all add: linkDecisionToWorkPacks_def)
  then show "fold (\<lambda>w. w) (map (\<lambda>w d. d\<lparr>dd_links := linkDecisionToWorkPacks orgId p i [w] (dd_links d)\<rparr>) ws) db =
     db\<lparr>dd_links := linkDecisionToWorkPacks orgId p i ws (dd_links db)\<rparr>"
    unfolding fold_writes(1) [of "\<lambda>w. linkDecisionToWorkPacks orgId p i [w]"] by simp
  show "fold (\<lambda>w. w) (map (\<lambda>w d. d\<lparr>dd_packs := touchWorkPacksActivity [w] now (dd_packs d)\<rparr>) ws) db =
     db\<lparr>dd_packs := touchWorkPacksActivity ws now (dd_packs db)\<rparr>"
    unfolding fold_writes(2) [of "\<lambda>w. touchWorkPacksActivity [w] now"] touch_each ..
  show "fold (\<lambda>w. w) (map (\<lambda>e d. d\<lparr>dd_edges := fst (insertEdge e (dd_edges d))\<rparr>) (fold put_edge es [])) db =
     db\<lparr>dd_edges := insertDecisionEdges es (dd_edges db)\<rparr>"
    unfolding fold_writes(3) [of "\<lambda>e t. fst (insertEdge e t)"] insertDecisionEdges_def ..
qed

lemma new_decision_key [simp]:
  "dm_idempotencyKey (new_decision env run actor i inp) = computeIdempotencyKey (dw_sha256 env) (di_runId inp) (di_description inp)"
  by (simp add: new_decision_def)

lemma linked_packs [simp]: "work_packs_to_link (db\<lparr>dd_decisions := ds\<rparr>) run inp = work_packs_to_link db run inp"
  by (simp add: work_packs_to_link_def)

text \<open>A call that is not broken off is the handler.\<close>

lemma call_writes_whole: "fold (\<lambda>w. w) (call_writes env inp db) db = snd (recordDecisionHandler env inp db)"
proof (cases "\<exists>i since new cands db'. recordDecisionHandler env inp db = (Inr (DecisionRecorded i since new cands), db')")
  case False
  then have "call_writes env inp db = []" by (auto simp: call_writes_def split: prod.splits sum.splits record_answer.splits)
  then show ?thesis using not_recorded [of env inp db] False by (metis fold_simps(1) prod.collapse)
next
  case True
  then obtain i since new cands db' where call: "recordDecisionHandler env inp db = (Inr (DecisionRecorded i since new cands), db')"
    by blast
  obtain run actor row db1 where run: "selectRunAttribution (dw_runs env) (dw_projects env) (di_runId inp) = Some run"
    "requireActorIdentityForTeamMode (dw_configTeam env) (dw_claims env) = Identity actor"
    and r: "row = new_decision env run actor i inp"
    and "refused_target db (rb_projectId run) i (js_set (nullish (di_supersedesDecisionIds inp) [])) = None"
    and "new \<longleftrightarrow> selectByIdempotencyKey (dd_decisions db) (dm_idempotencyKey row) = None"
    and "new \<longrightarrow> i = ''dec_'' @ dw_uuid env \<and> i \<notin> dm_id ` set (dd_decisions db) \<and> since = dw_now env"
    and "\<not> new \<longrightarrow> (\<exists>d. selectByIdempotencyKey (dd_decisions db) (dm_idempotencyKey row) = Some d \<and> dm_id d = i \<and> dm_createdAt d = since)"
    and d1: "db1 = complete_record env inp run actor i new
       (db\<lparr>dd_decisions := (if new then dd_decisions db @ [row] else dd_decisions db)\<rparr>)"
    and "cands = relatedDecisionCandidates env db1 (rb_projectId run) i inp"
    and d': "db' = (if new \<and> dw_envTeam env then db1\<lparr>dd_jobs := enqueue_decision_sync env (dm_idempotencyKey row) (dd_jobs db1)\<rparr> else db1)"
    by (rule recorded_call [OF call])
  show ?thesis
    by (simp add: call call_writes_def run Let_def call_parts) (simp add: d' d1 r complete_record_def Let_def)
qed

definition additive :: "(decision_db \<Rightarrow> decision_db) \<Rightarrow> bool" where
  "additive w \<longleftrightarrow> (\<forall>d. dd_decisions (w d) = dd_decisions d \<and> prefix (dd_edges d) (dd_edges (w d)))"

lemma additive_writes:
  "list_all additive ws \<Longrightarrow> dd_decisions (fold (\<lambda>w. w) ws d) = dd_decisions d \<and> prefix (dd_edges d) (dd_edges (fold (\<lambda>w. w) ws d))"
proof (induction ws arbitrary: d)
  case (Cons w ws)
  then have w: "additive w" "list_all additive ws" by simp_all
  from Cons.IH [OF w(2), of "w d"] w(1) show ?case by (auto simp: additive_def intro: prefix_order.trans)
qed simp

lemma call_writes_cases:
  obtains "call_writes env inp db = []"
  | w ws where "call_writes env inp db = w # ws" and "list_all additive ws" and "\<And>d. dd_edges (w d) = dd_edges d"
proof -
  have "additive (\<lambda>d. d\<lparr>dd_edges := fst (insertEdge e (dd_edges d))\<rparr>)" for e
    using edges.insert_all_prefix [of _ "[e]"] by (simp add: additive_def)
  then have "call_writes env inp db = [] \<or>
      (\<exists>w ws. call_writes env inp db = w # ws \<and> list_all additive ws \<and> (\<forall>d. dd_edges (w d) = dd_edges d))"
    by (auto simp: call_writes_def Let_def additive_def list_all_iff split: prod.splits sum.splits record_answer.splits option.splits)
  then show thesis using that by blast
qed

text \<open>A call broken off did nothing, or wrote its row and a first part of its edges.\<close>

lemma broken_between:
  "broken_call k env inp db = db \<or>
   (dd_decisions (broken_call k env inp db) = dd_decisions (snd (recordDecisionHandler env inp db)) \<and>
    prefix (dd_edges db) (dd_edges (broken_call k env inp db)) \<and>
    prefix (dd_edges (broken_call k env inp db)) (dd_edges (snd (recordDecisionHandler env inp db))))"
proof (rule call_writes_cases [of env inp db])
  assume "call_writes env inp db = []"
  then show ?thesis by (simp add: broken_call_def)
next
  fix w ws assume ws: "call_writes env inp db = w # ws" "list_all additive ws" "\<And>d. dd_edges (w d) = dd_edges d"
  show ?thesis
  proof (cases k)
    case 0
    then show ?thesis by (simp add: broken_call_def)
  next
    case (Suc n)
    let ?d = "fold (\<lambda>w. w) (take n ws) (w db)"
    have full: "snd (recordDecisionHandler env inp db) = fold (\<lambda>w. w) (drop n ws) ?d"
      using fold_append [of "\<lambda>w. w" "take n ws" "drop n ws"] by (simp add: call_writes_whole [symmetric] ws(1))
    have parts: "list_all additive (take n ws)" "list_all additive (drop n ws)"
      using ws(2) by (auto simp: list_all_iff dest: in_set_takeD in_set_dropD)
    show ?thesis
      using additive_writes [OF parts(1), of "w db"] additive_writes [OF parts(2), of ?d] ws(3)
      by (simp add: broken_call_def ws(1) Suc full)
  qed
qed

lemma prefix_keeps_ok:
  assumes ok: "decisions_ok full" and rows: "dd_decisions db = dd_decisions full" and es: "prefix (dd_edges db) (dd_edges full)"
  shows "decisions_ok db"
proof -
  from es obtain more where more: "dd_edges full = dd_edges db @ more" by (auto elim: prefixE)
  then have sub: "supersession (dd_edges db) \<subseteq> supersession (dd_edges full)" by (auto simp: supersession_def)
  note less = acyclic_subset [OF decisions_okD(7) [OF ok] sub] subset_trans [OF image_mono [OF sub] decisions_okD(6) [OF ok]]
  show ?thesis using less ok rows more by (simp add: decisions_ok_def sources_def image_Un)
qed

text \<open>Every edge to a file, a node or a concept is backed by an entry of the column.\<close>

definition covered :: "(string \<Rightarrow> js option) \<Rightarrow> decision_db \<Rightarrow> bool" where
  "covered jparse db \<longleftrightarrow>
     (\<forall>d \<in> set (dd_decisions db). affected_targets (dd_edges db) (dm_id d) \<subseteq> impact_targets (parseImpact jparse (dm_impact d)))"

lemma affected_prefix: "prefix t u \<Longrightarrow> affected_targets t i \<subseteq> affected_targets u i"
  by (auto simp: affected_targets_def elim!: prefixE)

lemma handler_covers:
  assumes ok: "decisions_ok db" and cov: "covered (dw_jparse env) db"
    and rt: "json_roundtrip (dw_stringify env) (dw_jparse env)"
  shows "covered (dw_jparse env) (snd (recordDecisionHandler env inp db))"
proof (cases "\<exists>i since new cands db'. recordDecisionHandler env inp db = (Inr (DecisionRecorded i since new cands), db')")
  case False
  then show ?thesis using not_recorded [of env inp db] cov by (metis prod.collapse)
next
  case True
  then obtain i since new cands db' where
    call: "recordDecisionHandler env inp db = (Inr (DecisionRecorded i since new cands), db')" by blast
  have "affected_targets (dd_edges db') (dm_id d') \<subseteq> impact_targets (parseImpact (dw_jparse env) (dm_impact d'))"
    if d': "d' \<in> set (dd_decisions db')" for d'
    using handler_targets(2) [OF ok rt call d']
  proof
    assume "\<exists>d \<in> set (dd_decisions db). dm_id d = dm_id d' \<and> impact_targets (parseImpact (dw_jparse env) (dm_impact d')) =
        (if dm_id d' = i then impact_targets (nullish (di_impact inp) []) else {}) \<union> impact_targets (parseImpact (dw_jparse env) (dm_impact d))"
    then obtain d where d: "d \<in> set (dd_decisions db)" "dm_id d = dm_id d'"
      "impact_targets (parseImpact (dw_jparse env) (dm_impact d')) =
        (if dm_id d' = i then impact_targets (nullish (di_impact inp) []) else {}) \<union> impact_targets (parseImpact (dw_jparse env) (dm_impact d))"
      by blast
    have "affected_targets (dd_edges db) (dm_id d) \<subseteq> impact_targets (parseImpact (dw_jparse env) (dm_impact d))"
      using cov d(1) by (simp add: covered_def)
    then show ?thesis unfolding handler_targets(1) [OF ok rt call] d(3) d(2) by blast
  qed (simp add: handler_targets(1) [OF ok rt call])
  then show ?thesis by (simp add: call covered_def)
qed

text \<open>Calls of which some are broken off, each after as many of its writes as it says.\<close>

definition run_call :: "nat option \<times> decision_env \<times> decision_input \<Rightarrow> decision_db \<Rightarrow> decision_db" where
  "run_call c db =
     (case c of
        (None, env, inp) \<Rightarrow> snd (recordDecisionHandler env inp db)
      | (Some k, env, inp) \<Rightarrow> broken_call k env inp db)"

lemma run_call_keeps:
  assumes ok: "decisions_ok db" and cov: "covered jparse db" and rt: "json_roundtrip stringify jparse"
    and c: "dw_stringify (fst (snd c)) = stringify" "dw_jparse (fst (snd c)) = jparse"
  shows "decisions_ok (run_call c db) \<and> covered jparse (run_call c db)"
proof -
  obtain cut env inp where call: "c = (cut, env, inp)" by (cases c)
  let ?full = "snd (recordDecisionHandler env inp db)"
  have full: "decisions_ok ?full" "covered jparse ?full"
    using handler_keeps_ok [OF ok] handler_covers [of db env inp] ok cov rt c by (simp_all add: call)
  show ?thesis
  proof (cases cut)
    case None
    with full show ?thesis by (simp add: run_call_def call)
  next
    case (Some k)
    show ?thesis using broken_between [of k env inp db]
    proof
      assume "dd_decisions (broken_call k env inp db) = dd_decisions ?full \<and>
        prefix (dd_edges db) (dd_edges (broken_call k env inp db)) \<and> prefix (dd_edges (broken_call k env inp db)) (dd_edges ?full)"
      then have b: "dd_decisions (broken_call k env inp db) = dd_decisions ?full" "prefix (dd_edges (broken_call k env inp db)) (dd_edges ?full)"
        by simp_all
      have "covered jparse (broken_call k env inp db)"
        using full(2) affected_prefix [OF b(2)] unfolding covered_def b(1) by blast
      with prefix_keeps_ok [OF full(1) b] show ?thesis by (simp add: run_call_def call Some)
    qed (use ok cov in \<open>simp add: run_call_def call Some\<close>)
  qed
qed

lemma run_calls_keep:
  assumes "decisions_ok db" and "covered jparse db" and "json_roundtrip stringify jparse"
    and "\<forall>c \<in> set calls. dw_stringify (fst (snd c)) = stringify \<and> dw_jparse (fst (snd c)) = jparse"
  shows "decisions_ok (fold run_call calls db) \<and> covered jparse (fold run_call calls db)"
  using assms
proof (induction calls arbitrary: db)
  case (Cons c cs)
  have "decisions_ok (run_call c db) \<and> covered jparse (run_call c db)"
    by (rule run_call_keeps [OF Cons.prems(1-3)]) (use Cons.prems(4) in auto)
  then show ?case using Cons.IH [of "run_call c db"] Cons.prems(3,4) by simp
qed simp

lemma whole_calls: "\<forall>c \<in> set calls. fst c = None \<Longrightarrow> fold run_call calls db = record_all (map snd calls) db"
  by (induction calls arbitrary: db) (auto simp: run_call_def)

text \<open>A call repeated to its end closes the gap that one broken off has left.\<close>

theorem retry_closes_gap:
  assumes ok: "decisions_ok db" and mir: "mirrored (dw_jparse env) db"
    and rt: "json_roundtrip (dw_stringify env) (dw_jparse env)" "dw_stringify env2 = dw_stringify env" "dw_jparse env2 = dw_jparse env"
    and call: "recordDecisionHandler env inp db = (Inr (DecisionRecorded i since new cands), db')"
    and retry: "recordDecisionHandler env2 inp2 (broken_call k env inp db) = (Inr (DecisionRecorded i since2 new2 cands2), db2)"
    and same: "nullish (di_impact inp2) [] = nullish (di_impact inp) []"
  shows "mirrored (dw_jparse env) db2"
proof -
  let ?b = "broken_call k env inp db" and ?tg = "\<lambda>d. impact_targets (parseImpact (dw_jparse env) (dm_impact d))"
  let ?inc = "impact_targets (nullish (di_impact inp) [])"
  have okb: "decisions_ok ?b"
    using broken_between [of k env inp db] prefix_keeps_ok [OF handler_keeps_ok [OF ok]] ok by metis
  have gap: "?tg d \<union> (if dm_id d = i then ?inc else {}) =
      affected_targets (dd_edges ?b) (dm_id d) \<union> (if dm_id d = i then ?inc else {})" if d: "d \<in> set (dd_decisions ?b)" for d
    using broken_between [of k env inp db]
  proof
    assume "?b = db"
    then show ?thesis using mir d by (simp add: mirrored_def)
  next
    assume *: "dd_decisions ?b = dd_decisions (snd (recordDecisionHandler env inp db)) \<and>
      prefix (dd_edges db) (dd_edges ?b) \<and> prefix (dd_edges ?b) (dd_edges (snd (recordDecisionHandler env inp db)))"
    have "mirrored (dw_jparse env) db'" using handler_mirrors [OF ok mir rt(1), of inp] by (simp add: call)
    then have "?tg d = affected_targets (dd_edges db') (dm_id d)" using d * by (simp add: mirrored_def call)
    moreover have "affected_targets (dd_edges db) (dm_id d) \<subseteq> affected_targets (dd_edges ?b) (dm_id d)"
      "affected_targets (dd_edges ?b) (dm_id d) \<subseteq> affected_targets (dd_edges db') (dm_id d)"
      using * by (simp_all add: affected_prefix call)
    ultimately show ?thesis using handler_targets(1) [OF ok rt(1) call, of "dm_id d"] by (auto split: if_splits)
  qed
  have rt2: "json_roundtrip (dw_stringify env2) (dw_jparse env2)" using rt by simp
  note added = handler_targets [OF okb rt2 retry, unfolded rt(3) same]
  have "?tg d' = affected_targets (dd_edges db2) (dm_id d')" if d': "d' \<in> set (dd_decisions db2)" for d'
    using added(2) [OF d']
  proof
    assume "\<exists>d \<in> set (dd_decisions ?b). dm_id d = dm_id d' \<and> ?tg d' = (if dm_id d' = i then ?inc else {}) \<union> ?tg d"
    then obtain d where d: "d \<in> set (dd_decisions ?b)" "dm_id d = dm_id d'" "?tg d' = (if dm_id d' = i then ?inc else {}) \<union> ?tg d"
      by blast
    show ?thesis unfolding added(1) d(3) using gap [OF d(1)] unfolding d(2) by (simp add: Un_commute)
  qed (simp add: added(1))
  then show ?thesis by (simp add: mirrored_def)
qed

section \<open>A small history\<close>

definition sample_runs :: "bound_run list" where
  "sample_runs = [\<lparr> rn_id = ''r1'', rn_orgId = None, rn_projectId = ''p1'', rn_sessionId = ''s1'', rn_agentType = ''claude_code'',
     rn_mode = ''solo'', rn_status = ''in_progress'', rn_createdByUserId = None, rn_startedAt = 1, rn_endedAt = None,
     rn_baselineGeneration = 0, rn_activeCapabilitiesJson = ''[]'', rn_baseSha = None, rn_compactionNudgedAt = None,
     rn_workPackId = None, rn_issueRef = None \<rparr>]"

definition sample_projects :: "project list" where
  "sample_projects = [\<lparr> pj_id = ''p1'', pj_slug = ''demo'', pj_orgId = ''org'', pj_name = ''demo'', pj_cwd = None, pj_updatedAt = 0 \<rparr>]"

text \<open>A simple invertible rendering of an array of strings stands for \<open>JSON\<close>.\<close>

definition sample_stringify :: "js \<Rightarrow> string" where
  "sample_stringify v = (case v of
     JArr vs \<Rightarrow> concat (map (\<lambda>v. case v of JStr s \<Rightarrow> concat (map (\<lambda>c. [CHR ''c'', c]) s) @ ''e'' | _ \<Rightarrow> []) vs)
   | _ \<Rightarrow> [])"

fun sample_scan :: "string \<Rightarrow> string \<Rightarrow> js list \<Rightarrow> js list" where
  "sample_scan acc (x # c # s) vs =
     (if x = CHR ''c'' then sample_scan (acc @ [c]) s vs else sample_scan [] (c # s) (vs @ [JStr acc]))"
| "sample_scan acc [x] vs = vs @ [JStr acc]"
| "sample_scan acc [] vs = vs"

definition sample_jparse :: "string \<Rightarrow> js option" where
  "sample_jparse s = Some (JArr (sample_scan [] s []))"

lemma sample_scan_string:
  "sample_scan acc (concat (map (\<lambda>c. [CHR ''c'', c]) s) @ CHR ''e'' # rest) vs = sample_scan [] rest (vs @ [JStr (acc @ s)])"
  by (induction s arbitrary: acc) (cases rest; simp)+

lemma sample_json: "json_roundtrip sample_stringify sample_jparse"
proof -
  have "sample_scan [] (sample_stringify (JArr (map JStr xs))) vs = vs @ map JStr xs" for xs vs
    by (induction xs arbitrary: vs) (simp_all add: sample_stringify_def sample_scan_string)
  then show ?thesis by (simp add: json_roundtrip_def json_strings_def sample_jparse_def)
qed

definition sample_decision_env :: "string \<Rightarrow> int \<Rightarrow> decision_env" where
  "sample_decision_env uuid now =
     \<lparr> dw_runs = sample_runs, dw_projects = sample_projects, dw_configTeam = False, dw_envTeam = False, dw_claims = None,
       dw_uuid = uuid, dw_now = now, dw_sha256 = id, dw_stringify = sample_stringify, dw_jparse = sample_jparse, dw_jobId = ''j'' \<rparr>"

definition sample_input :: "string \<Rightarrow> string list \<Rightarrow> string list \<Rightarrow> decision_input" where
  "sample_input description impact supersedes =
     \<lparr> di_runId = ''r1'', di_description = description, di_rationale = ''because'', di_alternatives = None,
       di_context = None, di_impact = Some impact, di_confidence = None, di_reversible = None,
       di_supersedesDecisionIds = Some supersedes, di_workPackSlugs = None \<rparr>"

section \<open>Properties\<close>

text \<open>C26: The loop that is to keep supersession free of cycles answers exactly the question it is asked, on any
  table, cyclic or not: a new edge from one decision to another is refused iff the other already
  supersedes it, directly or through others.\<close>

theorem cycle_check_exact:
  "wouldCreateSupersessionCycle t fromDecisionId targetDecisionId \<longleftrightarrow>
     (targetDecisionId, fromDecisionId) \<in> (supersession t)\<^sup>*"
  using cycle_search_exact [of fromDecisionId "[]" t "[targetDecisionId]"]
  by (simp add: wouldCreateSupersessionCycle_def)

text \<open>C27: Whatever calls of \<open>record_decision\<close> were answered, no decision supersedes itself through others, and every
  decision recorded is in force or replaced, in some steps, by one that is.\<close>

theorem superseded_has_successor:
  assumes "i \<in> dm_id ` set (dd_decisions (record_all calls (no_decisions packs jobs)))"
  shows "acyclic (supersession (dd_edges (record_all calls (no_decisions packs jobs)))) \<and>
    (\<exists>j \<in> dm_id ` set (dd_decisions (record_all calls (no_decisions packs jobs))).
       in_force (dd_edges (record_all calls (no_decisions packs jobs))) j \<and>
       (j, i) \<in> (supersession (dd_edges (record_all calls (no_decisions packs jobs))))\<^sup>*)"
  using successor_in_force [OF record_all_ok [OF no_decisions_ok] assms]
    decisions_okD(7) [OF record_all_ok [OF no_decisions_ok]] by blast

definition sample_calls :: "(decision_env \<times> decision_input) list" where
  "sample_calls =
     [(sample_decision_env ''a'' 10, sample_input ''use sqlite'' [''src/db/open.ts''] []),
      (sample_decision_env ''b'' 20, sample_input ''use postgres'' [''storage''] [''dec_a'']),
      (sample_decision_env ''c'' 30, sample_input ''use sqlite'' [''src/db/close.ts''] [''dec_b''])]"

lemma sample_history:
  "map dm_id (dd_decisions (record_all sample_calls (no_decisions [] []))) = [''dec_a'', ''dec_b'']"
  "map (\<lambda>e. (eg_from e, eg_targetId e)) (dd_edges (record_all sample_calls (no_decisions [] []))) =
     [(''dec_a'', ''src/db/open.ts''), (''dec_b'', ''dec_a''), (''dec_b'', ''storage'')]"
  by code_simp+

theorem superseded_has_successor_witness:
  "\<exists>j \<in> dm_id ` set (dd_decisions (record_all sample_calls (no_decisions [] []))).
     (j, ''dec_a'') \<in> (supersession (dd_edges (record_all sample_calls (no_decisions [] []))))\<^sup>*"
proof -
  have "''dec_a'' \<in> set (map dm_id (dd_decisions (record_all sample_calls (no_decisions [] []))))"
    by (simp only: sample_history) simp
  then show ?thesis using superseded_has_successor [of "''dec_a''" sample_calls "[]" "[]"] by auto
qed

text \<open>C28: Decisions are history: whatever calls follow, the recorded rows stay in place with every column as it was
  but the impact, and no edge and no link to a work pack is lost or changed.\<close>

theorem decisions_append_only:
  "prefix (map recorded_text (dd_decisions db)) (map recorded_text (dd_decisions (record_all calls db))) \<and>
   prefix (dd_edges db) (dd_edges (record_all calls db)) \<and> prefix (dd_links db) (dd_links (record_all calls db))"
  using record_all_prefix by blast

text \<open>A retry is answered with the decision that was recorded: once a call has recorded a description for a run, any
  later call with the same run and description that is not refused names the same row, its time of
  creation, and says that it is not new; other calls may come in between.\<close>

theorem retry_names_first_row:
  assumes "recordDecisionHandler env inp db = (Inr (DecisionRecorded i since new cands), db')"
    and "recordDecisionHandler env2 inp2 (record_all calls db') = (Inr (DecisionRecorded i2 since2 new2 cands2), db2)"
    and "di_runId inp2 = di_runId inp" and "di_description inp2 = di_description inp" and "dw_sha256 env2 = dw_sha256 env"
  shows "i2 = i \<and> since2 = since \<and> \<not> new2"
proof -
  let ?k = "computeIdempotencyKey (dw_sha256 env) (di_runId inp) (di_description inp)"
  obtain d where d: "selectByIdempotencyKey (dd_decisions db') ?k = Some d" "dm_id d = i" "dm_createdAt d = since"
    using recorded_row_found [OF assms(1)] by blast
  obtain e where e: "selectByIdempotencyKey (dd_decisions (record_all calls db')) ?k = Some e" "recorded_text e = recorded_text d"
    using select_prefix [OF record_all_prefix(1) d(1)] by blast
  show ?thesis
    by (rule recorded_call [OF assms(2)]) (use e d recorded_text_eq [OF e(2)] assms(3-5) in \<open>simp add: new_decision_def; blast\<close>)
qed

lemma sample_first:
  "fst (recordDecisionHandler (sample_decision_env ''a'' 10) (sample_input ''use sqlite'' [''src/db/open.ts''] []) (no_decisions [] [])) =
     Inr (DecisionRecorded ''dec_a'' 10 True [])"
  by code_simp

lemma sample_retry:
  "fst (recordDecisionHandler (sample_decision_env ''d'' 40) (sample_input ''use sqlite'' [''storage''] [])
      (record_all [(sample_decision_env ''b'' 20, sample_input ''use postgres'' [] [''dec_a''])]
        (snd (recordDecisionHandler (sample_decision_env ''a'' 10) (sample_input ''use sqlite'' [''src/db/open.ts''] [])
           (no_decisions [] []))))) =
     Inr (DecisionRecorded ''dec_a'' 10 False [(''dec_b'', ''use postgres'', ''overlap:because'')])"
  by code_simp

text \<open>C29: No edge of a decision is without its entry: whatever calls of \<open>record_decision\<close> were made, first calls or
  retries, each run to its end or broken off after any of its writes, the files, graph nodes and concepts
  that a decision's edges name are among those that the entries of its impact column name; and when
  no call was broken off, the two agree.  The rendering of an array of strings as JSON is assumed to be read
  back.  Calls follow one another; two calls at once are outside the model.\<close>

theorem impact_column_mirrors_edges:
  assumes "json_roundtrip stringify jparse"
    and "\<forall>c \<in> set calls. dw_stringify (fst (snd c)) = stringify \<and> dw_jparse (fst (snd c)) = jparse"
    and "d \<in> set (dd_decisions (fold run_call calls (no_decisions packs jobs)))"
  shows "affected_targets (dd_edges (fold run_call calls (no_decisions packs jobs))) (dm_id d) \<subseteq>
      impact_targets (parseImpact jparse (dm_impact d)) \<and>
    ((\<forall>c \<in> set calls. fst c = None) \<longrightarrow>
      affected_targets (dd_edges (fold run_call calls (no_decisions packs jobs))) (dm_id d) =
      impact_targets (parseImpact jparse (dm_impact d)))"
proof (intro conjI impI)
  have "covered jparse (no_decisions packs jobs)" by (simp add: covered_def no_decisions_def)
  then show "affected_targets (dd_edges (fold run_call calls (no_decisions packs jobs))) (dm_id d) \<subseteq>
      impact_targets (parseImpact jparse (dm_impact d))"
    using run_calls_keep [OF no_decisions_ok _ assms(1,2)] assms(3) by (simp add: covered_def)
  assume whole: "\<forall>c \<in> set calls. fst c = None"
  have "mirrored jparse (no_decisions packs jobs)" by (simp add: mirrored_def no_decisions_def)
  moreover have "list_all (\<lambda>c. dw_stringify (fst c) = stringify \<and> dw_jparse (fst c) = jparse) (map snd calls)"
    using assms(2) by (auto simp: list_all_iff)
  ultimately show "affected_targets (dd_edges (fold run_call calls (no_decisions packs jobs))) (dm_id d) =
      impact_targets (parseImpact jparse (dm_impact d))"
    using record_all_mirrors [OF no_decisions_ok _ assms(1)] assms(3) by (simp add: mirrored_def whole_calls [OF whole])
qed

text \<open>The third call, which adds an entry to the first decision, is broken off after its first write: the entry is
  in the column, the edge is missing.\<close>

definition broken_calls :: "(nat option \<times> decision_env \<times> decision_input) list" where
  "broken_calls =
     [(None, sample_calls ! 0), (None, sample_calls ! 1),
      (Some 1, sample_decision_env ''d'' 40, sample_input ''use sqlite'' [''src/db/close.ts''] [])]"

lemma broken_history:
  "map dm_id (dd_decisions (fold run_call broken_calls (no_decisions [] []))) = [''dec_a'', ''dec_b'']"
  "map (\<lambda>e. (eg_from e, eg_targetId e)) (dd_edges (fold run_call broken_calls (no_decisions [] []))) =
     [(''dec_a'', ''src/db/open.ts''), (''dec_b'', ''dec_a''), (''dec_b'', ''storage'')]"
  "parseImpact sample_jparse (dm_impact (hd (dd_decisions (fold run_call broken_calls (no_decisions [] []))))) =
     [''src/db/open.ts'', ''src/db/close.ts'']"
  by code_simp+

theorem impact_column_mirrors_edges_witness:
  "\<exists>d \<in> set (dd_decisions (fold run_call broken_calls (no_decisions [] []))). dm_id d = ''dec_a'' \<and>
     affected_targets (dd_edges (fold run_call broken_calls (no_decisions [] []))) ''dec_a'' \<subseteq>
       impact_targets (parseImpact sample_jparse (dm_impact d))"
proof -
  have "''dec_a'' \<in> set (map dm_id (dd_decisions (fold run_call broken_calls (no_decisions [] []))))"
    by (simp only: broken_history) simp
  then obtain d where d: "d \<in> set (dd_decisions (fold run_call broken_calls (no_decisions [] [])))" "dm_id d = ''dec_a''"
    by auto
  have "\<forall>c \<in> set broken_calls. dw_stringify (fst (snd c)) = sample_stringify \<and> dw_jparse (fst (snd c)) = sample_jparse"
    by (simp add: broken_calls_def sample_calls_def sample_decision_env_def)
  then show ?thesis using impact_column_mirrors_edges [OF sample_json _ d(1)] d by metis
qed

end
