(* ===== verification/Decision_Query.thy ===== *)
theory Decision_Query
  imports Decision_Store
begin

text \<open>
  The readers of the decision memory: \<open>query_decisions\<close> and \<open>query_decisions_by_file\<close> of
  \<open>apps/mcp-server/src/tools\<close> with \<open>lib/fts-query.ts\<close> and \<open>lib/graph-freshness.ts\<close>.

  Parameters: \<open>qe_match\<close>, the ids and ranks that SQLite's full-text index answers; \<open>be_graph\<close>, the graph file
  with its time and size (\<open>None\<close> when it cannot be read or parsed), \<open>be_git\<close>, the output of a git command
  (\<open>None\<close> when it fails), and \<open>be_parseInt\<close>.  Node's \<open>isAbsolute\<close> and \<open>relative\<close> are those of POSIX.
\<close>

section \<open>Which decisions a query may see\<close>

record relationship =
  rp_source :: "string option"
  rp_target :: "string option"

definition collectRelatedIds :: "relationship list \<Rightarrow> string \<Rightarrow> string list" where
  "collectRelatedIds rows workPackId =
     js_set (concat (map (\<lambda>r.
        (if rp_source r = Some workPackId then (case rp_target r of Some t \<Rightarrow> [t] | None \<Rightarrow> []) else []) @
        (if rp_target r = Some workPackId then (case rp_source r of Some s \<Rightarrow> [s] | None \<Rightarrow> []) else [])) rows))"

definition selectRelatedWorkPackIds :: "relationship list \<Rightarrow> string \<Rightarrow> string list" where
  "selectRelatedWorkPackIds t workPackId =
     collectRelatedIds (filter (\<lambda>r. rp_source r = Some workPackId \<or> rp_target r = Some workPackId) t) workPackId"

definition selectDecisionIdsLinkedToWorkPacks :: "pack_decision_link list \<Rightarrow> string list \<Rightarrow> string list" where
  "selectDecisionIdsLinkedToWorkPacks t workPackIds =
     (if workPackIds = [] then [] else map dl_decisionId (filter (\<lambda>l. dl_workPackId l \<in> set workPackIds) t))"

text \<open>The white-space separated words of a text.\<close>

function words_of :: "string \<Rightarrow> string list" where
  "words_of [] = []"
| "words_of (c # cs) =
     (if js_space c then words_of cs
      else (c # takeWhile (\<lambda>x. \<not> js_space x) cs) # words_of (dropWhile (\<lambda>x. \<not> js_space x) cs))"
  by pat_completeness auto

termination
  by (relation "measure length") (auto simp: le_imp_less_Suc length_dropWhile_le)

definition toSqliteFtsQuery :: "string \<Rightarrow> string" where
  "toSqliteFtsQuery raw =
     (let quote = (\<lambda>w. CHR 0x22 # concat (map (\<lambda>c. if c = CHR 0x22 then [CHR 0x22, CHR 0x22] else [c]) w) @ [CHR 0x22]);
          tokens = map quote (words_of raw) in
      if tokens \<noteq> [] then join '' AND '' tokens else [CHR 0x22, CHR 0x22])"

section \<open>\<open>query_decisions\<close>\<close>

record query_input =
  qi_projectSlug :: string
  qi_query :: "string option"
  qi_runId :: "string option"
  qi_issueRef :: "string option"
  qi_workPackId :: "string option"
  qi_includeRelated :: bool
  qi_activeOnly :: bool
  qi_limit :: nat

record query_env =
  qe_projects :: "project list"
  qe_runs :: "bound_run list"
  qe_relationships :: "relationship list"
  qe_match :: "string \<Rightarrow> string \<Rightarrow> (string \<times> rat) list"
  qe_jparse :: "string \<Rightarrow> js option"

record entry =
  en_id :: string
  en_runId :: "string option"
  en_description :: string
  en_rationale :: string
  en_alternatives :: "string list"
  en_createdAt :: int
  en_supersededBy :: "string option"

definition resolveProjectId :: "project list \<Rightarrow> string \<Rightarrow> string option" where
  "resolveProjectId t projectSlug = map_option pj_id (first_row (filter (\<lambda>p. pj_slug p = projectSlug) t))"

text \<open>Decisions with the run they belong to; a decision whose run is gone has none.\<close>

definition with_runs :: "bound_run list \<Rightarrow> decision list \<Rightarrow> (decision \<times> bound_run) list" where
  "with_runs runs t = concat (map (\<lambda>d. map (Pair d) (filter (\<lambda>r. dm_runId d = Some (rn_id r)) runs)) t)"

definition matches_filters ::
  "query_input \<Rightarrow> string \<Rightarrow> string list option \<Rightarrow> string list \<Rightarrow> edge list \<Rightarrow> (string \<times> rat) list option \<Rightarrow>
   decision \<times> bound_run \<Rightarrow> bool"
where
  "matches_filters i projectId workPackIds linkedDecisionIds edges ranked dr \<longleftrightarrow>
     (let d = fst dr; r = snd dr in
      rn_projectId r = projectId \<and>
      (case qi_runId i of None \<Rightarrow> True | Some x \<Rightarrow> dm_runId d = Some x) \<and>
      (case qi_issueRef i of None \<Rightarrow> True | Some x \<Rightarrow> rn_issueRef r = Some x) \<and>
      (case workPackIds of None \<Rightarrow> True
       | Some ws \<Rightarrow> (\<exists>w \<in> set ws. rn_workPackId r = Some w) \<or> dm_id d \<in> set linkedDecisionIds) \<and>
      (case ranked of None \<Rightarrow> True | Some rs \<Rightarrow> dm_id d \<in> fst ` set rs) \<and>
      (qi_activeOnly i \<longrightarrow> in_force edges (dm_id d)))"

text \<open>\<open>new Map(pairs)\<close>: the last pair of a key counts.\<close>

definition rank_of :: "(string \<times> rat) list \<Rightarrow> string \<Rightarrow> rat" where
  "rank_of ranked i = (case map_of (rev ranked) i of None \<Rightarrow> 0 | Some r \<Rightarrow> r)"

definition sortByRank :: "(string \<times> rat) list \<Rightarrow> decision list \<Rightarrow> decision list" where
  "sortByRank ranked rows = sort_key (\<lambda>d. - rank_of ranked (dm_id d)) rows"

definition selectDecisions ::
  "query_env \<Rightarrow> query_input \<Rightarrow> string \<Rightarrow> string list option \<Rightarrow> string list \<Rightarrow> decision_db \<Rightarrow> decision list"
where
  "selectDecisions env i projectId workPackIds linkedDecisionIds db =
     (let rows = (\<lambda>ranked. map fst (filter (matches_filters i projectId workPackIds linkedDecisionIds (dd_edges db) ranked)
                              (with_runs (qe_runs env) (dd_decisions db)))) in
      case qi_query i of
        None \<Rightarrow> take (qi_limit i) (order_by_desc dm_createdAt (rows None))
      | Some q \<Rightarrow>
          (let ranked = qe_match env projectId (toSqliteFtsQuery q) in
           if ranked = [] then [] else take (qi_limit i) (sortByRank ranked (rows (Some ranked)))))"

definition parseAlternatives :: "(string \<Rightarrow> js option) \<Rightarrow> string option \<Rightarrow> string list" where
  "parseAlternatives jparse raw =
     (case raw of
        None \<Rightarrow> []
      | Some s \<Rightarrow> (case jparse s of
                    Some (JArr vs) \<Rightarrow> List.map_filter (\<lambda>v. case v of JStr x \<Rightarrow> Some x | _ \<Rightarrow> None) vs
                  | Some _ \<Rightarrow> []
                  | None \<Rightarrow> if s \<noteq> [] then [s] else []))"

text \<open>The first superseding decision of each id, in the order the rows are read.\<close>

definition selectSupersededBy :: "edge list \<Rightarrow> string \<Rightarrow> string option" where
  "selectSupersededBy t i = map_option eg_from (first_row (filter (\<lambda>e. supersedes_edge e \<and> eg_targetId e = i) t))"

definition toEntry :: "(string \<Rightarrow> js option) \<Rightarrow> edge list \<Rightarrow> decision \<Rightarrow> entry" where
  "toEntry jparse edges d =
     \<lparr> en_id = dm_id d, en_runId = dm_runId d, en_description = dm_description d, en_rationale = dm_rationale d,
       en_alternatives = parseAlternatives jparse (dm_alternatives d), en_createdAt = dm_createdAt d,
       en_supersededBy = selectSupersededBy edges (dm_id d) \<rparr>"

definition upper_char :: "char \<Rightarrow> char" where
  "upper_char c = (let n = of_char c :: nat in if 97 \<le> n \<and> n \<le> 122 then char_of (n - 32) else c)"

text \<open>\<open>None\<close> is \<open>project_not_found\<close>.  Issue references are upper-cased; theirs are ASCII.\<close>

definition queryDecisionsHandler :: "query_env \<Rightarrow> query_input \<Rightarrow> decision_db \<Rightarrow> entry list option" where
  "queryDecisionsHandler env inp db =
     (case resolveProjectId (qe_projects env) (qi_projectSlug inp) of
        None \<Rightarrow> None
      | Some projectId \<Rightarrow>
          (let i = inp\<lparr>qi_issueRef := map_option (map upper_char) (qi_issueRef inp)\<rparr>;
               workPackIds = map_option (\<lambda>w. w # (if qi_includeRelated i then selectRelatedWorkPackIds (qe_relationships env) w else []))
                               (qi_workPackId i);
               linked = (case workPackIds of None \<Rightarrow> [] | Some ws \<Rightarrow> selectDecisionIdsLinkedToWorkPacks (dd_links db) ws) in
           Some (map (toEntry (qe_jparse env) (dd_edges db)) (selectDecisions env i projectId workPackIds linked db))))"

section \<open>Paths\<close>

definition unbackslash :: "string \<Rightarrow> string" where
  "unbackslash = map (\<lambda>c. if c = CHR 0x5C then CHR ''/'' else c)"

text \<open>\<open>replace(/\/+/g, '/')\<close>\<close>

fun collapse_slashes :: "string \<Rightarrow> string" where
  "collapse_slashes (a # b # s) =
     (if a = CHR ''/'' \<and> b = CHR ''/'' then collapse_slashes (b # s) else a # collapse_slashes (b # s))"
| "collapse_slashes s = s"

definition strip_dot_slash :: "string \<Rightarrow> string" where
  "strip_dot_slash s = (if prefix ''./'' s then drop 2 s else s)"

definition normalizePathLike :: "string \<Rightarrow> string" where
  "normalizePathLike value = collapse_slashes (strip_dot_slash (unbackslash value))"

definition isAbsolute :: "string \<Rightarrow> bool" where
  "isAbsolute p = prefix ''/'' p"

fun split_on :: "char \<Rightarrow> string \<Rightarrow> string \<Rightarrow> string list" where
  "split_on sep acc [] = [acc]"
| "split_on sep acc (c # cs) = (if c = sep then acc # split_on sep [] cs else split_on sep (acc @ [c]) cs)"

text \<open>The segments of an absolute path, \<open>.\<close> and \<open>..\<close> resolved.\<close>

definition resolved_segments :: "string \<Rightarrow> string list" where
  "resolved_segments p =
     rev (fold (\<lambda>seg acc. if seg = [] \<or> seg = ''.'' then acc else if seg = ''..'' then tl acc else seg # acc) (split_on (CHR ''/'') [] p) [])"

definition path_relative :: "string \<Rightarrow> string \<Rightarrow> string" where
  "path_relative from to =
     (let a = resolved_segments from; b = resolved_segments to; n = length (longest_common_prefix a b) in
      join ''/'' (replicate (length a - n) ''..'' @ drop n b))"

definition normalizeLookupPath :: "string option \<Rightarrow> string \<Rightarrow> string" where
  "normalizeLookupPath projectCwd filePath =
     (case projectCwd of
        Some cwd \<Rightarrow> if isAbsolute filePath then normalizePathLike (path_relative cwd filePath) else normalizePathLike filePath
      | None \<Rightarrow> normalizePathLike filePath)"

section \<open>The code graph\<close>

record graph_index =
  ix_nodes :: "js list"
  ix_byId :: "(string \<times> js) list"
  ix_adjacency :: "(string \<times> string) list"
  ix_builtAtCommit :: "string option"

text \<open>The seven places a node may name its file in.\<close>

definition node_path_values :: "js \<Rightarrow> js option list" where
  "node_path_values node =
     (let meta = (\<lambda>k. case js_get node ''metadata'' of None \<Rightarrow> None | Some m \<Rightarrow> js_get m k) in
      map (js_get node) [''source_file'', ''file_path'', ''path''] @ map meta [''source_file'', ''file'', ''file_path'', ''path''])"

definition nodePathFields :: "js \<Rightarrow> string list" where
  "nodePathFields node = List.map_filter as_nonempty (node_path_values node)"

definition nodeFileTargets :: "js \<Rightarrow> string list" where
  "nodeFileTargets node = map normalizePathLike (nodePathFields node)"

definition isFileMatch :: "js \<Rightarrow> string \<Rightarrow> bool" where
  "isFileMatch node lookupPath =
     (let look = normalizePathLike lookupPath in
      list_ex (\<lambda>value. let n = normalizePathLike value in
          n = look \<or> suffix (CHR ''/'' # look) n \<or> suffix (CHR ''/'' # n) look) (nodePathFields node))"

definition edgeEndpointId :: "(rat \<Rightarrow> string) \<Rightarrow> js option \<Rightarrow> string option" where
  "edgeEndpointId num_str value =
     (case value of
        Some (JStr s) \<Rightarrow> Some s
      | Some (JNum n) \<Rightarrow> Some (num_str n)
      | Some (JInf neg) \<Rightarrow> Some (if neg then ''-Infinity'' else ''Infinity'')
      | Some (JObj kvs) \<Rightarrow> as_nonempty (map_of kvs ''id'')
      | _ \<Rightarrow> None)"

fun bounded_into :: "string list \<Rightarrow> string list \<Rightarrow> string list" where
  "bounded_into acc [] = acc"
| "bounded_into acc (v # vs) =
     (if v = [] then bounded_into acc vs
      else (let acc' = (if v \<in> set acc then acc else acc @ [v]) in
            if 500 \<le> length acc' then acc' else bounded_into acc' vs))"

definition boundedValues :: "string list \<Rightarrow> string list" where
  "boundedValues values = bounded_into [] values"

text \<open>Reading a property of \<open>null\<close> throws: \<open>None\<close>.  The last node of an id counts; the adjacency is kept as pairs,
  both ways, in the order they were added.\<close>

definition js_array :: "js option \<Rightarrow> js list option" where
  "js_array v = (case v of Some (JArr vs) \<Rightarrow> Some vs | _ \<Rightarrow> None)"

definition buildGraphifyIndex :: "(rat \<Rightarrow> string) \<Rightarrow> js \<Rightarrow> graph_index option" where
  "buildGraphifyIndex num_str graph =
     (let nodes = nullish (js_array (js_get graph ''nodes'')) [];
          links = nullish (nullish_opt (js_array (js_get graph ''links'')) (js_array (js_get graph ''edges''))) [] in
      if graph = JNull \<or> JNull \<in> set nodes \<or> JNull \<in> set links then None
      else Some \<lparr> ix_nodes = nodes,
             ix_byId = rev (List.map_filter (\<lambda>n. map_option (\<lambda>i. (i, n)) (as_nonempty (js_get n ''id''))) nodes),
             ix_adjacency = concat (map (\<lambda>l.
                 case (edgeEndpointId num_str (js_get l ''source''), edgeEndpointId num_str (js_get l ''target'')) of
                   (Some s, Some t) \<Rightarrow> [(s, t), (t, s)] | _ \<Rightarrow> []) links),
             ix_builtAtCommit = as_nonempty (js_get graph ''built_at_commit'') \<rparr>)"

definition neighbours :: "graph_index \<Rightarrow> string \<Rightarrow> string list" where
  "neighbours ix i = js_set (map snd (filter (\<lambda>p. fst p = i) (ix_adjacency ix)))"

record topology =
  tp_rootNodeIds :: "string list"
  tp_graphNodeTargets :: "string list"
  tp_fileTargets :: "string list"

definition buildBlastRadius :: "graph_index \<Rightarrow> string \<Rightarrow> topology" where
  "buildBlastRadius ix lookupPath =
     (let roots = List.map_filter (\<lambda>n. case as_nonempty (js_get n ''id'') of
                      Some i \<Rightarrow> (if isFileMatch n lookupPath then Some i else None) | None \<Rightarrow> None) (ix_nodes ix);
          nodeTargets = js_set (roots @ concat (map (neighbours ix) roots));
          fileTargets = js_set (normalizePathLike lookupPath #
              concat (map (\<lambda>i. case map_of (ix_byId ix) i of None \<Rightarrow> [] | Some n \<Rightarrow> nodeFileTargets n) nodeTargets)) in
      \<lparr> tp_rootNodeIds = boundedValues roots, tp_graphNodeTargets = boundedValues nodeTargets,
        tp_fileTargets = boundedValues fileTargets \<rparr>)"

section \<open>Freshness of the graph\<close>

datatype staleness = GraphFresh | GraphStale | GraphUnknown

record graph_freshness =
  fs_builtAtCommit :: "string option"
  fs_commitsBehind :: "int option"
  fs_filesChanged :: "int option"
  fs_staleness :: staleness

definition unknown_freshness :: graph_freshness where
  "unknown_freshness = \<lparr> fs_builtAtCommit = None, fs_commitsBehind = None, fs_filesChanged = None, fs_staleness = GraphUnknown \<rparr>"

record graph_file =
  gf_mtimeMs :: int
  gf_size :: int
  gf_json :: "js option"

record index_entry =
  ie_loadedAt :: int
  ie_mtimeMs :: int
  ie_size :: int
  ie_index :: graph_index

record graph_caches =
  gc_index :: "string \<Rightarrow> index_entry option"
  gc_fresh :: "string \<Rightarrow> (int \<times> graph_freshness) option"

record file_env =
  be_projects :: "project list"
  be_runs :: "bound_run list"
  be_graph :: "string \<Rightarrow> graph_file option"
  be_git :: "string \<Rightarrow> string list \<Rightarrow> string option"
  be_parseInt :: "string \<Rightarrow> int option"
  be_maxFiles :: "string option"
  be_num_str :: "rat \<Rightarrow> string"
  be_now :: int

definition maxFilesChanged :: "(string \<Rightarrow> int option) \<Rightarrow> string option \<Rightarrow> int" where
  "maxFilesChanged parseInt raw =
     (case raw of
        None \<Rightarrow> 200
      | Some s \<Rightarrow> if s = [] then 200
                  else (case parseInt s of Some n \<Rightarrow> if n > 0 then n else 200 | None \<Rightarrow> 200))"

definition count_lines :: "string \<Rightarrow> int" where
  "count_lines out = int (length (filter (\<lambda>l. trim l \<noteq> []) (split_on (CHR 0x0A) [] out)))"

definition measure_freshness :: "file_env \<Rightarrow> string \<Rightarrow> string \<Rightarrow> graph_freshness" where
  "measure_freshness env cwd commit =
     (case be_git env cwd [''cat-file'', ''-e'', commit @ ''^{commit}''] of
        None \<Rightarrow> unknown_freshness\<lparr>fs_builtAtCommit := Some commit\<rparr>
      | Some _ \<Rightarrow>
          (let commits = (case be_git env cwd [''rev-list'', ''--count'', commit @ ''..HEAD''] of
                            None \<Rightarrow> None | Some out \<Rightarrow> be_parseInt env (trim out));
               files = map_option count_lines (be_git env cwd [''diff'', ''--name-only'', commit @ ''..HEAD'']) in
           \<lparr> fs_builtAtCommit = Some commit, fs_commitsBehind = commits, fs_filesChanged = files,
             fs_staleness = (case files of None \<Rightarrow> GraphUnknown
               | Some n \<Rightarrow> if n > maxFilesChanged (be_parseInt env) (be_maxFiles env) then GraphStale else GraphFresh) \<rparr>))"

definition computeGraphFreshness ::
  "file_env \<Rightarrow> string \<Rightarrow> string option \<Rightarrow> graph_caches \<Rightarrow> graph_freshness \<times> graph_caches"
where
  "computeGraphFreshness env cwd builtAtCommit gc =
     (case builtAtCommit of
        None \<Rightarrow> (unknown_freshness, gc)
      | Some commit \<Rightarrow>
          if commit = [] then (unknown_freshness, gc)
          else (let key = cwd @ '' '' @ commit; fresh = measure_freshness env cwd commit;
                    measured = (fresh, gc\<lparr>gc_fresh := (gc_fresh gc)(key \<mapsto> (be_now env, fresh))\<rparr>) in
                case gc_fresh gc key of
                  Some (computedAt, v) \<Rightarrow> if be_now env - computedAt < 60000 then (v, gc) else measured
                | None \<Rightarrow> measured))"

text \<open>\<open>None\<close> is an exception: no file, no JSON, or a property of \<open>null\<close> read.\<close>

definition loadGraphifyIndex :: "file_env \<Rightarrow> string \<Rightarrow> graph_caches \<Rightarrow> (graph_index \<times> graph_caches) option" where
  "loadGraphifyIndex env path gc =
     (case be_graph env path of
        None \<Rightarrow> None
      | Some f \<Rightarrow>
          (let load = (case gf_json f of
                 None \<Rightarrow> None
               | Some graph \<Rightarrow>
                   (case buildGraphifyIndex (be_num_str env) graph of
                      None \<Rightarrow> None
                    | Some ix \<Rightarrow> Some (ix, gc\<lparr>gc_index := (gc_index gc)(path \<mapsto>
                        \<lparr> ie_loadedAt = be_now env, ie_mtimeMs = gf_mtimeMs f, ie_size = gf_size f, ie_index = ix \<rparr>)\<rparr>))) in
           case gc_index gc path of
             Some e \<Rightarrow> if be_now env - ie_loadedAt e < 60000 \<and> ie_mtimeMs e = gf_mtimeMs f \<and> ie_size e = gf_size f
                       then Some (ie_index e, gc) else load
           | None \<Rightarrow> load))"

section \<open>\<open>query_decisions_by_file\<close>\<close>

record blast_radius = topology +
  bl_graphAvailable :: bool
  bl_freshness :: graph_freshness

definition exact_file :: "string \<Rightarrow> graph_freshness \<Rightarrow> blast_radius" where
  "exact_file lookupPath fresh =
     \<lparr> tp_rootNodeIds = [], tp_graphNodeTargets = [], tp_fileTargets = [lookupPath],
       bl_graphAvailable = False, bl_freshness = fresh \<rparr>"

definition loadGraphifyBlastRadius ::
  "file_env \<Rightarrow> string option \<Rightarrow> string \<Rightarrow> graph_caches \<Rightarrow> blast_radius \<times> graph_caches"
where
  "loadGraphifyBlastRadius env projectCwd filePath gc =
     (let lookupPath = normalizeLookupPath projectCwd filePath in
      case projectCwd of
        None \<Rightarrow> (exact_file lookupPath unknown_freshness, gc)
      | Some cwd \<Rightarrow>
          (case loadGraphifyIndex env (cwd @ ''/.coodra/graphify/out/graph.json'') gc of
             None \<Rightarrow> (exact_file lookupPath unknown_freshness, gc)
           | Some (ix, gc1) \<Rightarrow>
               (case computeGraphFreshness env cwd (ix_builtAtCommit ix) gc1 of
                  (fresh, gc2) \<Rightarrow>
                    if fs_staleness fresh = GraphStale then (exact_file lookupPath fresh, gc2)
                    else (let tp = buildBlastRadius ix lookupPath in
                          (\<lparr> tp_rootNodeIds = tp_rootNodeIds tp, tp_graphNodeTargets = tp_graphNodeTargets tp,
                             tp_fileTargets = tp_fileTargets tp, bl_graphAvailable = True, bl_freshness = fresh \<rparr>, gc2)))))"

record file_query =
  fq_projectSlug :: string
  fq_filePath :: string
  fq_activeOnly :: bool
  fq_limit :: nat

definition targeted :: "blast_radius \<Rightarrow> edge \<Rightarrow> bool" where
  "targeted b e \<longleftrightarrow>
     eg_targetType e = FileTarget \<and> eg_targetId e \<in> set (tp_fileTargets b) \<or>
     eg_targetType e = GraphNodeTarget \<and> eg_targetId e \<in> set (tp_graphNodeTargets b)"

text \<open>An edge joined with its decision and the decision's run; equal rows count once.\<close>

definition joined_edges :: "bound_run list \<Rightarrow> decision_db \<Rightarrow> (edge \<times> decision \<times> bound_run) list" where
  "joined_edges runs db =
     concat (map (\<lambda>e. map (Pair e) (with_runs runs (filter (\<lambda>d. dm_id d = eg_from e) (dd_decisions db)))) (dd_edges db))"

record file_entry =
  fe_id :: string
  fe_runId :: "string option"
  fe_description :: string
  fe_rationale :: string
  fe_createdAt :: int

definition file_entry_of :: "decision \<Rightarrow> file_entry" where
  "file_entry_of d = \<lparr> fe_id = dm_id d, fe_runId = dm_runId d, fe_description = dm_description d,
     fe_rationale = dm_rationale d, fe_createdAt = dm_createdAt d \<rparr>"

definition selectRows :: "bound_run list \<Rightarrow> file_query \<Rightarrow> string \<Rightarrow> blast_radius \<Rightarrow> decision_db \<Rightarrow> file_entry list" where
  "selectRows runs q projectId b db =
     take (fq_limit q) (order_by_desc fe_createdAt (js_set (map (\<lambda>(e, d, r). file_entry_of d)
       (filter (\<lambda>(e, d, r). eg_projectId e = projectId \<and> rn_projectId r = projectId \<and> eg_type e = Affects \<and> targeted b e \<and>
                  (fq_activeOnly q \<longrightarrow> in_force (dd_edges db) (dm_id d))) (joined_edges runs db)))))"

definition queryDecisionsByFileHandler ::
  "file_env \<Rightarrow> file_query \<Rightarrow> decision_db \<Rightarrow> graph_caches \<Rightarrow>
   (blast_radius \<times> (file_entry \<times> string option) list) option \<times> graph_caches"
where
  "queryDecisionsByFileHandler env q db gc =
     (case Project_Registry.lookupProjectBySlug (be_projects env) (fq_projectSlug q) of
        None \<Rightarrow> (None, gc)
      | Some project \<Rightarrow>
          (case loadGraphifyBlastRadius env (pj_cwd project) (fq_filePath q) gc of
             (b, gc') \<Rightarrow>
               (Some (b, map (\<lambda>x. (x, selectSupersededBy (dd_edges db) (fe_id x)))
                  (selectRows (be_runs env) q (pj_id project) b db)), gc')))"

section \<open>Reading the tables\<close>

lemma superseded_by_None: "selectSupersededBy t i = None \<longleftrightarrow> in_force t i"
  by (auto simp: selectSupersededBy_def first_row_None filter_empty_conv in_force_def list_ex_iff)

lemma sortByRank_set [simp]: "set (sortByRank ranked rows) = set rows"
  by (simp add: sortByRank_def)

lemma selectDecisions_rows:
  assumes "d \<in> set (selectDecisions env i projectId ws ids db)"
  shows "\<exists>r ranked. (d, r) \<in> set (with_runs (qe_runs env) (dd_decisions db)) \<and>
    matches_filters i projectId ws ids (dd_edges db) ranked (d, r)"
  using assms
  by (fastforce simp: selectDecisions_def Let_def split: option.splits if_splits dest: in_set_takeD)

lemma selectRows_active:
  "fq_activeOnly q \<Longrightarrow> x \<in> set (selectRows runs q projectId b db) \<Longrightarrow> in_force (dd_edges db) (fe_id x)"
  by (auto simp: selectRows_def file_entry_of_def dest!: in_set_takeD)

lemma length_js_set_image: "set xs \<subseteq> f ` set ys \<Longrightarrow> length (js_set xs) \<le> length ys"
  by (metis List.finite_set card_length distinct_card distinct_js_set le_trans set_js_set surj_card_le)

lemma joined_edges_iff:
  "(e, d, r) \<in> set (joined_edges runs db) \<longleftrightarrow>
     e \<in> set (dd_edges db) \<and> d \<in> set (dd_decisions db) \<and> dm_id d = eg_from e \<and> r \<in> set runs \<and> dm_runId d = Some (rn_id r)"
  by (auto simp: joined_edges_def with_runs_def)

text \<open>With room for every decision, the limit cuts nothing off.\<close>

lemma selectRows_member:
  assumes "length (dd_decisions db) \<le> fq_limit q" and "(e, d, r) \<in> set (joined_edges runs db)"
    and "eg_projectId e = projectId" "rn_projectId r = projectId" "eg_type e = Affects" "targeted b e"
    and "fq_activeOnly q \<longrightarrow> in_force (dd_edges db) (dm_id d)"
  shows "file_entry_of d \<in> set (selectRows runs q projectId b db)"
proof -
  let ?P = "\<lambda>(e, d, r). eg_projectId e = projectId \<and> rn_projectId r = projectId \<and> eg_type e = Affects \<and> targeted b e \<and>
                  (fq_activeOnly q \<longrightarrow> in_force (dd_edges db) (dm_id d))"
  let ?rows = "js_set (map (\<lambda>(e, d, r). file_entry_of d) (filter ?P (joined_edges runs db)))"
  have "length ?rows \<le> length (dd_decisions db)"
    by (rule length_js_set_image [where f = file_entry_of]) (auto simp: joined_edges_def with_runs_def)
  then have "length ?rows \<le> fq_limit q" using assms(1) by (rule le_trans)
  then have "set (selectRows runs q projectId b db) = (\<lambda>(e, d, r). file_entry_of d) ` set (filter ?P (joined_edges runs db))"
    by (simp add: selectRows_def)
  moreover have "(e, d, r) \<in> set (filter ?P (joined_edges runs db))" using assms by simp
  ultimately show ?thesis by (metis (no_types, lifting) case_prod_conv image_eqI)
qed

lemma js_set_Cons: "js_set (x # xs) = x # filter (\<lambda>y. y \<noteq> x) (js_set xs)"
proof -
  have "remdups (ys @ [x]) = filter (\<lambda>y. y \<noteq> x) (remdups ys) @ [x]" for ys by (induction ys) auto
  then show ?thesis by (simp add: js_set_def rev_filter)
qed

lemma bounded_into_append: "length acc < 500 \<Longrightarrow> distinct acc \<Longrightarrow>
    bounded_into acc vs = take 500 (acc @ filter (\<lambda>v. v \<notin> set acc) (js_set (filter (\<lambda>v. v \<noteq> []) vs)))"
proof (induction acc vs rule: bounded_into.induct)
  case (1 acc)
  then show ?case by (simp add: js_set_def)
next
  case (2 acc v vs)
  let ?vs = "filter (\<lambda>v. v \<noteq> []) vs"
  show ?case
  proof (cases "v = []")
    case True
    then show ?thesis using 2 by simp
  next
    case False
    show ?thesis
    proof (cases "v \<in> set acc")
      case True
      then have "filter (\<lambda>y. y \<notin> set acc) (js_set (v # ?vs)) = filter (\<lambda>y. y \<notin> set acc) (js_set ?vs)"
        by (simp add: js_set_Cons) (metis (mono_tags, lifting) filter_cong)
      then show ?thesis using 2 False True by simp
    next
      case new: False
      then have tail: "filter (\<lambda>y. y \<notin> set acc) (js_set (v # ?vs)) = v # filter (\<lambda>y. y \<notin> set (acc @ [v])) (js_set ?vs)"
        by (simp add: js_set_Cons conj_commute) 
      show ?thesis
      proof (cases "500 \<le> length (acc @ [v])")
        case True
        then have "length (acc @ [v]) = 500" using "2.prems"(1) by simp
        then show ?thesis using False new tail by (simp add: Let_def)
      next
        case short: False
        then show ?thesis using 2(2) [OF False refl] 2(3-) False new tail by (simp add: Let_def)
      qed
    qed
  qed
qed

lemma boundedValues_take: "boundedValues vs = take 500 (js_set (filter (\<lambda>v. v \<noteq> []) vs))"
  using bounded_into_append [of "[]" vs] by (simp add: boundedValues_def)

section \<open>A decision and the file it affects\<close>

lemma fold_put_edge_rows: "set (fold put_edge es t) \<subseteq> set es \<union> set t"
proof -
  have put: "set (put_edge e t) \<subseteq> insert e (set t)" for e t by (induction t) auto
  show ?thesis
  proof (induction es arbitrary: t)
    case (Cons e es)
    show ?case using Cons [of "put_edge e t"] put [of e t] by auto
  qed simp
qed

context keyed_table
begin

lemma insert_all_rows: "set (insert_all rs t) \<subseteq> set rs \<union> set t"
proof (induction rs arbitrary: t)
  case (Cons r rs)
  show ?case using Cons [of "fst (ins r t)"] new_row_only [of r t] by auto
qed simp

end

lemma insertDecisionEdges_rows: "set (insertDecisionEdges es t) \<subseteq> set es \<union> set t"
  using edges.insert_all_rows fold_put_edge_rows [of es "[]"] by (auto simp: insertDecisionEdges_all)

lemma edge_inserts_project: "e \<in> set (edge_inserts env p i inp ws) \<Longrightarrow> eg_projectId e = p"
  by (auto simp: edge_inserts_def split: option.splits prod.splits)

lemma fresh_decision:
  assumes ok: "decisions_ok db"
    and call: "recordDecisionHandler env inp db = (Inr (DecisionRecorded i since True cands), db')"
  obtains run row where
    "selectRunAttribution (dw_runs env) (dw_projects env) (di_runId inp) = Some run"
    "row \<in> set (dd_decisions db')" "dm_id row = i" "dm_runId row = Some (di_runId inp)"
    "in_force (dd_edges db') i"
    "\<forall>raw ty x. raw \<in> set (nullish (di_impact inp) []) \<longrightarrow> classifyImpactTarget raw = Some (ty, x) \<longrightarrow>
       (\<exists>e \<in> set (dd_edges db'). edge_key e = (i, Affects, ty, x) \<and> eg_projectId e = rb_projectId run)"
proof (rule recorded_call [OF call])
  fix run actor row db1
  assume run: "selectRunAttribution (dw_runs env) (dw_projects env) (di_runId inp) = Some run"
    and row: "row = new_decision env run actor i inp"
    and refused: "refused_target db (rb_projectId run) i (js_set (nullish (di_supersedesDecisionIds inp) [])) = None"
    and fresh: "True \<longrightarrow> i = ''dec_'' @ dw_uuid env \<and> i \<notin> dm_id ` set (dd_decisions db) \<and> since = dw_now env"
    and db1: "db1 = complete_record env inp run actor i True
       (db\<lparr>dd_decisions := (if True then dd_decisions db @ [row] else dd_decisions db)\<rparr>)"
    and db': "db' = (if True \<and> dw_envTeam env then db1\<lparr>dd_jobs := enqueue_decision_sync env (dm_idempotencyKey row) (dd_jobs db1)\<rparr> else db1)"
  obtain ws where es: "dd_edges db' = insertDecisionEdges (edge_inserts env (rb_projectId run) i inp ws) (dd_edges db)"
    by (auto simp: db' db1 complete_record_def Let_def)
  have i: "i \<notin> sources (dd_edges db)" "i \<notin> snd ` supersession (dd_edges db)"
    using fresh decisions_okD(5,6) [OF ok] by auto
  have force: "in_force (dd_edges db') i"
    using i(2) refused unfolding in_force_iff es supersession_insert supersession_edge_inserts refused_target_None by auto
  have "\<exists>e \<in> set (dd_edges db'). edge_key e = (i, Affects, ty, x) \<and> eg_projectId e = rb_projectId run"
    if raw: "raw \<in> set (nullish (di_impact inp) [])" "classifyImpactTarget raw = Some (ty, x)" for raw ty x
  proof -
    have "(i, Affects, ty, x) \<in> edge_key ` set (dd_edges db')"
      using raw unfolding es insertDecisionEdges_keys edge_inserts_keys by blast
    then obtain e where e: "e \<in> set (dd_edges db')" "edge_key e = (i, Affects, ty, x)" by auto
    then have "e \<notin> set (dd_edges db)" using i(1) by (auto simp: sources_def edge_key_def)
    then have "e \<in> set (edge_inserts env (rb_projectId run) i inp ws)" using e(1) insertDecisionEdges_rows unfolding es by blast
    then show ?thesis using e edge_inserts_project by blast
  qed
  then show thesis
    by (intro that [of run row]) (use run force in \<open>auto simp: row db' db1 complete_record_def Let_def new_decision_def\<close>)
qed

lemma attribution_run:
  assumes "selectRunAttribution runs projects i = Some a"
  shows "\<exists>r \<in> set runs. rn_id r = i \<and> rn_projectId r = rb_projectId a"
  using first_row_in [OF assms [unfolded selectRunAttribution_def]] by auto

lemma lookup_path_targeted:
  assumes "normalizePathLike v = v" and "v \<noteq> []" and "normalizeLookupPath cwd f = v"
  shows "v \<in> set (tp_fileTargets (fst (loadGraphifyBlastRadius env cwd f gc)))"
proof -
  have "v \<in> set (tp_fileTargets (buildBlastRadius ix v))" for ix
    using assms(1,2) by (simp add: buildBlastRadius_def Let_def boundedValues_take js_set_Cons)
  then show ?thesis using assms(3)
    by (simp add: loadGraphifyBlastRadius_def Let_def exact_file_def split: option.splits prod.splits)
qed

section \<open>Properties\<close>

text \<open>C31: With \<open>activeOnly\<close>, the default of both tools, neither answers a decision that another one supersedes,
  whatever the filters, the search, the code graph and the limit.\<close>

theorem active_queries_hide_superseded:
  "(case queryDecisionsHandler env inp db of
      None \<Rightarrow> True
    | Some es \<Rightarrow> if qi_activeOnly inp
                 then list_all (\<lambda>x. in_force (dd_edges db) (en_id x) \<and> en_supersededBy x = None) es else True) \<and>
   (case fst (queryDecisionsByFileHandler fenv q db gc) of
      None \<Rightarrow> True
    | Some (b, es) \<Rightarrow> if fq_activeOnly q
                      then list_all (\<lambda>(x, by). in_force (dd_edges db) (fe_id x) \<and> by = None) es else True)"
  using selectDecisions_rows selectRows_active
  by (fastforce simp: queryDecisionsHandler_def queryDecisionsByFileHandler_def Let_def list_all_iff toEntry_def
      superseded_by_None matches_filters_def split: option.splits prod.splits)

text \<open>C30: A decision recorded with an impact entry that names a file is found under that file: a path that normalises
  to the entry, in the project of the run, lists it right away, with or without a code graph, as long
  as the limit leaves room for every decision.\<close>

theorem recorded_decision_found_by_file:
  assumes ok: "decisions_ok db"
    and call: "recordDecisionHandler renv inp db = (Inr (DecisionRecorded i since True cands), db')"
    and "raw \<in> set (nullish (di_impact inp) [])" and "classifyImpactTarget raw = Some (FileTarget, v)"
    and "normalizePathLike v = v"
    and "selectRunAttribution (dw_runs renv) (dw_projects renv) (di_runId inp) = Some a"
    and "Project_Registry.lookupProjectBySlug (be_projects fenv) (fq_projectSlug q) = Some p" and "pj_id p = rb_projectId a"
    and "be_runs fenv = dw_runs renv" and "normalizeLookupPath (pj_cwd p) (fq_filePath q) = v"
    and "length (dd_decisions db') \<le> fq_limit q"
  shows "\<exists>b es gc'. queryDecisionsByFileHandler fenv q db' gc = (Some (b, es), gc') \<and> i \<in> fe_id ` fst ` set es"
proof -
  obtain row e where row: "row \<in> set (dd_decisions db')" "dm_id row = i" "dm_runId row = Some (di_runId inp)"
    and force: "in_force (dd_edges db') i"
    and e: "e \<in> set (dd_edges db')" "edge_key e = (i, Affects, FileTarget, v)" "eg_projectId e = rb_projectId a"
    using fresh_decision [OF ok call] assms(3,4,6) by (metis option.inject)
  obtain r where r: "r \<in> set (dw_runs renv)" "rn_id r = di_runId inp" "rn_projectId r = rb_projectId a"
    using attribution_run [OF assms(6)] by blast
  have "v \<noteq> []" using assms(4) by (auto simp: classifyImpactTarget_def Let_def split: option.splits if_splits)
  obtain b gc' where b: "loadGraphifyBlastRadius fenv (pj_cwd p) (fq_filePath q) gc = (b, gc')" by fastforce
  have "targeted b e"
    using lookup_path_targeted [OF assms(5) \<open>v \<noteq> []\<close> assms(10), of fenv gc] e(2) b by (simp add: targeted_def edge_key_def)
  moreover have "(e, row, r) \<in> set (joined_edges (be_runs fenv) db')"
    using row e(1,2) r(1,2) assms(9) by (auto simp: joined_edges_iff edge_key_def)
  ultimately have "file_entry_of row \<in> set (selectRows (be_runs fenv) q (pj_id p) b db')"
    using selectRows_member [OF assms(11)] e(2,3) r(3) assms(8) force row(2) by (simp add: edge_key_def)
  then have "i \<in> fe_id ` set (selectRows (be_runs fenv) q (pj_id p) b db')"
    using row(2) by (force simp: file_entry_of_def)
  then show ?thesis by (simp add: queryDecisionsByFileHandler_def assms(7) b image_image)
qed

definition sample_file_env :: file_env where
  "sample_file_env = \<lparr> be_projects = sample_projects, be_runs = sample_runs, be_graph = (\<lambda>_. None), be_git = (\<lambda>_ _. None),
     be_parseInt = (\<lambda>_. None), be_maxFiles = None, be_num_str = (\<lambda>_. []), be_now = 0 \<rparr>"

definition sample_file_query :: "string \<Rightarrow> file_query" where
  "sample_file_query f = \<lparr> fq_projectSlug = ''demo'', fq_filePath = f, fq_activeOnly = True, fq_limit = 20 \<rparr>"

definition cold :: graph_caches where
  "cold = \<lparr> gc_index = (\<lambda>_. None), gc_fresh = (\<lambda>_. None) \<rparr>"

definition answered_ids :: "(blast_radius \<times> (file_entry \<times> string option) list) option \<Rightarrow> string list" where
  "answered_ids res = (case res of None \<Rightarrow> [] | Some (b, es) \<Rightarrow> map (fe_id \<circ> fst) es)"

definition after_recording :: "string list \<Rightarrow> decision_db" where
  "after_recording impact =
     snd (recordDecisionHandler (sample_decision_env ''a'' 10) (sample_input ''use sqlite'' impact []) (no_decisions [] []))"

theorem recorded_decision_found_by_file_witness:
  "\<exists>b es gc'. queryDecisionsByFileHandler sample_file_env (sample_file_query ''./src/db/open.ts'')
      (after_recording [''src/db/open.ts'']) cold = (Some (b, es), gc') \<and> ''dec_a'' \<in> fe_id ` fst ` set es"
proof -
  let ?e = "sample_decision_env ''a'' 10" and ?i = "sample_input ''use sqlite'' [''src/db/open.ts''] []"
  let ?q = "sample_file_query ''./src/db/open.ts''" and ?v = "''src/db/open.ts''"
  have call: "recordDecisionHandler ?e ?i (no_decisions [] []) =
      (Inr (DecisionRecorded ''dec_a'' 10 True []), after_recording [''src/db/open.ts''])"
    unfolding after_recording_def using sample_first by (metis prod.collapse)
  have c: "classifyImpactTarget ?v = Some (FileTarget, ?v)" "normalizePathLike ?v = ?v" by code_simp+
  have a: "selectRunAttribution (dw_runs ?e) (dw_projects ?e) (di_runId ?i) =
      Some \<lparr> rb_projectId = ''p1'', rb_orgId = Some ''org'', rb_workPackId = None \<rparr>" by code_simp
  have p: "Project_Registry.lookupProjectBySlug (be_projects sample_file_env) (fq_projectSlug ?q) = Some (hd sample_projects)"
    by code_simp
  have p2: "pj_id (hd sample_projects) = ''p1''" "normalizeLookupPath (pj_cwd (hd sample_projects)) (fq_filePath ?q) = ?v"
    by code_simp+
  have l: "length (dd_decisions (after_recording [''src/db/open.ts''])) \<le> fq_limit ?q" by code_simp
  show ?thesis
    by (rule recorded_decision_found_by_file [OF no_decisions_ok call _ c a p _ _ p2(2) l])
      (simp_all add: p2 sample_input_def sample_file_env_def sample_decision_env_def)
qed

lemma exact_without_graph:
  assumes "loadGraphifyBlastRadius env cwd f gc = (b, gc')" and "\<not> bl_graphAvailable b"
  shows "tp_fileTargets b = [normalizeLookupPath cwd f] \<and> tp_graphNodeTargets b = []"
  using assms by (auto simp: loadGraphifyBlastRadius_def exact_file_def Let_def split: option.splits prod.splits if_splits)

lemma selectRows_edge:
  assumes "x \<in> set (selectRows runs q projectId b db)"
  shows "\<exists>e \<in> set (dd_edges db). \<exists>d \<in> set (dd_decisions db). dm_id d = eg_from e \<and> fe_id x = dm_id d \<and>
    eg_type e = Affects \<and> targeted b e"
proof -
  obtain e d r where "(e, d, r) \<in> set (joined_edges runs db)" "x = file_entry_of d" "eg_type e = Affects" "targeted b e"
    using assms by (auto simp: selectRows_def dest!: in_set_takeD)
  then show ?thesis by (intro bexI [of _ e] bexI [of _ d]) (auto simp: joined_edges_iff file_entry_of_def)
qed

text \<open>C32: Nothing but the recorded impact brings a decision into the answer of \<open>query_decisions_by_file\<close>: after any
  calls of \<open>record_decision\<close>, also some broken off between their writes, every decision listed has an entry
  in its impact column that names one of the files or graph nodes of the blast radius the answer shows.  Where no fresh
  code graph widens it, the entry names, letter for letter, the file that the query's path normalises to.  The
  rendering of an array of strings as JSON is assumed to be read back.\<close>

theorem listed_by_an_entry:
  assumes "json_roundtrip stringify jparse"
    and "\<forall>c \<in> set calls. dw_stringify (fst (snd c)) = stringify \<and> dw_jparse (fst (snd c)) = jparse"
    and "Project_Registry.lookupProjectBySlug (be_projects env) (fq_projectSlug q) = Some p"
    and "queryDecisionsByFileHandler env q (fold run_call calls (no_decisions packs jobs)) gc = (Some (b, es), gc')"
    and "x \<in> fst ` set es"
  shows "\<exists>d \<in> set (dd_decisions (fold run_call calls (no_decisions packs jobs))). dm_id d = fe_id x \<and>
    (\<exists>raw \<in> set (parseImpact jparse (dm_impact d)).
      (\<exists>f. classifyImpactTarget raw = Some (FileTarget, f) \<and> f \<in> set (tp_fileTargets b)) \<or>
      (\<exists>n. classifyImpactTarget raw = Some (GraphNodeTarget, n) \<and> n \<in> set (tp_graphNodeTargets b))) \<and>
    (\<not> bl_graphAvailable b \<longrightarrow>
      (\<exists>raw \<in> set (parseImpact jparse (dm_impact d)).
        classifyImpactTarget raw = Some (FileTarget, normalizeLookupPath (pj_cwd p) (fq_filePath q))))"
proof -
  let ?db = "fold run_call calls (no_decisions packs jobs)"
  obtain gc1 where b: "loadGraphifyBlastRadius env (pj_cwd p) (fq_filePath q) gc = (b, gc1)"
    and x: "x \<in> set (selectRows (be_runs env) q (pj_id p) b ?db)"
    using assms(3-5) by (auto simp: queryDecisionsByFileHandler_def split: prod.splits)
  obtain e d where e: "e \<in> set (dd_edges ?db)" "d \<in> set (dd_decisions ?db)" "dm_id d = eg_from e" "fe_id x = dm_id d"
    "eg_type e = Affects" "targeted b e"
    using selectRows_edge [OF x] by blast
  have "covered jparse (no_decisions packs jobs)" by (simp add: covered_def no_decisions_def)
  then have "covered jparse ?db" using run_calls_keep [OF no_decisions_ok _ assms(1,2)] by blast
  then have "affected_targets (dd_edges ?db) (dm_id d) \<subseteq> impact_targets (parseImpact jparse (dm_impact d))"
    using e(2) by (simp add: covered_def)
  moreover have "(eg_targetType e, eg_targetId e) \<in> affected_targets (dd_edges ?db) (dm_id d)"
    using e by (auto simp: affected_targets_def edge_key_def targeted_def image_iff)
  ultimately obtain raw where raw: "raw \<in> set (parseImpact jparse (dm_impact d))"
    "classifyImpactTarget raw = Some (eg_targetType e, eg_targetId e)"
    by (auto simp: impact_targets_def)
  have narrow: "eg_targetType e = FileTarget \<and> eg_targetId e = normalizeLookupPath (pj_cwd p) (fq_filePath q)"
    if "\<not> bl_graphAvailable b"
    using exact_without_graph [OF b that] e(6) by (auto simp: targeted_def)
  show ?thesis
    by (rule bexI [OF _ e(2)]) (use e(4,6) raw narrow in \<open>auto simp: targeted_def intro!: bexI [OF _ raw(1)]\<close>)
qed

theorem listed_by_an_entry_witness:
  "\<exists>d \<in> set (dd_decisions (after_recording [''src/db/open.ts''])). dm_id d = ''dec_a'' \<and>
     (\<exists>raw \<in> set (parseImpact sample_jparse (dm_impact d)). classifyImpactTarget raw = Some (FileTarget, ''src/db/open.ts''))"
proof -
  let ?calls = "[(None, sample_decision_env ''a'' 10, sample_input ''use sqlite'' [''src/db/open.ts''] [])]"
  let ?q = "sample_file_query ''./src/db/open.ts''"
  have db: "fold run_call ?calls (no_decisions [] []) = after_recording [''src/db/open.ts'']"
    by (simp add: run_call_def after_recording_def)
  let ?res = "queryDecisionsByFileHandler sample_file_env ?q (after_recording [''src/db/open.ts'']) cold"
  have ans: "map_option (\<lambda>(b, es). (bl_graphAvailable b, map (fe_id \<circ> fst) es)) (fst ?res) = Some (False, [''dec_a''])"
    by code_simp
  then obtain b es gc' where res: "?res = (Some (b, es), gc')" "\<not> bl_graphAvailable b" "map (fe_id \<circ> fst) es = [''dec_a'']"
    by (cases ?res) auto
  then obtain x where x: "x \<in> fst ` set es" "fe_id x = ''dec_a''" by (auto simp: Cons_eq_map_conv)
  have p: "Project_Registry.lookupProjectBySlug (be_projects sample_file_env) (fq_projectSlug ?q) = Some (hd sample_projects)"
    "normalizeLookupPath (pj_cwd (hd sample_projects)) (fq_filePath ?q) = ''src/db/open.ts''"
    by code_simp+
  have "\<forall>c \<in> set ?calls. dw_stringify (fst (snd c)) = sample_stringify \<and> dw_jparse (fst (snd c)) = sample_jparse"
    by (simp add: sample_decision_env_def)
  from listed_by_an_entry [OF sample_json this p(1) res(1) [folded db] x(1)] res(2) x(2) p(2) show ?thesis
    unfolding db by auto
qed

text \<open>So an entry that is not in the form a path normalises to is missed by the path it was written for: \<open>./src/db/open.ts\<close>
  becomes an edge that neither that very text nor its normal form \<open>src/db/open.ts\<close> finds, while the entry
  \<open>src/db/open.ts\<close> is found.\<close>

theorem dotted_impact_missed:
  "classifyImpactTarget ''./src/db/open.ts'' = Some (FileTarget, ''./src/db/open.ts'') \<and>
   answered_ids (fst (queryDecisionsByFileHandler sample_file_env (sample_file_query ''./src/db/open.ts'')
     (after_recording [''./src/db/open.ts'']) cold)) = [] \<and>
   answered_ids (fst (queryDecisionsByFileHandler sample_file_env (sample_file_query ''src/db/open.ts'')
     (after_recording [''./src/db/open.ts'']) cold)) = [] \<and>
   answered_ids (fst (queryDecisionsByFileHandler sample_file_env (sample_file_query ''src/db/open.ts'')
     (after_recording [''src/db/open.ts'']) cold)) = [''dec_a'']"
  by code_simp

lemma cut_off_is_older:
  assumes "x \<in> set xs" and "x \<notin> set (take n (order_by_desc k xs))"
  shows "length (take n (order_by_desc k xs)) = n \<and> (\<forall>y \<in> set (take n (order_by_desc k xs)). k x \<le> k y)"
proof -
  let ?ys = "order_by_desc k xs"
  have "x \<in> set (drop n ?ys)" using assms by (metis Un_iff append_take_drop_id set_append set_order_by_desc)
  moreover have "sorted (map (\<lambda>r. - k r) (take n ?ys @ drop n ?ys))" using order_by_desc_sorted by simp
  ultimately have "\<forall>y \<in> set (take n ?ys). - k y \<le> - k x" unfolding map_append sorted_append by simp
  moreover have "n \<le> length ?ys" using assms by (metis nle_le set_order_by_desc take_all)
  ultimately show ?thesis by auto
qed

text \<open>Without a search text \<open>query_decisions\<close> answers the newest decisions: newest first, at most \<open>limit\<close>, and a
  decision of the project that is in force and missing from the answer was cut off by the limit, every
  listed one being at least as new.\<close>

theorem query_lists_newest:
  assumes "queryDecisionsHandler env inp db = Some es" and "qi_query inp = None" and "qi_runId inp = None"
    and "qi_issueRef inp = None" and "qi_workPackId inp = None"
  shows "sorted (rev (map en_createdAt es)) \<and> length es \<le> qi_limit inp \<and>
    (\<forall>d r. (d, r) \<in> set (with_runs (qe_runs env) (dd_decisions db)) \<and>
       resolveProjectId (qe_projects env) (qi_projectSlug inp) = Some (rn_projectId r) \<and>
       in_force (dd_edges db) (dm_id d) \<and> dm_id d \<notin> en_id ` set es \<longrightarrow>
       length es = qi_limit inp \<and> (\<forall>x \<in> set es. dm_createdAt d \<le> en_createdAt x))"
proof -
  obtain pid where pid: "resolveProjectId (qe_projects env) (qi_projectSlug inp) = Some pid"
    using assms(1) by (auto simp: queryDecisionsHandler_def split: option.splits)
  let ?i = "inp\<lparr>qi_issueRef := map_option (map upper_char) (qi_issueRef inp)\<rparr>"
  define rows where "rows = map fst (filter (matches_filters ?i pid None [] (dd_edges db) None)
    (with_runs (qe_runs env) (dd_decisions db)))"
  have es: "es = map (toEntry (qe_jparse env) (dd_edges db)) (take (qi_limit inp) (order_by_desc dm_createdAt rows))"
    using assms pid by (simp add: queryDecisionsHandler_def selectDecisions_def rows_def Let_def)
  have fields: "map en_createdAt es = take (qi_limit inp) (map dm_createdAt (order_by_desc dm_createdAt rows))"
    "en_id ` set es = dm_id ` set (take (qi_limit inp) (order_by_desc dm_createdAt rows))"
    by (simp_all add: es toEntry_def comp_def take_map image_image)
  have "sorted_wrt (\<ge>) (map dm_createdAt (order_by_desc dm_createdAt rows))"
    using order_by_desc_sorted [of dm_createdAt rows] by (simp add: sorted_map sorted_wrt_map)
  then have "sorted (rev (map en_createdAt es))" unfolding fields sorted_wrt_rev by (rule sorted_wrt_take)
  moreover have "length es = qi_limit inp \<and> (\<forall>x \<in> set es. dm_createdAt d \<le> en_createdAt x)"
    if "(d, r) \<in> set (with_runs (qe_runs env) (dd_decisions db))" "rn_projectId r = pid"
      "in_force (dd_edges db) (dm_id d)" "dm_id d \<notin> en_id ` set es" for d r
  proof -
    have "d \<in> set rows" using that(1-3) assms(3,4) by (force simp: rows_def matches_filters_def)
    moreover have "d \<notin> set (take (qi_limit inp) (order_by_desc dm_createdAt rows))" using that(4) fields(2) by blast
    ultimately show ?thesis using cut_off_is_older [of d rows "qi_limit inp" dm_createdAt] by (auto simp: es toEntry_def)
  qed
  ultimately show ?thesis by (auto simp: pid es)
qed

definition sample_query :: "nat \<Rightarrow> query_input" where
  "sample_query n = \<lparr> qi_projectSlug = ''demo'', qi_query = None, qi_runId = None, qi_issueRef = None, qi_workPackId = None,
     qi_includeRelated = False, qi_activeOnly = True, qi_limit = n \<rparr>"

definition sample_query_env :: query_env where
  "sample_query_env = \<lparr> qe_projects = sample_projects, qe_runs = sample_runs, qe_relationships = [], qe_match = (\<lambda>_ _. []),
     qe_jparse = sample_jparse \<rparr>"

definition two_decisions :: decision_db where
  "two_decisions = record_all
     [(sample_decision_env ''a'' 10, sample_input ''use sqlite'' [] []),
      (sample_decision_env ''b'' 20, sample_input ''use pnpm'' [] [])] (no_decisions [] [])"

lemma sample_answer:
  "map_option (map en_id) (queryDecisionsHandler sample_query_env (sample_query 1) two_decisions) = Some [''dec_b'']"
  by code_simp

theorem query_lists_newest_witness:
  "\<exists>es. queryDecisionsHandler sample_query_env (sample_query 1) two_decisions = Some es \<and> map en_id es = [''dec_b''] \<and>
     sorted (rev (map en_createdAt es)) \<and> length es \<le> 1"
proof -
  obtain es where es: "queryDecisionsHandler sample_query_env (sample_query 1) two_decisions = Some es" "map en_id es = [''dec_b'']"
    using sample_answer by auto
  show ?thesis using query_lists_newest [OF es(1)] es by (simp add: sample_query_def)
qed

end
