(* ===== verification/Policy_Teaching.thy ===== *)
theory Policy_Teaching
  imports Decision_Query
begin

text \<open>
  Teaching through denials: \<open>apps/mcp-server/src/lib/policy-teaching.ts\<close>, which puts the decisions about a file
  behind the reason of a denied tool call.

  \<open>dash\<close>, \<open>dots\<close> and \<open>dot\<close> are the one-character strings \<open>U+2014\<close>, \<open>U+2026\<close> and \<open>U+00B7\<close>.  The two queries do not
  fail here; the code answers a failure with no decisions.  Edges are read in table order, which SQL
  leaves open.
\<close>

section \<open>Shortening a text\<close>

text \<open>\<open>replace(/\<setminus>s+/g, ' ')\<close>\<close>

function squash :: "string \<Rightarrow> string" where
  "squash [] = []"
| "squash (c # cs) = (if js_space c then CHR '' '' # squash (dropWhile js_space cs) else c # squash cs)"
  by pat_completeness auto

termination
  by (relation "measure length") (auto simp: le_imp_less_Suc length_dropWhile_le)

definition last_index :: "string \<Rightarrow> string \<Rightarrow> int" where
  "last_index pat s =
     (case filter (\<lambda>n. prefix pat (drop n s)) (rev [0..<length s]) of [] \<Rightarrow> -1 | n # _ \<Rightarrow> int n)"

definition summarise :: "string \<Rightarrow> string \<Rightarrow> nat \<Rightarrow> string" where
  "summarise dots txt limit =
     (let clean = trim (squash txt) in
      if length clean \<le> limit then clean
      else (let cut = take limit clean; lastStop = max (last_index ''. '' cut) (last_index ''; '' cut) in
            if int limit < 2 * lastStop then take (nat (lastStop + 1)) cut
            else (let lastSpace = last_index '' '' cut in
                  take (if lastSpace > 0 then nat lastSpace else limit) cut @ dots)))"

section \<open>The decisions about a file\<close>

primrec first_path :: "js \<Rightarrow> string list \<Rightarrow> string option" where
  "first_path v [] = None"
| "first_path v (k # ks) = (case as_nonempty (js_get v k) of Some p \<Rightarrow> Some p | None \<Rightarrow> first_path v ks)"

definition pathFromToolInput :: "js \<Rightarrow> string option" where
  "pathFromToolInput toolInput =
     (if js_is_record toolInput then first_path toolInput [''file_path'', ''filePath'', ''path'', ''notebook_path''] else None)"

text \<open>What follows the first slash that one of the four roots follows, all on one line.\<close>

fun after_root_slash :: "string \<Rightarrow> string option" where
  "after_root_slash [] = None"
| "after_root_slash (c # cs) =
     (if c = CHR ''/'' \<and> list_ex (\<lambda>r. prefix (r @ ''/'') cs) [''apps'', ''packages'', ''src'', ''docs''] then Some cs
      else if c = CHR 0x0A \<or> c = CHR 0x0D then None
      else after_root_slash cs)"

definition repo_relative :: "string \<Rightarrow> string" where
  "repo_relative p = nullish (after_root_slash p) p"

definition findMotivatingDecisions :: "decision_db \<Rightarrow> string \<Rightarrow> string \<Rightarrow> decision list" where
  "findMotivatingDecisions db projectId filePath =
     (let normalized = unbackslash filePath;
          candidates = [normalized, repo_relative normalized];
          ids = js_set (map eg_from (take 6 (filter (\<lambda>e. eg_targetType e = FileTarget \<and> eg_targetId e \<in> set candidates) (dd_edges db)))) in
      take 2 (order_by_desc dm_createdAt
        (filter (\<lambda>d. dm_id d \<in> set ids \<and> dm_projectId d = Some projectId) (dd_decisions db))))"

section \<open>The taught reason\<close>

record typography =
  ty_dash :: string
  ty_dots :: string
  ty_dot :: string

definition header :: "typography \<Rightarrow> string" where
  "header ty = '' '' @ ty_dot ty @ '' prior decision '' @ ty_dash ty @ '' ''"

definition taught_part :: "typography \<Rightarrow> nat \<Rightarrow> decision \<Rightarrow> string" where
  "taught_part ty perDecision d =
     dm_id d @ '': '' @ summarise (ty_dots ty) (dm_description d @ '' '' @ ty_dash ty @ '' '' @ dm_rationale d) perDecision"

definition teaching_budget :: "typography \<Rightarrow> string \<Rightarrow> decision list \<Rightarrow> int" where
  "teaching_budget ty baseReason decisions =
     600 - int (length baseReason) -
       (int (length (header ty)) + 3 * (int (length decisions) - 1) + sum_list (map (\<lambda>d. int (length (dm_id d)) + 2) decisions))"

definition composeTeachingReason :: "typography \<Rightarrow> string \<Rightarrow> decision list \<Rightarrow> string \<times> string list" where
  "composeTeachingReason ty baseReason decisions =
     (if decisions = [] then (baseReason, [])
      else (let budget = teaching_budget ty baseReason decisions in
            if budget \<le> 40 then (baseReason, [])
            else (let perDecision = nat (budget div int (length decisions));
                      reason = baseReason @ header ty @ join '' | '' (map (taught_part ty perDecision) decisions) in
                  if 600 < length reason then (baseReason, []) else (reason, map dm_id decisions))))"

section \<open>Lengths\<close>

lemma last_index_less: "last_index pat s < int (length s) \<or> s = []"
proof (cases "filter (\<lambda>n. prefix pat (drop n s)) (rev [0..<length s])")
  case Nil
  then show ?thesis by (cases s) (simp_all add: last_index_def)
next
  case (Cons n ns)
  have "n \<in> set (n # ns)" by simp
  then have "n \<in> set (filter (\<lambda>n. prefix pat (drop n s)) (rev [0..<length s]))" using Cons by metis
  then have "n < length s" by simp
  then show ?thesis by (simp add: last_index_def Cons)
qed

lemma last_index_pos:
  assumes "0 < last_index pat s"
  shows "\<exists>n. last_index pat s = int n \<and> n < length s"
  using assms last_index_less [of pat s] by (intro exI [of _ "nat (last_index pat s)"]) (auto simp: last_index_def)

lemma summarise_length:
  assumes "length dots = 1"
  shows "length (summarise dots txt n) \<le> n + 1"
  using assms by (auto simp: summarise_def Let_def)

text \<open>Within the limit as soon as a space follows the first character of the kept part.\<close>

definition breakable :: "nat \<Rightarrow> string \<Rightarrow> bool" where
  "breakable n txt \<longleftrightarrow> (let clean = trim (squash txt) in n < length clean \<longrightarrow> 0 < last_index '' '' (take n clean))"

lemma summarise_fits:
  assumes "length dots = 1" and "breakable n txt"
  shows "length (summarise dots txt n) \<le> n"
proof (cases "length (trim (squash txt)) \<le> n")
  case True
  then show ?thesis by (simp add: summarise_def)
next
  case False
  let ?cut = "take n (trim (squash txt))"
  let ?stop = "max (last_index ''. '' ?cut) (last_index ''; '' ?cut)"
  obtain k where "last_index '' '' ?cut = int k" "k < n"
    using assms(2) False last_index_pos [of "'' ''" ?cut] by (auto simp: breakable_def Let_def)
  then show ?thesis using False assms by (auto simp: summarise_def Let_def breakable_def)
qed

lemma join_length: "xs \<noteq> [] \<Longrightarrow> int (length (join sep xs)) = sum_list (map (\<lambda>x. int (length x)) xs) + int (length sep) * (int (length xs) - 1)"
proof (induction sep xs rule: join.induct)
  case (3 sep x y ys)
  then show ?case by (simp add: algebra_simps)
qed simp_all

lemma taught_length:
  assumes "ds \<noteq> []" and "\<And>d. d \<in> set ds \<Longrightarrow>
      length (summarise (ty_dots ty) (dm_description d @ '' '' @ ty_dash ty @ '' '' @ dm_rationale d) m) \<le> m"
  shows "int (length (join '' | '' (map (taught_part ty m) ds))) \<le>
    sum_list (map (\<lambda>d. int (length (dm_id d)) + 2) ds) + int m * int (length ds) + 3 * (int (length ds) - 1)"
proof -
  have "sum_list (map (\<lambda>d. int (length (taught_part ty m d))) ds) \<le>
      sum_list (map (\<lambda>d. int (length (dm_id d)) + 2) ds) + int m * int (length ds)"
    using assms(2)
  proof (induction ds)
    case (Cons d ds)
    have "int (length (taught_part ty m d)) \<le> int (length (dm_id d)) + 2 + int m"
      using Cons.prems [of d] by (simp add: taught_part_def)
    moreover have "sum_list (map (\<lambda>d. int (length (taught_part ty m d))) ds) \<le>
        sum_list (map (\<lambda>d. int (length (dm_id d)) + 2) ds) + int m * int (length ds)"
      by (rule Cons.IH) (use Cons.prems in auto)
    ultimately show ?case by (simp add: algebra_simps)
  qed simp
  then show ?thesis using join_length [of "map (taught_part ty m) ds" "'' | ''"] assms(1) by (simp add: comp_def)
qed

section \<open>Properties\<close>

definition per_decision :: "typography \<Rightarrow> string \<Rightarrow> decision list \<Rightarrow> nat" where
  "per_decision ty baseReason decisions = nat (teaching_budget ty baseReason decisions div int (length decisions))"

text \<open>C33: The budget is kept and the last guard of the code is never needed, as long as every text to be shortened has a
  space within its share: then every decision given is taught whenever more than 40 characters are left
  for prose, the reason begins with the original one, and it has at most 600 characters.\<close>

theorem teaching_within_budget:
  assumes "length (ty_dots ty) = 1" and "decisions \<noteq> []" and "40 < teaching_budget ty baseReason decisions"
    and "list_all (\<lambda>d. breakable (per_decision ty baseReason decisions)
        (dm_description d @ '' '' @ ty_dash ty @ '' '' @ dm_rationale d)) decisions"
  shows "snd (composeTeachingReason ty baseReason decisions) = map dm_id decisions \<and>
    prefix baseReason (fst (composeTeachingReason ty baseReason decisions)) \<and>
    length (fst (composeTeachingReason ty baseReason decisions)) \<le> 600"
proof -
  let ?b = "teaching_budget ty baseReason decisions" and ?m = "per_decision ty baseReason decisions"
  let ?reason = "baseReason @ header ty @ join '' | '' (map (taught_part ty ?m) decisions)"
  have "length (summarise (ty_dots ty) (dm_description d @ '' '' @ ty_dash ty @ '' '' @ dm_rationale d) ?m) \<le> ?m"
    if "d \<in> set decisions" for d
    using summarise_fits [OF assms(1)] assms(4) that by (auto simp: list_all_iff)
  then have "int (length (join '' | '' (map (taught_part ty ?m) decisions))) \<le>
      sum_list (map (\<lambda>d. int (length (dm_id d)) + 2) decisions) + int ?m * int (length decisions) + 3 * (int (length decisions) - 1)"
    by (rule taught_length [OF assms(2)])
  moreover have "int ?m * int (length decisions) \<le> ?b"
  proof -
    have "0 \<le> ?b div int (length decisions)" using assms(2,3) by (simp add: pos_imp_zdiv_nonneg_iff)
    moreover have "?b div int (length decisions) * int (length decisions) \<le> ?b"
    proof -
      have "0 \<le> ?b mod int (length decisions)" using assms(2) by simp
      moreover have "?b = ?b div int (length decisions) * int (length decisions) + ?b mod int (length decisions)" by simp
      ultimately show ?thesis by linarith
    qed
    ultimately show ?thesis by (simp add: per_decision_def)
  qed
  ultimately have "int (length ?reason) \<le> 600" by (simp add: teaching_budget_def)
  then have "length ?reason \<le> 600" by linarith
  then have "composeTeachingReason ty baseReason decisions = (?reason, map dm_id decisions)"
    using assms(2,3) by (simp add: composeTeachingReason_def Let_def per_decision_def)
  then show ?thesis using \<open>length ?reason \<le> 600\<close> by simp
qed

definition sample_typography :: typography where
  "sample_typography = \<lparr> ty_dash = ''-'', ty_dots = ''~'', ty_dot = ''*'' \<rparr>"

theorem teaching_within_budget_witness:
  "composeTeachingReason sample_typography ''rule_matched'' (dd_decisions two_decisions) =
     (''rule_matched * prior decision - dec_a: use sqlite - because | dec_b: use pnpm - because'', [''dec_a'', ''dec_b'']) \<and>
   length (fst (composeTeachingReason sample_typography ''rule_matched'' (dd_decisions two_decisions))) \<le> 600"
proof -
  have v: "composeTeachingReason sample_typography ''rule_matched'' (dd_decisions two_decisions) =
     (''rule_matched * prior decision - dec_a: use sqlite - because | dec_b: use pnpm - because'', [''dec_a'', ''dec_b''])"
    by code_simp
  have h: "length (ty_dots sample_typography) = 1" "dd_decisions two_decisions \<noteq> []"
    "40 < teaching_budget sample_typography ''rule_matched'' (dd_decisions two_decisions)"
    "list_all (\<lambda>d. breakable (per_decision sample_typography ''rule_matched'' (dd_decisions two_decisions))
        (dm_description d @ '' '' @ ty_dash sample_typography @ '' '' @ dm_rationale d)) (dd_decisions two_decisions)"
    by code_simp+
  show ?thesis using teaching_within_budget [OF h] v by blast
qed

text \<open>Only the decisions of the project that name the touched file, as given or from its root directory on, are taught,
  the newest two of those found.\<close>

theorem motivating_decisions_relevant:
  "list_all (\<lambda>d. dm_projectId d = Some projectId \<and> d \<in> set (dd_decisions db) \<and>
       list_ex (\<lambda>e. eg_from e = dm_id d \<and> eg_targetType e = FileTarget \<and>
                   eg_targetId e \<in> {unbackslash filePath, repo_relative (unbackslash filePath)}) (dd_edges db))
     (findMotivatingDecisions db projectId filePath) \<and>
   length (findMotivatingDecisions db projectId filePath) \<le> 2"
  by (fastforce simp: findMotivatingDecisions_def Let_def list_all_iff list_ex_iff dest!: in_set_takeD)

lemma findMotivating_text:
  "map recorded_text (findMotivatingDecisions db projectId f) =
     (let candidates = [unbackslash f, repo_relative (unbackslash f)];
          ids = js_set (map eg_from (take 6 (filter (\<lambda>e. eg_targetType e = FileTarget \<and> eg_targetId e \<in> set candidates) (dd_edges db)))) in
      take 2 (order_by_desc dm_createdAt
        (filter (\<lambda>d. dm_id d \<in> set ids \<and> dm_projectId d = Some projectId) (map recorded_text (dd_decisions db)))))"
proof -
  have "dm_projectId (recorded_text d) = dm_projectId d" for d by (simp add: recorded_text_def)
  then have "map recorded_text (filter (\<lambda>d. dm_id d \<in> S \<and> dm_projectId d = Some projectId) ds) =
      filter (\<lambda>d. dm_id d \<in> S \<and> dm_projectId d = Some projectId) (map recorded_text ds)" for S ds
    by (simp add: filter_map o_def)
  then show ?thesis
    by (simp add: findMotivatingDecisions_def Let_def take_map [symmetric] order_by_desc_map [symmetric])
qed

lemma unwanted_edges:
  assumes "\<And>e. e \<in> set es \<Longrightarrow> \<not> P e"
  shows "filter P (insertDecisionEdges es t) = filter P t"
proof -
  have "filter P (edges.insert_all rows u) = filter P u" if "\<And>e. e \<in> set rows \<Longrightarrow> \<not> P e" for rows u
    using that
  proof (induction rows arbitrary: u)
    case (Cons r rows)
    have "filter P (fst (insertEdge r u)) = filter P u"
      using Cons.prems [of r] by (cases "edge_key r \<in> edge_key ` set u") (simp_all add: edges.ins_fresh edges.ins_conflict)
    then show ?case using Cons by simp
  qed simp
  then show ?thesis
    using assms fold_put_edge_rows [of es "[]"] by (auto simp: insertDecisionEdges_all)
qed

text \<open>C34: Supersession does not reach the teaching.  With the decision tables in order, a call of \<open>record_decision\<close> that is
  answered with a recorded decision and names no file takes every decision it supersedes out of force, and leaves the
  decisions that are taught on a denial as they were, for every project and file: the same rows in the same order, but for
  their impact column, the superseded ones among them.\<close>

theorem superseded_still_taught:
  assumes ok: "decisions_ok db"
    and call: "recordDecisionHandler env inp db = (Inr (DecisionRecorded i since new cands), db')"
    and no_file: "\<forall>raw \<in> set (nullish (di_impact inp) []). \<forall>f. classifyImpactTarget raw \<noteq> Some (FileTarget, f)"
  shows "(\<forall>s \<in> set (nullish (di_supersedesDecisionIds inp) []). \<not> in_force (dd_edges db') s) \<and>
    map recorded_text (findMotivatingDecisions db' projectId f) = map recorded_text (findMotivatingDecisions db projectId f)"
proof -
  obtain run :: run_attribution and row ws where i: "dm_id row = i"
    and "dm_idempotencyKey row = computeIdempotencyKey (dw_sha256 env) (di_runId inp) (di_description inp)"
    and "refused_target db (rb_projectId run) i (js_set (nullish (di_supersedesDecisionIds inp) [])) = None"
    and "new \<longleftrightarrow> selectByIdempotencyKey (dd_decisions db) (dm_idempotencyKey row) = None"
    and fresh: "new \<longrightarrow> i \<noteq> [] \<and> i \<notin> dm_id ` set (dd_decisions db)"
    and "\<not> new \<longrightarrow> i \<in> dm_id ` set (dd_decisions db)"
    and "dm_impact row = (if nullish (di_impact inp) [] = [] then None else Some (json_strings (dw_stringify env) (nullish (di_impact inp) [])))"
    and rows: "dd_decisions db' = (if new then dd_decisions db @ [row] else mergeImpactOnIdempotentHit env i (nullish (di_impact inp) []) (dd_decisions db))"
    and es: "dd_edges db' = insertDecisionEdges (edge_inserts env (rb_projectId run) i inp ws) (dd_edges db)"
    and "dd_links db' = pack_links.insert_all (map (\<lambda>w. \<lparr> dl_orgId = dm_orgId row, dl_projectId = rb_projectId run,
       dl_workPackId = w, dl_decisionId = i \<rparr>) ws) (dd_links db)"
    by (rule recorded_tables [OF call])
  let ?C = "set [unbackslash f, repo_relative (unbackslash f)]"
  let ?P = "\<lambda>e. eg_targetType e = FileTarget \<and> eg_targetId e \<in> ?C"
  let ?ids = "set (js_set (map eg_from (take 6 (filter ?P (dd_edges db)))))"
  have "\<not> ?P e" if e: "e \<in> set (edge_inserts env (rb_projectId run) i inp ws)" for e
  proof -
    have "edge_key e \<in> edge_key ` set (edge_inserts env (rb_projectId run) i inp ws)" using e by (rule imageI)
    then show ?thesis unfolding edge_inserts_keys using no_file by (auto simp: edge_key_def)
  qed
  then have same_edges: "filter ?P (dd_edges db') = filter ?P (dd_edges db)" unfolding es by (rule unwanted_edges)
  have "?ids \<subseteq> sources (dd_edges db)" by (auto simp: sources_def dest!: in_set_takeD)
  then have "new \<longrightarrow> i \<notin> ?ids" using fresh decisions_okD(5) [OF ok] by blast
  then have same_rows: "filter (\<lambda>d. dm_id d \<in> ?ids \<and> dm_projectId d = Some projectId) (map recorded_text (dd_decisions db')) =
      filter (\<lambda>d. dm_id d \<in> ?ids \<and> dm_projectId d = Some projectId) (map recorded_text (dd_decisions db))"
    using i by (simp add: rows)
  have "(i, s) \<in> supersession (dd_edges db')" if "s \<in> set (nullish (di_supersedesDecisionIds inp) [])" for s
    using that by (simp add: es supersession_insert supersession_edge_inserts)
  then have "\<forall>s \<in> set (nullish (di_supersedesDecisionIds inp) []). \<not> in_force (dd_edges db') s"
    by (force simp: in_force_iff)
  then show ?thesis using same_edges same_rows by (simp add: findMotivating_text Let_def)
qed

text \<open>\<open>use postgres\<close> supersedes \<open>use sqlite\<close>: a denial on the file that the latter named still carries it, although
  \<open>query_decisions_by_file\<close> no longer lists it.\<close>

definition before_postgres :: decision_db where
  "before_postgres = record_all (take 1 sample_calls) (no_decisions [] [])"

lemma postgres_recorded:
  "fst (recordDecisionHandler (fst (sample_calls ! 1)) (snd (sample_calls ! 1)) before_postgres) =
     Inr (DecisionRecorded ''dec_b'' 20 True [])"
  "map dm_id (findMotivatingDecisions before_postgres ''p1'' ''/w/demo/src/db/open.ts'') = [''dec_a'']"
  "list_all (\<lambda>raw. case classifyImpactTarget raw of Some (FileTarget, f) \<Rightarrow> False | _ \<Rightarrow> True)
     (nullish (di_impact (snd (sample_calls ! 1))) [])"
  "nullish (di_supersedesDecisionIds (snd (sample_calls ! 1))) [] = [''dec_a'']"
  by code_simp+

theorem superseded_still_taught_witness:
  "\<exists>db'. snd (recordDecisionHandler (fst (sample_calls ! 1)) (snd (sample_calls ! 1)) before_postgres) = db' \<and>
     \<not> in_force (dd_edges db') ''dec_a'' \<and>
     map dm_id (findMotivatingDecisions db' ''p1'' ''/w/demo/src/db/open.ts'') = [''dec_a'']"
proof -
  obtain db' where call: "recordDecisionHandler (fst (sample_calls ! 1)) (snd (sample_calls ! 1)) before_postgres =
      (Inr (DecisionRecorded ''dec_b'' 20 True []), db')"
    using postgres_recorded(1) by (metis prod.collapse)
  have ok: "decisions_ok before_postgres" unfolding before_postgres_def by (rule record_all_ok [OF no_decisions_ok])
  have no_file: "\<forall>raw \<in> set (nullish (di_impact (snd (sample_calls ! 1))) []). \<forall>f. classifyImpactTarget raw \<noteq> Some (FileTarget, f)"
    using postgres_recorded(3) by (fastforce simp: list_all_iff)
  note still = superseded_still_taught [OF ok call no_file, of "''p1''" "''/w/demo/src/db/open.ts''"]
  have "map dm_id (findMotivatingDecisions db' ''p1'' ''/w/demo/src/db/open.ts'') =
      map dm_id (findMotivatingDecisions before_postgres ''p1'' ''/w/demo/src/db/open.ts'')"
    by (rule recorded_text_maps(1)) (use still in blast)
  then show ?thesis using still call postgres_recorded(2,4) by simp
qed

lemma superseded_left_out_by_query:
  "answered_ids (fst (queryDecisionsByFileHandler sample_file_env (sample_file_query ''src/db/open.ts'')
     (record_all sample_calls (no_decisions [] [])) cold)) = []"
  by code_simp

definition unbroken_decision :: decision where
  "unbroken_decision = \<lparr> dm_id = ''dec_a'', dm_orgId = None, dm_projectId = Some ''p1'', dm_idempotencyKey = ''k'', dm_runId = None,
     dm_description = replicate 200 (CHR ''x''), dm_rationale = ''r'', dm_alternatives = None, dm_context = None, dm_impact = None,
     dm_confidence = None, dm_reversible = None, dm_createdByUserId = None, dm_createdAt = 0 \<rparr>"

text \<open>Without a space to break at, a shortened text is one character too long and the guard drops all teaching.\<close>

theorem unbroken_text_drops_teaching:
  "teaching_budget sample_typography (replicate 500 (CHR ''b'')) [unbroken_decision] = 73 \<and>
   composeTeachingReason sample_typography (replicate 500 (CHR ''b'')) [unbroken_decision] = (replicate 500 (CHR ''b''), [])"
  by code_simp

end
