(* ===== verification/Lifecycle_Event.thy ===== *)
theory Lifecycle_Event
  imports Check_Policy Run_Lifecycle Hook_Output Policy_Teaching
begin

text \<open>
  The \<open>lifecycle_event\<close> tool, \<open>apps/mcp-server/src/tools/lifecycle-event/handler.ts\<close>, with the run recorder
  \<open>apps/mcp-server/src/lib/run-recorder.ts\<close> and \<open>packages/lifecycle/src/finalize-run-on-session-end.ts\<close>: what
  happens from the payload of an agent's hook to the answer the agent gets.  It joins the adapters, the
  run of the session, the policy check, teaching, the audit of the event and the cleanups.

  The texts that a session is given (workflow policy, recent context, recipes, prompt context) are inputs of
  a call, \<open>None\<close> where the code has none or its lookup failed; so are the outcome of the automatic
  Context Pack and git's answer.  Run diffs, the linked Work Pack, the telemetry of what was pushed
  and the graph refresh write tables that nothing here reads, and are left out.

  One call is a function of its inputs: between the awaits of a hook no other process writes the tables, so
  that two hooks of one session are handled one after the other.  In particular the check that a run was
  not yet held up and the mark that it was (\<open>nudge\<close>) are one step here and two statements in the code.
\<close>

section \<open>Own tools\<close>

definition COODRA_MCP_TOOL_NAMES :: "string list" where
  "COODRA_MCP_TOOL_NAMES =
     [''ping'', ''get_run_id'', ''lifecycle_event'', ''check_policy'', ''save_context_pack'', ''list_context_packs'',
      ''read_context_pack'', ''search_packs_nl'', ''record_decision'', ''query_decisions'', ''query_decisions_by_file'',
      ''query_run_history'', ''query_run_diff'', ''list_recipes'', ''get_recipe'', ''get_recipe_file'', ''work_pack_upsert'',
      ''work_pack_update'', ''work_pack_status'', ''link_run_to_issue'', ''link_run_to_pr'', ''prepare_jira_comment'',
      ''wiki_save_structure'', ''wiki_save_page'', ''wiki_status'', ''wiki_ask'']"

definition GRAPHIFY_MCP_TOOL_NAMES :: "string list" where
  "GRAPHIFY_MCP_TOOL_NAMES =
     [''query_graph'', ''get_node'', ''get_neighbors'', ''shortest_path'', ''get_community'', ''get_pr_impact'', ''god_nodes'',
      ''graph_stats'', ''list_prs'', ''triage_prs'']"

definition own_bare_name :: "string \<Rightarrow> bool" where
  "own_bare_name toolName \<longleftrightarrow> toolName \<in> set (COODRA_MCP_TOOL_NAMES @ GRAPHIFY_MCP_TOOL_NAMES)"

definition isCoodraOwnMcpTool :: "string \<Rightarrow> bool" where
  "isCoodraOwnMcpTool toolName \<longleftrightarrow>
     prefix ''mcp__coodra__'' toolName \<or> prefix ''mcp__graphify__'' toolName \<or>
     prefix ''MCP:'' toolName \<and> own_bare_name (drop 4 toolName)"

definition isSelfCall :: "agent_type \<Rightarrow> string \<Rightarrow> bool" where
  "isSelfCall agent toolName \<longleftrightarrow> isCoodraOwnMcpTool toolName \<or> agent = Antigravity \<and> own_bare_name toolName"

section \<open>Recording an event\<close>

definition eventRecordPhase :: "event_phase \<Rightarrow> string" where
  "eventRecordPhase ph = (case ph of PhPre \<Rightarrow> ''pre'' | PhPost \<Rightarrow> ''post'' | _ \<Rightarrow> ''mcp_call'')"

definition nonempty_opt :: "string option \<Rightarrow> string option" where
  "nonempty_opt v = (case v of None \<Rightarrow> None | Some s \<Rightarrow> if s = [] then None else Some s)"

definition idempotencyFor :: "hook_event \<Rightarrow> string \<Rightarrow> string" where
  "idempotencyFor e hookEventName =
     take 200 (join '':'' [''lifecycle_event'', agent_text (he_agentType e), he_sessionId e, hookEventName,
       (if he_toolName e \<noteq> [] then he_toolName e else hookEventName), nullish (nonempty_opt (he_turnId e)) ''no-turn''])"

definition run_event_id :: "string \<Rightarrow> string \<Rightarrow> string \<Rightarrow> string" where
  "run_event_id runId key phase = ''re_'' @ runId @ ''_'' @ key @ ''_'' @ phase"

definition run_event_payload ::
  "(js \<Rightarrow> string) \<Rightarrow> string \<Rightarrow> string \<Rightarrow> string \<Rightarrow> string \<Rightarrow> js \<Rightarrow> policy_decision \<Rightarrow> string \<Rightarrow> js"
where
  "run_event_payload stringify runId toolName phase key input decision reason =
     JObj [(''v'', JNum 1), (''rowId'', JStr (run_event_id runId key phase)),
           (''resolution'', JObj [(''kind'', JStr ''pre_resolved''), (''runId'', JStr runId)]),
           (''phase'', JStr phase), (''toolName'', JStr toolName), (''toolUseId'', JStr key),
           (''toolInput'', JStr (stringify (JObj [(''input'', input), (''output'', JNull),
              (''decision'', JStr (decision_text decision)), (''reason'', JStr reason), (''idempotencyKind'', JStr ''mutating'')]))),
           (''outcome'', JStr (decision_text decision))]"

text \<open>Arguments that are refused throw; an enqueue that throws is logged.\<close>

definition record_run_event ::
  "(js \<Rightarrow> string) \<Rightarrow> sync_env \<Rightarrow> string \<Rightarrow> string \<Rightarrow> string \<Rightarrow> string \<Rightarrow> string \<Rightarrow> js \<Rightarrow> policy_decision \<Rightarrow> string \<Rightarrow>
   job list \<Rightarrow> string + job list"
where
  "record_run_event stringify env runId toolName phase sessionId key input decision reason jobs =
     (if toolName = [] then Inl ''run-recorder.record: toolName is required''
      else if sessionId = [] then Inl ''run-recorder.record: sessionId is required''
      else Inr (snd (scheduleAuditWriteWithSync stringify env
             \<lparr> da_queue = ''run_event'',
               da_payload = run_event_payload stringify runId toolName phase key input decision reason,
               da_id = None, da_runAfter = None \<rparr>
             (Some (''run_events'', ById (run_event_id runId key phase))) None jobs)))"

section \<open>Small helpers\<close>

definition toolInputRecord :: "js option \<Rightarrow> js" where
  "toolInputRecord v =
     (case v of None \<Rightarrow> JObj [] | Some x \<Rightarrow> if js_is_record x then x else JObj [(''value'', x)])"

definition parseActiveCapabilitiesFromEnv :: "string option \<Rightarrow> string list" where
  "parseActiveCapabilitiesFromEnv value =
     (case value of
        None \<Rightarrow> []
      | Some s \<Rightarrow> if trim s = [] then []
                  else normalizeRunCapabilities (filter (\<lambda>e. e \<noteq> []) (map trim (split_on (CHR '','') [] s))))"

definition promptTextFromEvent :: "hook_event \<Rightarrow> string option" where
  "promptTextFromEvent e =
     (if he_eventPhase e \<noteq> PhUserPrompt then None
      else case he_toolInput e of
             None \<Rightarrow> None
           | Some v \<Rightarrow> (case as_string (js_get v ''prompt'') of
                         None \<Rightarrow> None | Some p \<Rightarrow> if trim p \<noteq> [] then Some p else None))"

definition newline :: string where
  "newline = [CHR 0x0A]"

definition SESSION_CONTRACT :: string where
  "SESSION_CONTRACT = join newline
     [''## Coodra session contract'', [],
      ''Use Coodra context before making material code changes. When you make a design or implementation decision,'',
      ''record it with `record_decision`. Before ending substantial work, call `save_context_pack` with a concise'',
      ''recap of what changed, what was decided, and what remains open.'']"

definition section_of :: "string option \<Rightarrow> string list" where
  "section_of v = (case v of None \<Rightarrow> [] | Some s \<Rightarrow> [[], ''---'', [], s])"

definition sessionAdditionalContext ::
  "string option \<Rightarrow> string option \<Rightarrow> string option \<Rightarrow> string option \<Rightarrow> string option \<Rightarrow> string"
where
  "sessionAdditionalContext projectSlug runId workflow recentContext recipesIndex =
     join newline ([SESSION_CONTRACT] @
       (case projectSlug of None \<Rightarrow> [] | Some s \<Rightarrow> [[], ''Project slug: `'' @ s @ ''`'']) @
       (case runId of None \<Rightarrow> [] | Some r \<Rightarrow> [''Run id: `'' @ r @ ''`'']) @
       section_of workflow @ section_of recipesIndex @ section_of recentContext)"

definition joinAdditionalContext :: "string option list \<Rightarrow> string option" where
  "joinAdditionalContext parts =
     (let kept = List.map_filter nonempty_opt parts in
      if kept = [] then None else Some (join (newline @ newline @ ''---'' @ newline @ newline) kept))"

section \<open>State\<close>

record life_db =
  lb_store :: run_store
  lb_events :: "run_event list"
  lb_memory :: "memory_access list"
  lb_asks :: "decision_row list"
  lb_decisions :: decision_db
  lb_packs :: "string list"
  lb_policyCache :: policy_cache
  lb_killSwitchCache :: ks_cache

record life_env =
  ve_numStr :: "rat \<Rightarrow> string"
  ve_rawAt :: string
  ve_now :: int
  ve_runEnv :: run_id_env
  ve_killSwitchMs :: int
  ve_checkDeps :: check_deps
  ve_checkEnv :: check_env
  ve_sync :: sync_env
  ve_stringify :: "js \<Rightarrow> string"
  ve_jparse :: "string \<Rightarrow> js option"
  ve_capabilities :: "string option"
  ve_bumpFault :: bool
  ve_generationFault :: bool
  ve_surfacedFault :: bool
  ve_capabilitiesThrow :: bool
  ve_typography :: typography
  ve_gitHead :: "string option"
  ve_workflowContext :: "string option"
  ve_recentContext :: "string option"
  ve_recipesIndex :: "string option"
  ve_promptContext :: "string option"
  ve_autoPack :: bool

abbreviation lb_runs :: "life_db \<Rightarrow> run list" where
  "lb_runs db \<equiv> st_runs (lb_store db)"

abbreviation lb_projects :: "life_db \<Rightarrow> project list" where
  "lb_projects db \<equiv> rg_projects (st_registry (lb_store db))"

abbreviation lb_jobs :: "life_db \<Rightarrow> job list" where
  "lb_jobs db \<equiv> rg_jobs (st_registry (lb_store db))"

definition with_runs_table :: "(run list \<Rightarrow> run list) \<Rightarrow> life_db \<Rightarrow> life_db" where
  "with_runs_table f db = db\<lparr>lb_store := (lb_store db)\<lparr>st_runs := f (lb_runs db)\<rparr>\<rparr>"

definition set_jobs :: "job list \<Rightarrow> life_db \<Rightarrow> life_db" where
  "set_jobs js db = db\<lparr>lb_store := (lb_store db)\<lparr>st_registry := (st_registry (lb_store db))\<lparr>rg_jobs := js\<rparr>\<rparr>\<rparr>"

section \<open>The run of the event\<close>

datatype life_error = SessionIdThrew key_error | RunIdThrew run_id_error | RecorderThrew string

text \<open>The project file is looked for from the event's directory, as \<open>get_run_id\<close> looks again.\<close>

definition config_slug :: "life_env \<Rightarrow> hook_event \<Rightarrow> string option" where
  "config_slug env e =
     (case nonempty_opt (he_cwd e) of None \<Rightarrow> None | Some cwd \<Rightarrow> gv_config (ve_runEnv env) cwd)"

definition resolveRunId :: "life_env \<Rightarrow> string option \<Rightarrow> hook_event \<Rightarrow> life_db \<Rightarrow> (life_error + string option) \<times> life_db" where
  "resolveRunId env projectSlug e db =
     (case projectSlug of
        None \<Rightarrow> (Inr None, db)
      | Some slug \<Rightarrow>
          (case getRunIdHandler (ve_runEnv env)
                  \<lparr> gi_projectSlug = slug, gi_agentSessionId = Some (he_sessionId e),
                    gi_agentType = Some (agent_text (he_agentType e)), gi_cwd = he_cwd e, gi_confirmRegister = False \<rparr>
                  (lb_store db) of
             (Inl err, st) \<Rightarrow> (Inl (RunIdThrew err), db\<lparr>lb_store := st\<rparr>)
           | (Inr (RunReady runId started), st) \<Rightarrow> (Inr (Some runId), db\<lparr>lb_store := st\<rparr>)
           | (Inr _, st) \<Rightarrow> (Inr None, db\<lparr>lb_store := st\<rparr>)))"

record life_ctx =
  lc_event :: hook_event
  lc_name :: string
  lc_projectSlug :: "string option"
  lc_runId :: "string option"
  lc_sessionStart :: bool
  lc_capabilities :: "string list"

definition bump_stage :: "life_env \<Rightarrow> string \<Rightarrow> string option \<Rightarrow> life_db \<Rightarrow> life_db" where
  "bump_stage env name runId db =
     (case runId of
        None \<Rightarrow> db
      | Some r \<Rightarrow> if name = ''PostCompact'' then with_runs_table (\<lambda>t. snd (bumpRunBaselineGeneration (ve_bumpFault env) r t)) db
                  else db)"

definition needsReemitAfterCompaction :: "life_env \<Rightarrow> string \<Rightarrow> string option \<Rightarrow> string option \<Rightarrow> life_db \<Rightarrow> bool" where
  "needsReemitAfterCompaction env name projectSlug runId db \<longleftrightarrow>
     name = ''UserPromptSubmit'' \<and> projectSlug \<noteq> None \<and>
     (case runId of
        None \<Rightarrow> False
      | Some r \<Rightarrow> (let generation = getRunBaselineGeneration (ve_generationFault env) (lb_runs db) r in
                    0 < generation \<and> surfacedMemoryIdsForGeneration (ve_surfacedFault env) (lb_memory db) r generation = {}))"

definition isSessionStartEquivalent :: "life_env \<Rightarrow> string \<Rightarrow> string option \<Rightarrow> string option \<Rightarrow> life_db \<Rightarrow> bool" where
  "isSessionStartEquivalent env name projectSlug runId db \<longleftrightarrow>
     name = ''SessionStart'' \<or> needsReemitAfterCompaction env name projectSlug runId db \<or>
     name = ''UserPromptSubmit'' \<and> projectSlug \<noteq> None \<and>
       (case runId of None \<Rightarrow> False | Some r \<Rightarrow> \<not> hasSessionStartEventForRun (lb_events db) r)"

text \<open>The capabilities of the call; a session start writes them, a write that throws is logged.\<close>

definition capability_stage ::
  "life_env \<Rightarrow> bool \<Rightarrow> string option \<Rightarrow> life_db \<Rightarrow> string list \<times> life_db"
where
  "capability_stage env sessionStart runId db =
     (case runId of
        None \<Rightarrow> ([], db)
      | Some r \<Rightarrow>
          if sessionStart
          then (let caps = parseActiveCapabilitiesFromEnv (ve_capabilities env) in
                (caps, if ve_capabilitiesThrow env then db
                       else with_runs_table (\<lambda>t. snd (updateRunActiveCapabilities (ve_stringify env) r caps t)) db))
          else (if ve_capabilitiesThrow env then [] else getRunActiveCapabilities (ve_jparse env) (lb_runs db) r, db))"

definition orient ::
  "life_env \<Rightarrow> hook_event \<Rightarrow> string \<Rightarrow> string option \<Rightarrow> string option \<Rightarrow> life_db \<Rightarrow> life_ctx \<times> life_db"
where
  "orient env e name projectSlug runId db =
     (let db1 = bump_stage env name runId db;
          sessionStart = isSessionStartEquivalent env name projectSlug runId db1;
          (caps, db2) = capability_stage env sessionStart runId db1 in
      (\<lparr> lc_event = e, lc_name = name, lc_projectSlug = projectSlug, lc_runId = runId,
         lc_sessionStart = sessionStart, lc_capabilities = caps \<rparr>, db2))"

section \<open>The verdict\<close>

record verdict =
  vd_decision :: policy_decision
  vd_reason :: string
  vd_autoApprove :: bool
  vd_defer :: bool

definition default_reason :: "life_ctx \<Rightarrow> string" where
  "default_reason c =
     (let e = lc_event c;
          base = (if lc_projectSlug c = None then ''project_config_missing'' else ''lifecycle_recorded'') in
      if lc_name c = ''PermissionDenied'' \<and> he_denialReason e \<noteq> None then nullish (he_denialReason e) base
      else if lc_name c = ''PostToolUseFailure'' \<and> he_toolError e \<noteq> None then nullish (he_toolError e) base
      else if lc_name c = ''StopFailure'' then
        (case he_errorType e of
           None \<Rightarrow> base
         | Some t \<Rightarrow> (case he_errorMessage e of None \<Rightarrow> t | Some m \<Rightarrow> t @ '': '' @ m))
      else base)"

definition default_verdict :: "life_ctx \<Rightarrow> verdict" where
  "default_verdict c = \<lparr> vd_decision = Allow, vd_reason = default_reason c, vd_autoApprove = False, vd_defer = True \<rparr>"

text \<open>Whether the event asks the policy, and what it asks.\<close>

definition asks_policy :: "agent_type \<Rightarrow> life_ctx \<Rightarrow> bool" where
  "asks_policy agent c \<longleftrightarrow>
     lc_projectSlug c \<noteq> None \<and> lc_name c \<in> {''PreToolUse'', ''PermissionRequest''} \<and>
     he_toolName (lc_event c) \<noteq> [] \<and> \<not> isSelfCall agent (he_toolName (lc_event c))"

definition lifecycle_check_input :: "agent_type \<Rightarrow> string \<Rightarrow> life_ctx \<Rightarrow> check_input" where
  "lifecycle_check_input agent projectSlug c =
     \<lparr> ci_projectSlug = projectSlug, ci_sessionId = he_sessionId (lc_event c), ci_agentType = agent_text agent,
       ci_eventType = Pre, ci_toolName = he_toolName (lc_event c),
       ci_toolInput = toolInputRecord (he_toolInput (lc_event c)), ci_runId = lc_runId c,
       ci_activeCapabilities = (if lc_capabilities c = [] then None else Some (lc_capabilities c)),
       ci_toolUseId = nonempty_opt (he_turnId (lc_event c)) \<rparr>"

definition lifecycle_check_deps :: "life_env \<Rightarrow> check_deps" where
  "lifecycle_check_deps env = (ve_checkDeps env)\<lparr>cd_killSwitches := Some (ve_killSwitchMs env)\<rparr>"

definition lifecycle_check_env :: "life_env \<Rightarrow> life_db \<Rightarrow> check_env" where
  "lifecycle_check_env env db =
     (ve_checkEnv env)\<lparr>ch_projects := map (\<lambda>p. (pj_slug p, pj_id p)) (lb_projects db)\<rparr>"

definition check_state_of :: "life_db \<Rightarrow> check_state" where
  "check_state_of db =
     \<lparr> cs_policyCache = lb_policyCache db, cs_killSwitchCache = lb_killSwitchCache db, cs_jobs = lb_jobs db \<rparr>"

definition put_check_state :: "check_state \<Rightarrow> life_db \<Rightarrow> life_db" where
  "put_check_state st db =
     set_jobs (cs_jobs st) (db\<lparr>lb_policyCache := cs_policyCache st, lb_killSwitchCache := cs_killSwitchCache st\<rparr>)"

text \<open>The decisions that motivated a refusal are told with it.\<close>

definition taught_reason :: "life_env \<Rightarrow> string \<Rightarrow> js option \<Rightarrow> string \<Rightarrow> life_db \<Rightarrow> string" where
  "taught_reason env projectSlug toolInput reason db =
     (case (case toolInput of None \<Rightarrow> None | Some v \<Rightarrow> pathFromToolInput v) of
        None \<Rightarrow> reason
      | Some path \<Rightarrow>
          (case lookupProjectBySlug (lb_projects db) projectSlug of
             None \<Rightarrow> reason
           | Some p \<Rightarrow> fst (composeTeachingReason (ve_typography env) reason
                              (findMotivatingDecisions (lb_decisions db) (pj_id p) path))))"

definition verdict_of_answer :: "life_env \<Rightarrow> string \<Rightarrow> life_ctx \<Rightarrow> check_answer \<Rightarrow> life_db \<Rightarrow> verdict" where
  "verdict_of_answer env projectSlug c a db =
     (let d = an_permissionDecision a;
          reason = nullish (an_ruleReason a) (reason_text (an_reason a));
          defers = (an_reason a \<in> {NoRuleMatched, PolicyEngineUnavailable}) in
      \<lparr> vd_decision = d,
        vd_reason = (if \<not> defers \<and> d \<in> {Deny, Ask}
                     then taught_reason env projectSlug (he_toolInput (lc_event c)) reason db else reason),
        vd_autoApprove = (lc_name c = ''PermissionRequest'' \<and> d = Allow \<and>
                          (an_matchedGrantId a \<noteq> None \<or> an_matchedExceptionId a \<noteq> None)),
        vd_defer = defers \<rparr>)"

definition judge :: "life_env \<Rightarrow> agent_type \<Rightarrow> life_ctx \<Rightarrow> life_db \<Rightarrow> verdict \<times> life_db" where
  "judge env agent c db =
     (if \<not> asks_policy agent c then (default_verdict c, db)
      else (let projectSlug = nullish (lc_projectSlug c) [] in
            case checkPolicyHandler (lifecycle_check_deps env) (lifecycle_check_env env db)
                   (lifecycle_check_input agent projectSlug c) (check_state_of db) of
              (ProjectNotFound, st) \<Rightarrow> ((default_verdict c)\<lparr>vd_reason := ''project_not_found''\<rparr>, put_check_state st db)
            | (Answer a, st) \<Rightarrow> (verdict_of_answer env projectSlug c a (put_check_state st db), put_check_state st db)))"

section \<open>Compaction\<close>

definition NUDGE :: string where
  "NUDGE = ''This run recorded decisions with no Context Pack saved yet. Call coodra__record_decision for '' @
     ''anything new since, then coodra__save_context_pack, before compacting '' "

definition with_no_links :: "run \<Rightarrow> bound_run" where
  "with_no_links r = run.extend r (bound_run.fields None None)"

text \<open>The first active decision of the run, as \<open>query_decisions\<close> answers it.\<close>

definition hasUnsavedDecisions :: "life_env \<Rightarrow> string \<Rightarrow> string \<Rightarrow> life_db \<Rightarrow> bool" where
  "hasUnsavedDecisions env projectSlug runId db \<longleftrightarrow>
     (case queryDecisionsHandler
             \<lparr> qe_projects = lb_projects db, qe_runs = map with_no_links (lb_runs db), qe_relationships = [],
               qe_match = (\<lambda>_ _. []), qe_jparse = ve_jparse env \<rparr>
             \<lparr> qi_projectSlug = projectSlug, qi_query = None, qi_runId = Some runId, qi_issueRef = None,
               qi_workPackId = None, qi_includeRelated = False, qi_activeOnly = True, qi_limit = 1 \<rparr>
             (lb_decisions db) of
        None \<Rightarrow> False
      | Some found \<Rightarrow> found \<noteq> [])"

text \<open>The reason ends with a dash and a clause on its own; the dash is typography.\<close>

definition nudge_reason :: "life_env \<Rightarrow> string" where
  "nudge_reason env = NUDGE @ ty_dash (ve_typography env) @ '' this is a one-time nudge.''"

definition nudge :: "life_env \<Rightarrow> life_ctx \<Rightarrow> verdict \<times> life_db \<Rightarrow> verdict \<times> life_db" where
  "nudge env c vd =
     (let (v, db) = vd in
      case (lc_runId c, lc_projectSlug c) of
        (Some runId, Some projectSlug) \<Rightarrow>
          (if lc_name c = ''PreCompact'' \<and> getRunCompactionNudgedAt (lb_runs db) runId = None \<and>
              hasUnsavedDecisions env projectSlug runId db \<and> \<not> hasContextPackForRun (lb_packs db) runId
           then (v\<lparr>vd_decision := Deny, vd_reason := nudge_reason env\<rparr>,
                 with_runs_table (markRunCompactionNudged runId (ve_now env)) db)
           else (v, db))
      | _ \<Rightarrow> (v, db))"

section \<open>Ends of runs\<close>

text \<open>\<open>sessionId\<close> is never empty here; \<open>projectId\<close> is absent for a project that is not registered.\<close>

definition finalizeRunOnSessionEnd ::
  "life_env \<Rightarrow> string \<Rightarrow> string \<Rightarrow> string option \<Rightarrow> life_db \<Rightarrow> life_db"
where
  "finalizeRunOnSessionEnd env runId sessionId projectId db =
     (let db1 = (if sessionId = [] then db
                 else db\<lparr>lb_asks := fst (resolveAskOutcomesNotExecuted sessionId (ve_now env) (lb_asks db))\<rparr>);
          db2 = with_runs_table (markRunCompleted runId (ve_now env)) db1 in
      if projectId \<noteq> None \<and> ve_autoPack env then db2\<lparr>lb_packs := lb_packs db2 @ [runId]\<rparr> else db2)"

definition close_stage :: "life_env \<Rightarrow> life_ctx \<Rightarrow> life_db \<Rightarrow> life_db" where
  "close_stage env c db =
     (case lc_runId c of
        None \<Rightarrow> db
      | Some runId \<Rightarrow>
          if lc_name c = ''SessionEnd''
          then finalizeRunOnSessionEnd env runId (he_sessionId (lc_event c))
                 (case lc_projectSlug c of
                    None \<Rightarrow> None | Some slug \<Rightarrow> map_option pj_id (lookupProjectBySlug (lb_projects db) slug)) db
          else if lc_name c = ''StopFailure'' then with_runs_table (markRunFailed runId (ve_now env)) db
          else db)"

section \<open>The event's record\<close>

definition record_tool_name :: "life_ctx \<Rightarrow> string" where
  "record_tool_name c =
     (let e = lc_event c in
      if he_toolName e \<noteq> [] then he_toolName e
      else if lc_name c \<in> {''SubagentStart'', ''SubagentStop''} then nullish (he_subagentType e) (lc_name c)
      else lc_name c)"

definition record_input :: "life_ctx \<Rightarrow> js" where
  "record_input c =
     (let given = (case he_toolInput (lc_event c) of None \<Rightarrow> JObj [] | Some JNull \<Rightarrow> JObj [] | Some v \<Rightarrow> v) in
      if lc_name c = ''SubagentStop''
      then (case he_lastAssistantMessage (lc_event c) of
              None \<Rightarrow> given | Some m \<Rightarrow> JObj [(''lastAssistantMessage'', JStr m)])
      else given)"

definition record_stage :: "life_env \<Rightarrow> agent_type \<Rightarrow> life_ctx \<Rightarrow> verdict \<Rightarrow> life_db \<Rightarrow> life_error + life_db" where
  "record_stage env agent c v db =
     (case lc_runId c of
        None \<Rightarrow> Inr db
      | Some runId \<Rightarrow>
          if isSelfCall agent (he_toolName (lc_event c)) then Inr db
          else (case record_run_event (ve_stringify env) (ve_sync env) runId (record_tool_name c)
                       (eventRecordPhase (he_eventPhase (lc_event c))) (he_sessionId (lc_event c))
                       (idempotencyFor (lc_event c) (lc_name c)) (record_input c) (vd_decision v) (vd_reason v) (lb_jobs db) of
                  Inl msg \<Rightarrow> Inl (RecorderThrew msg)
                | Inr jobs \<Rightarrow> Inr (set_jobs jobs db)))"

definition settle_stage :: "life_env \<Rightarrow> life_ctx \<Rightarrow> life_db \<Rightarrow> life_db" where
  "settle_stage env c db =
     (case nonempty_opt (he_turnId (lc_event c)) of
        None \<Rightarrow> db
      | Some turnId \<Rightarrow>
          if lc_name c = ''PostToolUse'' \<and> he_toolName (lc_event c) \<noteq> []
          then db\<lparr>lb_asks := fst (resolveAskOutcomeApproved (he_sessionId (lc_event c)) turnId
                                    (he_toolName (lc_event c)) None (ve_now env) (lb_asks db))\<rparr>
          else db)"

text \<open>A session that opens pins its commit and abandons the project's silent runs.\<close>

definition open_stage :: "life_env \<Rightarrow> life_ctx \<Rightarrow> life_db \<Rightarrow> life_db" where
  "open_stage env c db =
     (case (if lc_sessionStart c then lc_projectSlug c else None) of
        None \<Rightarrow> db
      | Some slug \<Rightarrow>
          (case lookupProjectBySlug (lb_projects db) slug of
             None \<Rightarrow> db
           | Some p \<Rightarrow>
               (let sessionId = he_sessionId (lc_event c);
                    db1 = (if lc_runId c \<noteq> None \<and> nonempty_opt (he_cwd (lc_event c)) \<noteq> None
                           then with_runs_table (\<lambda>t. snd (captureBaseSha (ve_gitHead env) (pj_id p) sessionId (\<lambda>_ u. u) t)) db
                           else db) in
                with_runs_table
                  (\<lambda>t. snd (abandonStaleInProgressRuns (pj_id p) sessionId None (ve_now env) (lb_events db) t)) db1)))"

section \<open>The handler\<close>

definition context_text :: "life_env \<Rightarrow> agent_type \<Rightarrow> life_ctx \<Rightarrow> string option" where
  "context_text env agent c =
     (let slug = lc_projectSlug c; known = (slug \<noteq> None) in
      joinAdditionalContext
        [if lc_sessionStart c
         then Some (sessionAdditionalContext slug (lc_runId c) (if known then ve_workflowContext env else None)
                (if known then ve_recentContext env else None)
                (if known \<and> nonempty_opt (he_cwd (lc_event c)) \<noteq> None then ve_recipesIndex env else None))
         else None,
         if lc_name c = ''UserPromptSubmit'' \<and> promptTextFromEvent (lc_event c) \<noteq> None \<and> known \<and>
            agent \<notin> {Cursor, Antigravity}
         then ve_promptContext env else None])"

record life_answer =
  la_hookEventName :: string
  la_projectSlug :: "string option"
  la_runId :: "string option"
  la_permissionDecision :: policy_decision
  la_reason :: string
  la_hookOutput :: js

definition invalid_answer :: "agent_type \<Rightarrow> life_answer" where
  "invalid_answer agent =
     \<lparr> la_hookEventName = ''Unknown'', la_projectSlug = None, la_runId = None, la_permissionDecision = Allow,
       la_reason = ''invalid_hook_payload'',
       la_hookOutput = shapeHookOutput agent ''Unknown''
         \<lparr> sh_permissionDecision = Allow, sh_reason = Some ''invalid_hook_payload'', sh_additionalContext = None,
           sh_autoApprovePermissionRequest = False, sh_deferToNativePermissions = False \<rparr> \<rparr>"

definition answer_to :: "life_env \<Rightarrow> agent_type \<Rightarrow> life_ctx \<Rightarrow> verdict \<Rightarrow> life_answer" where
  "answer_to env agent c v =
     \<lparr> la_hookEventName = lc_name c, la_projectSlug = lc_projectSlug c, la_runId = lc_runId c,
       la_permissionDecision = vd_decision v, la_reason = vd_reason v,
       la_hookOutput = shapeHookOutput agent (lc_name c)
         \<lparr> sh_permissionDecision = vd_decision v, sh_reason = Some (vd_reason v),
           sh_additionalContext = context_text env agent c,
           sh_autoApprovePermissionRequest = vd_autoApprove v, sh_deferToNativePermissions = vd_defer v \<rparr> \<rparr>"

text \<open>What happens once the run is known.\<close>

definition handle_event :: "life_env \<Rightarrow> agent_type \<Rightarrow> life_ctx \<Rightarrow> life_db \<Rightarrow> (life_error + life_answer) \<times> life_db" where
  "handle_event env agent c db =
     (let (v, db1) = nudge env c (judge env agent c db);
          db2 = close_stage env c db1 in
      case record_stage env agent c v db2 of
        Inl err \<Rightarrow> (Inl err, db2)
      | Inr db3 \<Rightarrow> (Inr (answer_to env agent c v), open_stage env c (settle_stage env c db3)))"

definition lifecycleEventHandler ::
  "life_env \<Rightarrow> agent_type \<Rightarrow> (string \<times> js) list \<Rightarrow> life_db \<Rightarrow> (life_error + life_answer) \<times> life_db"
where
  "lifecycleEventHandler env agent rawPayload db =
     (case parseAndAdapt (ve_numStr env) (ve_rawAt env) agent (compactHookPayload rawPayload) of
        Inl err \<Rightarrow> (Inl (SessionIdThrew err), db)
      | Inr None \<Rightarrow> (Inr (invalid_answer agent), db)
      | Inr (Some (e, name)) \<Rightarrow>
          (let projectSlug = config_slug env e in
           case resolveRunId env projectSlug e db of
             (Inl err, db1) \<Rightarrow> (Inl err, db1)
           | (Inr runId, db1) \<Rightarrow>
               (case orient env e name projectSlug runId db1 of
                  (c, db2) \<Rightarrow> handle_event env agent c db2)))"

section \<open>How a table grows\<close>

text \<open>A table grows from another along a relation of rows when its first rows are related, one by one, to
  the other's, whatever follows them.\<close>

definition grown :: "(run \<Rightarrow> run \<Rightarrow> bool) \<Rightarrow> run list \<Rightarrow> run list \<Rightarrow> bool" where
  "grown R t t' \<longleftrightarrow> list_all2 R t (take (length t) t')"

locale row_change =
  fixes R :: "run \<Rightarrow> run \<Rightarrow> bool"
  assumes R_refl: "R r r"
    and R_trans: "R p q \<Longrightarrow> R q r \<Longrightarrow> R p r"
    and R_id: "R p q \<Longrightarrow> rn_id q = rn_id p"
begin

lemma grown_refl [simp]: "grown R t t"
  by (simp add: grown_def R_refl list_all2_refl)

lemma grown_trans:
  assumes "grown R s t" and "grown R t u"
  shows "grown R s u"
proof -
  have l: "length s \<le> length t" using list_all2_lengthD [OF assms(1) [unfolded grown_def]] by simp
  have "list_all2 R (take (length s) t) (take (length s) (take (length t) u))"
    using assms(2) by (simp only: grown_def list_all2_takeI)
  then have step: "list_all2 R (take (length s) t) (take (length s) u)" using l by (simp add: min_absorb1)
  have R: "R p q \<Longrightarrow> R q r \<Longrightarrow> R p r" for p q r by (rule R_trans)
  show ?thesis unfolding grown_def by (rule list_all2_trans [of R R R, OF R assms(1) [unfolded grown_def] step])
qed

lemma grown_update: "(\<And>r. P r \<Longrightarrow> R r (f r)) \<Longrightarrow> grown R t (update_runs P f t)"
  by (simp add: grown_def update_runs_def list_all2_conv_all_nth R_refl)

lemma grown_append: "grown R t (t @ u)"
  by (simp add: grown_def R_refl list_all2_refl)

lemma grown_insert: "insertRun now a t = Inr t' \<Longrightarrow> grown R t t'"
  by (cases "run_session (run_row now a) \<in> run_session ` set t")
    (auto simp: insertRun_def Let_def sessions.ins_conflict sessions.ins_fresh grown_append split: if_splits)

text \<open>The first row of an id stays the first row of that id.\<close>

lemma grown_first:
  "grown R t t' \<Longrightarrow> first_row (filter (is_run i) t) = Some r \<Longrightarrow>
    \<exists>r'. first_row (filter (is_run i) t') = Some r' \<and> R r r'"
proof (induction t arbitrary: t')
  case (Cons x t)
  from Cons.prems(1) obtain y u where y: "t' = y # u" "R x y" "grown R t u"
    by (cases t') (auto simp: grown_def)
  show ?case
  proof (cases "is_run i x")
    case True
    with Cons.prems(2) y R_id [OF y(2)] show ?thesis by (auto simp: first_row_def is_run_def)
  next
    case False
    with y R_id [OF y(2)] have "\<not> is_run i y" by (simp add: is_run_def)
    with False Cons.IH [OF y(3)] Cons.prems(2) y show ?thesis by simp
  qed
qed (simp add: first_row_def)

end

text \<open>What every event leaves of a run: its id, that it was nudged, and its generation, which one
  event alone may raise.\<close>

definition carries :: "bool \<Rightarrow> run \<Rightarrow> run \<Rightarrow> bool" where
  "carries b r r' \<longleftrightarrow> rn_id r' = rn_id r \<and> (rn_compactionNudgedAt r' = None \<longrightarrow> rn_compactionNudgedAt r = None) \<and>
     (if b then rn_baselineGeneration r \<le> rn_baselineGeneration r'
      else rn_baselineGeneration r' = rn_baselineGeneration r)"

interpretation carried: row_change "carries b" for b
  by unfold_locales (auto simp: carries_def split: if_splits)

lemma carries_fields [simp]:
  "carries b r (r\<lparr>rn_status := x, rn_endedAt := e\<rparr>)" "carries b r (r\<lparr>rn_baseSha := y\<rparr>)" "carries b r (end_as x n r)"
  "carries b r (r\<lparr>rn_activeCapabilitiesJson := z\<rparr>)" "carries b r (r\<lparr>rn_compactionNudgedAt := Some n\<rparr>)"
  "carries True r (r\<lparr>rn_baselineGeneration := rn_baselineGeneration r + 1\<rparr>)"
  by (simp_all add: carries_def end_as_def)

lemma carries_weaken: "grown (carries False) t t' \<Longrightarrow> grown (carries b) t t'"
  unfolding grown_def by (erule list_all2_mono) (auto simp: carries_def)

lemma carries_any: "grown (carries b) t t' \<Longrightarrow> grown (carries True) t t'"
  by (cases b) (auto intro: carries_weaken)

lemma run_of_session_grown: "grown (carries b) t (snd (run_of_session env i p org t))"
proof (cases "selectLatestRun t p (nullish (gi_agentSessionId i) (gv_ctxSession env))")
  case (Some r)
  then show ?thesis by (simp add: run_of_session_def Let_def resumeRun_def carried.grown_update)
next
  case None
  define t1 where "t1 = (case gv_rival env of None \<Rightarrow> t | Some a \<Rightarrow> (case insertRun (gv_now env) a t of Inl _ \<Rightarrow> t | Inr u \<Rightarrow> u))"
  have g1: "grown (carries b) t t1"
    by (auto simp: t1_def split: option.split sum.split intro: carried.grown_insert)
  have g2: "grown (carries b) t u" if "insertRun (gv_now env) (new_run_args env i k p org) t1 = Inr u" for k u
    using carried.grown_trans [OF g1 carried.grown_insert [OF that]] .
  from None g1 g2 show ?thesis
    by (auto simp: run_of_session_def t1_def [symmetric] Let_def split: sum.split option.split)
qed

lemma getRunIdHandler_grown: "grown (carries b) (st_runs st) (st_runs (snd (getRunIdHandler env i st)))"
proof -
  have "grown (carries b) (st_runs st) t" if "run_of_session env i p org (st_runs st) = (r, t)" for p org r t
    using run_of_session_grown [of b "st_runs st" env i p org] that by simp
  then show ?thesis
    by (auto simp: getRunIdHandler_def Let_def split: option.split prod.split sum.split)
qed

lemma with_runs_table_runs [simp]: "lb_runs (with_runs_table f db) = f (lb_runs db)"
  by (simp add: with_runs_table_def)

lemma set_jobs_runs [simp]: "lb_runs (set_jobs js db) = lb_runs db" "lb_projects (set_jobs js db) = lb_projects db"
  "lb_jobs (set_jobs js db) = js"
  by (simp_all add: set_jobs_def)

lemma put_check_state_runs [simp]: "lb_runs (put_check_state st db) = lb_runs db"
  by (simp add: put_check_state_def set_jobs_def)

section \<open>Runs through an event\<close>

lemma bump_grown: "grown (carries (name = ''PostCompact'')) (lb_runs db) (lb_runs (bump_stage env name runId db))"
proof (cases "runId = None \<or> name \<noteq> ''PostCompact'' \<or> ve_bumpFault env")
  case True
  then show ?thesis by (auto simp: bump_stage_def bumpRunBaselineGeneration_def split: option.split)
next
  case False
  then show ?thesis by (auto simp: bump_stage_def bump_update carried.grown_update)
qed

lemma capabilities_grown: "grown (carries b) (lb_runs db) (lb_runs (snd (capability_stage env sessionStart runId db)))"
proof -
  have "grown (carries b) t (snd (updateRunActiveCapabilities f r caps t))" for f r caps t
    using carried.grown_update [of "is_run r" b "\<lambda>x. x\<lparr>rn_activeCapabilitiesJson := serializeRunCapabilities f (normalizeRunCapabilities caps)\<rparr>" t]
    by (simp add: updateRunActiveCapabilities_def Let_def update_runs_def is_run_def)
  then show ?thesis by (simp add: capability_stage_def Let_def split: option.split)
qed

lemma orient_ctx:
  assumes "orient env e name projectSlug runId db = (c, db')"
  shows "lc_event c = e" "lc_name c = name" "lc_projectSlug c = projectSlug" "lc_runId c = runId"
    "grown (carries (name = ''PostCompact'')) (lb_runs db) (lb_runs db')"
  using assms carried.grown_trans [OF bump_grown capabilities_grown]
  by (auto simp: orient_def Let_def split: prod.splits) (metis snd_conv)

lemma judge_runs [simp]: "lb_runs (snd (judge env agent c db)) = lb_runs db"
  by (auto simp: judge_def Let_def split: prod.split check_output.split)

lemma nudge_grown: "nudge env c (v, db) = (v', db') \<Longrightarrow> grown (carries b) (lb_runs db) (lb_runs db')"
  by (auto simp: nudge_def markRunCompactionNudged_def carried.grown_update split: option.splits if_splits)

lemma close_grown: "grown (carries b) (lb_runs db) (lb_runs (close_stage env c db))"
  by (auto simp: close_stage_def finalizeRunOnSessionEnd_def Let_def markRunCompleted_def markRunFailed_def
      carried.grown_update split: option.split)

lemma record_runs: "record_stage env agent c v db = Inr db' \<Longrightarrow> lb_runs db' = lb_runs db"
  by (auto simp: record_stage_def split: option.splits if_splits sum.splits)

lemma settle_runs [simp]: "lb_runs (settle_stage env c db) = lb_runs db"
  by (auto simp: settle_stage_def split: option.split)

lemma open_grown: "grown (carries b) (lb_runs db) (lb_runs (open_stage env c db))"
proof -
  have base: "grown (carries b) t (snd (captureBaseSha out p s (\<lambda>_ u. u) t))" for out p s t
    by (auto simp: capture_alone carried.grown_update split: option.split)
  have ab: "grown (carries b) t (snd (abandonStaleInProgressRuns p s w n es t))" for p s w n es t
    by (simp add: abandonStaleInProgressRuns_def Let_def carried.grown_update)
  show ?thesis using base ab carried.grown_trans [OF base ab]
    by (simp add: open_stage_def Let_def split: option.split)
qed

lemma handle_event_grown: "grown (carries b) (lb_runs db) (lb_runs (snd (handle_event env agent c db)))"
proof -
  obtain v db1 where n: "nudge env c (judge env agent c db) = (v, db1)" by fastforce
  have g1: "grown (carries b) (lb_runs db) (lb_runs db1)"
    using nudge_grown [of env c "fst (judge env agent c db)" "snd (judge env agent c db)" v db1 b] n by simp
  note g2 = carried.grown_trans [OF g1 close_grown [of b db1 env c]]
  show ?thesis
  proof (cases "record_stage env agent c v (close_stage env c db1)")
    case (Inl e)
    with n g2 show ?thesis by (simp add: handle_event_def Let_def)
  next
    case (Inr db3)
    have "grown (carries b) (lb_runs db3) (lb_runs (open_stage env c (settle_stage env c db3)))"
      using open_grown [of b "settle_stage env c db3" env c] by simp
    with Inr n g2 record_runs [OF Inr] show ?thesis
      using carried.grown_trans [OF g2] by (simp add: handle_event_def Let_def)
  qed
qed

lemma resolveRunId_grown: "grown (carries b) (lb_runs db) (lb_runs (snd (resolveRunId env projectSlug e db)))"
proof (cases projectSlug)
  case (Some slug)
  let ?i = "\<lparr> gi_projectSlug = slug, gi_agentSessionId = Some (he_sessionId e),
     gi_agentType = Some (agent_text (he_agentType e)), gi_cwd = he_cwd e, gi_confirmRegister = False \<rparr>"
  from getRunIdHandler_grown [of b "lb_store db" "ve_runEnv env" ?i] Some show ?thesis
    by (auto simp: resolveRunId_def split: sum.split prod.split run_id_answer.split)
qed (simp add: resolveRunId_def)

text \<open>The name and the run of an event that was adapted.\<close>

lemma handled:
  assumes "parseAndAdapt (ve_numStr env) (ve_rawAt env) agent (compactHookPayload payload) = Inr (Some (e, name))"
    and "resolveRunId env (config_slug env e) e db = (Inr runId, db1)"
    and "orient env e name (config_slug env e) runId db1 = (c, db2)"
  shows "lifecycleEventHandler env agent payload db = handle_event env agent c db2"
  using assms by (simp add: lifecycleEventHandler_def Let_def)

lemma handler_grown:
  "grown (carries True) (lb_runs db) (lb_runs (snd (lifecycleEventHandler env agent payload db)))"
  "(\<And>e. parseAndAdapt (ve_numStr env) (ve_rawAt env) agent (compactHookPayload payload) \<noteq> Inr (Some (e, ''PostCompact''))) \<Longrightarrow>
     grown (carries False) (lb_runs db) (lb_runs (snd (lifecycleEventHandler env agent payload db)))"
proof -
  have main: "grown (carries b) (lb_runs db) (lb_runs (snd (lifecycleEventHandler env agent payload db)))"
    if b: "\<And>e. parseAndAdapt (ve_numStr env) (ve_rawAt env) agent (compactHookPayload payload) = Inr (Some (e, ''PostCompact'')) \<Longrightarrow> b" for b
  proof (cases "parseAndAdapt (ve_numStr env) (ve_rawAt env) agent (compactHookPayload payload)")
    case (Inr r)
    show ?thesis
    proof (cases r)
      case (Some en)
      obtain e name where en: "en = (e, name)" by fastforce
      obtain res db1 where r1: "resolveRunId env (config_slug env e) e db = (res, db1)" by fastforce
      have g1: "grown (carries b) (lb_runs db) (lb_runs db1)" using resolveRunId_grown [of b db env "config_slug env e" e] r1 by simp
      show ?thesis
      proof (cases res)
        case (Inl err)
        with Inr Some en r1 g1 show ?thesis by (simp add: lifecycleEventHandler_def Let_def)
      next
        case (Inr runId)
        obtain c db2 where o: "orient env e name (config_slug env e) runId db1 = (c, db2)" by fastforce
        note adapted = \<open>parseAndAdapt _ _ _ _ = Inr r\<close> [unfolded Some en]
        have "grown (carries b) (lb_runs db1) (lb_runs db2)"
          using orient_ctx(5) [OF o] b adapted by (cases "name = ''PostCompact''") (auto intro: carries_weaken)
        from carried.grown_trans [OF carried.grown_trans [OF g1 this] handle_event_grown]
        show ?thesis using handled [OF adapted r1 [unfolded Inr] o] by simp
      qed
    qed (use Inr in \<open>simp add: lifecycleEventHandler_def\<close>)
  qed (simp add: lifecycleEventHandler_def)
  show "grown (carries True) (lb_runs db) (lb_runs (snd (lifecycleEventHandler env agent payload db)))" by (rule main) simp
  show "grown (carries False) (lb_runs db) (lb_runs (snd (lifecycleEventHandler env agent payload db)))"
    if "\<And>e. parseAndAdapt (ve_numStr env) (ve_rawAt env) agent (compactHookPayload payload) \<noteq> Inr (Some (e, ''PostCompact''))"
    by (rule main) (use that in simp)
qed

section \<open>The names of events\<close>

definition hook_names :: "agent_type \<Rightarrow> string list" where
  "hook_names agent =
     (case agent of
        ClaudeCode \<Rightarrow> map fst CLAUDE_PHASE_MAP
      | Codex \<Rightarrow> map fst CODEX_PHASE_MAP
      | Cursor \<Rightarrow> map snd CURSOR_EVENT_NAME_MAP
      | Devin \<Rightarrow> map fst DEVIN_PHASE_MAP
      | Antigravity \<Rightarrow> map fst ANTIGRAVITY_PHASE_MAP)"

lemma cursor_names: "n \<in> fst ` set CURSOR_PHASE_MAP \<Longrightarrow> canonicalHookEventName Cursor n \<in> set (hook_names Cursor)"
proof -
  have "list_all (\<lambda>n. canonicalHookEventName Cursor n \<in> set (hook_names Cursor)) (map fst CURSOR_PHASE_MAP)" by code_simp
  then show "n \<in> fst ` set CURSOR_PHASE_MAP \<Longrightarrow> canonicalHookEventName Cursor n \<in> set (hook_names Cursor)"
    by (auto simp: list_all_iff)
qed

lemma adapted_name:
  assumes "parseAndAdapt num_str rawAt agent v = Inr (Some (e, name))"
  shows "he_agentType e = agent" "he_sessionId e \<noteq> []" "name \<in> set (hook_names agent)"
proof -
  have ok: "payload_ok agent v" using assms by (auto simp: parseAndAdapt_def split: if_splits)
  have "he_agentType e = agent \<and> he_sessionId e \<noteq> [] \<and> name \<in> set (hook_names agent)"
  proof (cases agent)
    case ClaudeCode
    with assms ok show ?thesis using schema_names(1) [of v]
      by (auto simp: parseAndAdapt_def payload_ok_def hook_names_def safe_segment_def dest: adapted split: sum.splits)
  next
    case Codex
    with assms ok show ?thesis using schema_names(2) [of v]
      by (auto simp: parseAndAdapt_def payload_ok_def hook_names_def safe_segment_def dest: adapted split: sum.splits)
  next
    case Cursor
    with assms ok show ?thesis using cursor_names [OF schema_names(3) [of v]]
      by (auto simp: parseAndAdapt_def payload_ok_def safe_segment_def dest: adapted split: sum.splits)
  next
    case Devin
    with assms ok show ?thesis using schema_names(4) [of v]
      by (auto simp: parseAndAdapt_def payload_ok_def hook_names_def safe_segment_def dest: adapted split: sum.splits)
  next
    case Antigravity
    with assms ok have a: "adaptAntigravity num_str rawAt v (canonicalizeAntigravityEventName v) = Inr e"
      "name = canonicalizeAntigravityEventName v"
      by (auto simp: parseAndAdapt_def Let_def split: sum.splits)
    with Antigravity ok adapted(5) [OF a(1)] schema_names(5) [of v] show ?thesis
      by (simp add: payload_ok_def hook_names_def safe_segment_def)
  qed
  then show "he_agentType e = agent" "he_sessionId e \<noteq> []" "name \<in> set (hook_names agent)" by blast+
qed

lemma no_post_compact: "agent \<in> {Cursor, Devin, Antigravity} \<Longrightarrow> ''PostCompact'' \<notin> set (hook_names agent)"
proof -
  have "list_all (\<lambda>g. ''PostCompact'' \<notin> set (hook_names g)) [Cursor, Devin, Antigravity]" by code_simp
  then show "agent \<in> {Cursor, Devin, Antigravity} \<Longrightarrow> ''PostCompact'' \<notin> set (hook_names agent)" by auto
qed

lemma rows_of_id: "filter (\<lambda>r. rn_id r = i) t = filter (is_run i) t"
  by (rule filter_cong) (simp_all add: is_run_def)

text \<open>C39: A compaction that Devin reports goes unnoticed: whatever Cursor, Devin or Antigravity sends, no run's
  compaction generation changes, so no context is sent again.  Devin does report its compactions, as
  \<open>PostCompaction\<close>, which its adapter files under \<open>post_compact\<close>, but the handler compares the name with
  \<open>PostCompact\<close>.\<close>

theorem compaction_unseen:
  assumes "agent \<in> {Cursor, Devin, Antigravity}" and "i \<in> rn_id ` set (lb_runs db)"
  shows "getRunBaselineGeneration fault (lb_runs (snd (lifecycleEventHandler env agent payload db))) i =
    getRunBaselineGeneration fault (lb_runs db) i"
proof -
  let ?t' = "lb_runs (snd (lifecycleEventHandler env agent payload db))"
  have g: "grown (carries False) (lb_runs db) ?t'"
    by (rule handler_grown(2)) (use adapted_name(3) no_post_compact [OF assms(1)] in blast)
  obtain r where r: "first_row (filter (is_run i) (lb_runs db)) = Some r"
    using assms(2) by (cases "first_row (filter (is_run i) (lb_runs db))") (auto simp: first_row_None filter_empty_conv is_run_def)
  obtain r' where "first_row (filter (is_run i) ?t') = Some r'" "rn_baselineGeneration r' = rn_baselineGeneration r"
    using carried.grown_first [OF g r] by (auto simp: carries_def)
  with r show ?thesis by (simp add: getRunBaselineGeneration_def rows_of_id)
qed

section \<open>One nudge\<close>

lemma nudged_stays:
  "grown (carries b) t t' \<Longrightarrow> getRunCompactionNudgedAt t i \<noteq> None \<Longrightarrow> getRunCompactionNudgedAt t' i \<noteq> None"
  by (cases "first_row (filter (is_run i) t)")
    (auto simp: getRunCompactionNudgedAt_def carries_def dest: carried.grown_first)

lemma marked:
  assumes "i \<in> rn_id ` set t"
  shows "getRunCompactionNudgedAt (markRunCompactionNudged i now t) i \<noteq> None"
proof -
  let ?f = "\<lambda>r. r\<lparr>rn_compactionNudgedAt := Some now\<rparr>"
  have f: "filter (is_run i) (update_runs (is_run i) ?f t) = map ?f (filter (is_run i) t)"
    by (induction t) (simp_all add: update_runs_def is_run_def)
  have "filter (is_run i) t \<noteq> []" using assms by (auto simp: filter_empty_conv is_run_def)
  then obtain r rs where "filter (is_run i) t = r # rs" by (cases "filter (is_run i) t") blast+
  then show ?thesis by (simp add: getRunCompactionNudgedAt_def markRunCompactionNudged_def f first_row_def)
qed

lemma unsaved_run:
  assumes "hasUnsavedDecisions env slug i db"
  shows "i \<in> rn_id ` set (lb_runs db)"
proof -
  have id: "rn_id (with_no_links r) = rn_id r" for r
    by (simp add: with_no_links_def run.defs bound_run.defs)
  let ?i = "\<lparr> qi_projectSlug = slug, qi_query = None, qi_runId = Some i, qi_issueRef = None, qi_workPackId = None,
     qi_includeRelated = False, qi_activeOnly = True, qi_limit = 1 \<rparr>"
  let ?env = "\<lparr> qe_projects = lb_projects db, qe_runs = map with_no_links (lb_runs db), qe_relationships = [],
     qe_match = (\<lambda>_ _. []), qe_jparse = ve_jparse env \<rparr>"
  obtain p where "selectDecisions ?env ?i p None [] (lb_decisions db) \<noteq> []"
    using assms that by (cases "resolveProjectId (lb_projects db) slug")
      (simp_all add: hasUnsavedDecisions_def queryDecisionsHandler_def Let_def cong: query_input.fold_congs)
  then obtain d where "d \<in> set (selectDecisions ?env ?i p None [] (lb_decisions db))" by (meson list.set_sel(1))
  from selectDecisions_rows [OF this] obtain r where "(d, r) \<in> set (with_runs (map with_no_links (lb_runs db)) (dd_decisions (lb_decisions db)))"
    "dm_runId d = Some i" by (auto simp: matches_filters_def Let_def)
  then show ?thesis by (auto simp: with_runs_def id)
qed

text \<open>When \<open>nudge\<close> refuses, and what it then leaves.\<close>

lemma nudge_denies:
  assumes "nudge env c (v, db) = (v', db')" and "vd_decision v = Allow" and "vd_decision v' = Deny" and "lc_runId c = Some i"
  shows "getRunCompactionNudgedAt (lb_runs db) i = None \<and> i \<in> rn_id ` set (lb_runs db) \<and>
    db' = with_runs_table (markRunCompactionNudged i (ve_now env)) db"
proof (cases "lc_projectSlug c")
  case (Some slug)
  let ?hit = "lc_name c = ''PreCompact'' \<and> getRunCompactionNudgedAt (lb_runs db) i = None \<and>
      hasUnsavedDecisions env slug i db \<and> \<not> hasContextPackForRun (lb_packs db) i"
  have hit: "?hit"
  proof (rule ccontr)
    assume "\<not> ?hit"
    then have "nudge env c (v, db) = (v, db)" using Some assms(4) by (auto simp: nudge_def)
    with assms show False by simp
  qed
  with assms(1,4) Some unsaved_run [of env slug i db] show ?thesis by (simp add: nudge_def)
qed (use assms in \<open>simp add: nudge_def\<close>)

text \<open>What a run of the handler answers to each of a series of events.\<close>

fun lifecycle_answers ::
  "(life_env \<times> agent_type \<times> (string \<times> js) list) list \<Rightarrow> life_db \<Rightarrow> (life_error + life_answer) list"
where
  "lifecycle_answers [] db = []"
| "lifecycle_answers ((env, agent, payload) # rest) db =
     (let (res, db') = lifecycleEventHandler env agent payload db in res # lifecycle_answers rest db')"

definition blocks_compaction :: "string \<Rightarrow> life_error + life_answer \<Rightarrow> bool" where
  "blocks_compaction runId res \<longleftrightarrow>
     (case res of
        Inl _ \<Rightarrow> False
      | Inr a \<Rightarrow> la_hookEventName a = ''PreCompact'' \<and> la_runId a = Some runId \<and> la_permissionDecision a = Deny)"

lemma handled_block:
  assumes "handle_event env agent c db = (res, db')" and "blocks_compaction i res"
  shows "getRunCompactionNudgedAt (lb_runs db) i = None \<and> getRunCompactionNudgedAt (lb_runs db') i \<noteq> None"
proof -
  obtain v db1 where n: "nudge env c (judge env agent c db) = (v, db1)" by fastforce
  from assms n have ans: "lc_name c = ''PreCompact''" "lc_runId c = Some i" "vd_decision v = Deny"
    by (auto simp: handle_event_def Let_def blocks_compaction_def answer_to_def split: sum.splits)
  then have j: "judge env agent c db = (default_verdict c, db)" by (simp add: judge_def asks_policy_def)
  have d: "vd_decision (default_verdict c) = Allow" by (simp add: default_verdict_def)
  note hit = nudge_denies [OF n [unfolded j] d ans(3,2)]
  have "getRunCompactionNudgedAt (lb_runs db1) i \<noteq> None" using marked hit by simp
  moreover obtain db3 where "record_stage env agent c v (close_stage env c db1) = Inr db3"
    "db' = open_stage env c (settle_stage env c db3)"
    using assms n by (auto simp: handle_event_def Let_def blocks_compaction_def split: sum.splits)
  then have "grown (carries False) (lb_runs db1) (lb_runs db')"
    using carried.grown_trans [OF close_grown [of False db1 env c]] open_grown [of False "settle_stage env c db3" env c]
    by (simp add: record_runs)
  ultimately show ?thesis using hit nudged_stays by blast
qed

lemma handler_block:
  assumes "lifecycleEventHandler env agent payload db = (res, db')" and "blocks_compaction i res"
  shows "getRunCompactionNudgedAt (lb_runs db) i = None \<and> getRunCompactionNudgedAt (lb_runs db') i \<noteq> None"
proof -
  obtain e name where a: "parseAndAdapt (ve_numStr env) (ve_rawAt env) agent (compactHookPayload payload) = Inr (Some (e, name))"
    using assms by (auto simp: lifecycleEventHandler_def blocks_compaction_def invalid_answer_def split: sum.splits option.splits)
  obtain runId db1 where r: "resolveRunId env (config_slug env e) e db = (Inr runId, db1)"
    using assms a by (auto simp: lifecycleEventHandler_def Let_def blocks_compaction_def split: sum.splits prod.splits)
  obtain c db2 where o: "orient env e name (config_slug env e) runId db1 = (c, db2)" by fastforce
  from assms handled [OF a r o] have h: "handle_event env agent c db2 = (res, db')" by simp
  note b = handled_block [OF h assms(2)]
  have "grown (carries True) (lb_runs db) (lb_runs db1)"
    using resolveRunId_grown [of True db env "config_slug env e" e] r by simp
  from carried.grown_trans [OF this carries_any [OF orient_ctx(5) [OF o]]]
  have "grown (carries True) (lb_runs db) (lb_runs db2)" .
  with b nudged_stays show ?thesis by blast
qed

lemma nudged_never_again:
  "getRunCompactionNudgedAt (lb_runs db) i \<noteq> None \<Longrightarrow> filter (blocks_compaction i) (lifecycle_answers evs db) = []"
proof (induction evs db rule: lifecycle_answers.induct)
  case (2 env agent payload rest db)
  obtain res db' where h: "lifecycleEventHandler env agent payload db = (res, db')" by fastforce
  have "getRunCompactionNudgedAt (lb_runs db') i \<noteq> None"
    using nudged_stays [OF handler_grown(1) [of db env agent payload] 2(2)] h by simp
  with 2 h handler_block [OF h] show ?case by auto
qed simp

text \<open>C38: Coodra holds up the compaction of a run once: whatever events reach the handler, in whatever order and
  from whatever agents, at most one \<open>PreCompact\<close> of a run is refused.\<close>

theorem compaction_held_up_once:
  "length (filter (blocks_compaction i) (lifecycle_answers evs db)) \<le> 1"
proof (induction evs db rule: lifecycle_answers.induct)
  case (2 env agent payload rest db)
  obtain res db' where h: "lifecycleEventHandler env agent payload db = (res, db')" by fastforce
  show ?case
  proof (cases "blocks_compaction i res")
    case True
    with handler_block [OF h] nudged_never_again [of db' i rest] h show ?thesis by simp
  next
    case False
    with 2 h show ?thesis by simp
  qed
qed simp

section \<open>Tool calls\<close>

text \<open>A tool call is judged, recorded and answered; nothing else touches the verdict.\<close>

definition tool_hook :: "string \<Rightarrow> bool" where
  "tool_hook name \<longleftrightarrow> name = ''PreToolUse'' \<or> name = ''PermissionRequest''"

lemma tool_orient:
  assumes "tool_hook name" and "orient env e name projectSlug runId db = (c, db')"
  shows "db' = db" "lc_sessionStart c = False"
proof -
  from assms have "name \<noteq> ''PostCompact''" "name \<noteq> ''SessionStart''" "name \<noteq> ''UserPromptSubmit''" by (auto simp: tool_hook_def)
  with assms(2) show "db' = db" "lc_sessionStart c = False"
    by (auto simp: orient_def bump_stage_def isSessionStartEquivalent_def needsReemitAfterCompaction_def
        capability_stage_def split: option.splits)
qed

lemma tool_handled:
  assumes "tool_hook (lc_name c)" and "he_sessionId (lc_event c) \<noteq> []" and "he_toolName (lc_event c) \<noteq> []"
    and "lc_sessionStart c = False"
  shows "\<exists>db'. handle_event env agent c db = (Inr (answer_to env agent c (fst (judge env agent c db))), db') \<and>
    (isSelfCall agent (he_toolName (lc_event c)) \<longrightarrow> db' = db)"
proof -
  from assms(1) have n: "lc_name c \<noteq> ''PreCompact''" "lc_name c \<noteq> ''SessionEnd''" "lc_name c \<noteq> ''StopFailure''"
    "lc_name c \<noteq> ''PostToolUse''" by (auto simp: tool_hook_def)
  obtain v db1 where j: "judge env agent c db = (v, db1)" by fastforce
  have nd: "nudge env c (v, x) = (v, x)" for x using n by (simp add: nudge_def split: option.split)
  have cl: "close_stage env c x = x" for x using n by (simp add: close_stage_def split: option.split)
  have st: "open_stage env c (settle_stage env c x) = x" for x
    using n assms(4) by (simp add: open_stage_def settle_stage_def split: option.split)
  show ?thesis
  proof (cases "isSelfCall agent (he_toolName (lc_event c))")
    case True
    then have "record_stage env agent c v db1 = Inr db1" by (simp add: record_stage_def split: option.split)
    moreover have "db1 = db" using j True by (simp add: judge_def asks_policy_def)
    ultimately show ?thesis by (simp add: handle_event_def Let_def j nd cl st)
  next
    case False
    have "\<exists>db3. record_stage env agent c v db1 = Inr db3"
      using assms(2,3) by (simp add: record_stage_def record_run_event_def record_tool_name_def Let_def split: option.split)
    with False show ?thesis by (auto simp: handle_event_def Let_def j nd cl st)
  qed
qed

text \<open>How each agent reads the answer to a tool call.\<close>

lemma pre_veto:
  "vetoes agent ''PreToolUse'' (shapeHookOutput agent ''PreToolUse'' r) \<longleftrightarrow>
     sh_permissionDecision r = Deny \<and> \<not> defers agent ''PreToolUse'' r \<and>
     (agent \<in> {Devin, Antigravity} \<longrightarrow> sh_reason r \<noteq> None)"
  by (cases agent) (auto simp: vetoes_def shapeHookOutput_def shapes defers_def Let_def map_add_def split: option.splits if_splits)

lemma no_opinion:
  assumes "sh_permissionDecision r = Allow" and "sh_deferToNativePermissions r" and "\<not> sh_autoApprovePermissionRequest r"
    and "tool_hook name"
  shows "\<not> vetoes agent name (shapeHookOutput agent name r) \<and> \<not> approves agent name (shapeHookOutput agent name r)"
  using assms by (cases agent; auto simp: vetoes_def approves_def shapeHookOutput_def shapes asserted_def tool_hook_def Let_def
      map_add_def split: option.splits)

lemma mapped_lookup:
  "Check_Policy.resolveProjectId (map (\<lambda>p. (pj_slug p, pj_id p)) t) slug = map_option pj_id (lookupProjectBySlug t slug)"
  by (simp add: Check_Policy.resolveProjectId_def lookupProjectBySlug_def first_row_def filter_map o_def split: list.split)

lemma judged:
  assumes "asks_policy agent c" and "lc_projectSlug c = Some slug"
    and "checkPolicyHandler (lifecycle_check_deps env) (lifecycle_check_env env db)
           (lifecycle_check_input agent slug c) (check_state_of db) = (Answer a, st)"
  shows "judge env agent c db = (verdict_of_answer env slug c a (put_check_state st db), put_check_state st db)"
  using assms by (simp add: judge_def Let_def)

lemma tool_call_handled:
  assumes a: "parseAndAdapt (ve_numStr env) (ve_rawAt env) agent (compactHookPayload payload) = Inr (Some (e, name))"
    and n: "tool_hook name" and t: "he_toolName e \<noteq> []"
    and r: "resolveRunId env (config_slug env e) e db = (Inr runId, db1)"
    and o: "orient env e name (config_slug env e) runId db1 = (c, db2)"
  shows "\<exists>db'. lifecycleEventHandler env agent payload db = (Inr (answer_to env agent c (fst (judge env agent c db1))), db') \<and>
    (isSelfCall agent (he_toolName e) \<longrightarrow> db' = db1)"
  using tool_handled [of c env agent db1] tool_orient [OF n o] adapted_name(2) [OF a] orient_ctx(1-4) [OF o] n t
    handled [OF a r o] by simp

text \<open>The switch's view of the event.\<close>

definition paused_event :: "life_env \<Rightarrow> agent_type \<Rightarrow> hook_event \<Rightarrow> string \<Rightarrow> ks_event" where
  "paused_event env agent e projectId =
     \<lparr> ev_projectId = Some projectId, ev_toolName = he_toolName e,
       ev_agentType = effectiveAgentType (ch_agentType (ve_checkEnv env)) (agent_text agent) \<rparr>"

lemma resolveRunId_caches:
  "lb_killSwitchCache (snd (resolveRunId env slug e db)) = lb_killSwitchCache db"
  "lb_policyCache (snd (resolveRunId env slug e db)) = lb_policyCache db"
  by (auto simp: resolveRunId_def split: option.split prod.split sum.split run_id_answer.split)

text \<open>C35: A pause reaches every agent, as soon as the bridge reads the kill switches: when a tool of a registered
  project is about to run, one that is not a tool of Coodra's own, the run of the session was resolved without an exception,
  the bridge has no kill switches cached for the project (it keeps them, for five seconds by default, and answers from the cache until then), the table of
  switches can be read, and of the active switches that cover the call there is at least one and each is in
  hard mode, then the answer of the whole hook is a denial that stops the agent, whichever of the five agents asks
  and whatever the policy says.\<close>

theorem pause_stops_every_agent:
  assumes a: "parseAndAdapt (ve_numStr env) (ve_rawAt env) agent (compactHookPayload payload) = Inr (Some (e, ''PreToolUse''))"
    and slug: "config_slug env e = Some slug" and tool: "he_toolName e \<noteq> []" "\<not> isSelfCall agent (he_toolName e)"
    and run: "resolveRunId env (Some slug) e db = (Inr runId, db1)"
    and proj: "lookupProjectBySlug (lb_projects db1) slug = Some p"
    and fresh: "lb_killSwitchCache db (ks_cache_key (Some (pj_id p))) = None"
    and table: "ke_table (ch_killSwitches (ve_checkEnv env)) = Some t"
    and s: "s \<in> set t" "ks_active (ke_now (ch_killSwitches (ve_checkEnv env))) s" "ks_hits (paused_event env agent e (pj_id p)) s"
    and hard: "\<And>s'. s' \<in> set t \<Longrightarrow> ks_active (ke_now (ch_killSwitches (ve_checkEnv env))) s' \<Longrightarrow>
                 ks_hits (paused_event env agent e (pj_id p)) s' \<Longrightarrow> ks_mode s' = Hard"
  shows "\<exists>ans db'. lifecycleEventHandler env agent payload db = (Inr ans, db') \<and> la_permissionDecision ans = Deny \<and>
    vetoes agent ''PreToolUse'' (la_hookOutput ans)"
proof -
  obtain c db2 where o: "orient env e ''PreToolUse'' (Some slug) runId db1 = (c, db2)" by fastforce
  note ctx = orient_ctx(1-4) [OF o]
  let ?i = "lifecycle_check_input agent slug c" and ?env = "lifecycle_check_env env db1" and ?deps = "lifecycle_check_deps env"
  have e: "tool_event ?i (pj_id p) ?env = paused_event env agent e (pj_id p)" "ci_eventType ?i = Pre"
    "cd_killSwitches ?deps = Some (ve_killSwitchMs env)" "ch_killSwitches ?env = ch_killSwitches (ve_checkEnv env)"
    by (simp_all add: tool_event_def paused_event_def lifecycle_check_input_def lifecycle_check_env_def lifecycle_check_deps_def ctx)
  have cache: "cs_killSwitchCache (check_state_of db1) (ks_cache_key (Some (pj_id p))) = None"
    using fresh resolveRunId_caches(1) [of env "Some slug" e db] run by (simp add: check_state_of_def)
  obtain m kc where k: "consult_kill_switches ?deps (cs_killSwitchCache (check_state_of db1)) (pj_id p) ?i ?env = (Some m, kc)"
    "km_decision m = KsDeny"
    using pause_found [of ?i ?deps "ve_killSwitchMs env" "cs_killSwitchCache (check_state_of db1)" "pj_id p" ?env t s]
      cache table s hard e by auto
  have res: "Check_Policy.resolveProjectId (ch_projects ?env) (ci_projectSlug ?i) = Some (pj_id p)"
    using proj by (simp add: lifecycle_check_env_def lifecycle_check_input_def mapped_lookup)
  from pause_answer [OF res k] obtain ans st where ans: "checkPolicyHandler ?deps ?env ?i (check_state_of db1) = (Answer ans, st)"
    "an_permissionDecision ans = Deny" "an_reason ans = KillSwitchPaused" by blast
  have asks: "asks_policy agent c" using tool by (simp add: asks_policy_def ctx)
  from judged [OF asks ctx(3) ans(1)] ans
  have v: "vd_decision (fst (judge env agent c db1)) = Deny" "\<not> vd_defer (fst (judge env agent c db1))"
    by (simp_all add: verdict_of_answer_def Let_def)
  from tool_call_handled [OF a _ tool(1) run [folded slug] o [folded slug]]
  obtain db' where "lifecycleEventHandler env agent payload db = (Inr (answer_to env agent c (fst (judge env agent c db1))), db')"
    by (auto simp: tool_hook_def)
  then show ?thesis using v by (simp add: answer_to_def ctx pre_veto defers_def)
qed

text \<open>C36: A denial that fails closed does not hold where it matters: when the policy state cannot be read, and the
  cached rules deny the tool call with a rule marked to deny on errors, then the hook's answer says deny, but
  Claude Code, Codex and Cursor are told to ask their own permissions and are not stopped.  Devin and
  Antigravity are.\<close>

theorem fail_closed_denial_lost:
  assumes a: "parseAndAdapt (ve_numStr env) (ve_rawAt env) agent (compactHookPayload payload) = Inr (Some (e, ''PreToolUse''))"
    and slug: "config_slug env e = Some slug" and tool: "he_toolName e \<noteq> []" "\<not> isSelfCall agent (he_toolName e)"
    and run: "resolveRunId env (Some slug) e db = (Inr runId, db1)"
    and o: "orient env e ''PreToolUse'' (Some slug) runId db1 = (c, db2)"
    and proj: "lookupProjectBySlug (lb_projects db1) slug = Some p"
    and unpaused: "consult_kill_switches (lifecycle_check_deps env) (lb_killSwitchCache db1) (pj_id p)
           (lifecycle_check_input agent slug c) (lifecycle_check_env env db1) = (None, kc)"
    and fault: "getPolicyState (cd_policy (ve_checkDeps env)) (lb_policyCache db1) (Some (pj_id p)) (ch_eval (ve_checkEnv env)) =
           (Inl err, cache')"
    and warm: "lb_policyCache db1 (cache_key (Some (pj_id p))) = Some w"
    and rule: "evaluateRules (pc_pm (cd_policy (ve_checkDeps env))) (ls_rules (ca_state w))
           (check_policy_input (lifecycle_check_input agent slug c) (pj_id p)) = Some m"
      "cr_denyOnPolicyError m" "effectiveDecisionForRule m = Deny"
  shows "\<exists>ans db'. lifecycleEventHandler env agent payload db = (Inr ans, db') \<and> la_permissionDecision ans = Deny \<and>
    (vetoes agent ''PreToolUse'' (la_hookOutput ans) \<longleftrightarrow> agent \<in> {Devin, Antigravity})"
proof -
  note ctx = orient_ctx(1-4) [OF o]
  let ?i = "lifecycle_check_input agent slug c" and ?env = "lifecycle_check_env env db1" and ?deps = "lifecycle_check_deps env"
  have res: "Check_Policy.resolveProjectId (ch_projects ?env) (ci_projectSlug ?i) = Some (pj_id p)"
    using proj by (simp add: lifecycle_check_env_def lifecycle_check_input_def mapped_lookup)
  have k: "consult_kill_switches ?deps (cs_killSwitchCache (check_state_of db1)) (pj_id p) ?i ?env = (None, kc)"
    using unpaused by (simp add: check_state_of_def)
  have f: "getPolicyState (cd_policy ?deps) (cs_policyCache (check_state_of db1)) (Some (pj_id p)) (ch_eval ?env) = (Inl err, cache')"
    using fault by (simp add: check_state_of_def lifecycle_check_deps_def lifecycle_check_env_def)
  from fault_flagged_fail_open [OF res k f] obtain ans st where ans:
    "checkPolicyHandler ?deps ?env ?i (check_state_of db1) = (Answer ans, st)" "an_reason ans = PolicyEngineUnavailable"
    "an_permissionDecision ans = Deny"
    using warm rule by (auto simp: check_state_of_def lifecycle_check_deps_def)
  have asks: "asks_policy agent c" using tool by (simp add: asks_policy_def ctx)
  from judged [OF asks ctx(3) ans(1)] ans
  have v: "vd_decision (fst (judge env agent c db1)) = Deny" "vd_defer (fst (judge env agent c db1))"
    by (simp_all add: verdict_of_answer_def Let_def)
  from tool_call_handled [OF a _ tool(1) run [folded slug] o [folded slug]]
  obtain db' where "lifecycleEventHandler env agent payload db = (Inr (answer_to env agent c (fst (judge env agent c db1))), db')"
    by (auto simp: tool_hook_def)
  then show ?thesis using v by (cases agent) (simp_all add: answer_to_def ctx pre_veto defers_def)
qed

text \<open>C37: Coodra never judges its own tools: a tool call of Coodra's or Graphify's, before it runs or when the agent
  asks for permission, is answered without an opinion, neither stopped nor approved, and past the run of the
  session it leaves every table and cache as it was.\<close>

theorem own_calls_untouched:
  assumes a: "parseAndAdapt (ve_numStr env) (ve_rawAt env) agent (compactHookPayload payload) = Inr (Some (e, name))"
    and n: "name = ''PreToolUse'' \<or> name = ''PermissionRequest''"
    and own: "he_toolName e \<noteq> []" "isSelfCall agent (he_toolName e)"
    and run: "resolveRunId env (config_slug env e) e db = (Inr runId, db1)"
  shows "\<exists>ans. lifecycleEventHandler env agent payload db = (Inr ans, db1) \<and> la_permissionDecision ans = Allow \<and>
    \<not> vetoes agent name (la_hookOutput ans) \<and> \<not> approves agent name (la_hookOutput ans)"
proof -
  obtain c db2 where o: "orient env e name (config_slug env e) runId db1 = (c, db2)" by fastforce
  note ctx = orient_ctx(1-4) [OF o]
  have t: "tool_hook name" using n by (simp add: tool_hook_def)
  have "judge env agent c db1 = (default_verdict c, db1)" using own by (simp add: judge_def asks_policy_def ctx)
  with tool_call_handled [OF a t own(1) run o] own(2)
  have "lifecycleEventHandler env agent payload db = (Inr (answer_to env agent c (default_verdict c)), db1)" by auto
  then show ?thesis
    using no_opinion [OF _ _ _ t, of _ agent] by (auto simp: answer_to_def default_verdict_def ctx)
qed

section \<open>Events that share a key\<close>

lemma prompt_turn:
  assumes "agent \<in> {ClaudeCode, Cursor}" and "parseAndAdapt ns stamp agent v = Inr (Some (e, ''UserPromptSubmit''))"
    and "js_get v ''tool_use_id'' = None"
  shows "he_turnId e = None" "he_toolName e = ''user_prompt''" "eventRecordPhase (he_eventPhase e) = ''mcp_call''"
proof -
  have ok: "payload_ok agent v" using assms(2) by (auto simp: parseAndAdapt_def split: if_splits)
  have "he_turnId e = None \<and> he_toolName e = ''user_prompt'' \<and> eventRecordPhase (he_eventPhase e) = ''mcp_call''"
  proof (cases agent)
    case ClaudeCode
    with assms(2) ok have "event_name v = ''UserPromptSubmit''" "adaptClaudeCode stamp v = Inr e"
      by (auto simp: parseAndAdapt_def Let_def split: sum.splits)
    with assms(3) show ?thesis
      by (auto simp: adaptClaudeCode_def bare_event_def js_str_def as_string_def phase_of_def CLAUDE_PHASE_MAP_def
          eventRecordPhase_def split: sum.splits)
  next
    case Cursor
    with assms(2) ok have c: "canonicalHookEventName Cursor (event_name v) = ''UserPromptSubmit''" "adaptCursor stamp v = Inr e"
      by (auto simp: parseAndAdapt_def Let_def split: sum.splits)
    have "list_all (\<lambda>(n, m). m = ''UserPromptSubmit'' \<longrightarrow> n = ''beforeSubmitPrompt'') CURSOR_EVENT_NAME_MAP" by code_simp
    moreover have "event_name v \<in> fst ` set CURSOR_PHASE_MAP" using ok Cursor schema_names(3) [of v] by (simp add: payload_ok_def)
    then have "event_name v \<noteq> ''UserPromptSubmit''" by (auto simp: CURSOR_PHASE_MAP_def)
    ultimately have "event_name v = ''beforeSubmitPrompt''"
      using c(1) by (cases "map_of CURSOR_EVENT_NAME_MAP (event_name v)")
        (auto simp: canonicalHookEventName_def list_all_iff dest!: map_of_SomeD)
    with c(2) assms(3) show ?thesis
      by (auto simp: adaptCursor_def bare_event_def js_str_def as_string_def phase_of_def CURSOR_PHASE_MAP_def
          eventRecordPhase_def split: sum.splits)
  qed (use assms(1) in auto)
  then show "he_turnId e = None" "he_toolName e = ''user_prompt''" "eventRecordPhase (he_eventPhase e) = ''mcp_call''" by blast+
qed

text \<open>The job that records an event of a run, as \<open>record_stage\<close> enqueues it.\<close>

definition event_payload :: "life_env \<Rightarrow> string \<Rightarrow> life_ctx \<Rightarrow> verdict \<Rightarrow> js" where
  "event_payload env runId c v =
     run_event_payload (ve_stringify env) runId (record_tool_name c) (eventRecordPhase (he_eventPhase (lc_event c)))
       (idempotencyFor (lc_event c) (lc_name c)) (record_input c) (vd_decision v) (vd_reason v)"

lemma event_payload_parsed:
  "\<exists>row. parse_payload date_ms vshow ''run_event'' (event_payload env runId c v) = Inr (WriteRunEvent (PreResolved (Some runId)) row) \<and>
     rv_id row = run_event_id runId (idempotencyFor (lc_event c) (lc_name c)) (eventRecordPhase (he_eventPhase (lc_event c)))"
  by (simp add: event_payload_def run_event_payload_def parse_payload_def parse_run_event_def readResolution_def as_string_def)

text \<open>C40: Of the prompts of a session only the first is on record: two prompts that Claude Code or Cursor submits in one
  session, whatever they say, get one event id, because their payloads carry no turn id; once the first is
  written, the job of the second succeeds and changes nothing.  The row is also what shows that a run
  is alive.\<close>

theorem second_prompt_lost:
  assumes agent: "agent \<in> {ClaudeCode, Cursor}"
    and first: "parseAndAdapt ns stamp agent w = Inr (Some (lc_event c, ''UserPromptSubmit''))" "js_get w ''tool_use_id'' = None"
    and second: "parseAndAdapt ns stamp' agent w' = Inr (Some (lc_event c', ''UserPromptSubmit''))" "js_get w' ''tool_use_id'' = None"
    and name: "lc_name c = ''UserPromptSubmit''" "lc_name c' = ''UserPromptSubmit''"
    and session: "he_sessionId (lc_event c') = he_sessionId (lc_event c)"
    and written: "oj_queue job = ''run_event''" "oj_payload job = event_payload env runId c v"
      "dispatchOutboxJob date_ms vshow denv job d = (Inr Success, d')"
    and job': "oj_queue job' = ''run_event''" "oj_payload job' = event_payload env' runId c' v'" "dn_fault denv' = None"
  shows "dispatchOutboxJob date_ms vshow denv' job' d' = (Inr Success, d')"
proof -
  note t = prompt_turn [OF agent first] and t' = prompt_turn [OF agent second]
  have key: "idempotencyFor (lc_event c') ''UserPromptSubmit'' = idempotencyFor (lc_event c) ''UserPromptSubmit''"
    using t t' session adapted_name(1) [OF first(1)] adapted_name(1) [OF second(1)] by (simp add: idempotencyFor_def)
  obtain row where r: "parse_payload date_ms vshow ''run_event'' (event_payload env runId c v) =
      Inr (WriteRunEvent (PreResolved (Some runId)) row)"
    "rv_id row = run_event_id runId (idempotencyFor (lc_event c) ''UserPromptSubmit'') ''mcp_call''"
    using event_payload_parsed [of date_ms vshow env runId c v] t(3) name by auto
  obtain row' where r': "parse_payload date_ms vshow ''run_event'' (event_payload env' runId c' v') =
      Inr (WriteRunEvent (PreResolved (Some runId)) row')" "rv_id row' = rv_id row"
    using event_payload_parsed [of date_ms vshow env' runId c' v'] t'(3) name key r(2) by auto
  have "rv_id row \<in> rv_id ` set (de_runEvents d')"
    using written r(1) run_events.key_present [of "row\<lparr>rv_runId := Some runId, rv_createdAt := dn_now denv\<rparr>" "de_runEvents d"]
    by (auto simp: dispatchOutboxJob_def perform_def Let_def Dispatcher.resolveRunId_def split: option.splits)
  then show ?thesis
    using job' r' by (simp add: dispatchOutboxJob_def perform_def Let_def run_events.ins_conflict)
qed

section \<open>Witnesses\<close>

definition hook_payload :: "string \<Rightarrow> (string \<times> string) list \<Rightarrow> (string \<times> js) list" where
  "hook_payload name more_fields =
     map (\<lambda>(k, v). (k, JStr v)) ([(''hook_event_name'', name), (''session_id'', ''s''), (''cwd'', ''/w'')] @ more_fields)"

definition life_sample_env :: "exec_error option \<Rightarrow> kill_switch list \<Rightarrow> life_env" where
  "life_sample_env fault switches =
     \<lparr> ve_numStr = (\<lambda>_. ''0''), ve_rawAt = ''now'', ve_now = 50, ve_runEnv = sample_run_env\<lparr>gv_config := (\<lambda>_. Some ''app'')\<rparr>,
       ve_killSwitchMs = 5000, ve_checkDeps = sample_check_deps None,
       ve_checkEnv = (sample_check_env fault)\<lparr>ch_killSwitches := \<lparr> ke_table = Some switches, ke_now = 9 \<rparr>\<rparr>,
       ve_sync = \<lparr> se_auditId = ''j1'', se_syncId = ''j2'', se_auditNow = 50, se_syncNow = 50, se_mode = None,
                  se_syncFault = None \<rparr>,
       ve_stringify = (\<lambda>_. ''{}''), ve_jparse = (\<lambda>_. None), ve_capabilities = None, ve_bumpFault = False,
       ve_generationFault = False, ve_surfacedFault = False, ve_capabilitiesThrow = False,
       ve_typography = sample_typography, ve_gitHead = None, ve_workflowContext = None, ve_recentContext = None,
       ve_recipesIndex = None, ve_promptContext = None, ve_autoPack = False \<rparr>"

definition life_sample_db :: "policy_cache \<Rightarrow> life_db" where
  "life_sample_db cache =
     \<lparr> lb_store = \<lparr> st_registry = known_project, st_runs = [sample_opened] \<rparr>, lb_events = [], lb_memory = [], lb_asks = [],
       lb_decisions = no_decisions [] [], lb_packs = [], lb_policyCache = cache, lb_killSwitchCache = (\<lambda>_. None) \<rparr>"

lemma sample_adapted:
  "parseAndAdapt (\<lambda>_. ''0'') ''now'' ClaudeCode
      (compactHookPayload (hook_payload ''PreToolUse'' [(''tool_name'', t), (''tool_use_id'', ''t1'')])) =
    (if t = [] then parseAndAdapt (\<lambda>_. ''0'') ''now'' ClaudeCode (compactHookPayload (hook_payload ''PreToolUse'' [(''tool_use_id'', ''t1'')]))
     else Inr (Some ((bare_event ClaudeCode PhPre ''s'' t None ''now'')\<lparr>he_turnId := Some ''t1'', he_cwd := Some ''/w''\<rparr>, ''PreToolUse'')))"
proof -
  have s: "normalizeSessionId ''s'' = Inr ''s''" by code_simp
  show ?thesis
    by (simp add: compactHookPayload_def hook_payload_def parseAndAdapt_def payload_ok_def ClaudeCodeHookPayloadSchema_def
        one_of_def as_string_def as_nonempty_def optional_strings_def js_str_def event_name_def adaptClaudeCode_def s
        phase_of_def CLAUDE_PHASE_MAP_def extractFilePath_def bare_event_def)
qed

lemma sample_run:
  "resolveRunId (life_sample_env f sw) (Some ''app'') ((bare_event a ph ''s'' t i r)\<lparr>he_turnId := u, he_cwd := c\<rparr>)
     (life_sample_db cache) = (Inr (Some ''r1''), life_sample_db cache)"
  by (simp add: resolveRunId_def life_sample_env_def life_sample_db_def getRunIdHandler_def resolveOrRegisterProject_def
      lookupProjectBySlug_def first_row_def known_project_def solo_project_def empty_registry_def sample_run_env_def
      run_of_session_def selectLatestRun_def order_by_desc_def sample_opened_def run_row_def sample_run_args_def
      run_session_def bare_event_def Let_def)

lemma sample_slug: "he_cwd e = Some ''/w'' \<Longrightarrow> config_slug (life_sample_env f sw) e = Some ''app''"
  by (simp add: config_slug_def nonempty_opt_def life_sample_env_def)

lemma sample_project:
  "lookupProjectBySlug (lb_projects (life_sample_db cache)) ''app'' = Some ((solo_project ''__solo__'')\<lparr>pj_cwd := Some ''/w''\<rparr>)"
  by (simp add: life_sample_db_def known_project_def empty_registry_def lookupProjectBySlug_def first_row_def solo_project_def)

lemma sample_env_fields [simp]:
  "ve_numStr (life_sample_env f sw) = (\<lambda>_. ''0'')" "ve_rawAt (life_sample_env f sw) = ''now''"
  "ve_checkDeps (life_sample_env f sw) = sample_check_deps None"
  "ve_checkEnv (life_sample_env f sw) = (sample_check_env f)\<lparr>ch_killSwitches := \<lparr> ke_table = Some sw, ke_now = 9 \<rparr>\<rparr>"
  by (simp_all add: life_sample_env_def)

lemma pause_stops_every_agent_witness:
  "\<exists>ans db'. lifecycleEventHandler (life_sample_env None [sample_switch]) ClaudeCode
       (hook_payload ''PreToolUse'' [(''tool_name'', ''Bash''), (''tool_use_id'', ''t1'')]) (life_sample_db (\<lambda>_. None)) = (Inr ans, db') \<and>
     la_permissionDecision ans = Deny \<and> vetoes ClaudeCode ''PreToolUse'' (la_hookOutput ans)"
proof -
  let ?e = "(bare_event ClaudeCode PhPre ''s'' ''Bash'' None ''now'')\<lparr>he_turnId := Some ''t1'', he_cwd := Some ''/w''\<rparr>"
  have own: "\<not> isSelfCall ClaudeCode ''Bash''" by code_simp
  have hit: "ks_hits (paused_event (life_sample_env None [sample_switch]) ClaudeCode ?e ''p'') sample_switch" "ks_active 9 sample_switch"
    by (simp_all add: ks_hits_def paused_event_def sample_switch_def ks_active_def)
  show ?thesis
    by (rule pause_stops_every_agent [where e = ?e and slug = "''app''" and t = "[sample_switch]" and s = sample_switch,
          OF _ _ _ _ sample_run sample_project])
      (use own hit in \<open>simp_all add: sample_adapted sample_slug life_sample_db_def solo_project_def sample_switch_def\<close>)
qed

definition warm_cache :: policy_cache where
  "warm_cache = (\<lambda>_. Some \<lparr> ca_state = sample_state, ca_loadedAt = 0, ca_revision = [] \<rparr>)"

definition sample_tool_ctx :: life_ctx where
  "sample_tool_ctx =
     \<lparr> lc_event = (bare_event ClaudeCode PhPre ''s'' ''Bash'' None ''now'')\<lparr>he_turnId := Some ''t1'', he_cwd := Some ''/w''\<rparr>,
       lc_name = ''PreToolUse'', lc_projectSlug = Some ''app'', lc_runId = Some ''r1'', lc_sessionStart = False,
       lc_capabilities = [] \<rparr>"

lemma sample_oriented:
  "orient (life_sample_env f sw) ((bare_event ClaudeCode PhPre ''s'' ''Bash'' None ''now'')\<lparr>he_turnId := Some ''t1'', he_cwd := Some ''/w''\<rparr>)
     ''PreToolUse'' (Some ''app'') (Some ''r1'') (life_sample_db cache) = (sample_tool_ctx, life_sample_db cache)"
  by (simp add: orient_def bump_stage_def isSessionStartEquivalent_def needsReemitAfterCompaction_def capability_stage_def
      getRunActiveCapabilities_def parseRunCapabilitiesJson_def life_sample_env_def life_sample_db_def sample_tool_ctx_def
      first_row_def sample_opened_def run_row_def sample_run_args_def Let_def)

lemma sample_warm_rule:
  "evaluateRules (pc_pm sample_cfg) (ls_rules sample_state)
       (check_policy_input (lifecycle_check_input ClaudeCode ''app'' sample_tool_ctx) ''p'') =
     Some (stamp_version (pc_pm sample_cfg) (joined_rules (sample_db True) (Some ''proj'') ! 1))"
  by (simp add: sample_state_def loaded_rules joined_rules_def active_versions_def in_project_def
      sample_client_defs order_by_def evaluateRules_def toolNameMatches_def stamp_version_def
      compileRule_def normalizeCapability_def legacyEnforcementModeForDecision_def
      effectiveDecisionForRule_def normalizePolicyDecision_def check_policy_input_def lifecycle_check_input_def
      sample_tool_ctx_def toolInputRecord_def bare_event_def)

lemma fail_closed_denial_lost_witness:
  "\<exists>ans db'. lifecycleEventHandler (life_sample_env (Some TaskCancelledError) []) ClaudeCode
       (hook_payload ''PreToolUse'' [(''tool_name'', ''Bash''), (''tool_use_id'', ''t1'')]) (life_sample_db warm_cache) = (Inr ans, db') \<and>
     la_permissionDecision ans = Deny \<and> \<not> vetoes ClaudeCode ''PreToolUse'' (la_hookOutput ans)"
proof -
  let ?e = "(bare_event ClaudeCode PhPre ''s'' ''Bash'' None ''now'')\<lparr>he_turnId := Some ''t1'', he_cwd := Some ''/w''\<rparr>"
  let ?env = "life_sample_env (Some TaskCancelledError) []" and ?db = "life_sample_db warm_cache"
  let ?p = "(solo_project ''__solo__'')\<lparr>pj_cwd := Some ''/w''\<rparr>"
  have own: "\<not> isSelfCall ClaudeCode ''Bash''" by code_simp
  have p: "pj_id ?p = ''p''" by (simp add: solo_project_def)
  obtain kc where k: "consult_kill_switches (lifecycle_check_deps ?env) (lb_killSwitchCache ?db) (pj_id ?p)
      (lifecycle_check_input ClaudeCode ''app'' sample_tool_ctx) (lifecycle_check_env ?env ?db) = (None, kc)"
    by (simp add: consult_kill_switches_def lifecycle_check_deps_def lifecycle_check_env_def lifecycle_check_input_def
        life_sample_db_def check_def cached_switches_def listActiveKillSwitches_def order_by_def Let_def)
  have f: "getPolicyState (cd_policy (ve_checkDeps ?env)) (lb_policyCache ?db) (Some (pj_id ?p)) (ch_eval (ve_checkEnv ?env)) =
      (Inl TaskCancelledError, warm_cache)"
    by (simp add: life_sample_db_def check_sample_defs getPolicyState_def sample_env_def)
  have w: "lb_policyCache ?db (cache_key (Some (pj_id ?p))) = Some \<lparr> ca_state = sample_state, ca_loadedAt = 0, ca_revision = [] \<rparr>"
    by (simp add: life_sample_db_def warm_cache_def)
  have r: "evaluateRules (pc_pm (cd_policy (ve_checkDeps ?env)))
       (ls_rules (ca_state \<lparr> ca_state = sample_state, ca_loadedAt = 0, ca_revision = [] \<rparr>))
       (check_policy_input (lifecycle_check_input ClaudeCode ''app'' sample_tool_ctx) (pj_id ?p)) =
     Some (stamp_version (pc_pm sample_cfg) (joined_rules (sample_db True) (Some ''proj'') ! 1))"
    using sample_warm_rule p by (simp add: sample_check_deps_def)
  have adapted: "parseAndAdapt (ve_numStr ?env) (ve_rawAt ?env) ClaudeCode
      (compactHookPayload (hook_payload ''PreToolUse'' [(''tool_name'', ''Bash''), (''tool_use_id'', ''t1'')])) = Inr (Some (?e, ''PreToolUse''))"
    by (simp add: sample_adapted)
  have tool: "he_toolName ?e \<noteq> []" "\<not> isSelfCall ClaudeCode (he_toolName ?e)" using own by simp_all
  have d: "cr_denyOnPolicyError (stamp_version (pc_pm sample_cfg) (joined_rules (sample_db True) (Some ''proj'') ! 1))"
    "effectiveDecisionForRule (stamp_version (pc_pm sample_cfg) (joined_rules (sample_db True) (Some ''proj'') ! 1)) = Deny"
    using sample_deny_rule by blast+
  have slug: "config_slug ?env ?e = Some ''app''" by (rule sample_slug) simp
  from fail_closed_denial_lost [OF adapted slug tool sample_run sample_oriented sample_project k f w r d] show ?thesis by simp
qed

lemma own_calls_untouched_witness:
  "\<exists>ans. lifecycleEventHandler (life_sample_env None [sample_switch]) ClaudeCode
       (hook_payload ''PreToolUse'' [(''tool_name'', ''mcp__coodra__ping''), (''tool_use_id'', ''t1'')]) (life_sample_db warm_cache) =
     (Inr ans, life_sample_db warm_cache) \<and> la_permissionDecision ans = Allow"
proof -
  let ?e = "(bare_event ClaudeCode PhPre ''s'' ''mcp__coodra__ping'' None ''now'')\<lparr>he_turnId := Some ''t1'', he_cwd := Some ''/w''\<rparr>"
  let ?env = "life_sample_env None [sample_switch]"
  have adapted: "parseAndAdapt (ve_numStr ?env) (ve_rawAt ?env) ClaudeCode
      (compactHookPayload (hook_payload ''PreToolUse'' [(''tool_name'', ''mcp__coodra__ping''), (''tool_use_id'', ''t1'')])) =
      Inr (Some (?e, ''PreToolUse''))"
    by (simp add: sample_adapted)
  have own: "he_toolName ?e \<noteq> []" "isSelfCall ClaudeCode (he_toolName ?e)"
    by (simp_all add: isSelfCall_def isCoodraOwnMcpTool_def)
  have "config_slug ?env ?e = Some ''app''" by (rule sample_slug) simp
  then have run: "resolveRunId ?env (config_slug ?env ?e) ?e (life_sample_db warm_cache) = (Inr (Some ''r1''), life_sample_db warm_cache)"
    by (simp only: sample_run)
  from own_calls_untouched [OF adapted _ own run] show ?thesis by blast
qed

lemma compaction_unseen_witness:
  "\<exists>e. parseAndAdapt (\<lambda>_. ''0'') ''now'' Devin (compactHookPayload (hook_payload ''PostCompaction'' [])) =
       Inr (Some (e, ''PostCompaction'')) \<and> he_eventPhase e = PhPostCompact \<and>
     getRunBaselineGeneration False (lb_runs (snd (lifecycleEventHandler (life_sample_env None []) Devin
       (hook_payload ''PostCompaction'' []) (life_sample_db (\<lambda>_. None))))) ''r1'' = 0"
proof -
  have s: "normalizeSessionId ''s'' = Inr ''s''" by code_simp
  have "\<exists>e. parseAndAdapt (\<lambda>_. ''0'') ''now'' Devin (compactHookPayload (hook_payload ''PostCompaction'' [])) =
      Inr (Some (e, ''PostCompaction'')) \<and> he_eventPhase e = PhPostCompact"
    by (simp add: compactHookPayload_def hook_payload_def parseAndAdapt_def payload_ok_def DevinHookPayloadSchema_def
        one_of_def as_string_def as_nonempty_def optional_strings_def optional_bools_def js_str_def event_name_def adaptDevin_def s
        phase_of_def DEVIN_PHASE_MAP_def extractFilePath_def bare_event_def)
  moreover have "''r1'' \<in> rn_id ` set (lb_runs (life_sample_db (\<lambda>_. None)))"
    by (simp add: life_sample_db_def sample_opened_def run_row_def sample_run_args_def)
  from compaction_unseen [OF _ this, of Devin False "life_sample_env None []" "hook_payload ''PostCompaction'' []"]
  have "getRunBaselineGeneration False (lb_runs (snd (lifecycleEventHandler (life_sample_env None []) Devin
       (hook_payload ''PostCompaction'' []) (life_sample_db (\<lambda>_. None))))) ''r1'' = 0"
    by (simp add: life_sample_db_def getRunBaselineGeneration_def first_row_def sample_opened_def run_row_def sample_run_args_def)
  ultimately show ?thesis by blast
qed

definition prompt_event :: "string \<Rightarrow> hook_event" where
  "prompt_event prompt = (bare_event ClaudeCode PhUserPrompt ''s'' ''user_prompt'' (Some (JObj [(''prompt'', JStr prompt)])) ''now'')\<lparr>he_cwd := Some ''/w''\<rparr>"

definition prompt_ctx :: "string \<Rightarrow> life_ctx" where
  "prompt_ctx prompt =
     \<lparr> lc_event = prompt_event prompt, lc_name = ''UserPromptSubmit'', lc_projectSlug = Some ''app'', lc_runId = Some ''r1'',
       lc_sessionStart = True, lc_capabilities = [] \<rparr>"

definition prompt_job :: "string \<Rightarrow> string \<Rightarrow> outbox_job" where
  "prompt_job i prompt =
     \<lparr> oj_id = i, oj_queue = ''run_event'',
       oj_payload = event_payload (life_sample_env None []) ''r1'' (prompt_ctx prompt) (default_verdict (prompt_ctx prompt)),
       oj_attempts = 1 \<rparr>"

lemma prompt_adapted:
  "parseAndAdapt (\<lambda>_. ''0'') ''now'' ClaudeCode (compactHookPayload (hook_payload ''UserPromptSubmit'' [(''prompt'', CHR ''x'' # p)])) =
     Inr (Some (prompt_event (CHR ''x'' # p), ''UserPromptSubmit''))"
proof -
  have s: "normalizeSessionId ''s'' = Inr ''s''" by code_simp
  show ?thesis
    by (simp add: compactHookPayload_def hook_payload_def parseAndAdapt_def payload_ok_def ClaudeCodeHookPayloadSchema_def
        one_of_def as_string_def as_nonempty_def optional_strings_def js_str_def event_name_def adaptClaudeCode_def s
        phase_of_def CLAUDE_PHASE_MAP_def extractFilePath_def bare_event_def prompt_event_def)
qed

lemma second_prompt_lost_witness:
  "\<exists>d'. dispatchOutboxJob (\<lambda>_. None) (\<lambda>_. []) (sample_dispatch_env 1) (prompt_job ''j1'' ''x: fix it'') empty_destination =
       (Inr Success, d') \<and> length (de_runEvents d') = 1 \<and>
     dispatchOutboxJob (\<lambda>_. None) (\<lambda>_. []) (sample_dispatch_env 2) (prompt_job ''j2'' ''x: delete it'') d' = (Inr Success, d')"
proof -
  have turn: "js_get (compactHookPayload (hook_payload ''UserPromptSubmit'' [(''prompt'', CHR ''x'' # p)])) ''tool_use_id'' = None" for p
    by (simp add: compactHookPayload_def hook_payload_def)
  have parsed: "parseAndAdapt (\<lambda>_. ''0'') ''now'' ClaudeCode (compactHookPayload (hook_payload ''UserPromptSubmit'' [(''prompt'', CHR ''x'' # p)])) =
      Inr (Some (lc_event (prompt_ctx (CHR ''x'' # p)), ''UserPromptSubmit''))" for p
    by (simp add: prompt_adapted prompt_ctx_def)
  have one: "\<exists>d'. dispatchOutboxJob (\<lambda>_. None) (\<lambda>_. []) (sample_dispatch_env 1) (prompt_job ''j1'' ''x: fix it'') empty_destination =
      (Inr Success, d') \<and> length (de_runEvents d') = 1"
  proof -
    obtain row where "parse_payload (\<lambda>_. None) (\<lambda>_. []) ''run_event'' (oj_payload (prompt_job ''j1'' ''x: fix it'')) =
        Inr (WriteRunEvent (PreResolved (Some ''r1'')) row)"
      using event_payload_parsed unfolding prompt_job_def by fastforce
    then show ?thesis
      by (simp add: dispatchOutboxJob_def perform_def prompt_job_def sample_dispatch_env_def empty_destination_def
          run_events.ins_fresh Let_def)
  qed
  then obtain d' where d': "dispatchOutboxJob (\<lambda>_. None) (\<lambda>_. []) (sample_dispatch_env 1) (prompt_job ''j1'' ''x: fix it'') empty_destination =
      (Inr Success, d')" "length (de_runEvents d') = 1" by blast
  have "dispatchOutboxJob (\<lambda>_. None) (\<lambda>_. []) (sample_dispatch_env 2) (prompt_job ''j2'' ''x: delete it'') d' = (Inr Success, d')"
    by (rule second_prompt_lost [OF _ parsed [of "'': fix it''"] turn [of "'': fix it''"] parsed [of "'': delete it''"] turn [of "'': delete it''"]
          _ _ _ _ _ d'(1)])
      (simp_all add: prompt_ctx_def prompt_event_def prompt_job_def sample_dispatch_env_def)
  with d' show ?thesis by blast
qed

section \<open>When the handler throws\<close>

lemma compact_nonempty: "map_of (compact_entries kvs) k \<noteq> Some (JStr [])"
proof -
  have "(k, JStr []) \<notin> set (compact_entries kvs)" by (induction kvs rule: compact_entries.induct) (auto simp: Let_def)
  then show ?thesis using map_of_SomeD by fastforce
qed

lemma adapted_subagent:
  assumes "parseAndAdapt ns stamp agent (compactHookPayload payload) = Inr (Some (e, name))"
  shows "he_subagentType e \<noteq> Some []" "name \<noteq> []"
proof -
  have "js_str (compactHookPayload payload) k \<noteq> Some []" for k
    using compact_nonempty [of payload k] by (auto simp: compactHookPayload_def js_str_def as_string_def split: option.splits js.splits)
  then show "he_subagentType e \<noteq> Some []"
    using assms by (cases agent)
      (auto simp: parseAndAdapt_def Let_def adaptClaudeCode_def adaptCodex_def adaptCursor_def adaptDevin_def adaptAntigravity_def
        bare_event_def split: sum.splits if_splits)
  have "list_all (\<lambda>g. [] \<notin> set (hook_names g)) [ClaudeCode, Codex, Cursor, Devin, Antigravity]" by code_simp
  then have "[] \<notin> set (hook_names agent)" by (cases agent) auto
  with adapted_name(3) [OF assms] show "name \<noteq> []" by auto
qed

text \<open>The handler throws only where the session id cannot be made safe or \<open>get_run_id\<close> throws: whatever was adapted
  can be recorded.\<close>

theorem adapted_event_recordable:
  assumes "lifecycleEventHandler env agent payload db = (Inl err, db')"
  shows "(\<exists>k. err = SessionIdThrew k) \<or> (\<exists>r. err = RunIdThrew r)"
proof (cases "parseAndAdapt (ve_numStr env) (ve_rawAt env) agent (compactHookPayload payload)")
  case (Inr res)
  then obtain e name where a: "parseAndAdapt (ve_numStr env) (ve_rawAt env) agent (compactHookPayload payload) = Inr (Some (e, name))"
    using assms by (cases res) (auto simp: lifecycleEventHandler_def)
  obtain r db1 where r: "resolveRunId env (config_slug env e) e db = (r, db1)" by fastforce
  show ?thesis
  proof (cases r)
    case (Inl x)
    then have "err = x" using assms a r by (simp add: lifecycleEventHandler_def Let_def)
    then show ?thesis using r Inl by (auto simp: resolveRunId_def split: option.splits prod.splits sum.splits run_id_answer.splits)
  next
    case (Inr runId)
    obtain c db2 where o: "orient env e name (config_slug env e) runId db1 = (c, db2)" by fastforce
    have "record_tool_name c \<noteq> []"
      using adapted_subagent [OF a] orient_ctx(1,2) [OF o] by (cases "he_subagentType e") (auto simp: record_tool_name_def Let_def)
    then have "\<exists>db3. record_stage env agent c v x = Inr db3" for v x
      using adapted_name(2) [OF a] orient_ctx(1) [OF o] by (simp add: record_stage_def record_run_event_def split: option.split)
    then have "fst (handle_event env agent c db2) \<noteq> Inl err"
      by (auto simp: handle_event_def Let_def split: prod.splits sum.splits) (metis sum.distinct(1))
    moreover have "lifecycleEventHandler env agent payload db = handle_event env agent c db2"
      by (rule handled [OF a r [unfolded Inr] o])
    ultimately show ?thesis using assms by (metis fst_conv)
  qed
qed (use assms in \<open>auto simp: lifecycleEventHandler_def\<close>)

end
