(* ===== verification/Spec2Isabelle.thy ===== *)
theory Spec2Isabelle
  imports Check_Policy Pack_Selection Tool_Registry Memory_Rollup Hook_Output Run_Lifecycle Policy_Teaching
    Lifecycle_Event
begin

text \<open>
  Coodra records and governs what coding agents do: agent hooks and MCP tool calls ask a policy engine
  before a tool runs, every decision and event is written to a local database through a durable
  outbox, and the knowledge that sessions produce is kept for later ones.  This development models the
  governance path and the outbox, from the tool call to the row in the audit table.

  \<^bold>\<open>Parts and theories.\<close>  Sources are relative to the repository's root.

  \<^item> \<open>Coodra_Prelude\<close>: JavaScript values, string operations, query order and limits, rendered
    integers, first-match search.  \<open>Coodra_Interfaces\<close>: the three contracts components rely on, as
    locales: an insert that ignores conflicts (\<open>keyed_table\<close>), a destination that absorbs redelivery
    (\<open>redelivery_sink\<close>) and a read-through cache with a time to live (\<open>loading_cache\<close>).
  \<^item> \<open>Coodra_Keys\<close>: the keys that make writes idempotent, \<open>packages/shared/src/idempotency.ts\<close> and the
    key and fingerprint functions of \<open>packages/policy/src/policy.ts\<close> (FNV-1a on 32-bit words).
  \<^item> \<open>Policy_Engine\<close>: compiled rules, exceptions and grants and their matching; \<open>Policy_Client\<close>: the
    queries, the revision string, the cache and \<open>evaluate\<close>; \<open>Policy_Audit\<close>: the \<open>policy_decisions\<close>
    table.  All three are \<open>packages/policy/src/policy.ts\<close>.
  \<^item> \<open>Policy_Admin\<close>: the operations on the policy tables, \<open>packages/db/src/policies.ts\<close>, with the versions
    they publish; \<open>Audit_Chain\<close>: the hash-chained log they leave, \<open>audit-events.ts\<close> beside it;
    \<open>Policy_Freshness\<close> and \<open>Policy_Upkeep\<close>: these operations and the policy client together;
    \<open>Default_Policy\<close>: the policy a project starts with, \<open>ensure-default-policy.ts\<close>.
  \<^item> \<open>Kill_Switch\<close>: \<open>packages/db/src/kill-switches.ts\<close> and
    \<open>packages/lifecycle/src/kill-switch-evaluator.ts\<close>.
  \<^item> \<open>Runs\<close>: \<open>destinations.ts\<close>, \<open>lookup-run.ts\<close> and \<open>run-capabilities.ts\<close> of \<open>packages/db/src\<close>.
  \<^item> \<open>Project_Registry\<close>: \<open>ensure-project.ts\<close> and \<open>lookup-project.ts\<close> of \<open>packages/db/src\<close>;
    \<open>Run_Lifecycle\<close>: \<open>runs-admin.ts\<close> beside them, the cleanups and the base commit of
    \<open>packages/lifecycle/src\<close> and \<open>apps/mcp-server/src/tools/get-run-id\<close>.
  \<^item> \<open>Outbox\<close>: \<open>schedule-durable-write.ts\<close> and \<open>schedule-audit-write-with-sync.ts\<close> of
    \<open>packages/db/src\<close>, \<open>worker.ts\<close> and \<open>backoff.ts\<close> of \<open>packages/cli/src/lib/outbox\<close>;
    \<open>Dispatcher\<close>: \<open>dispatcher.ts\<close> beside them.
  \<^item> \<open>Check_Policy\<close>: the \<open>check_policy\<close> tool of \<open>apps/mcp-server/src/tools/check-policy\<close>, which joins the
    kill switches, the policy client and the outbox.
  \<^item> \<open>Context_Pack\<close>: the store of \<open>apps/mcp-server/src/lib/context-pack.ts\<close>, where sessions leave what they
    learned; \<open>Pack_Selection\<close>: which of it the next session is started with.
  \<^item> \<open>Tool_Registry\<close>: the framework every MCP tool call goes through, \<open>apps/mcp-server/src/framework\<close>;
    \<open>Run_Binding\<close>: which run a connection serves, \<open>apps/mcp-server/src/lib/run-binding.ts\<close>.
  \<^item> \<open>Memory_Access\<close>: \<open>memory-access-recorder.ts\<close> beside it, with \<open>packages/db/src/memory-freshness.ts\<close>;
    \<open>Memory_Rollup\<close>: the pass over that log, \<open>packages/lifecycle/src/memory-rollup-worker.ts\<close>.
  \<^item> \<open>Hook_Event\<close>: the hook payloads of the five agents and the event they become,
    \<open>packages/shared/src/hooks\<close>; \<open>Hook_Output\<close>: the answer each agent gets,
    \<open>apps/mcp-server/src/tools/lifecycle-event/handler.ts\<close>; \<open>Lifecycle_Event\<close>: what happens between the
    two, the same file with \<open>run-recorder.ts\<close> of \<open>apps/mcp-server/src/lib\<close>.
  \<^item> \<open>Decision_Store\<close>: the decisions agents record, \<open>record-decision/handler.ts\<close> of
    \<open>apps/mcp-server/src/tools\<close> with \<open>decision-targets.ts\<close> of \<open>packages/shared/src\<close>; \<open>Decision_Query\<close>: the
    tools \<open>query-decisions\<close> and \<open>query-decisions-by-file\<close> with the code graph's freshness;
    \<open>Policy_Teaching\<close>: the decisions behind a denial, \<open>apps/mcp-server/src/lib/policy-teaching.ts\<close>.
  \<^item> This theory: what spans the outbox and the destinations.

  \<^bold>\<open>How the model reads.\<close>  A table is the list of its rows; a statement is a function on it, atomic as
  the database makes it.  A handler is a function of its inputs, the states it keeps (caches, tables)
  and an environment that supplies what the code gets from outside: clock readings, minted ids, and
  whether a database statement throws and with what message.  Errors are values: \<open>Inl\<close> of a sum, or a
  constructor of the outcome type.  The names are those of the code.  SQLite statements are modelled;
  where the Postgres branch is the same query the definition stands for both.

  \<^bold>\<open>What runs at once.\<close>  Workers, crashes and the clock interleave freely in the outbox, opening a run races with
  another process, calls of \<open>ensureProject\<close> interleave statement by statement, and a call of \<open>record_decision\<close> may
  stop between its writes.  Everywhere else one call is one step: awaits within it are collapsed, and
  what two such calls do at once is outside the model.

  \<^bold>\<open>Parameters.\<close>  Third-party code is an argument: the glob matcher \<open>picomatch\<close> (\<open>pm\<close>),
  \<open>JSON.parse\<close> and \<open>JSON.stringify\<close> on stored text, number rendering, \<open>Date.parse\<close>.  The
  timeout-and-breaker fuse \<open>cockatiel\<close> appears as the error it raises for a read, if any.

  \<^bold>\<open>What is shown.\<close>
  \<^item> Policy: the first matching rule decides, it is one of least priority number, and each of its
    conditions holds; a denial always has a rule, an exception or a grant behind it; a grant never
    lifts a denial; a fault denies exactly when the warm cache holds a deny-on-error rule that denies,
    and allows otherwise; what is served was loaded within the cache time and under the revision
    read.  Kill switches: the oldest active covering switch is found, and a hard one denies the call
    whatever the policy says.
  \<^item> Keys and audit: invocations with different turn ids never share an audit key; a retry keeps the
    first row; an ask is settled once; the sync job looks up exactly the key the audit row is filed
    under.
  \<^item> Outbox: a step relation with any number of workers, crashes, leases and time.  No acknowledged job
    is lost; while workers settle within their lease no job has two holders and a dead job stays dead;
    one run of the worker refines the steps; a job that keeps failing dies after exactly the allowed
    attempts on the published schedule; a queue of due jobs drains in order; the timer chain
    survives every interleaving of start, kick, tick and run until stop.
  \<^item> Destinations: the handler is total and changes nothing unless it reports success; keys stay unique
    under any deliveries; on the insert queues redelivery changes nothing, so that a crash between the
    write and the delete costs nothing; \<open>session_close\<close> is the exception.

  \<^item> Context packs: what an agent wrote is never rewritten, a retried save is a hit on the same row, an
    excerpt splits no character; a session starts with a bounded, duplicate-free selection that
    starves no Work Pack and no run while the budget lasts.

  \<^item> Tools and memory: a handler runs only behind a policy check that did not deny; refused calls leave no
    record; the run binding remembers the last run of up to 512 sessions; a pull is logged row by row with
    an attribution that rests on evidence; a completed day's totals are final and count what is pruned.

  \<^item> Policy administration: every policy has one active version, the newest, which is the hash of the
    policy as it stands; every edit reaches the policy client at its next evaluation; the newest hash
    of an organisation's audit log fixes its whole history while no two events share a second.  A
    project without policies gets the 59 default rules, which decide a write by its path; repairing
    them again changes nothing.

  \<^item> Projects and runs: under calls that follow one another a project keeps its id, slug, name, directory and real
    organisation, under calls that race its id, slug and name, some directory and some real organisation; it is
    born with a policy; a run is in progress exactly when it has no end and is never lost; the cleanups end
    exactly the abandoned runs; a session is given the same run however often it asks and whatever
    happened to the run in between.
  \<^item> Decisions: the loop that looks for a cycle decides reachability, supersession stays free of cycles
    and every decision is in force or replaced, in some steps, by one that is; what was recorded is never
    changed or lost, a retry names the first row; no edge is without its entry in the impact column, also
    when calls are broken off between their writes, and the two agree when none is; a decision is found
    under the file it names, listed only for what it names, and hidden once it is superseded; a taught
    reason keeps its budget, and supersession leaves teaching as it was.
  \<^item> Hooks: what an agent sends becomes an event of a known phase with a safe session id; only a
    denial ever stops an agent; a pause stops all five of them once the kill switches are read; Coodra's own tools are neither judged nor
    recorded; the compaction of a run is held up at most once, whatever events arrive.

  Where the code is weaker than its comments say, the theorem says what the code does: a late settle can
  give one job two holders within their leases, a redelivered close moves the end of a run, a kick
  before start is not a no-op, an answer flagged fail-open may be a denial, a second change within one
  second leaves the policy revision as it was, an exception's target is not checked on a call that no
  rule matches, a default rule edited in one way makes every later repair fail, pulls after a compaction are credited to the first generation of the run,
  a project that solo \<open>get_run_id\<close> registers can never be promoted to a team, two racing calls
  of \<open>ensureProject\<close> can replace a directory or move a project between organisations, an impact entry that is not in normal form
  is missed by its own text and by its normal form, superseded decisions are still taught, a denial that fails closed does not stop
  three of the five agents, Devin's compactions go unnoticed, and of the prompts of a session one is on record.

  \<^bold>\<open>Bounds and fuel.\<close>  No definition needs fuel: loops run over lists, the search of the supersession graph
  ends because every node is expanded once.  Strings are lists of code
  units below 256.  Times are unbounded integers, milliseconds or (in table columns) seconds.
  Attempt counts are unbounded integers; the retry schedule has five delays, enough for caps up to six.

  \<^bold>\<open>Not modelled.\<close>  The web application, the command-line interface and its terminal views, the agent
  hook scripts, the sync daemon, work packs, run diffs, wikis and the
  other MCP tools (their table reads and formatting), the texts a session is given beside the contract.  Database schemas, migrations, logging and process management are outside as well.
\<close>

section \<open>From the outbox to the destination\<close>

lemma order_by_map: "(\<And>x. k (f x) = k x) \<Longrightarrow> order_by k (map f xs) = map f (order_by k xs)"
  by (simp add: order_by_def sort_key_map)

text \<open>The oldest row is claimed whenever it can be.\<close>

lemma claim_oldest:
  assumes "order_by jb_runAfter t = j # js" and "claimable cfg now j"
  shows "claim cfg now t =
     (Some \<lparr> cl_id = jb_id j, cl_queue = jb_queue j, cl_payload = jb_payload j, cl_attempts = jb_attempts j + 1 \<rparr>,
      update_job (jb_id j) (pick now) t)"
proof -
  have "order_by jb_runAfter (filter (claimable cfg now) t) = filter (claimable cfg now) (j # js)"
    using assms(1) by (simp add: order_by_def filter_sort [symmetric])
  then show ?thesis using assms(2) by (simp add: claim_def first_row_def)
qed

lemma claimable_expired:
  assumes "claimable cfg t1 j" and "t1 + wc_leaseMs cfg + 1000 \<le> t2"
  shows "claimable cfg t2 (pick t1 j)"
proof -
  have "(t1 + 1000) div 1000 \<le> (t2 - wc_leaseMs cfg) div 1000"
    using assms(2) by (intro zdiv_mono1) simp_all
  then show ?thesis using assms(1) by (cases "wc_queueFilter cfg") (simp_all add: claimable_def pick_def seconds_def)
qed

lemma dispatch_again:
  assumes "dispatchOutboxJob date_ms vshow env1 job d = (Inr Success, d1)"
    and "oj_queue job \<noteq> ''session_close''" and "dn_fault env2 = None"
    and "oj_queue job' = oj_queue job" and "oj_payload job' = oj_payload job"
  shows "dispatchOutboxJob date_ms vshow env2 job' d1 = (Inr Success, d1)"
proof -
  obtain req where p: "parse_payload date_ms vshow (oj_queue job) (oj_payload job) = Inr req"
    and w: "perform env1 req d = Inr d1"
    using assms(1) by (auto simp: dispatchOutboxJob_def split: sum.splits)
  have "perform env2 req d1 = Inr d1"
    by (rule perform_absorbed [OF perform_present [OF w] parse_closes [OF p assms(2)] assms(3)])
  with p assms(4,5) show ?thesis by (simp add: dispatchOutboxJob_def)
qed

text \<open>C4: A worker that dies after the destination write and before the row is deleted costs nothing, for every queue but
  \<open>session_close\<close> (a redelivered close moves the end of a run): in any table, under any queue filter, when the job is
  the first one in the order of claims, its lease has run out for a second, nothing else wrote in between, and neither the
  statements of the next run nor its destination throw, then that run claims it again, its second delivery finds the
  row in place, the job alone is deleted, and the destination is what the one write made it.\<close>

theorem crash_between_write_and_delete:
  assumes table: "distinct (map jb_id t)" "order_by jb_runAfter t = j # js"
    and job: "claimable cfg (re_claimAt e1) j" "jb_queue j \<noteq> ''session_close''" "jparse (jb_payload j) = Inr v"
    and first: "\<not> re_claimThrows e1" "re_settleThrows e1"
      "dispatchOutboxJob date_ms vshow env1
         \<lparr> oj_id = jb_id j, oj_queue = jb_queue j, oj_payload = v, oj_attempts = jb_attempts j + 1 \<rparr> d =
       (Inr Success, d1)"
    and second: "\<not> re_claimThrows e2" "\<not> re_settleThrows e2" "dn_fault env2 = None"
      "re_claimAt e1 + wc_leaseMs cfg + 1000 \<le> re_claimAt e2"
  shows "\<exists>t1. runOne cfg jparse (dispatchOutboxJob date_ms vshow env1) e1 t d = (t1, d1) \<and>
           jb_id ` set t1 = jb_id ` set t \<and>
           runOne cfg jparse (dispatchOutboxJob date_ms vshow env2) e2 t1 d1 = (filter (\<lambda>x. jb_id x \<noteq> jb_id j) t, d1)"
proof -
  let ?pick = "\<lambda>x. if jb_id x = jb_id j then pick (re_claimAt e1) x else x"
  let ?t1 = "update_job (jb_id j) (pick (re_claimAt e1)) t"
  let ?row = "pick (re_claimAt e1) j"
  have decoded: "decode cfg jparse \<lparr> cl_id = jb_id j, cl_queue = jb_queue j, cl_payload = jb_payload j, cl_attempts = n \<rparr> =
      Inr \<lparr> oj_id = jb_id j, oj_queue = jb_queue j, oj_payload = v, oj_attempts = n \<rparr>" for n
    using job by (auto simp: decode_def claimable_def split: option.split)
  have r1: "runOne cfg jparse (dispatchOutboxJob date_ms vshow env1) e1 t d = (?t1, d1)"
    using claim_oldest [OF table(2) job(1)] decoded first by (simp add: runOne_def)
  have "order_by jb_runAfter ?t1 = map ?pick (order_by jb_runAfter t)"
    unfolding update_job_def by (rule order_by_map) (simp add: pick_def)
  then have o: "order_by jb_runAfter ?t1 = ?row # map ?pick js" by (simp add: table(2))
  note c2 = claim_oldest [OF o claimable_expired [OF job(1) second(4)]]
  have again: "dispatchOutboxJob date_ms vshow env2
      \<lparr> oj_id = jb_id j, oj_queue = jb_queue j, oj_payload = v, oj_attempts = 2 + jb_attempts j \<rparr> d1 =
      (Inr Success, d1)"
    by (rule dispatch_again [OF first(3)]) (simp_all add: job second(3))
  have gone: "deleteJob (jb_id j) (update_job (jb_id j) (pick (re_claimAt e2)) ?t1) = filter (\<lambda>x. jb_id x \<noteq> jb_id j) t"
    by (induction t) (auto simp: deleteJob_def update_job_def pick_def)
  have "runOne cfg jparse (dispatchOutboxJob date_ms vshow env2) e2 ?t1 d1 = (filter (\<lambda>x. jb_id x \<noteq> jb_id j) t, d1)"
    using c2 second(1,2) decoded [of "2 + jb_attempts j"] again gone by (simp add: runOne_def settle_def pick_def)
  moreover have ids: "map jb_id ?t1 = map jb_id t" by (rule update_job_ids) (simp add: pick_def)
  have "jb_id ` set ?t1 = jb_id ` set t" using arg_cong [OF ids, of set] by (simp only: set_map)
  ultimately show ?thesis using r1 by blast
qed

lemma crash_between_write_and_delete_witness:
  "\<exists>t1 d1. runOne default_worker (\<lambda>_. Inr (oj_payload (sample_open_job ''r1'')))
       (dispatchOutboxJob (\<lambda>_. None) (\<lambda>_. []) (sample_dispatch_env 1)) ((run_at 5000)\<lparr>re_settleThrows := True\<rparr>)
       [(plain_job ''job'' 5)\<lparr>jb_queue := ''session_open''\<rparr>] empty_destination = (t1, d1) \<and>
     runOne default_worker (\<lambda>_. Inr (oj_payload (sample_open_job ''r1'')))
       (dispatchOutboxJob (\<lambda>_. None) (\<lambda>_. []) (sample_dispatch_env 2)) (run_at 50000) t1 d1 = ([], d1)"
proof -
  let ?j = "(plain_job ''job'' 5)\<lparr>jb_queue := ''session_open''\<rparr>"
  let ?v = "oj_payload (sample_open_job ''r1'')"
  obtain d1 where d1: "dispatchOutboxJob (\<lambda>_. None) (\<lambda>_. []) (sample_dispatch_env 1)
      \<lparr> oj_id = jb_id ?j, oj_queue = jb_queue ?j, oj_payload = ?v, oj_attempts = jb_attempts ?j + 1 \<rparr>
      empty_destination = (Inr Success, d1)"
    by (simp add: dispatchOutboxJob_def parse_payload_def parse_session_open_def sample_open_job_def
        plain_job_def as_string_def nullable_string_def as_nonempty_def perform_def Let_def insertRun_def
        sample_dispatch_env_def empty_destination_def)
  have "\<exists>t1. runOne default_worker (\<lambda>_. Inr ?v) (dispatchOutboxJob (\<lambda>_. None) (\<lambda>_. []) (sample_dispatch_env 1))
        ((run_at 5000)\<lparr>re_settleThrows := True\<rparr>) [?j] empty_destination = (t1, d1) \<and> jb_id ` set t1 = jb_id ` set [?j] \<and>
      runOne default_worker (\<lambda>_. Inr ?v) (dispatchOutboxJob (\<lambda>_. None) (\<lambda>_. []) (sample_dispatch_env 2))
        (run_at 50000) t1 d1 = (filter (\<lambda>x. jb_id x \<noteq> jb_id ?j) [?j], d1)"
    by (rule crash_between_write_and_delete [OF _ _ _ _ _ _ _ d1, where js = "[]"])
      (simp_all add: plain_job_def run_at_def seconds_def default_worker_def sample_dispatch_env_def claimable_def order_by_def)
  then show ?thesis by auto
qed

end
